(* ===== verification/Raft_Prelude.thy ===== *)
theory Raft_Prelude
  imports Main "HOL-Library.Word"
begin

text \<open>
  The types and the generic facts the components share.

  \<^item> \<open>u8\<close>, \<open>u32\<close>, \<open>u64\<close> are the C types \<open>uint8_t\<close>, \<open>uint32_t\<close>, \<open>uint64_t\<close>, kept at
    their width: their arithmetic wraps.
  \<^item> A C \<open>int\<close> is an HOL \<open>int\<close>. The casts between the two are written where the code has
    them: \<open>(int)u\<close> is \<open>int_of_u32\<close> (two's complement), \<open>(uint32_t)i\<close> is \<open>u32_of_int\<close>.
    Signed overflow is undefined in C; every \<open>int\<close> of the model that the code computes stays
    in the range of a log index (below \<open>2 ^ 31\<close>) wherever a theorem speaks of it.
  \<^item> The theorem collections \<open>buffer\<close> (reads after writes on byte buffers), \<open>cast\<close>
    (conversions that keep the value) and \<open>frame\<close> (what an operation leaves alone).
\<close>

unbundle bit_operations_syntax

named_theorems buffer \<open>byte buffers: lengths, reads after writes\<close>
named_theorems cast \<open>C conversions that keep the value\<close>
named_theorems frame \<open>fields an operation does not change\<close>

type_synonym u8 = "8 word"
type_synonym u32 = "32 word"
type_synonym u64 = "64 word"

abbreviation int_of_u32 :: "u32 \<Rightarrow> int" where
  "int_of_u32 u \<equiv> sint u"

abbreviation u32_of_int :: "int \<Rightarrow> u32" where
  "u32_of_int i \<equiv> word_of_int i"

abbreviation INT32_MAX :: u32 where
  "INT32_MAX \<equiv> 0x7FFFFFFF"

abbreviation UINT32_MAX :: u32 where
  "UINT32_MAX \<equiv> 0xFFFFFFFF"

section \<open>Conversions\<close>

lemma sint_u32_of_int [cast]:
  "- (2 ^ 31) \<le> i \<Longrightarrow> i < 2 ^ 31 \<Longrightarrow> int_of_u32 (u32_of_int i) = i"
  by (simp add: signed_of_int signed_take_bit_int_eq_self)

lemma u32_of_sint [simp]: "u32_of_int (int_of_u32 u) = u"
  by simp

lemma sint_eq_uint_small [cast]: "uint (u :: u32) < 2 ^ 31 \<Longrightarrow> sint u = uint u"
proof -
  assume "uint u < 2 ^ 31"
  then have "signed_take_bit 31 (uint u) = uint u"
    by (intro signed_take_bit_int_eq_self) (auto intro: order_trans [of _ 0])
  then show ?thesis by (simp add: sint_uint)
qed

lemma sint_nonneg_iff: "0 \<le> sint (u :: u32) \<longleftrightarrow> uint u < 2 ^ 31"
proof
  assume "0 \<le> sint u"
  show "uint u < 2 ^ 31"
  proof (rule ccontr)
    assume "\<not> uint u < 2 ^ 31"
    moreover have "uint u < 2 ^ 32" using uint_lt2p [of u] by simp
    ultimately have "uint u div 2 ^ 31 = 1"
      by (intro int_div_pos_eq [where r = "uint u - 2 ^ 31"]) auto
    then have "bit (uint u) 31" by (simp add: bit_iff_odd)
    then have "sint u < 0" by (simp add: sint_uint)
    with \<open>0 \<le> sint u\<close> show False by simp
  qed
next
  assume "uint u < 2 ^ 31"
  then have "sint u = uint u" by (rule sint_eq_uint_small)
  then show "0 \<le> sint u" by simp
qed

lemma sint_nonneg_unat: "0 \<le> sint (u :: u32) \<longleftrightarrow> unat u < 2 ^ 31"
  unfolding sint_nonneg_iff uint_nat by (metis of_nat_less_iff of_nat_numeral of_nat_power)

lemma sint_nonneg_eq_uint: "0 \<le> sint (u :: u32) \<Longrightarrow> sint u = uint u"
  by (simp add: sint_nonneg_iff sint_eq_uint_small)

lemma uint_u32_of_int [cast]: "0 \<le> i \<Longrightarrow> i < 2 ^ 32 \<Longrightarrow> uint (u32_of_int i) = i"
  by (simp add: uint_word_of_int)

lemma unat_u32_of_int [cast]: "0 \<le> i \<Longrightarrow> i < 2 ^ 32 \<Longrightarrow> unat (u32_of_int i) = nat i"
  by (metis uint_u32_of_int unat_eq_nat_uint)

lemma u32_less_of_int:
  "0 \<le> i \<Longrightarrow> i < 2 ^ 32 \<Longrightarrow> u < u32_of_int i \<longleftrightarrow> uint u < i"
  by (simp add: word_less_def uint_u32_of_int)

lemma u32_le_of_int:
  "0 \<le> i \<Longrightarrow> i < 2 ^ 32 \<Longrightarrow> u \<le> u32_of_int i \<longleftrightarrow> uint u \<le> i"
  by (simp add: word_le_def uint_u32_of_int)

lemma u32_of_int_eq_iff:
  "0 \<le> i \<Longrightarrow> i < 2 ^ 32 \<Longrightarrow> u32_of_int i = u \<longleftrightarrow> i = uint u"
  by (simp add: word_uint_eq_iff uint_u32_of_int)

lemma uint_below: "unat (u :: u32) < n \<Longrightarrow> uint u < int n"
  by (metis of_nat_less_iff uint_nat)

lemma sint_eq_small [cast]: "unat (u :: u32) < 2 ^ 31 \<Longrightarrow> sint u = uint u"
  using uint_below [of u "2 ^ 31"] sint_eq_uint_small [of u] by simp

lemma unat_suc_below: "unat (u :: u32) < 2 ^ 31 \<Longrightarrow> unat (u + 1) = unat u + 1"
  by (simp add: unat_word_ariths)

lemma nat_times_16: "nat (int k * 16) = 16 * k"
  by simp

lemma nat_uint_times_16: "nat (uint (u :: u32) * 16) = 16 * unat u"
  by (metis nat_times_16 uint_nat)

lemma nat_min_int: "nat (min a b) = min (nat a) (nat b)"
  by arith

lemma sint_less_2p31: "sint (u :: u32) < 2 ^ 31"
  using sint_lt [of u] by simp

lemma uint_suc_nonneg:
  assumes "0 \<le> sint (u :: u32)"
  shows "uint (u + 1) = uint u + 1"
proof -
  have "uint u < 2 ^ 31" using assms by (simp add: sint_nonneg_iff)
  then show ?thesis by (simp add: uint_word_ariths)
qed

lemma unat_ucast_u64 [cast]: "unat (ucast (x :: u32) :: u64) = unat x"
proof -
  have "unat x < 2 ^ 64"
    using unsigned_less [of x, where 'a = nat] by simp
  then show ?thesis by (simp add: unsigned_ucast_eq take_bit_nat_eq_self)
qed

section \<open>Lists\<close>

lemma nth_update_other [buffer]: "i \<noteq> j \<Longrightarrow> xs[i := x] ! j = xs ! j"
  by simp

lemma take_update_beyond [buffer]: "n \<le> i \<Longrightarrow> take n (xs[i := x]) = take n xs"
  by simp

end
