(* ===== verification/Byte_Order.thy ===== *)
theory Byte_Order
  imports Raft_Prelude
begin

text \<open>
  \<open>src/util.h\<close>: the big-endian 32-bit access the wire format and the log file use. A pointer
  into a buffer is the pair of the buffer and an offset; the buffers of the program are the
  \<open>MAX_PAYLOAD\<close> bytes of a packet and the 16 bytes of a packed log entry.

  The lemmas say that a write is read back, that a read elsewhere does not see it, and that
  the length of the buffer never changes.
\<close>

section \<open>Writing and reading 32 bits\<close>

definition write_u32_be :: "u8 list \<Rightarrow> nat \<Rightarrow> u32 \<Rightarrow> u8 list" where
  "write_u32_be buf p val =
     buf[p := ucast (drop_bit 24 val),
         p + 1 := ucast (drop_bit 16 val),
         p + 2 := ucast (drop_bit 8 val),
         p + 3 := ucast (drop_bit 0 val)]"

definition read_u32_be :: "u8 list \<Rightarrow> nat \<Rightarrow> u32" where
  "read_u32_be buf p =
     push_bit 24 (ucast (buf ! p)) OR
     push_bit 16 (ucast (buf ! (p + 1))) OR
     push_bit 8 (ucast (buf ! (p + 2))) OR
     push_bit 0 (ucast (buf ! (p + 3)))"

lemma bytes_glue:
  "push_bit 24 (ucast (ucast (drop_bit 24 v) :: u8)) OR
   push_bit 16 (ucast (ucast (drop_bit 16 v) :: u8)) OR
   push_bit 8 (ucast (ucast (drop_bit 8 v) :: u8)) OR
   (ucast (ucast v :: u8)) = (v :: u32)"
proof (rule bit_word_eqI)
  fix n assume "n < LENGTH(32)"
  then show "bit (push_bit 24 (ucast (ucast (drop_bit 24 v) :: u8)) OR
     push_bit 16 (ucast (ucast (drop_bit 16 v) :: u8)) OR
     push_bit 8 (ucast (ucast (drop_bit 8 v) :: u8)) OR
     (ucast (ucast v :: u8) :: u32)) n = bit v n"
    by (cases "n < 8"; cases "n < 16"; cases "n < 24") (auto simp: bit_simps)
qed

lemma length_write_u32_be [simp]: "length (write_u32_be buf p v) = length buf"
  by (simp add: write_u32_be_def)

lemma read_write_u32_be [buffer]:
  "p + 4 \<le> length buf \<Longrightarrow> read_u32_be (write_u32_be buf p v) p = v"
  by (simp add: read_u32_be_def write_u32_be_def bytes_glue)

lemma read_write_u32_be_other [buffer]:
  "p + 4 \<le> q \<or> q + 4 \<le> p \<Longrightarrow> read_u32_be (write_u32_be buf q v) p = read_u32_be buf p"
  by (auto simp: read_u32_be_def write_u32_be_def)

lemma nth_write_u32_be_other [buffer]:
  "i < p \<or> p + 4 \<le> i \<Longrightarrow> write_u32_be buf p v ! i = buf ! i"
  by (auto simp: write_u32_be_def)

lemma read_update_other [buffer]:
  "i < p \<or> p + 4 \<le> i \<Longrightarrow> read_u32_be (buf[i := x]) p = read_u32_be buf p"
  by (auto simp: read_u32_be_def)

lemma take_write_u32_be [buffer]:
  "n \<le> p \<Longrightarrow> take n (write_u32_be buf p v) = take n buf"
  by (simp add: write_u32_be_def)

section \<open>Cursors\<close>

text \<open>
  \<open>write_u32_be(p, v); p += 4;\<close> and its reading counterpart: the buffer and the moving
  pointer as one cursor.
\<close>

type_synonym cursor = "u8 list \<times> nat"

definition put_u32 :: "u32 \<Rightarrow> cursor \<Rightarrow> cursor" where
  "put_u32 v c = (write_u32_be (fst c) (snd c) v, snd c + 4)"

definition put_u8 :: "u8 \<Rightarrow> cursor \<Rightarrow> cursor" where
  "put_u8 v c = ((fst c)[snd c := v], snd c + 1)"

definition get_u32 :: "cursor \<Rightarrow> u32 \<times> cursor" where
  "get_u32 c = (read_u32_be (fst c) (snd c), (fst c, snd c + 4))"

definition get_u8 :: "cursor \<Rightarrow> u8 \<times> cursor" where
  "get_u8 c = (fst c ! snd c, (fst c, snd c + 1))"

lemmas cursor_defs = put_u32_def put_u8_def get_u32_def get_u8_def

end
