(* ===== verification/Log_Entry.thy ===== *)
theory Log_Entry
  imports Byte_Order
begin

text \<open>
  \<open>src/log-entry.h\<close> and \<open>src/log-entry.c\<close>: the log entry, and its packed form of 16
  bytes, which both the log file and the AppendEntries packet use. The loops that pack and
  unpack the entries of a packet (\<open>src/rpc.c\<close>) are here with their round trip.
\<close>

section \<open>The entry\<close>

record log_entry_t =
  le_term :: u32
  le_client_id :: u32
  le_cmd_seqno :: u32
  le_cmd :: u32

definition log_entry_pack :: "log_entry_t \<Rightarrow> cursor \<Rightarrow> cursor" where
  "log_entry_pack entry c =
     (let c = put_u32 (le_term entry) c;
          c = put_u32 (le_client_id entry) c;
          c = put_u32 (le_cmd_seqno entry) c;
          c = put_u32 (le_cmd entry) c
      in c)"

definition log_entry_unpack :: "cursor \<Rightarrow> log_entry_t \<times> cursor" where
  "log_entry_unpack c =
     (let (t, c) = get_u32 c;
          (cid, c) = get_u32 c;
          (sn, c) = get_u32 c;
          (cmd, c) = get_u32 c
      in (\<lparr>le_term = t, le_client_id = cid, le_cmd_seqno = sn, le_cmd = cmd\<rparr>, c))"

definition log_entry_packed_size :: u32 where
  "log_entry_packed_size = 16"

text \<open>
  \<open>apply_log_entry_to_sm\<close> and \<open>apply_log_entries_to_sm\<close>: the state machine of
  \<open>log-entry.c\<close> prints the command and always returns 0. Nothing in the node calls them;
  the loop is here with its result, the commands it prints and its return code.
\<close>

definition apply_log_entry_to_sm :: "log_entry_t \<Rightarrow> u32 list \<Rightarrow> int \<times> u32 list" where
  "apply_log_entry_to_sm entry printed = (0, printed @ [le_cmd entry])"

fun apply_log_entries_to_sm :: "log_entry_t list \<Rightarrow> u32 list \<Rightarrow> int \<times> u32 list" where
  "apply_log_entries_to_sm [] printed = (0, printed)"
| "apply_log_entries_to_sm (entry # entries) printed =
     (let (rc, printed) = apply_log_entry_to_sm entry printed
      in if rc \<noteq> 0 then (-1, printed) else apply_log_entries_to_sm entries printed)"

lemma apply_log_entries_to_sm_all:
  "apply_log_entries_to_sm entries printed = (0, printed @ map le_cmd entries)"
  by (induction entries arbitrary: printed) (auto simp: apply_log_entry_to_sm_def)

section \<open>Round trip of one entry\<close>

lemma log_entry_pack_snd [simp]: "snd (log_entry_pack e c) = snd c + 16"
  by (simp add: log_entry_pack_def cursor_defs Let_def)

lemma log_entry_pack_length [simp]: "length (fst (log_entry_pack e c)) = length (fst c)"
  by (simp add: log_entry_pack_def cursor_defs Let_def)

lemma log_entry_unpack_cursor [simp]: "snd (log_entry_unpack c) = (fst c, snd c + 16)"
  by (simp add: log_entry_unpack_def cursor_defs Let_def)

lemma read_log_entry_pack_other [buffer]:
  "q + 4 \<le> snd c \<Longrightarrow> read_u32_be (fst (log_entry_pack e c)) q = read_u32_be (fst c) q"
  by (simp add: log_entry_pack_def cursor_defs Let_def buffer)

lemma log_entry_unpack_reads:
  "fst (log_entry_unpack (buf, p)) =
     \<lparr>le_term = read_u32_be buf p, le_client_id = read_u32_be buf (p + 4),
      le_cmd_seqno = read_u32_be buf (p + 8), le_cmd = read_u32_be buf (p + 12)\<rparr>"
  by (simp add: log_entry_unpack_def cursor_defs Let_def ac_simps)

lemma log_entry_unpack_pack:
  assumes "snd c + 16 \<le> length (fst c)"
  shows "fst (log_entry_unpack (fst (log_entry_pack e c), snd c)) = e"
  using assms
  by (cases e) (simp add: log_entry_unpack_reads log_entry_pack_def cursor_defs Let_def buffer ac_simps)

section \<open>The packed form as bytes\<close>

text \<open>
  The 16 bytes of an entry on their own: what \<open>f_log_write\<close> hands to \<open>write\<close> and
  \<open>f_log_read\<close> gets from \<open>read\<close>, in its 16-byte stack buffer.
\<close>

definition entry_bytes :: "log_entry_t \<Rightarrow> u8 list" where
  "entry_bytes e = fst (log_entry_pack e (replicate 16 0, 0))"

definition entry_of_bytes :: "u8 list \<Rightarrow> log_entry_t" where
  "entry_of_bytes bs = fst (log_entry_unpack (bs, 0))"

lemma length_entry_bytes [simp]: "length (entry_bytes e) = 16"
  by (simp add: entry_bytes_def)

lemma entry_of_bytes_entry_bytes [simp]: "entry_of_bytes (entry_bytes e) = e"
  using log_entry_unpack_pack [of "(replicate 16 0, 0)" e]
  by (simp add: entry_bytes_def entry_of_bytes_def)

section \<open>The entries of a packet\<close>

fun pack_entries :: "log_entry_t list \<Rightarrow> cursor \<Rightarrow> cursor" where
  "pack_entries [] c = c"
| "pack_entries (e # es) c = pack_entries es (log_entry_pack e c)"

fun unpack_entries :: "nat \<Rightarrow> cursor \<Rightarrow> log_entry_t list \<times> cursor" where
  "unpack_entries 0 c = ([], c)"
| "unpack_entries (Suc n) c =
     (let (e, c) = log_entry_unpack c; (es, c) = unpack_entries n c in (e # es, c))"

lemma pack_entries_snd [simp]: "snd (pack_entries es c) = snd c + 16 * length es"
  by (induction es arbitrary: c) auto

lemma pack_entries_length [simp]: "length (fst (pack_entries es c)) = length (fst c)"
  by (induction es arbitrary: c) auto

lemma read_pack_entries_other [buffer]:
  "q + 4 \<le> snd c \<Longrightarrow> read_u32_be (fst (pack_entries es c)) q = read_u32_be (fst c) q"
  by (induction es arbitrary: c) (auto simp: buffer)

lemma length_unpack_entries [simp]: "length (fst (unpack_entries n c)) = n"
  by (induction n arbitrary: c) (auto simp: split_beta Let_def)

lemma unpack_pack_entries:
  "snd c + 16 * length es \<le> length (fst c) \<Longrightarrow>
     fst (unpack_entries (length es) (fst (pack_entries es c), snd c)) = es"
proof (induction es arbitrary: c)
  case Nil
  then show ?case by simp
next
  case (Cons e es)
  let ?c' = "log_entry_pack e c"
  let ?buf = "fst (pack_entries es ?c')"
  have "fst (log_entry_unpack (?buf, snd c)) = fst (log_entry_unpack (fst ?c', snd c))"
    by (simp add: log_entry_unpack_reads buffer)
  also have "\<dots> = e"
    using Cons.prems by (intro log_entry_unpack_pack) simp
  finally have e: "fst (log_entry_unpack (?buf, snd c)) = e" .
  have "fst (unpack_entries (length es) (?buf, snd ?c')) = es"
    using Cons.prems by (intro Cons.IH) simp
  with e show ?case by (simp add: split_beta Let_def)
qed

section \<open>Properties\<close>

text \<open>An entry packed into its 16 bytes is the entry unpacked from them.\<close>

theorem entry_roundtrip: "entry_of_bytes (entry_bytes e) = e \<and> length (entry_bytes e) = 16"
  by simp

end
