(* ===== verification/Packet.thy ===== *)
theory Packet
  imports Log_Entry
begin

text \<open>
  \<open>src/transport.h\<close> and \<open>src/rpc.h\<close>: the packet, the RPC codes and the RPC messages.
  The payload of a packet is always the \<open>MAX_PAYLOAD\<close> bytes of the C array
  (\<open>wf_pkt\<close>); \<open>h_payload_n\<close> says how many the sender used.
\<close>

section \<open>Packets\<close>

definition MAX_PAYLOAD :: nat where
  "MAX_PAYLOAD = 1024"

record pkt_header_t =
  h_dst :: u32
  h_src :: u32
  h_payload_n :: u32
  h_code :: u8

record pkt_t =
  pkt_header :: pkt_header_t
  pkt_payload :: "u8 list"

definition wf_pkt :: "pkt_t \<Rightarrow> bool" where
  "wf_pkt pkt \<longleftrightarrow> length (pkt_payload pkt) = MAX_PAYLOAD"

section \<open>RPC codes and messages\<close>

definition MAX_APPEND_ENTRIES_N :: u32 where
  "MAX_APPEND_ENTRIES_N = 32"

definition RPC_CALL_APPEND_ENT :: u8 where "RPC_CALL_APPEND_ENT = 0"
definition RPC_RESP_APPEND_ENT :: u8 where "RPC_RESP_APPEND_ENT = 1"
definition RPC_CALL_REQ_VOTE :: u8 where "RPC_CALL_REQ_VOTE = 2"
definition RPC_RESP_REQ_VOTE :: u8 where "RPC_RESP_REQ_VOTE = 3"
definition RPC_CALL_PROC :: u8 where "RPC_CALL_PROC = 4"
definition RPC_RESP_PROC :: u8 where "RPC_RESP_PROC = 5"
definition RPC_SHUTDOWN :: u8 where "RPC_SHUTDOWN = 99"

lemmas rpc_codes =
  RPC_CALL_APPEND_ENT_def RPC_RESP_APPEND_ENT_def RPC_CALL_REQ_VOTE_def
  RPC_RESP_REQ_VOTE_def RPC_CALL_PROC_def RPC_RESP_PROC_def RPC_SHUTDOWN_def

text \<open>
  \<open>entries[MAX_APPEND_ENTRIES_N]\<close> is the list of the array's entries that are set: the
  first \<open>n_entries\<close> of them, in a request that is well formed.
\<close>

record append_entries_req_t =
  ae_term :: u32
  ae_leader_id :: u32
  ae_prev_log_idx :: u32
  ae_prev_log_term :: u32
  ae_leader_commit :: int
  ae_n_entries :: u32
  ae_entries :: "log_entry_t list"

record append_entries_res_t =
  aer_term :: u32
  aer_new_match_index :: u32
  aer_success :: u8

record request_vote_req_t =
  rv_term :: u32
  rv_candidate_id :: u32
  rv_last_log_idx :: u32
  rv_last_log_term :: u32

record request_vote_res_t =
  rvr_term :: u32
  rvr_vote_granted :: u8

record proc_req_t =
  pr_client_id :: u32
  pr_cmd_seqno :: u32
  pr_cmd :: u32

record proc_res_t =
  ps_client_id :: u32
  ps_cmd_seqno :: u32
  ps_success :: u8
  ps_leader_hint :: u32
  ps_term :: u32

definition wf_ae :: "append_entries_req_t \<Rightarrow> bool" where
  "wf_ae req \<longleftrightarrow> length (ae_entries req) = unat (ae_n_entries req) \<and>
     ae_n_entries req \<le> MAX_APPEND_ENTRIES_N \<and>
     - (2 ^ 31) \<le> ae_leader_commit req \<and> ae_leader_commit req < 2 ^ 31"

text \<open>A packet of zeroes, for concrete inputs.\<close>

definition zero_pkt :: pkt_t where
  "zero_pkt = \<lparr>pkt_header = \<lparr>h_dst = 0, h_src = 0, h_payload_n = 0, h_code = 0\<rparr>,
     pkt_payload = replicate MAX_PAYLOAD 0\<rparr>"

lemma wf_zero_pkt [simp]: "wf_pkt zero_pkt"
  by (simp add: wf_pkt_def zero_pkt_def)

end
