(* ===== verification/Rpc.thy ===== *)
theory Rpc
  imports Packet
begin

text \<open>
  \<open>src/rpc.c\<close>: the RPC messages in and out of packets. A \<open>pack\<close> function fills a packet the
  caller declared (its first contents are the caller's stack) and returns 0 or -1 with it; an
  \<open>unpack\<close> function returns -1 (\<open>None\<close>) or the message it read.

  The lemmas are the round trips, the sizes (a packed message fits the payload, so packing does
  not fail), and what each unpack function refuses.
\<close>

section \<open>AppendEntries\<close>

definition set_header :: "pkt_t \<Rightarrow> u32 \<Rightarrow> u32 \<Rightarrow> u8 \<Rightarrow> pkt_header_t" where
  "set_header pkt dst src code = (pkt_header pkt)\<lparr>h_dst := dst, h_src := src, h_code := code\<rparr>"

text \<open>
  The end of every pack function: \<open>payload_n\<close> is the distance the cursor moved, and a
  message longer than the payload is an error, found after it was written.
\<close>

definition finish_pack :: "pkt_header_t \<Rightarrow> cursor \<Rightarrow> int \<times> pkt_t" where
  "finish_pack h c =
     (let h = h\<lparr>h_payload_n := of_nat (snd c)\<rparr>
      in (if of_nat MAX_PAYLOAD < h_payload_n h then -1 else 0,
          \<lparr>pkt_header = h, pkt_payload = fst c\<rparr>))"

definition rpc_pack_append_entries_req ::
  "pkt_t \<Rightarrow> u32 \<Rightarrow> u32 \<Rightarrow> append_entries_req_t \<Rightarrow> int \<times> pkt_t" where
  "rpc_pack_append_entries_req pkt dst src req =
     (let h = set_header pkt dst src RPC_CALL_APPEND_ENT;
          c = (pkt_payload pkt, 0);
          c = put_u32 (ae_term req) c;
          c = put_u32 (ae_leader_id req) c;
          c = put_u32 (ae_prev_log_idx req) c;
          c = put_u32 (ae_prev_log_term req) c;
          c = put_u32 (u32_of_int (ae_leader_commit req)) c;
          c = put_u32 (ae_n_entries req) c
      in if MAX_APPEND_ENTRIES_N < ae_n_entries req
         then (-1, \<lparr>pkt_header = h, pkt_payload = fst c\<rparr>)
         else finish_pack h (pack_entries (take (unat (ae_n_entries req)) (ae_entries req)) c))"

definition rpc_unpack_append_entries_req :: "pkt_t \<Rightarrow> append_entries_req_t option" where
  "rpc_unpack_append_entries_req pkt =
     (if h_payload_n (pkt_header pkt) < 24 then None
      else let c = (pkt_payload pkt, 0);
               (t, c) = get_u32 c;
               (leader_id, c) = get_u32 c;
               (prev_log_idx, c) = get_u32 c;
               (prev_log_term, c) = get_u32 c;
               (leader_commit, c) = get_u32 c;
               (n_entries, c) = get_u32 c
           in if MAX_APPEND_ENTRIES_N < n_entries then None
              else let expected_size = 24 + n_entries * log_entry_packed_size
                   in if h_payload_n (pkt_header pkt) < expected_size then None
                      else Some \<lparr>ae_term = t, ae_leader_id = leader_id,
                        ae_prev_log_idx = prev_log_idx, ae_prev_log_term = prev_log_term,
                        ae_leader_commit = int_of_u32 leader_commit, ae_n_entries = n_entries,
                        ae_entries = fst (unpack_entries (unat n_entries) c)\<rparr>)"

definition rpc_pack_append_entries_res ::
  "pkt_t \<Rightarrow> u32 \<Rightarrow> u32 \<Rightarrow> append_entries_res_t \<Rightarrow> int \<times> pkt_t" where
  "rpc_pack_append_entries_res pkt dst src res =
     (let h = set_header pkt dst src RPC_RESP_APPEND_ENT;
          c = (pkt_payload pkt, 0);
          c = put_u32 (aer_term res) c;
          c = put_u32 (aer_new_match_index res) c;
          c = put_u8 (aer_success res) c
      in finish_pack h c)"

definition rpc_unpack_append_entries_res :: "pkt_t \<Rightarrow> append_entries_res_t option" where
  "rpc_unpack_append_entries_res pkt =
     (let expected_size = 9
      in if h_payload_n (pkt_header pkt) < expected_size then None
         else let c = (pkt_payload pkt, 0);
                  (t, c) = get_u32 c;
                  (new_match_index, c) = get_u32 c;
                  (success, c) = get_u8 c
              in Some \<lparr>aer_term = t, aer_new_match_index = new_match_index,
                       aer_success = success\<rparr>)"

section \<open>RequestVote\<close>

definition rpc_pack_request_vote_req ::
  "pkt_t \<Rightarrow> u32 \<Rightarrow> u32 \<Rightarrow> request_vote_req_t \<Rightarrow> int \<times> pkt_t" where
  "rpc_pack_request_vote_req pkt dst src req =
     (let h = set_header pkt dst src RPC_CALL_REQ_VOTE;
          c = (pkt_payload pkt, 0);
          c = put_u32 (rv_term req) c;
          c = put_u32 (rv_candidate_id req) c;
          c = put_u32 (rv_last_log_idx req) c;
          c = put_u32 (rv_last_log_term req) c
      in finish_pack h c)"

definition rpc_unpack_request_vote_req :: "pkt_t \<Rightarrow> request_vote_req_t option" where
  "rpc_unpack_request_vote_req pkt =
     (let expected_size = 16
      in if h_payload_n (pkt_header pkt) < expected_size then None
         else let c = (pkt_payload pkt, 0);
                  (t, c) = get_u32 c;
                  (candidate_id, c) = get_u32 c;
                  (last_log_idx, c) = get_u32 c;
                  (last_log_term, c) = get_u32 c
              in Some \<lparr>rv_term = t, rv_candidate_id = candidate_id,
                       rv_last_log_idx = last_log_idx, rv_last_log_term = last_log_term\<rparr>)"

definition rpc_pack_request_vote_res ::
  "pkt_t \<Rightarrow> u32 \<Rightarrow> u32 \<Rightarrow> request_vote_res_t \<Rightarrow> int \<times> pkt_t" where
  "rpc_pack_request_vote_res pkt dst src res =
     (let h = set_header pkt dst src RPC_RESP_REQ_VOTE;
          c = (pkt_payload pkt, 0);
          c = put_u32 (rvr_term res) c;
          c = put_u8 (rvr_vote_granted res) c
      in finish_pack h c)"

definition rpc_unpack_request_vote_res :: "pkt_t \<Rightarrow> request_vote_res_t option" where
  "rpc_unpack_request_vote_res pkt =
     (let expected_size = 5
      in if h_payload_n (pkt_header pkt) < expected_size then None
         else let c = (pkt_payload pkt, 0);
                  (t, c) = get_u32 c;
                  (vote_granted, c) = get_u8 c
              in Some \<lparr>rvr_term = t, rvr_vote_granted = vote_granted\<rparr>)"

section \<open>Client requests\<close>

definition rpc_pack_proc_req ::
  "pkt_t \<Rightarrow> u32 \<Rightarrow> u32 \<Rightarrow> proc_req_t \<Rightarrow> int \<times> pkt_t" where
  "rpc_pack_proc_req pkt dst src req =
     (let h = set_header pkt dst src RPC_CALL_PROC;
          c = (pkt_payload pkt, 0);
          c = put_u32 (pr_client_id req) c;
          c = put_u32 (pr_cmd_seqno req) c;
          c = put_u32 (pr_cmd req) c
      in finish_pack h c)"

definition rpc_unpack_proc_req :: "pkt_t \<Rightarrow> proc_req_t option" where
  "rpc_unpack_proc_req pkt =
     (let expected_size = 12
      in if h_payload_n (pkt_header pkt) < expected_size then None
         else let c = (pkt_payload pkt, 0);
                  (client_id, c) = get_u32 c;
                  (cmd_seqno, c) = get_u32 c;
                  (cmd, c) = get_u32 c
              in Some \<lparr>pr_client_id = client_id, pr_cmd_seqno = cmd_seqno, pr_cmd = cmd\<rparr>)"

definition rpc_pack_proc_res ::
  "pkt_t \<Rightarrow> u32 \<Rightarrow> u32 \<Rightarrow> proc_res_t \<Rightarrow> int \<times> pkt_t" where
  "rpc_pack_proc_res pkt dst src res =
     (let h = set_header pkt dst src RPC_RESP_PROC;
          c = (pkt_payload pkt, 0);
          c = put_u32 (ps_client_id res) c;
          c = put_u32 (ps_cmd_seqno res) c;
          c = put_u8 (ps_success res) c;
          c = put_u32 (ps_leader_hint res) c;
          c = put_u32 (ps_term res) c
      in finish_pack h c)"

definition rpc_unpack_proc_res :: "pkt_t \<Rightarrow> proc_res_t option" where
  "rpc_unpack_proc_res pkt =
     (let expected_size = 13
      in if h_payload_n (pkt_header pkt) < expected_size then None
         else let c = (pkt_payload pkt, 0);
                  (client_id, c) = get_u32 c;
                  (cmd_seqno, c) = get_u32 c;
                  (success, c) = get_u8 c;
                  (leader_hint, c) = get_u32 c;
                  (t, c) = get_u32 c
              in Some \<lparr>ps_client_id = client_id, ps_cmd_seqno = cmd_seqno,
                       ps_success = success, ps_leader_hint = leader_hint, ps_term = t\<rparr>)"

lemmas pack_defs =
  rpc_pack_append_entries_req_def rpc_pack_append_entries_res_def
  rpc_pack_request_vote_req_def rpc_pack_request_vote_res_def
  rpc_pack_proc_req_def rpc_pack_proc_res_def
  finish_pack_def set_header_def cursor_defs MAX_PAYLOAD_def

lemmas unpack_defs =
  rpc_unpack_append_entries_req_def rpc_unpack_append_entries_res_def
  rpc_unpack_request_vote_req_def rpc_unpack_request_vote_res_def
  rpc_unpack_proc_req_def rpc_unpack_proc_res_def

section \<open>Round trips\<close>

lemma pack_append_entries_res_ok:
  assumes "wf_pkt pkt"
  shows "fst (rpc_pack_append_entries_res pkt dst src res) = 0"
    and "wf_pkt (snd (rpc_pack_append_entries_res pkt dst src res))"
    and "rpc_unpack_append_entries_res (snd (rpc_pack_append_entries_res pkt dst src res)) = Some res"
  using assms by (auto simp: pack_defs unpack_defs wf_pkt_def buffer)

lemma pack_request_vote_req_ok:
  assumes "wf_pkt pkt"
  shows "fst (rpc_pack_request_vote_req pkt dst src req) = 0"
    and "wf_pkt (snd (rpc_pack_request_vote_req pkt dst src req))"
    and "rpc_unpack_request_vote_req (snd (rpc_pack_request_vote_req pkt dst src req)) = Some req"
  using assms by (auto simp: pack_defs unpack_defs wf_pkt_def buffer)

lemma pack_request_vote_res_ok:
  assumes "wf_pkt pkt"
  shows "fst (rpc_pack_request_vote_res pkt dst src res) = 0"
    and "wf_pkt (snd (rpc_pack_request_vote_res pkt dst src res))"
    and "rpc_unpack_request_vote_res (snd (rpc_pack_request_vote_res pkt dst src res)) = Some res"
  using assms by (auto simp: pack_defs unpack_defs wf_pkt_def buffer)

lemma pack_proc_req_ok:
  assumes "wf_pkt pkt"
  shows "fst (rpc_pack_proc_req pkt dst src req) = 0"
    and "wf_pkt (snd (rpc_pack_proc_req pkt dst src req))"
    and "rpc_unpack_proc_req (snd (rpc_pack_proc_req pkt dst src req)) = Some req"
  using assms by (auto simp: pack_defs unpack_defs wf_pkt_def buffer)

lemma pack_proc_res_ok:
  assumes "wf_pkt pkt"
  shows "fst (rpc_pack_proc_res pkt dst src res) = 0"
    and "wf_pkt (snd (rpc_pack_proc_res pkt dst src res))"
    and "rpc_unpack_proc_res (snd (rpc_pack_proc_res pkt dst src res)) = Some res"
  using assms by (auto simp: pack_defs unpack_defs wf_pkt_def buffer)

lemma wf_ae_size:
  assumes "wf_ae req"
  shows "unat (ae_n_entries req) \<le> 32"
    and "unat (24 + ae_n_entries req * 16 :: u32) = 24 + 16 * unat (ae_n_entries req)"
proof -
  show le: "unat (ae_n_entries req) \<le> 32"
    using assms by (simp add: wf_ae_def MAX_APPEND_ENTRIES_N_def word_le_nat_alt)
  have "unat (ae_n_entries req * 16) = unat (ae_n_entries req) * 16"
    using le by (simp add: unat_word_ariths)
  then show "unat (24 + ae_n_entries req * 16 :: u32) = 24 + 16 * unat (ae_n_entries req)"
    using le by (simp add: unat_word_ariths)
qed

lemma pack_append_entries_req_ok:
  assumes "wf_pkt pkt" and wf: "wf_ae req"
  shows "fst (rpc_pack_append_entries_req pkt dst src req) = 0"
    and "wf_pkt (snd (rpc_pack_append_entries_req pkt dst src req))"
    and "rpc_unpack_append_entries_req (snd (rpc_pack_append_entries_req pkt dst src req)) = Some req"
proof -
  note sz = wf_ae_size [OF wf]
  have len: "length (ae_entries req) = unat (ae_n_entries req)"
    and n: "\<not> MAX_APPEND_ENTRIES_N < ae_n_entries req"
    and lc: "int_of_u32 (u32_of_int (ae_leader_commit req)) = ae_leader_commit req"
    using wf by (auto simp: wf_ae_def intro: cast)
  have small: "\<not> 1024 < (24 + ae_n_entries req * 16 :: u32)"
    and big: "\<not> (24 + ae_n_entries req * 16 :: u32) < 24"
    using sz by (simp_all add: word_less_nat_alt)
  have pn: "of_nat (24 + 16 * unat (ae_n_entries req)) = (24 + ae_n_entries req * 16 :: u32)"
    by (simp add: mult.commute)
  let ?c = "put_u32 (ae_n_entries req) (put_u32 (u32_of_int (ae_leader_commit req))
    (put_u32 (ae_prev_log_term req) (put_u32 (ae_prev_log_idx req)
    (put_u32 (ae_leader_id req) (put_u32 (ae_term req) (pkt_payload pkt, 0))))))"
  have c: "snd ?c = 24" "length (fst ?c) = 1024"
    using assms(1) by (simp_all add: cursor_defs wf_pkt_def MAX_PAYLOAD_def)
  let ?buf = "fst (pack_entries (ae_entries req) ?c)"
  have es: "fst (unpack_entries (unat (ae_n_entries req)) (?buf, 24)) = ae_entries req"
    using unpack_pack_entries [of ?c "ae_entries req"] sz(1) c len by simp
  have packed: "rpc_pack_append_entries_req pkt dst src req =
    (0, \<lparr>pkt_header = (set_header pkt dst src RPC_CALL_APPEND_ENT)
            \<lparr>h_payload_n := 24 + ae_n_entries req * 16\<rparr>, pkt_payload = ?buf\<rparr>)"
    unfolding rpc_pack_append_entries_req_def Let_def finish_pack_def
    using n small pn len c(1) by (simp add: MAX_PAYLOAD_def mult.commute)
  have reads: "read_u32_be ?buf 0 = ae_term req" "read_u32_be ?buf 4 = ae_leader_id req"
    "read_u32_be ?buf 8 = ae_prev_log_idx req" "read_u32_be ?buf 12 = ae_prev_log_term req"
    "read_u32_be ?buf 16 = u32_of_int (ae_leader_commit req)"
    "read_u32_be ?buf 20 = ae_n_entries req"
    using c assms(1) by (simp_all add: buffer) (simp_all add: cursor_defs buffer wf_pkt_def MAX_PAYLOAD_def)
  show "fst (rpc_pack_append_entries_req pkt dst src req) = 0"
    by (simp add: packed)
  show "wf_pkt (snd (rpc_pack_append_entries_req pkt dst src req))"
    using c by (simp add: packed wf_pkt_def MAX_PAYLOAD_def)
  show "rpc_unpack_append_entries_req (snd (rpc_pack_append_entries_req pkt dst src req)) = Some req"
    using n small big es lc
    by (simp add: packed rpc_unpack_append_entries_req_def get_u32_def reads
        log_entry_packed_size_def)
qed

lemma pack_append_entries_req_too_many:
  "MAX_APPEND_ENTRIES_N < ae_n_entries req \<Longrightarrow>
     fst (rpc_pack_append_entries_req pkt dst src req) = -1"
  by (simp add: rpc_pack_append_entries_req_def Let_def)

lemma unpack_append_entries_req_wf:
  assumes "rpc_unpack_append_entries_req pkt = Some req"
  shows "wf_ae req"
  using assms sint_lt [of "read_u32_be (pkt_payload pkt) 16"]
    sint_ge [of "read_u32_be (pkt_payload pkt) 16"]
  by (auto simp: rpc_unpack_append_entries_req_def wf_ae_def get_u32_def Let_def
      split: if_splits)

section \<open>Headers\<close>

lemmas pack_header_defs = pack_defs Let_def

lemma packed_header [simp]:
  "h_dst (pkt_header (snd (rpc_pack_append_entries_req pkt dst src aereq))) = dst"
  "h_src (pkt_header (snd (rpc_pack_append_entries_req pkt dst src aereq))) = src"
  "h_code (pkt_header (snd (rpc_pack_append_entries_req pkt dst src aereq))) = RPC_CALL_APPEND_ENT"
  "h_dst (pkt_header (snd (rpc_pack_append_entries_res pkt dst src aeres))) = dst"
  "h_src (pkt_header (snd (rpc_pack_append_entries_res pkt dst src aeres))) = src"
  "h_code (pkt_header (snd (rpc_pack_append_entries_res pkt dst src aeres))) = RPC_RESP_APPEND_ENT"
  "h_dst (pkt_header (snd (rpc_pack_request_vote_req pkt dst src rvreq))) = dst"
  "h_src (pkt_header (snd (rpc_pack_request_vote_req pkt dst src rvreq))) = src"
  "h_code (pkt_header (snd (rpc_pack_request_vote_req pkt dst src rvreq))) = RPC_CALL_REQ_VOTE"
  "h_dst (pkt_header (snd (rpc_pack_request_vote_res pkt dst src rvres))) = dst"
  "h_src (pkt_header (snd (rpc_pack_request_vote_res pkt dst src rvres))) = src"
  "h_code (pkt_header (snd (rpc_pack_request_vote_res pkt dst src rvres))) = RPC_RESP_REQ_VOTE"
  "h_dst (pkt_header (snd (rpc_pack_proc_req pkt dst src preq))) = dst"
  "h_src (pkt_header (snd (rpc_pack_proc_req pkt dst src preq))) = src"
  "h_code (pkt_header (snd (rpc_pack_proc_req pkt dst src preq))) = RPC_CALL_PROC"
  "h_dst (pkt_header (snd (rpc_pack_proc_res pkt dst src pres))) = dst"
  "h_src (pkt_header (snd (rpc_pack_proc_res pkt dst src pres))) = src"
  "h_code (pkt_header (snd (rpc_pack_proc_res pkt dst src pres))) = RPC_RESP_PROC"
  by (simp_all add: pack_header_defs)

section \<open>Reading only what was sent\<close>

text \<open>
  Two packets that agree on the \<open>payload_n\<close> bytes their header announces.
\<close>

definition same_payload :: "pkt_t \<Rightarrow> pkt_t \<Rightarrow> bool" where
  "same_payload p q \<longleftrightarrow> wf_pkt p \<and> wf_pkt q \<and> pkt_header p = pkt_header q \<and>
     take (unat (h_payload_n (pkt_header p))) (pkt_payload p) =
     take (unat (h_payload_n (pkt_header p))) (pkt_payload q)"

lemma nth_same:
  "take n xs = take n ys \<Longrightarrow> i < n \<Longrightarrow> xs ! i = ys ! i"
  by (metis nth_take)

lemma read_same:
  "take n xs = take n ys \<Longrightarrow> p + 4 \<le> n \<Longrightarrow> read_u32_be xs p = read_u32_be ys p"
  using nth_same [of n xs ys p] nth_same [of n xs ys "p + 1"] nth_same [of n xs ys "p + 2"]
    nth_same [of n xs ys "p + 3"]
  by (simp add: read_u32_be_def)

lemma unpack_entries_same:
  "take n xs = take n ys \<Longrightarrow> p + 16 * k \<le> n \<Longrightarrow>
     fst (unpack_entries k (xs, p)) = fst (unpack_entries k (ys, p))"
  by (induction k arbitrary: p)
    (auto simp: split_beta Let_def log_entry_unpack_reads read_same)

lemma unpack_reads_only_sent:
  assumes "same_payload p q"
  shows "rpc_unpack_append_entries_res p = rpc_unpack_append_entries_res q"
    and "rpc_unpack_request_vote_req p = rpc_unpack_request_vote_req q"
    and "rpc_unpack_request_vote_res p = rpc_unpack_request_vote_res q"
    and "rpc_unpack_proc_req p = rpc_unpack_proc_req q"
  using assms
    read_same [of "unat (h_payload_n (pkt_header q))" "pkt_payload p" "pkt_payload q"]
    nth_same [of "unat (h_payload_n (pkt_header q))" "pkt_payload p" "pkt_payload q"]
  by (auto simp: same_payload_def unpack_defs get_u32_def get_u8_def Let_def word_less_nat_alt)

lemma unpack_append_entries_req_reads_only_sent:
  assumes "same_payload p q"
  shows "rpc_unpack_append_entries_req p = rpc_unpack_append_entries_req q"
proof (cases "h_payload_n (pkt_header q) < 24")
  case True
  then show ?thesis
    using assms by (simp add: same_payload_def rpc_unpack_append_entries_req_def)
next
  case False
  let ?n = "unat (h_payload_n (pkt_header q))" and ?xs = "pkt_payload p" and ?ys = "pkt_payload q"
  have tk: "take ?n ?xs = take ?n ?ys" and h: "pkt_header p = pkt_header q"
    using assms by (auto simp: same_payload_def)
  have n: "24 \<le> ?n" using False by (simp add: word_less_nat_alt)
  note rd = read_same [OF tk]
  have reads: "read_u32_be ?xs 0 = read_u32_be ?ys 0" "read_u32_be ?xs 4 = read_u32_be ?ys 4"
    "read_u32_be ?xs 8 = read_u32_be ?ys 8" "read_u32_be ?xs 12 = read_u32_be ?ys 12"
    "read_u32_be ?xs 16 = read_u32_be ?ys 16" "read_u32_be ?xs 20 = read_u32_be ?ys 20"
    using n by (simp_all add: rd)
  let ?k = "read_u32_be ?ys 20"
  have "fst (unpack_entries (unat ?k) (?xs, 24)) = fst (unpack_entries (unat ?k) (?ys, 24))"
    if "\<not> MAX_APPEND_ENTRIES_N < ?k"
      and "\<not> h_payload_n (pkt_header q) < 24 + ?k * log_entry_packed_size"
  proof (rule unpack_entries_same [OF tk])
    have k: "unat ?k \<le> 32"
      using that(1) by (simp add: MAX_APPEND_ENTRIES_N_def word_less_nat_alt)
    then have "unat (24 + ?k * 16) = 24 + 16 * unat ?k"
      by (simp add: unat_word_ariths)
    with that(2) show "24 + 16 * unat ?k \<le> ?n"
      by (simp add: log_entry_packed_size_def word_less_nat_alt)
  qed
  then show ?thesis
    by (simp add: rpc_unpack_append_entries_req_def get_u32_def Let_def reads h)
qed

section \<open>Properties\<close>

text \<open>
  C32: an AppendEntries request of at most 32 entries is packed without an error, into a packet
  from which the receiver unpacks the same request.
\<close>

theorem append_entries_roundtrip:
  assumes "wf_pkt pkt" and "wf_ae req"
  shows "fst (rpc_pack_append_entries_req pkt dst src req) = 0 \<and>
    rpc_unpack_append_entries_req (snd (rpc_pack_append_entries_req pkt dst src req)) = Some req"
  using pack_append_entries_req_ok [OF assms] by simp

theorem append_entries_roundtrip_witness:
  "rpc_unpack_append_entries_req (snd (rpc_pack_append_entries_req zero_pkt 1 2
     \<lparr>ae_term = 3, ae_leader_id = 2, ae_prev_log_idx = -1, ae_prev_log_term = 0,
      ae_leader_commit = -1, ae_n_entries = 1,
      ae_entries = [\<lparr>le_term = 3, le_client_id = 9, le_cmd_seqno = 1, le_cmd = 77\<rparr>]\<rparr>)) =
   Some \<lparr>ae_term = 3, ae_leader_id = 2, ae_prev_log_idx = -1, ae_prev_log_term = 0,
      ae_leader_commit = -1, ae_n_entries = 1,
      ae_entries = [\<lparr>le_term = 3, le_client_id = 9, le_cmd_seqno = 1, le_cmd = 77\<rparr>]\<rparr>"
  by (rule append_entries_roundtrip [THEN conjunct2])
    (simp_all add: wf_ae_def MAX_APPEND_ENTRIES_N_def)

text \<open>C33: each of the other five messages is unpacked from its packet as it was packed.\<close>

theorem rpc_roundtrip:
  assumes "wf_pkt pkt"
  shows "rpc_unpack_append_entries_res (snd (rpc_pack_append_entries_res pkt dst src ar)) = Some ar \<and>
    rpc_unpack_request_vote_req (snd (rpc_pack_request_vote_req pkt dst src vq)) = Some vq \<and>
    rpc_unpack_request_vote_res (snd (rpc_pack_request_vote_res pkt dst src vr)) = Some vr \<and>
    rpc_unpack_proc_req (snd (rpc_pack_proc_req pkt dst src pq)) = Some pq \<and>
    rpc_unpack_proc_res (snd (rpc_pack_proc_res pkt dst src pr)) = Some pr"
  using assms
  by (simp add: pack_append_entries_res_ok pack_request_vote_req_ok pack_request_vote_res_ok
      pack_proc_req_ok pack_proc_res_ok)

theorem rpc_roundtrip_witness:
  "rpc_unpack_request_vote_res (snd (rpc_pack_request_vote_res zero_pkt 1 2
     \<lparr>rvr_term = 5, rvr_vote_granted = 1\<rparr>)) = Some \<lparr>rvr_term = 5, rvr_vote_granted = 1\<rparr>"
  using rpc_roundtrip [OF wf_zero_pkt] by simp

text \<open>
  C34: the unpack functions of the four messages between nodes and of the client's request look at
  no byte beyond the payload the header announces.
\<close>

theorem unpack_within_payload:
  assumes "same_payload p q"
  shows "rpc_unpack_append_entries_req p = rpc_unpack_append_entries_req q \<and>
    rpc_unpack_append_entries_res p = rpc_unpack_append_entries_res q \<and>
    rpc_unpack_request_vote_req p = rpc_unpack_request_vote_req q \<and>
    rpc_unpack_request_vote_res p = rpc_unpack_request_vote_res q \<and>
    rpc_unpack_proc_req p = rpc_unpack_proc_req q"
  using unpack_append_entries_req_reads_only_sent [OF assms] unpack_reads_only_sent [OF assms]
  by simp

theorem unpack_within_payload_witness:
  "rpc_unpack_append_entries_req zero_pkt =
     rpc_unpack_append_entries_req (zero_pkt\<lparr>pkt_payload := (pkt_payload zero_pkt)[8 := 1]\<rparr>)"
proof -
  have "same_payload zero_pkt (zero_pkt\<lparr>pkt_payload := (pkt_payload zero_pkt)[8 := 1]\<rparr>)"
    by (simp add: same_payload_def wf_pkt_def zero_pkt_def)
  from unpack_within_payload [OF this] show ?thesis by simp
qed

text \<open>
  The answer to a client is the exception. \<open>rpc_unpack_proc_res\<close> asks for 13 bytes and reads
  17: two packets with the same 13 bytes of payload are unpacked differently.
\<close>

theorem proc_res_reads_past_payload:
  "\<exists>p q. same_payload p q \<and> rpc_unpack_proc_res p \<noteq> rpc_unpack_proc_res q"
proof -
  let ?p = "zero_pkt\<lparr>pkt_header := (pkt_header zero_pkt)\<lparr>h_payload_n := 13\<rparr>\<rparr>"
  let ?q = "?p\<lparr>pkt_payload := (pkt_payload zero_pkt)[16 := 1]\<rparr>"
  have "same_payload ?p ?q"
    by (simp add: same_payload_def wf_pkt_def zero_pkt_def MAX_PAYLOAD_def take_update_beyond)
  moreover have "rpc_unpack_proc_res ?p \<noteq> rpc_unpack_proc_res ?q"
    by (simp add: rpc_unpack_proc_res_def get_u32_def get_u8_def read_u32_be_def zero_pkt_def
        MAX_PAYLOAD_def)
  ultimately show ?thesis by blast
qed

text \<open>
  A request that is unpacked has at most 32 entries, all of them inside the payload.
\<close>

theorem accepted_request_fits:
  assumes "rpc_unpack_append_entries_req pkt = Some req"
  shows "length (ae_entries req) = unat (ae_n_entries req) \<and> unat (ae_n_entries req) \<le> 32 \<and>
    24 + 16 * unat (ae_n_entries req) \<le> unat (h_payload_n (pkt_header pkt))"
proof -
  have wf: "wf_ae req" by (rule unpack_append_entries_req_wf [OF assms])
  have "\<not> h_payload_n (pkt_header pkt) < 24 + ae_n_entries req * log_entry_packed_size"
    using assms
    by (auto simp: rpc_unpack_append_entries_req_def get_u32_def Let_def split: if_splits)
  then have "24 + 16 * unat (ae_n_entries req) \<le> unat (h_payload_n (pkt_header pkt))"
    using wf_ae_size(2) [OF wf] by (simp add: log_entry_packed_size_def word_less_nat_alt)
  then show ?thesis using wf wf_ae_size(1) [OF wf] by (simp add: wf_ae_def)
qed

theorem accepted_request_fits_witness:
  "\<exists>req. rpc_unpack_append_entries_req
     (zero_pkt\<lparr>pkt_header := (pkt_header zero_pkt)\<lparr>h_payload_n := 24\<rparr>\<rparr>) = Some req \<and>
     24 + 16 * unat (ae_n_entries req) \<le> 24"
proof -
  let ?p = "zero_pkt\<lparr>pkt_header := (pkt_header zero_pkt)\<lparr>h_payload_n := 24\<rparr>\<rparr>"
  have "\<exists>req. rpc_unpack_append_entries_req ?p = Some req"
    by (simp add: rpc_unpack_append_entries_req_def get_u32_def read_u32_be_def zero_pkt_def
        MAX_PAYLOAD_def MAX_APPEND_ENTRIES_N_def)
  then obtain req where req: "rpc_unpack_append_entries_req ?p = Some req" ..
  then show ?thesis using accepted_request_fits [OF req] by auto
qed

end
