(* ===== verification/Log_Store.thy ===== *)
theory Log_Store
  imports Log_Entry
begin

text \<open>
  \<open>src/log.h\<close>: the interface between the consensus core and the log. As in the code it is a
  record of functions with a context; the context type is a parameter. A function that C gives
  a \<open>void *entry\<close> to fill returns the entry it stored, if it stored one. Every function returns
  the context, since reading moves the offset of a descriptor.

  The locale \<open>log_store\<close> is the contract: on a context that is \<open>good\<close> (its device does not
  fail) the functions implement the list \<open>entries\<close>. The lemmas of the consensus core about
  the log are proved inside it; \<open>Persist_Log\<close> interprets it for the file log.
\<close>

definition EOBND :: int where "EOBND = -51"
definition EINIT :: int where "EINIT = -52"

record 'c log_t =
  log_read :: "int \<Rightarrow> int \<Rightarrow> 'c \<Rightarrow> (int \<times> log_entry_t option) \<times> 'c"
  log_write :: "int \<Rightarrow> log_entry_t \<Rightarrow> int \<Rightarrow> 'c \<Rightarrow> int \<times> 'c"
  log_entry_size :: "int \<Rightarrow> 'c \<Rightarrow> int"
  log_start_index :: "'c \<Rightarrow> int"
  log_end_index :: "'c \<Rightarrow> int"
  log_length :: "'c \<Rightarrow> int"
  log_remove_last_n :: "int \<Rightarrow> 'c \<Rightarrow> int \<times> 'c"
  log_context :: 'c

text \<open>The largest log: its length and the index after its end are C \<open>int\<close> values.\<close>

definition log_capacity :: nat where
  "log_capacity = 2 ^ 31 - 1"

locale log_store =
  fixes L :: "'c log_t"
    and entries :: "'c \<Rightarrow> log_entry_t list"
    and good :: "'c \<Rightarrow> bool"
  assumes good_capacity: "good c \<Longrightarrow> length (entries c) \<le> log_capacity"
    and length_law: "good c \<Longrightarrow> log_length L c = int (length (entries c))"
    and end_law: "good c \<Longrightarrow> log_end_index L c = int (length (entries c)) - 1"
    and start_law: "good c \<Longrightarrow> log_start_index L c = 0"
    and read_law: "good c \<Longrightarrow> 0 \<le> i \<Longrightarrow> i < int (length (entries c)) \<Longrightarrow>
      fst (log_read L i n c) = (n, Some (entries c ! nat i))"
    and read_out_law: "good c \<Longrightarrow> i < 0 \<or> int (length (entries c)) \<le> i \<and> i < 2 ^ 31 \<Longrightarrow>
      log_read L i n c = ((EOBND, None), c)"
    and read_good: "good c \<Longrightarrow> good (snd (log_read L i n c))"
    and read_entries: "good c \<Longrightarrow> entries (snd (log_read L i n c)) = entries c"
    and append_law: "good c \<Longrightarrow> i = int (length (entries c)) \<Longrightarrow> i < int log_capacity \<Longrightarrow>
      fst (log_write L i e n c) = 0 \<and> good (snd (log_write L i e n c)) \<and>
      entries (snd (log_write L i e n c)) = entries c @ [e]"
    and update_law: "good c \<Longrightarrow> 0 \<le> i \<Longrightarrow> i < int (length (entries c)) \<Longrightarrow>
      fst (log_write L i e n c) = 0 \<and> good (snd (log_write L i e n c)) \<and>
      entries (snd (log_write L i e n c)) = (entries c)[nat i := e]"
    and write_out_law: "good c \<Longrightarrow> i < 0 \<or> int (length (entries c)) < i \<and> i < 2 ^ 31 \<Longrightarrow>
      log_write L i e n c = (EOBND, c)"
    and remove_law: "good c \<Longrightarrow> n < 2 ^ 31 \<Longrightarrow>
      fst (log_remove_last_n L n c) = max 0 (min n (int (length (entries c)))) \<and>
      good (snd (log_remove_last_n L n c)) \<and>
      entries (snd (log_remove_last_n L n c)) = take (length (entries c) - nat n) (entries c)"
begin

lemma append_entries_law:
  "good c \<Longrightarrow> length (entries c) < log_capacity \<Longrightarrow>
     entries (snd (log_write L (log_length L c) e n c)) = entries c @ [e]"
  by (simp add: length_law append_law)

lemma remove_all_law:
  "good c \<Longrightarrow> entries (snd (log_remove_last_n L (log_length L c) c)) = []"
  using good_capacity [of c] by (simp add: length_law remove_law log_capacity_def)

end

end
