(* ===== verification/Field_Store.thy ===== *)
theory Field_Store
  imports Raft_Prelude
begin

text \<open>
  \<open>src/persistent-fields.h\<close>: the interface to the persisted term and vote, a record of
  functions with a context of any type, and its contract \<open>field_store\<close>: on a \<open>good\<close> context a
  field reads as the value last written to it, as a C \<open>int\<close>, and writing one field keeps the
  other.
\<close>

datatype persistent_field_t = PF_CURRENT_TERM | PF_VOTED_FOR

primrec pf_code :: "persistent_field_t \<Rightarrow> nat" where
  "pf_code PF_CURRENT_TERM = 0"
| "pf_code PF_VOTED_FOR = 1"

definition PF_NO_VOTE_V :: u32 where
  "PF_NO_VOTE_V = INT32_MAX"

record 'c persistent_fields_t =
  pf_get_fn :: "persistent_field_t \<Rightarrow> 'c \<Rightarrow> int \<times> 'c"
  pf_set_fn :: "persistent_field_t \<Rightarrow> u32 \<Rightarrow> 'c \<Rightarrow> int \<times> 'c"
  pf_context :: 'c

locale field_store =
  fixes F :: "'c persistent_fields_t"
    and field :: "'c \<Rightarrow> persistent_field_t \<Rightarrow> u32"
    and fgood :: "'c \<Rightarrow> bool"
  assumes get_law: "fgood c \<Longrightarrow> fst (pf_get_fn F f c) = int_of_u32 (field c f)"
    and get_good: "fgood c \<Longrightarrow> fgood (snd (pf_get_fn F f c))"
    and get_field: "fgood c \<Longrightarrow> field (snd (pf_get_fn F f c)) = field c"
    and set_law: "fgood c \<Longrightarrow> fst (pf_set_fn F f v c) = 0"
    and set_good: "fgood c \<Longrightarrow> fgood (snd (pf_set_fn F f v c))"
    and set_field: "fgood c \<Longrightarrow> field (snd (pf_set_fn F f v c)) = (field c)(f := v)"
begin

lemma get_after_set:
  "fgood c \<Longrightarrow> fst (pf_get_fn F f (snd (pf_set_fn F f v c))) = int_of_u32 v"
  by (simp add: get_law set_good set_field)

lemma get_after_set_other:
  "fgood c \<Longrightarrow> f \<noteq> g \<Longrightarrow>
     fst (pf_get_fn F f (snd (pf_set_fn F g v c))) = fst (pf_get_fn F f c)"
  by (simp add: get_law set_good set_field)

end

end
