(* ===== verification/Os_Util.thy ===== *)
theory Os_Util
  imports Packet
begin

text \<open>
  \<open>src/util.h\<close>, \<open>src/util-unix/util.c\<close> and \<open>src/raft-timer.h\<close>: the clock, the random
  timeouts and the timer.

  What the operating system and the C run time answer is a parameter: \<open>os_t\<close> holds, for the
  \<open>k\<close>-th call, the time \<open>clock_gettime\<close> would give, the number \<open>rand\<close> would give, whether
  \<open>fopen\<close> of the telemetry file would succeed, and what an uninitialised packet on the stack
  would hold. Each call uses the answer of its index and moves to the next one, so a theorem
  about every \<open>os_t\<close> is a theorem about every behaviour of the system.
\<close>

section \<open>Answers of the system\<close>

record os_t =
  os_clock :: "nat \<Rightarrow> int \<times> int"
  os_rand :: "nat \<Rightarrow> int"
  os_fopen :: "nat \<Rightarrow> bool"
  os_stack :: "nat \<Rightarrow> pkt_t"
  os_calls :: nat

definition os_next :: "os_t \<Rightarrow> os_t" where
  "os_next os = os\<lparr>os_calls := os_calls os + 1\<rparr>"

definition wf_os :: "os_t \<Rightarrow> bool" where
  "wf_os os \<longleftrightarrow> (\<forall>k. wf_pkt (os_stack os k))"

lemma wf_os_next [simp]: "wf_os (os_next os) = wf_os os"
  by (simp add: wf_os_def os_next_def)

section \<open>Clock and random timeouts\<close>

definition get_usec :: "os_t \<Rightarrow> u64 \<times> os_t" where
  "get_usec os =
     (let (tv_sec, tv_nsec) = os_clock os (os_calls os)
      in (word_of_int tv_sec * 1000 * 1000 + word_of_int (tv_nsec div 1000), os_next os))"

definition rand_call :: "os_t \<Rightarrow> int \<times> os_t" where
  "rand_call os = (os_rand os (os_calls os), os_next os)"

definition random_timeout_usec :: "u32 \<Rightarrow> u32 \<Rightarrow> os_t \<Rightarrow> u64 \<times> os_t" where
  "random_timeout_usec lo hi os =
     (if hi \<le> lo then (ucast lo, os)
      else let (r, os) = rand_call os
           in (ucast (lo + (u32_of_int r mod (hi - lo))), os))"

definition fopen_call :: "os_t \<Rightarrow> bool \<times> os_t" where
  "fopen_call os = (os_fopen os (os_calls os), os_next os)"

definition fresh_pkt :: "os_t \<Rightarrow> pkt_t \<times> os_t" where
  "fresh_pkt os = (os_stack os (os_calls os), os_next os)"

lemmas os_defs = get_usec_def rand_call_def random_timeout_usec_def fopen_call_def fresh_pkt_def

lemma wf_os_calls [simp]:
  "wf_os (snd (get_usec os)) = wf_os os"
  "wf_os (snd (random_timeout_usec lo hi os)) = wf_os os"
  "wf_os (snd (fopen_call os)) = wf_os os"
  "wf_os (snd (fresh_pkt os)) = wf_os os"
  by (simp_all add: os_defs split_beta Let_def)

lemma wf_fresh_pkt [simp]: "wf_os os \<Longrightarrow> wf_pkt (fst (fresh_pkt os))"
  by (simp add: fresh_pkt_def wf_os_def)

lemma random_timeout_range:
  assumes "lo < hi"
  shows "ucast lo \<le> fst (random_timeout_usec lo hi os)"
    and "fst (random_timeout_usec lo hi os) < ucast hi"
proof -
  let ?r = "u32_of_int (os_rand os (os_calls os)) mod (hi - lo)"
  have d: "unat (hi - lo) = unat hi - unat lo"
    using assms by (simp add: unat_sub word_less_nat_alt less_imp_le)
  have r: "unat ?r < unat hi - unat lo"
    using assms d by (simp add: unat_mod word_less_nat_alt)
  have "unat lo + unat ?r < 2 ^ 32"
    using r unsigned_less [of hi, where 'a = nat] by simp
  then have s: "unat (lo + ?r) = unat lo + unat ?r"
    by (simp add: unat_word_ariths)
  have "\<not> hi \<le> lo" using assms by simp
  then have eq: "unat (fst (random_timeout_usec lo hi os)) = unat lo + unat ?r"
    using s by (simp add: os_defs cast)
  have u: "unat (ucast lo :: u64) = unat lo" "unat (ucast hi :: u64) = unat hi"
    by (simp_all add: cast)
  show "ucast lo \<le> fst (random_timeout_usec lo hi os)"
    by (simp only: word_le_nat_alt eq u)
  show "fst (random_timeout_usec lo hi os) < ucast hi"
    using r by (simp only: word_less_nat_alt eq u)
qed

section \<open>The timer\<close>

record raft_timer_t =
  start_usec :: u64
  duration_usec :: u64

definition timer_reset :: "raft_timer_t \<Rightarrow> os_t \<Rightarrow> raft_timer_t \<times> os_t" where
  "timer_reset timer os =
     (let (now, os) = get_usec os in (timer\<lparr>start_usec := now\<rparr>, os))"

definition timer_expired :: "raft_timer_t \<Rightarrow> os_t \<Rightarrow> bool \<times> os_t" where
  "timer_expired timer os =
     (let (now, os) = get_usec os in (duration_usec timer \<le> now - start_usec timer, os))"

definition time_remaining_usec :: "raft_timer_t \<Rightarrow> os_t \<Rightarrow> u64 \<times> os_t" where
  "time_remaining_usec timer os =
     (let (now, os) = get_usec os;
          time_passed_usec = now - start_usec timer
      in if duration_usec timer \<le> time_passed_usec then (0, os)
         else (duration_usec timer - time_passed_usec, os))"

lemma time_remaining_zero_iff_expired:
  "fst (time_remaining_usec timer os) = 0 \<longleftrightarrow> fst (timer_expired timer os)"
  by (auto simp: time_remaining_usec_def timer_expired_def split_beta Let_def)

lemma timer_wf_os [simp]:
  "wf_os (snd (timer_reset timer os)) = wf_os os"
  "wf_os (snd (timer_expired timer os)) = wf_os os"
  "wf_os (snd (time_remaining_usec timer os)) = wf_os os"
  by (simp_all add: timer_reset_def timer_expired_def time_remaining_usec_def split_beta Let_def)

section \<open>Properties\<close>

text \<open>A random timeout lies in the half-open range it is asked for.\<close>

theorem random_timeout_in_range:
  assumes "lo < hi"
  shows "ucast lo \<le> fst (random_timeout_usec lo hi os) \<and>
    fst (random_timeout_usec lo hi os) < ucast hi"
  using random_timeout_range [OF assms] by simp

theorem random_timeout_in_range_witness:
  "fst (random_timeout_usec 1000 2000 \<lparr>os_clock = \<lambda>_. (0, 0), os_rand = \<lambda>_. 123456789,
     os_fopen = \<lambda>_. False, os_stack = \<lambda>_. zero_pkt, os_calls = 0\<rparr>) < 2000"
proof -
  have "(1000 :: u32) < 2000" by simp
  from random_timeout_in_range [OF this] show ?thesis by simp
qed

text \<open>
  The remaining time is 0 exactly when the timer has expired, also after the clock has
  wrapped around.
\<close>

theorem timer_remaining_iff_expired:
  "fst (time_remaining_usec tm os) = 0 \<longleftrightarrow> fst (timer_expired tm os)"
  by (rule time_remaining_zero_iff_expired)

end
