(* ===== verification/Double_Arith.thy ===== *)
theory Double_Arith
  imports Complex_Main
begin

text \<open>
  The \<open>double\<close> arithmetic of \<open>src/accrual.c\<close>: a finite positive double is a rational with a
  53-bit significand, and an operation is the exact result rounded to the nearest such number,
  ties to even. The exponent has no bound here: the failure detector computes values between
  \<open>2 ^ -64\<close> and \<open>2 ^ 100\<close>, where doubles neither overflow nor lose precision.

  The lemmas: rounding keeps the sign and is monotone.
\<close>

type_synonym double = rat

section \<open>The binary exponent of a rational\<close>

fun bit_length :: "nat \<Rightarrow> nat" where
  "bit_length n = (if n = 0 then 0 else Suc (bit_length (n div 2)))"

declare bit_length.simps [simp del]

lemma less_2p_bit_length: "n < 2 ^ bit_length n"
proof (induction n rule: bit_length.induct)
  case (1 n)
  then show ?case
    by (cases "n = 0") (auto simp: bit_length.simps [of n])
qed

lemma bit_length_2p_le: "0 < n \<Longrightarrow> 2 ^ (bit_length n - 1) \<le> n"
proof (induction n rule: bit_length.induct)
  case (1 n)
  show ?case
  proof (cases "n div 2 = 0")
    case True
    with "1.prems" have "n = 1" by auto
    then show ?thesis by (simp add: bit_length.simps)
  next
    case False
    then have "2 ^ (bit_length (n div 2) - 1) \<le> n div 2"
      using "1.IH" "1.prems" by simp
    moreover have "bit_length (n div 2) = Suc (bit_length (n div 2) - 1)"
      using False by (simp add: bit_length.simps [of "n div 2"])
    ultimately have "2 ^ bit_length (n div 2) \<le> n"
      by (metis One_nat_def mult_le_mono2 order_trans power_Suc times_div_less_eq_dividend)
    then show ?thesis using "1.prems" by (simp add: bit_length.simps [of n])
  qed
qed

definition exponent :: "rat \<Rightarrow> int" where
  "exponent x = (if 1 \<le> x then int (bit_length (nat \<lfloor>x\<rfloor>)) - 1
     else - int (bit_length (nat (\<lceil>1 / x\<rceil> - 1))))"

definition pow2 :: "int \<Rightarrow> rat" where
  "pow2 e = (if 0 \<le> e then 2 ^ nat e else 1 / 2 ^ nat (- e))"

lemma pow2_pos [simp]: "0 < pow2 e"
  by (simp add: pow2_def)

lemma pow2_powi: "pow2 e = 2 powi e"
  by (simp add: pow2_def power_int_def field_simps)

lemma pow2_add: "pow2 (a + b) = pow2 a * pow2 b"
  by (simp add: pow2_powi power_int_add)

lemma pow2_mono: "a \<le> b \<Longrightarrow> pow2 a \<le> pow2 b"
  by (simp add: pow2_powi power_int_increasing)

lemma exponent_bounds:
  assumes "0 < x"
  shows "pow2 (exponent x) \<le> x" and "x < pow2 (exponent x + 1)"
proof -
  have "pow2 (exponent x) \<le> x \<and> x < pow2 (exponent x + 1)"
  proof (cases "1 \<le> x")
    case True
    let ?n = "nat \<lfloor>x\<rfloor>"
    have n: "0 < ?n" "of_nat ?n \<le> x" "x < of_nat ?n + 1"
      using True floor_correct [of x] by (auto simp: le_floor_iff)
    have "(2::rat) ^ (bit_length ?n - 1) \<le> of_nat ?n"
      using bit_length_2p_le [OF n(1)] by (metis of_nat_le_iff of_nat_numeral of_nat_power)
    moreover have "of_nat ?n + 1 \<le> (2::rat) ^ bit_length ?n"
      using less_2p_bit_length [of ?n]
      by (metis Suc_leI add.commute of_nat_Suc of_nat_le_iff of_nat_numeral of_nat_power)
    ultimately have "(2::rat) ^ (bit_length ?n - 1) \<le> x" "x < (2::rat) ^ bit_length ?n"
      using n by linarith+
    moreover have "0 < bit_length ?n"
      using n(1) by (simp add: bit_length.simps [of ?n])
    ultimately show ?thesis
      using True by (auto simp: exponent_def pow2_def nat_diff_distrib)
  next
    case False
    let ?m = "nat (\<lceil>1 / x\<rceil> - 1)"
    have gt: "1 < 1 / x" using False assms by simp
    then have c: "2 \<le> \<lceil>1 / x\<rceil>" by linarith
    then have m: "0 < ?m" "of_nat ?m < 1 / x" "1 / x \<le> of_nat ?m + 1"
      using gt by linarith+
    have lo: "(2::rat) ^ (bit_length ?m - 1) \<le> of_nat ?m"
      using bit_length_2p_le [OF m(1)] by (metis of_nat_le_iff of_nat_numeral of_nat_power)
    have hi: "of_nat ?m + 1 \<le> (2::rat) ^ bit_length ?m"
      using less_2p_bit_length [of ?m]
      by (metis Suc_leI add.commute of_nat_Suc of_nat_le_iff of_nat_numeral of_nat_power)
    have b: "0 < bit_length ?m"
      using m(1) by (simp add: bit_length.simps [of ?m])
    have e: "exponent x = - int (bit_length ?m)"
      using False by (simp add: exponent_def)
    have "1 / x \<le> 2 ^ bit_length ?m" using m(3) hi by linarith
    then have "1 / 2 ^ bit_length ?m \<le> x"
      using assms by (simp add: field_simps)
    moreover have "2 ^ (bit_length ?m - 1) < 1 / x" using m(2) lo by linarith
    then have "x < 1 / 2 ^ (bit_length ?m - 1)"
      using assms by (simp add: field_simps)
    ultimately show ?thesis
      using b by (auto simp: e pow2_def nat_diff_distrib)
  qed
  then show "pow2 (exponent x) \<le> x" and "x < pow2 (exponent x + 1)" by auto
qed

lemma exponent_mono:
  assumes "0 < x" and "x \<le> y"
  shows "exponent x \<le> exponent y"
proof (rule ccontr)
  assume "\<not> exponent x \<le> exponent y"
  then have "pow2 (exponent y + 1) \<le> pow2 (exponent x)" by (intro pow2_mono) simp
  then show False
    using exponent_bounds(1) [of x] exponent_bounds(2) [of y] assms by linarith
qed

section \<open>Rounding\<close>

definition round_even :: "rat \<Rightarrow> int" where
  "round_even x =
     (let n = \<lfloor>x\<rfloor>; d = x - of_int n
      in if d < 1 / 2 then n else if 1 / 2 < d then n + 1 else if even n then n else n + 1)"

definition fl :: "rat \<Rightarrow> double" where
  "fl x = (if x \<le> 0 then 0
     else let e = exponent x - 52 in of_int (round_even (x / pow2 e)) * pow2 e)"

lemma round_even_cases: "round_even x = \<lfloor>x\<rfloor> \<or> round_even x = \<lfloor>x\<rfloor> + 1"
  by (simp add: round_even_def Let_def)

lemma round_even_mono:
  assumes "x \<le> y"
  shows "round_even x \<le> round_even y"
proof (cases "\<lfloor>x\<rfloor> = \<lfloor>y\<rfloor>")
  case True
  then show ?thesis using assms by (auto simp: round_even_def Let_def)
next
  case False
  then have "\<lfloor>x\<rfloor> + 1 \<le> \<lfloor>y\<rfloor>"
    using floor_mono [OF assms] by simp
  then show ?thesis
    using round_even_cases [of x] round_even_cases [of y] by auto
qed

lemma round_even_of_int [simp]: "round_even (of_int n) = n"
  by (simp add: round_even_def)

lemma fl_bounds:
  assumes "0 < x"
  shows "pow2 (exponent x) \<le> fl x" and "fl x \<le> pow2 (exponent x + 1)"
proof -
  let ?e = "exponent x - 52"
  have p: "pow2 (exponent x) = 2 ^ 52 * pow2 ?e" "pow2 (exponent x + 1) = 2 ^ 53 * pow2 ?e"
    using pow2_add [of 52 ?e] pow2_add [of 53 ?e] by (simp_all add: pow2_def algebra_simps)
  have "2 ^ 52 \<le> x / pow2 ?e" "x / pow2 ?e \<le> 2 ^ 53"
    using exponent_bounds [OF assms] by (simp_all add: p pos_le_divide_eq pos_divide_le_eq less_imp_le)
  then have "round_even (of_int (2 ^ 52)) \<le> round_even (x / pow2 ?e)"
    "round_even (x / pow2 ?e) \<le> round_even (of_int (2 ^ 53))"
    by (intro round_even_mono, simp)+
  then have r: "2 ^ 52 \<le> round_even (x / pow2 ?e)" "round_even (x / pow2 ?e) \<le> 2 ^ 53"
    by (simp_all only: round_even_of_int)
  have fx: "fl x = of_int (round_even (x / pow2 ?e)) * pow2 ?e"
    using assms by (simp add: fl_def Let_def)
  have "of_int (2 ^ 52) * pow2 ?e \<le> fl x" "fl x \<le> of_int (2 ^ 53) * pow2 ?e"
    unfolding fx using r by (simp_all only: of_int_le_iff mult_le_cancel_right_pos pow2_pos)
  then show "pow2 (exponent x) \<le> fl x" and "fl x \<le> pow2 (exponent x + 1)"
    by (simp_all add: p)
qed

lemma fl_zero [simp]: "fl 0 = 0"
  by (simp add: fl_def)

lemma fl_pos: "0 < x \<Longrightarrow> 0 < fl x"
  using fl_bounds(1) [of x] pow2_pos [of "exponent x"] by linarith

lemma fl_pos_iff [simp]: "0 < fl x \<longleftrightarrow> 0 < x"
  using fl_pos [of x] by (auto simp: fl_def)

lemma fl_nonneg [simp]: "0 \<le> fl x"
  using fl_pos [of x] by (cases "0 < x") (auto simp: fl_def)

lemma fl_mono:
  assumes "x \<le> y"
  shows "fl x \<le> fl y"
proof (cases "0 < x")
  case False
  then show ?thesis using fl_nonneg [of y] by (simp add: fl_def)
next
  case True
  then have y: "0 < y" using assms by simp
  show ?thesis
  proof (cases "exponent x = exponent y")
    case same: True
    have "x / pow2 (exponent y - 52) \<le> y / pow2 (exponent y - 52)"
      using assms by (simp add: divide_right_mono less_imp_le)
    then show ?thesis
      using True y by (simp add: fl_def Let_def same round_even_mono mult_right_mono less_imp_le)
  next
    case False
    then have "exponent x + 1 \<le> exponent y"
      using exponent_mono [OF True assms] by simp
    then have "pow2 (exponent x + 1) \<le> pow2 (exponent y)" by (rule pow2_mono)
    then show ?thesis
      using fl_bounds(2) [OF True] fl_bounds(1) [OF y] by linarith
  qed
qed

end
