(* ===== verification/Accrual.thy ===== *)
theory Accrual
  imports Os_Util Double_Arith
begin

text \<open>
  \<open>src/accrual.h\<close> and \<open>src/accrual.c\<close>: the heartbeat telemetry and the phi accrual failure
  detector. The circular buffer of intervals refines the list \<open>recent\<close> of the last
  \<open>window_size\<close> intervals, oldest first; the detector is monotone in the time since the last
  heartbeat. Recording an interval into a window of size 0 divides by zero: \<open>None\<close>.
\<close>

section \<open>The telemetry\<close>

definition TS_TIMEOUT :: u32 where "TS_TIMEOUT = 50"
definition TS_ACCRUAL :: u32 where "TS_ACCRUAL = 51"
definition ACCRUAL_INTERVAL_MS :: u64 where "ACCRUAL_INTERVAL_MS = 100"

record heartbeat_telemetry_t =
  ht_intervals_usec :: "u64 list"
  ht_window_size :: u32
  ht_ramp_size :: u32
  ht_threshold :: double
  ht_interval_index :: u32
  ht_num_intervals :: u32
  ht_last_heartbeat_usec :: u64

definition heartbeat_telemetry_init :: "double \<Rightarrow> u32 \<Rightarrow> u32 \<Rightarrow> heartbeat_telemetry_t" where
  "heartbeat_telemetry_init threshold window_size ramp_size =
     \<lparr>ht_intervals_usec = replicate (unat window_size) 0, ht_window_size = window_size,
      ht_ramp_size = ramp_size, ht_threshold = threshold, ht_interval_index = 0,
      ht_num_intervals = 0, ht_last_heartbeat_usec = 0\<rparr>"

definition heartbeat_telemetry_reset :: "heartbeat_telemetry_t \<Rightarrow> heartbeat_telemetry_t" where
  "heartbeat_telemetry_reset t =
     t\<lparr>ht_intervals_usec := replicate (unat (ht_window_size t)) 0, ht_interval_index := 0,
       ht_num_intervals := 0, ht_last_heartbeat_usec := 0\<rparr>"

definition compute_mean_interval :: "heartbeat_telemetry_t \<Rightarrow> double" where
  "compute_mean_interval t =
     (if ht_num_intervals t = 0 then 0
      else let sum = sum_list (take (unat (ht_num_intervals t)) (ht_intervals_usec t))
           in fl (fl (of_int (uint sum)) / fl (of_int (uint (ht_num_intervals t)))))"

definition heartbeat_telemetry_record_interval ::
  "heartbeat_telemetry_t \<Rightarrow> u64 \<Rightarrow> heartbeat_telemetry_t option" where
  "heartbeat_telemetry_record_interval t current_time_usec =
     (if ht_last_heartbeat_usec t = 0
      then Some (t\<lparr>ht_last_heartbeat_usec := current_time_usec\<rparr>)
      else if ht_window_size t = 0 then None
      else let interval_usec = current_time_usec - ht_last_heartbeat_usec t;
               t = t\<lparr>ht_last_heartbeat_usec := current_time_usec\<rparr>;
               t = t\<lparr>ht_intervals_usec :=
                       (ht_intervals_usec t)[unat (ht_interval_index t) := interval_usec]\<rparr>;
               t = t\<lparr>ht_interval_index := (ht_interval_index t + 1) mod ht_window_size t\<rparr>
           in Some (if ht_num_intervals t < ht_window_size t
                    then t\<lparr>ht_num_intervals := ht_num_intervals t + 1\<rparr> else t))"

definition LOG10_E :: double where
  "LOG10_E = fl (4342944819 / 10000000000)"

definition compute_phi :: "double \<Rightarrow> u64 \<Rightarrow> double" where
  "compute_phi mean current_interval_usec =
     (let lambda = fl (1 / mean)
      in fl (fl (lambda * fl (of_int (uint current_interval_usec))) * LOG10_E))"

definition heartbeat_telemetry_check_leader_failure ::
  "heartbeat_telemetry_t \<Rightarrow> os_t \<Rightarrow> bool \<times> os_t" where
  "heartbeat_telemetry_check_leader_failure t os =
     (let (now, os) = get_usec os;
          current_interval_usec = now - ht_last_heartbeat_usec t;
          mean = compute_mean_interval t
      in if mean \<le> 0 then (False, os)
         else (ht_threshold t < compute_phi mean current_interval_usec, os))"

section \<open>The circular buffer as a window of recent intervals\<close>

definition wf_telemetry :: "heartbeat_telemetry_t \<Rightarrow> bool" where
  "wf_telemetry t \<longleftrightarrow>
     length (ht_intervals_usec t) = unat (ht_window_size t) \<and>
     ht_num_intervals t \<le> ht_window_size t \<and>
     (ht_window_size t \<noteq> 0 \<longrightarrow> ht_interval_index t < ht_window_size t) \<and>
     (ht_num_intervals t < ht_window_size t \<longrightarrow> ht_interval_index t = ht_num_intervals t)"

definition recent :: "heartbeat_telemetry_t \<Rightarrow> u64 list" where
  "recent t =
     (if ht_num_intervals t < ht_window_size t
      then take (unat (ht_num_intervals t)) (ht_intervals_usec t)
      else drop (unat (ht_interval_index t)) (ht_intervals_usec t) @
           take (unat (ht_interval_index t)) (ht_intervals_usec t))"

definition last_n :: "nat \<Rightarrow> 'a list \<Rightarrow> 'a list" where
  "last_n n xs = drop (length xs - n) xs"

lemma wf_telemetry_init: "wf_telemetry (heartbeat_telemetry_init th w r)"
  by (auto simp: wf_telemetry_def heartbeat_telemetry_init_def word_neq_0_conv)

lemma wf_telemetry_reset: "wf_telemetry t \<Longrightarrow> wf_telemetry (heartbeat_telemetry_reset t)"
  by (auto simp: wf_telemetry_def heartbeat_telemetry_reset_def word_neq_0_conv)

lemma recent_init: "recent (heartbeat_telemetry_init th w r) = []"
  by (cases "w = 0") (simp_all add: recent_def heartbeat_telemetry_init_def word_gt_0)

lemma recent_reset: "wf_telemetry t \<Longrightarrow> recent (heartbeat_telemetry_reset t) = []"
  by (cases "ht_window_size t = 0")
    (simp_all add: recent_def heartbeat_telemetry_reset_def word_gt_0)

lemma length_recent: "wf_telemetry t \<Longrightarrow> length (recent t) = unat (ht_num_intervals t)"
  by (auto simp: wf_telemetry_def recent_def word_less_nat_alt word_le_nat_alt)

lemma u32_suc_less: "x < y \<Longrightarrow> unat (x + 1 :: u32) = unat x + 1"
  using unsigned_less [of y, where 'a = nat] by (simp add: unat_word_ariths word_less_nat_alt)

lemma index_step:
  assumes "i < (w :: u32)"
  shows "unat ((i + 1) mod w) = (if unat i + 1 = unat w then 0 else unat i + 1)"
  using assms u32_suc_less [OF assms] by (auto simp: unat_mod word_less_nat_alt)

lemma take_suc_update: "i < length xs \<Longrightarrow> take (Suc i) (xs[i := x]) = take i xs @ [x]"
  by (simp add: take_Suc_conv_app_nth)

text \<open>The list form of one recording: filling the buffer, then overwriting its oldest interval.\<close>

definition ring_view :: "nat \<Rightarrow> nat \<Rightarrow> 'a list \<Rightarrow> 'a list" where
  "ring_view n i xs = (if n < length xs then take n xs else drop i xs @ take i xs)"

lemma ring_view_fill:
  assumes "n < length xs"
  shows "ring_view (Suc n) (if Suc n = length xs then 0 else Suc n) (xs[n := x]) =
    last_n (length xs) (ring_view n n xs @ [x])"
proof (cases "Suc n = length xs")
  case True
  then have "xs[n := x] = take n xs @ [x]"
    using take_suc_update [OF assms, of x] by simp
  then show ?thesis using True by (simp add: ring_view_def last_n_def)
next
  case False
  then show ?thesis using assms by (simp add: ring_view_def last_n_def take_suc_update)
qed

lemma ring_view_full:
  assumes "i < length xs"
  shows "ring_view (length xs) (if Suc i = length xs then 0 else Suc i) (xs[i := x]) =
    last_n (length xs) (ring_view (length xs) i xs @ [x])"
proof (cases "Suc i = length xs")
  case True
  then have "xs[i := x] = take i xs @ [x]"
    using take_suc_update [OF assms, of x] by simp
  then show ?thesis using True by (simp add: ring_view_def last_n_def)
next
  case False
  then show ?thesis using assms by (simp add: ring_view_def last_n_def take_suc_update)
qed

lemma recent_ring:
  "wf_telemetry t \<Longrightarrow> recent t =
     ring_view (unat (ht_num_intervals t)) (unat (ht_interval_index t)) (ht_intervals_usec t)"
  by (simp add: recent_def ring_view_def wf_telemetry_def word_less_nat_alt)

lemma record_interval_recent:
  assumes wf: "wf_telemetry t" and last: "ht_last_heartbeat_usec t \<noteq> 0"
    and w: "ht_window_size t \<noteq> 0"
  shows "\<exists>t'. heartbeat_telemetry_record_interval t now = Some t' \<and> wf_telemetry t' \<and>
    ht_last_heartbeat_usec t' = now \<and>
    recent t' = last_n (unat (ht_window_size t)) (recent t @ [now - ht_last_heartbeat_usec t])"
proof -
  let ?w = "ht_window_size t" and ?n = "ht_num_intervals t" and ?i = "ht_interval_index t"
  let ?x = "now - ht_last_heartbeat_usec t" and ?xs = "ht_intervals_usec t"
  let ?i' = "(?i + 1) mod ?w"
  let ?t' = "t\<lparr>ht_last_heartbeat_usec := now, ht_intervals_usec := ?xs[unat ?i := ?x],
    ht_interval_index := ?i', ht_num_intervals := if ?n < ?w then ?n + 1 else ?n\<rparr>"
  have len: "length ?xs = unat ?w" and nw: "?n \<le> ?w" and i: "?i < ?w"
    and fill: "?n < ?w \<Longrightarrow> ?i = ?n"
    using wf w by (auto simp: wf_telemetry_def)
  note i' = index_step [OF i]
  have ilen: "unat ?i < length ?xs" using i len by (simp add: word_less_nat_alt)
  have run: "heartbeat_telemetry_record_interval t now = Some ?t'"
    using last w by (simp add: heartbeat_telemetry_record_interval_def Let_def)
  have wf': "wf_telemetry ?t' \<and> recent ?t' = last_n (unat ?w) (recent t @ [?x])"
  proof (cases "?n < ?w")
    case True
    note n' = u32_suc_less [OF True]
    have wf': "wf_telemetry ?t'"
      using True len w fill n' i'
      by (auto simp: wf_telemetry_def word_less_nat_alt word_le_nat_alt word_unat_eq_iff)
    have "recent ?t' = ring_view (Suc (unat ?n))
        (if Suc (unat ?n) = length ?xs then 0 else Suc (unat ?n)) (?xs[unat ?n := ?x])"
      using recent_ring [OF wf'] True fill n' i' len by simp
    also have "\<dots> = last_n (length ?xs) (ring_view (unat ?n) (unat ?n) ?xs @ [?x])"
      using True len by (intro ring_view_fill) (simp add: word_less_nat_alt)
    finally show ?thesis using wf' recent_ring [OF wf] fill True len by simp
  next
    case False
    then have n: "?n = ?w" using nw by simp
    have wf': "wf_telemetry ?t'"
      using n len w i' i by (auto simp: wf_telemetry_def word_less_nat_alt)
    have "recent ?t' = ring_view (length ?xs)
        (if Suc (unat ?i) = length ?xs then 0 else Suc (unat ?i)) (?xs[unat ?i := ?x])"
      using recent_ring [OF wf'] n i' len by simp
    also have "\<dots> = last_n (length ?xs) (ring_view (length ?xs) (unat ?i) ?xs @ [?x])"
      by (rule ring_view_full [OF ilen])
    finally show ?thesis using wf' recent_ring [OF wf] n len by simp
  qed
  then show ?thesis using run by (intro exI [of _ ?t']) simp
qed

lemma record_interval_first:
  "ht_last_heartbeat_usec t = 0 \<Longrightarrow>
     heartbeat_telemetry_record_interval t now = Some (t\<lparr>ht_last_heartbeat_usec := now\<rparr>)"
  by (simp add: heartbeat_telemetry_record_interval_def)

lemma record_interval_window_zero:
  "ht_last_heartbeat_usec t \<noteq> 0 \<Longrightarrow> ht_window_size t = 0 \<Longrightarrow>
     heartbeat_telemetry_record_interval t now = None"
  by (simp add: heartbeat_telemetry_record_interval_def)

section \<open>The mean and the detector\<close>

lemma ring_view_sum:
  "n \<le> length xs \<Longrightarrow> sum_list (take n xs) = (sum_list (ring_view n i xs) :: 'a::comm_monoid_add)"
proof (cases "n < length xs")
  case False
  assume "n \<le> length xs"
  then have "sum_list (take n xs) = sum_list (take i xs @ drop i xs)" using False by simp
  then show ?thesis using False by (simp add: ring_view_def add.commute del: append_take_drop_id)
qed (simp add: ring_view_def)

lemma compute_mean_recent:
  assumes "wf_telemetry t" and "recent t \<noteq> []"
  shows "compute_mean_interval t =
    fl (fl (of_int (uint (sum_list (recent t)))) / fl (of_nat (length (recent t))))"
proof -
  have n: "unat (ht_num_intervals t) \<le> length (ht_intervals_usec t)"
    using assms(1) by (simp add: wf_telemetry_def word_le_nat_alt)
  have "ht_num_intervals t \<noteq> 0" using assms length_recent [of t] by auto
  moreover have "sum_list (take (unat (ht_num_intervals t)) (ht_intervals_usec t)) =
      sum_list (recent t)"
    using ring_view_sum [OF n] recent_ring [OF assms(1)] by simp
  ultimately show ?thesis
    using length_recent [OF assms(1)] by (simp add: compute_mean_interval_def)
qed

lemma compute_mean_nonneg: "0 \<le> compute_mean_interval t"
  by (simp add: compute_mean_interval_def Let_def)

lemma LOG10_E_pos: "0 < LOG10_E"
  by (simp add: LOG10_E_def)

lemma compute_phi_mono:
  assumes "0 < mean" and "t1 \<le> t2"
  shows "compute_phi mean t1 \<le> compute_phi mean t2"
proof -
  let ?l = "fl (1 / mean)"
  have "fl (of_int (uint t1)) \<le> fl (of_int (uint t2))"
    using assms(2) by (intro fl_mono) (simp only: of_int_le_iff word_le_def)
  then have "?l * fl (of_int (uint t1)) \<le> ?l * fl (of_int (uint t2))"
    by (rule mult_left_mono) simp
  then show ?thesis
    using LOG10_E_pos by (simp add: compute_phi_def Let_def fl_mono mult_right_mono)
qed

section \<open>Properties\<close>

text \<open>
  C35: the circular buffer of the failure detector is a sliding window: after the arrival of a
  heartbeat it holds the last \<open>window_size\<close> intervals, the newest at the end, and the mean is
  the mean of these.
\<close>

theorem detector_sliding_window:
  assumes "wf_telemetry t" and "ht_last_heartbeat_usec t \<noteq> 0" and "ht_window_size t \<noteq> 0"
  shows "\<exists>t'. heartbeat_telemetry_record_interval t now = Some t' \<and> wf_telemetry t' \<and>
    recent t' = last_n (unat (ht_window_size t)) (recent t @ [now - ht_last_heartbeat_usec t]) \<and>
    compute_mean_interval t' =
      fl (fl (of_int (uint (sum_list (recent t')))) / fl (of_nat (length (recent t'))))"
proof -
  obtain t' where t': "heartbeat_telemetry_record_interval t now = Some t'" "wf_telemetry t'"
    "recent t' = last_n (unat (ht_window_size t)) (recent t @ [now - ht_last_heartbeat_usec t])"
    using record_interval_recent [OF assms, of now] by blast
  have "unat (ht_window_size t) \<noteq> 0" using assms(3) by (simp add: unat_eq_0)
  then have "recent t' \<noteq> []" unfolding t'(3) last_n_def by simp
  then show ?thesis using t' compute_mean_recent [OF t'(2)] by blast
qed

definition beating :: heartbeat_telemetry_t where
  "beating = (heartbeat_telemetry_init 1 2 0)\<lparr>ht_last_heartbeat_usec := 10\<rparr>"

lemma wf_beating [simp]: "wf_telemetry beating" "recent beating = []"
  "ht_last_heartbeat_usec beating = 10" "ht_window_size beating = 2"
  by (simp_all add: beating_def wf_telemetry_def heartbeat_telemetry_init_def recent_def)

theorem detector_sliding_window_witness:
  "\<exists>t'. heartbeat_telemetry_record_interval beating 25 = Some t' \<and> recent t' = [15]"
proof -
  have "ht_last_heartbeat_usec beating \<noteq> 0" "ht_window_size beating \<noteq> 0" by simp_all
  from detector_sliding_window [OF wf_beating(1) this, of 25]
  show ?thesis by (auto simp: last_n_def)
qed

text \<open>
  Suspicion is monotone: a detector that suspects the leader still suspects it when more time
  has passed without a heartbeat.
\<close>

theorem suspicion_monotone:
  assumes "fst (heartbeat_telemetry_check_leader_failure t os1)"
    and "fst (get_usec os1) - ht_last_heartbeat_usec t \<le> fst (get_usec os2) - ht_last_heartbeat_usec t"
  shows "fst (heartbeat_telemetry_check_leader_failure t os2)"
proof -
  have mean: "0 < compute_mean_interval t"
    and th: "ht_threshold t < compute_phi (compute_mean_interval t)
      (fst (get_usec os1) - ht_last_heartbeat_usec t)"
    using assms(1)
    by (auto simp: heartbeat_telemetry_check_leader_failure_def split_beta Let_def split: if_splits)
  note th
  also have "compute_phi (compute_mean_interval t) (fst (get_usec os1) - ht_last_heartbeat_usec t)
      \<le> compute_phi (compute_mean_interval t) (fst (get_usec os2) - ht_last_heartbeat_usec t)"
    by (rule compute_phi_mono [OF mean assms(2)])
  finally show ?thesis
    using mean by (simp add: heartbeat_telemetry_check_leader_failure_def split_beta Let_def)
qed

definition clock_at :: "int \<Rightarrow> os_t" where
  "clock_at s = \<lparr>os_clock = \<lambda>_. (s, 0), os_rand = \<lambda>_. 0, os_fopen = \<lambda>_. False,
     os_stack = \<lambda>_. zero_pkt, os_calls = 0\<rparr>"

text \<open>Two intervals of one second, the last heartbeat at second 5, and no patience.\<close>

definition steady :: heartbeat_telemetry_t where
  "steady = \<lparr>ht_intervals_usec = [1000000, 1000000], ht_window_size = 2, ht_ramp_size = 1,
     ht_threshold = 0, ht_interval_index = 0, ht_num_intervals = 2,
     ht_last_heartbeat_usec = 5000000\<rparr>"

theorem suspicion_monotone_witness:
  "fst (heartbeat_telemetry_check_leader_failure steady (clock_at 9)) \<and>
   \<not> fst (heartbeat_telemetry_check_leader_failure steady (clock_at 5))"
proof -
  have mean: "0 < compute_mean_interval steady"
    by (simp add: compute_mean_interval_def steady_def)
  have at: "fst (get_usec (clock_at 8)) = 8000000" "fst (get_usec (clock_at 9)) = 9000000"
    "fst (get_usec (clock_at 5)) = 5000000" "ht_last_heartbeat_usec steady = 5000000"
    "ht_threshold steady = 0"
    by (simp_all add: get_usec_def clock_at_def steady_def)
  have "fst (heartbeat_telemetry_check_leader_failure steady (clock_at 8))"
    using mean LOG10_E_pos
    by (simp add: heartbeat_telemetry_check_leader_failure_def split_beta Let_def at compute_phi_def)
  then have "fst (heartbeat_telemetry_check_leader_failure steady (clock_at 9))"
    by (rule suspicion_monotone) (simp add: at)
  moreover have "\<not> fst (heartbeat_telemetry_check_leader_failure steady (clock_at 5))"
    by (simp add: heartbeat_telemetry_check_leader_failure_def split_beta Let_def at compute_phi_def
        fl_def)
  ultimately show ?thesis by simp
qed

text \<open>
  A detector with a window of size 0, which \<open>node.c\<close> accepts on its command line, divides by
  zero at its second heartbeat; with any other window recording never fails.
\<close>

theorem window_zero_fails:
  "heartbeat_telemetry_record_interval t now = None \<longleftrightarrow>
     ht_last_heartbeat_usec t \<noteq> 0 \<and> ht_window_size t = 0"
  by (auto simp: heartbeat_telemetry_record_interval_def Let_def)

end
