(* ===== verification/Raft_State.thy ===== *)
theory Raft_State
  imports Rpc Log_Store Field_Store Accrual
begin

text \<open>
  \<open>src/raft.h\<close> and \<open>src/util-unix/raft-util.c\<close>: the state of a node and its creation, and the
  calls the consensus core makes through the interfaces of the node.

  A node is parametric in the contexts of its log and of its persisted fields, as the C code is.
  The transport is the list \<open>outbox\<close> of the packets handed to its \<open>send\<close>, whose result the core
  never looks at. \<open>sent_on\<close> is a history variable, which no function reads: for each packet handed
  to the transport, the log and the persisted fields as they were then, so that the order of writing
  and sending inside a handler is part of the model. \<open>csv\<close> is the telemetry file. \<open>halted\<close> is set when the process ends in the
  middle of a handler: \<open>exit(42)\<close>, or an access C leaves undefined.
\<close>

definition HEARTBEAT_INTERVAL_USEC :: u32 where "HEARTBEAT_INTERVAL_USEC = 500 * 1000"
definition NO_LEADER :: u32 where "NO_LEADER = UINT32_MAX"
definition MAX_OUTSTANDING_REQUESTS :: nat where "MAX_OUTSTANDING_REQUESTS = 128"

datatype raft_role_t = FOLLOWER | CANDIDATE | LEADER

record outstanding_req_t =
  or_client_id :: u32
  or_cmd_seqno :: u32
  or_log_idx :: u32
  or_active :: u8

record raft_config_t =
  cfg_id :: u32
  cfg_num_nodes :: u32
  cfg_timeout_scheme :: u32
  cfg_accrual_threshold :: double
  cfg_accrual_window_size :: u32
  cfg_accrual_ramp_size :: u32
  cfg_timeout_lb_ms :: u32
  cfg_timeout_ub_ms :: u32
  cfg_crash_after_h :: int

datatype csv_line = CsvHeader | CsvRow u32 u64 string u32 int u64 | CsvStart u32 u64

datatype halt_t = Exit int | Undefined string

record ('l, 'p) raft_node_t =
  config :: raft_config_t
  role :: raft_role_t
  outbox :: "pkt_t list"
  heartbeat_count :: int
  node_log :: "'l log_t"
  hard_state :: "'p persistent_fields_t"
  commit_index :: int
  last_applied :: int
  leader_id :: u32
  heartbeat_telemetry :: heartbeat_telemetry_t
  votes_received :: u32
  next_index :: "u32 list"
  match_index :: "int list"
  outstanding_reqs :: "outstanding_req_t list"
  running :: u8
  timer :: raft_timer_t
  node_os :: os_t
  csv :: "csv_line list"
  halted :: "halt_t option"
  sent_on :: "('l \<times> 'p) list"

section \<open>Creation\<close>

text \<open>
  \<open>heap_next\<close> and \<open>heap_match\<close> are what \<open>malloc\<close> left in the two arrays; \<open>calloc\<close> zeroes the
  rest of the node. The telemetry file is not part of the node in C: it is what earlier runs
  left (\<open>old_csv\<close>).
\<close>

definition zero_outstanding :: outstanding_req_t where
  "zero_outstanding = \<lparr>or_client_id = 0, or_cmd_seqno = 0, or_log_idx = 0, or_active = 0\<rparr>"

definition raft_create ::
  "raft_config_t \<Rightarrow> 'l log_t \<Rightarrow> 'p persistent_fields_t \<Rightarrow> u32 list \<Rightarrow> int list \<Rightarrow> os_t \<Rightarrow>
   csv_line list \<Rightarrow> ('l, 'p) raft_node_t" where
  "raft_create cfg lg pf heap_next heap_match os old_csv =
     \<lparr>config = cfg, role = FOLLOWER, outbox = [], heartbeat_count = 0, node_log = lg,
      hard_state = pf, commit_index = -1, last_applied = -1, leader_id = NO_LEADER,
      heartbeat_telemetry = heartbeat_telemetry_init (cfg_accrual_threshold cfg)
        (cfg_accrual_window_size cfg) (cfg_accrual_ramp_size cfg),
      votes_received = 0, next_index = heap_next, match_index = heap_match,
      outstanding_reqs = replicate MAX_OUTSTANDING_REQUESTS zero_outstanding, running = 1,
      timer = \<lparr>start_usec = 0, duration_usec = 0\<rparr>, node_os = os, csv = old_csv, halted = None,
      sent_on = []\<rparr>"

definition node_ids :: "('l, 'p) raft_node_t \<Rightarrow> u32 list" where
  "node_ids nd = map of_nat [0..<unat (cfg_num_nodes (config nd))]"

definition node_id :: "('l, 'p) raft_node_t \<Rightarrow> u32" where
  "node_id nd = cfg_id (config nd)"

section \<open>Calls through the interfaces\<close>

definition call_log_length :: "('l, 'p) raft_node_t \<Rightarrow> int" where
  "call_log_length nd = log_length (node_log nd) (log_context (node_log nd))"

definition call_log_read ::
  "int \<Rightarrow> ('l, 'p) raft_node_t \<Rightarrow> (int \<times> log_entry_t option) \<times> ('l, 'p) raft_node_t" where
  "call_log_read idx nd =
     (let (r, c) = log_read (node_log nd) idx 16 (log_context (node_log nd))
      in (r, nd\<lparr>node_log := (node_log nd)\<lparr>log_context := c\<rparr>\<rparr>))"

definition call_log_write ::
  "int \<Rightarrow> log_entry_t \<Rightarrow> ('l, 'p) raft_node_t \<Rightarrow> ('l, 'p) raft_node_t" where
  "call_log_write idx e nd = nd\<lparr>node_log := (node_log nd)\<lparr>log_context :=
     snd (log_write (node_log nd) idx e 16 (log_context (node_log nd)))\<rparr>\<rparr>"

definition call_log_remove :: "int \<Rightarrow> ('l, 'p) raft_node_t \<Rightarrow> ('l, 'p) raft_node_t" where
  "call_log_remove n nd = nd\<lparr>node_log := (node_log nd)\<lparr>log_context :=
     snd (log_remove_last_n (node_log nd) n (log_context (node_log nd)))\<rparr>\<rparr>"

definition call_pf_get ::
  "persistent_field_t \<Rightarrow> ('l, 'p) raft_node_t \<Rightarrow> int \<times> ('l, 'p) raft_node_t" where
  "call_pf_get f nd =
     (let (v, c) = pf_get_fn (hard_state nd) f (pf_context (hard_state nd))
      in (v, nd\<lparr>hard_state := (hard_state nd)\<lparr>pf_context := c\<rparr>\<rparr>))"

definition call_pf_set ::
  "persistent_field_t \<Rightarrow> u32 \<Rightarrow> ('l, 'p) raft_node_t \<Rightarrow> ('l, 'p) raft_node_t" where
  "call_pf_set f v nd = nd\<lparr>hard_state := (hard_state nd)\<lparr>pf_context :=
     snd (pf_set_fn (hard_state nd) f v (pf_context (hard_state nd)))\<rparr>\<rparr>"

definition transport_send :: "pkt_t \<Rightarrow> ('l, 'p) raft_node_t \<Rightarrow> ('l, 'p) raft_node_t" where
  "transport_send pkt nd = nd\<lparr>outbox := outbox nd @ [pkt],
     sent_on := sent_on nd @ [(log_context (node_log nd), pf_context (hard_state nd))]\<rparr>"

lemmas call_defs = call_log_length_def call_log_read_def call_log_write_def call_log_remove_def
  call_pf_get_def call_pf_set_def transport_send_def

end
