(* ===== verification/Raft_Send.thy ===== *)
theory Raft_Send
  imports Raft_State
begin

text \<open>
  \<open>src/raft.c\<close>, lines 17 to 205 and the timers: the utility helpers, the send functions and
  the broadcasts.
\<close>

section \<open>Utility helpers\<close>

definition telemetry_log ::
  "string \<Rightarrow> u32 \<Rightarrow> u64 \<Rightarrow> ('l, 'p) raft_node_t \<Rightarrow> ('l, 'p) raft_node_t" where
  "telemetry_log event t val nd =
     (let (opened, os) = fopen_call (node_os nd)
      in if \<not> opened then nd\<lparr>node_os := os\<rparr>
         else let lines = csv nd @ (if csv nd = [] then [CsvHeader] else []);
                  lid = (if leader_id nd = NO_LEADER then -1 else int_of_u32 (leader_id nd));
                  (now, os) = get_usec os
              in nd\<lparr>node_os := os, csv := lines @ [CsvRow (node_id nd) now event t lid val]\<rparr>)"

definition raft_get_log_term :: "int \<Rightarrow> ('l, 'p) raft_node_t \<Rightarrow> u32 \<times> ('l, 'p) raft_node_t" where
  "raft_get_log_term log_idx nd =
     (if log_idx < 0 then (0, nd)
      else if call_log_length nd \<le> log_idx then (0, nd)
      else let ((bytes_read, ent), nd) = call_log_read log_idx nd
           in if bytes_read \<noteq> 16 then (0, nd)
              else case ent of Some e \<Rightarrow> (le_term e, nd) | None \<Rightarrow> (0, nd))"

definition log_is_up_to_date ::
  "u32 \<Rightarrow> u32 \<Rightarrow> ('l, 'p) raft_node_t \<Rightarrow> bool \<times> ('l, 'p) raft_node_t" where
  "log_is_up_to_date req_last_log_idx req_last_log_term nd =
     (let log_len = call_log_length nd;
          (my_last_term, nd) = raft_get_log_term (log_len - 1) nd
      in if my_last_term < req_last_log_term then (True, nd)
         else if my_last_term = req_last_log_term
              then (u32_of_int (log_len - 1) \<le> req_last_log_idx, nd)
              else (False, nd))"

definition append_log_entry :: "log_entry_t \<Rightarrow> ('l, 'p) raft_node_t \<Rightarrow> ('l, 'p) raft_node_t" where
  "append_log_entry entry nd =
     (let log_len = call_log_length nd
      in if log_len < 0 then nd else call_log_write log_len entry nd)"

section \<open>Sending one message\<close>

text \<open>
  Each send function declares a packet, packs into it and hands it to the transport, whatever
  the pack function returned.
\<close>

definition send_with ::
  "(pkt_t \<Rightarrow> int \<times> pkt_t) \<Rightarrow> ('l, 'p) raft_node_t \<Rightarrow> ('l, 'p) raft_node_t" where
  "send_with pack nd =
     (let (pkt, os) = fresh_pkt (node_os nd)
      in transport_send (snd (pack pkt)) (nd\<lparr>node_os := os\<rparr>))"

definition send_append_entries_request ::
  "u32 \<Rightarrow> append_entries_req_t \<Rightarrow> ('l, 'p) raft_node_t \<Rightarrow> ('l, 'p) raft_node_t" where
  "send_append_entries_request dst req nd =
     send_with (\<lambda>pkt. rpc_pack_append_entries_req pkt dst (node_id nd) req) nd"

definition send_append_entries_response ::
  "u32 \<Rightarrow> u32 \<Rightarrow> u32 \<Rightarrow> u8 \<Rightarrow> ('l, 'p) raft_node_t \<Rightarrow> ('l, 'p) raft_node_t" where
  "send_append_entries_response dst t new_match success nd =
     send_with (\<lambda>pkt. rpc_pack_append_entries_res pkt dst (node_id nd)
       \<lparr>aer_term = t, aer_new_match_index = new_match, aer_success = success\<rparr>) nd"

definition send_request_vote_request ::
  "u32 \<Rightarrow> request_vote_req_t \<Rightarrow> ('l, 'p) raft_node_t \<Rightarrow> ('l, 'p) raft_node_t" where
  "send_request_vote_request dst req nd =
     send_with (\<lambda>pkt. rpc_pack_request_vote_req pkt dst (node_id nd) req) nd"

definition send_request_vote_response ::
  "u32 \<Rightarrow> u32 \<Rightarrow> u8 \<Rightarrow> ('l, 'p) raft_node_t \<Rightarrow> ('l, 'p) raft_node_t" where
  "send_request_vote_response dst t vote_granted nd =
     send_with (\<lambda>pkt. rpc_pack_request_vote_res pkt dst (node_id nd)
       \<lparr>rvr_term = t, rvr_vote_granted = vote_granted\<rparr>) nd"

definition send_proc_response ::
  "u32 \<Rightarrow> proc_res_t \<Rightarrow> ('l, 'p) raft_node_t \<Rightarrow> ('l, 'p) raft_node_t" where
  "send_proc_response dst resp nd =
     send_with (\<lambda>pkt. rpc_pack_proc_res pkt dst (node_id nd) resp) nd"

section \<open>Broadcasts\<close>

text \<open>\<open>for (i = 0; i < num_nodes; i++) { if (i == id) continue; ... }\<close>\<close>

definition for_each_peer ::
  "(u32 \<Rightarrow> ('l, 'p) raft_node_t \<Rightarrow> ('l, 'p) raft_node_t) \<Rightarrow>
   ('l, 'p) raft_node_t \<Rightarrow> ('l, 'p) raft_node_t" where
  "for_each_peer body nd =
     fold (\<lambda>i nd'. if i = node_id nd then nd' else body i nd') (node_ids nd) nd"

definition broadcast_request_vote :: "('l, 'p) raft_node_t \<Rightarrow> ('l, 'p) raft_node_t" where
  "broadcast_request_vote nd =
     (let log_len = call_log_length nd
      in if log_len < 0 then nd
         else let (t, nd) = call_pf_get PF_CURRENT_TERM nd;
                  (last_term, nd) = raft_get_log_term (log_len - 1) nd;
                  req = \<lparr>rv_term = u32_of_int t, rv_candidate_id = node_id nd,
                         rv_last_log_idx = u32_of_int (log_len - 1),
                         rv_last_log_term = last_term\<rparr>
              in for_each_peer (\<lambda>i. send_request_vote_request i req) nd)"

definition zero_entry :: log_entry_t where
  "zero_entry = \<lparr>le_term = 0, le_client_id = 0, le_cmd_seqno = 0, le_cmd = 0\<rparr>"

text \<open>
  The entries of a request, read from the log. A read that fails leaves the zeroes the
  initialiser of \<open>req\<close> put into the array.
\<close>

primrec read_entries ::
  "nat \<Rightarrow> int \<Rightarrow> ('l, 'p) raft_node_t \<Rightarrow> log_entry_t list \<times> ('l, 'p) raft_node_t" where
  "read_entries 0 idx nd = ([], nd)"
| "read_entries (Suc k) idx nd =
     (let ((_, ent), nd) = call_log_read idx nd;
          (es, nd) = read_entries k (idx + 1) nd
      in ((case ent of Some e \<Rightarrow> e | None \<Rightarrow> zero_entry) # es, nd))"

definition broadcast_append_entries :: "('l, 'p) raft_node_t \<Rightarrow> ('l, 'p) raft_node_t" where
  "broadcast_append_entries nd =
     (if role nd \<noteq> LEADER then nd
      else let log_len = call_log_length nd;
               (t, nd) = call_pf_get PF_CURRENT_TERM nd;
               cur_term = u32_of_int t
           in for_each_peer (\<lambda>i nd.
                let next = next_index nd ! unat i;
                    (prev_term, nd) = raft_get_log_term (int_of_u32 next - 1) nd;
                    n_to_send = log_len - int_of_u32 next;
                    n_to_send = (if 32 < n_to_send then 32 else n_to_send);
                    n_to_send = (if n_to_send < 0 then 0 else n_to_send);
                    (es, nd) = read_entries (nat n_to_send) (int_of_u32 next) nd
                in send_append_entries_request i
                     \<lparr>ae_term = cur_term, ae_leader_id = node_id nd, ae_prev_log_idx = next - 1,
                      ae_prev_log_term = prev_term, ae_leader_commit = commit_index nd,
                      ae_n_entries = u32_of_int n_to_send, ae_entries = es\<rparr> nd) nd)"

definition send_heartbeats :: "('l, 'p) raft_node_t \<Rightarrow> ('l, 'p) raft_node_t" where
  "send_heartbeats nd =
     (if role nd \<noteq> LEADER then nd
      else let (cur_term, nd) = call_pf_get PF_CURRENT_TERM nd
           in for_each_peer (\<lambda>i nd.
                let next = next_index nd ! unat i;
                    (prev_term, nd) = raft_get_log_term (int_of_u32 next - 1) nd
                in send_append_entries_request i
                     \<lparr>ae_term = u32_of_int cur_term, ae_leader_id = node_id nd,
                      ae_prev_log_idx = next - 1, ae_prev_log_term = prev_term,
                      ae_leader_commit = commit_index nd, ae_n_entries = 0, ae_entries = []\<rparr>
                     nd) nd)"

section \<open>Timers\<close>

definition reset_timer :: "u64 \<Rightarrow> os_t \<Rightarrow> ('l, 'p) raft_node_t \<Rightarrow> ('l, 'p) raft_node_t" where
  "reset_timer duration os nd =
     (let (tm, os) = timer_reset ((timer nd)\<lparr>duration_usec := duration\<rparr>) os
      in nd\<lparr>timer := tm, node_os := os\<rparr>)"

text \<open>Whether the node waits a random timeout: always, or until the detector has its samples.\<close>

definition uses_random_timeout :: "('l, 'p) raft_node_t \<Rightarrow> bool" where
  "uses_random_timeout nd \<longleftrightarrow> cfg_timeout_scheme (config nd) = TS_TIMEOUT \<or>
     ht_num_intervals (heartbeat_telemetry nd) < ht_ramp_size (heartbeat_telemetry nd)"

definition set_fault_detect_timer :: "('l, 'p) raft_node_t \<Rightarrow> ('l, 'p) raft_node_t" where
  "set_fault_detect_timer nd =
     (if uses_random_timeout nd
      then let (d, os) = random_timeout_usec (cfg_timeout_lb_ms (config nd) * 1000)
                           (cfg_timeout_ub_ms (config nd) * 1000) (node_os nd)
           in reset_timer d os nd
      else if cfg_timeout_scheme (config nd) = TS_ACCRUAL
           then reset_timer (ACCRUAL_INTERVAL_MS * 1000) (node_os nd) nd
           else reset_timer (duration_usec (timer nd)) (node_os nd) nd)"

definition set_election_timer :: "('l, 'p) raft_node_t \<Rightarrow> ('l, 'p) raft_node_t" where
  "set_election_timer nd =
     (let (d, os) = random_timeout_usec (HEARTBEAT_INTERVAL_USEC * 3)
                      (HEARTBEAT_INTERVAL_USEC * 5) (node_os nd)
      in reset_timer d os nd)"

definition set_heartbeat_timer :: "('l, 'p) raft_node_t \<Rightarrow> ('l, 'p) raft_node_t" where
  "set_heartbeat_timer nd = reset_timer (ucast HEARTBEAT_INTERVAL_USEC) (node_os nd) nd"

definition raft_get_timeout_ms :: "('l, 'p) raft_node_t \<Rightarrow> u32 \<times> ('l, 'p) raft_node_t" where
  "raft_get_timeout_ms nd =
     (let (rem, os) = time_remaining_usec (timer nd) (node_os nd);
          nd = nd\<lparr>node_os := os\<rparr>
      in if rem = 0 then (0, nd) else (ucast ((rem + 999) div 1000), nd))"

end
