(* ===== verification/Raft_Roles.thy ===== *)
theory Raft_Roles
  imports Raft_Send
begin

text \<open>
  \<open>src/raft.c\<close>, lines 562 to 637: starting an election and the three changes of role.
\<close>

definition start_election :: "('l, 'p) raft_node_t \<Rightarrow> ('l, 'p) raft_node_t" where
  "start_election nd =
     (let (cur_term_opt, nd) = call_pf_get PF_CURRENT_TERM nd
      in if cur_term_opt < 0 then nd
         else let cur_term = u32_of_int cur_term_opt;
                  nd = call_pf_set PF_CURRENT_TERM (cur_term + 1) nd;
                  nd = call_pf_set PF_VOTED_FOR (node_id nd) nd;
                  nd = nd\<lparr>votes_received := 1\<rparr>;
                  nd = set_election_timer nd
              in broadcast_request_vote nd)"

definition become_follower ::
  "u32 \<Rightarrow> u32 \<Rightarrow> ('l, 'p) raft_node_t \<Rightarrow> ('l, 'p) raft_node_t" where
  "become_follower t lid nd =
     (let nd = call_pf_set PF_CURRENT_TERM t nd;
          nd = nd\<lparr>role := FOLLOWER, leader_id := lid\<rparr>;
          nd = call_pf_set PF_VOTED_FOR PF_NO_VOTE_V nd;
          nd = nd\<lparr>votes_received := 0\<rparr>;
          nd = telemetry_log ''became_follower'' t (ucast lid) nd;
          nd = nd\<lparr>heartbeat_telemetry := heartbeat_telemetry_reset (heartbeat_telemetry nd)\<rparr>
      in set_fault_detect_timer nd)"

definition become_candidate :: "('l, 'p) raft_node_t \<Rightarrow> ('l, 'p) raft_node_t" where
  "become_candidate nd =
     (let nd = nd\<lparr>role := CANDIDATE, leader_id := NO_LEADER, votes_received := 0\<rparr>;
          nd = nd\<lparr>heartbeat_telemetry := heartbeat_telemetry_reset (heartbeat_telemetry nd)\<rparr>;
          nd = start_election nd;
          (t, nd) = call_pf_get PF_CURRENT_TERM nd
      in telemetry_log ''became_candidate'' (u32_of_int t) 0 nd)"

definition become_leader :: "('l, 'p) raft_node_t \<Rightarrow> ('l, 'p) raft_node_t" where
  "become_leader nd =
     (let (t, nd) = call_pf_get PF_CURRENT_TERM nd;
          nd = telemetry_log ''became_leader'' (u32_of_int t) 0 nd;
          nd = nd\<lparr>role := LEADER, leader_id := NO_LEADER, heartbeat_count := 0\<rparr>;
          nd = nd\<lparr>heartbeat_telemetry := heartbeat_telemetry_reset (heartbeat_telemetry nd)\<rparr>;
          log_len = call_log_length nd;
          n = unat (cfg_num_nodes (config nd));
          nd = nd\<lparr>next_index := replicate n (u32_of_int log_len), match_index := replicate n (-1)\<rparr>;
          nd = set_heartbeat_timer nd
      in send_heartbeats nd)"

end
