(* ===== verification/Raft_Handlers.thy ===== *)
theory Raft_Handlers
  imports Raft_Roles
begin

text \<open>
  \<open>src/raft.c\<close>, lines 207 to 489: applying committed entries and the handlers of the RPC
  messages.
\<close>

section \<open>The state machine\<close>

fun find_outstanding :: "outstanding_req_t list \<Rightarrow> u32 \<Rightarrow> u32 \<Rightarrow> nat option" where
  "find_outstanding [] cid sn = None"
| "find_outstanding (r # rs) cid sn =
     (if or_active r \<noteq> 0 \<and> or_client_id r = cid \<and> or_cmd_seqno r = sn then Some 0
      else map_option Suc (find_outstanding rs cid sn))"

text \<open>The leader answers the client whose request the applied entry is.\<close>

definition answer_client :: "log_entry_t \<Rightarrow> ('l, 'p) raft_node_t \<Rightarrow> ('l, 'p) raft_node_t" where
  "answer_client entry nd =
     (case find_outstanding (outstanding_reqs nd) (le_client_id entry) (le_cmd_seqno entry) of
        None \<Rightarrow> nd
      | Some i \<Rightarrow>
          let (t, nd) = call_pf_get PF_CURRENT_TERM nd;
              nd = send_proc_response (le_client_id entry)
                \<lparr>ps_client_id = le_client_id entry, ps_cmd_seqno = le_cmd_seqno entry,
                 ps_success = 1, ps_leader_hint = node_id nd, ps_term = u32_of_int t\<rparr> nd
          in nd\<lparr>outstanding_reqs := (outstanding_reqs nd)
                  [i := (outstanding_reqs nd ! i)\<lparr>or_active := 0\<rparr>]\<rparr>)"

definition apply_one :: "('l, 'p) raft_node_t \<Rightarrow> ('l, 'p) raft_node_t" where
  "apply_one nd =
     (let nd = nd\<lparr>last_applied := last_applied nd + 1\<rparr>;
          ((bytes_read, ent), nd) = call_log_read (last_applied nd) nd
      in if bytes_read \<noteq> 16 then nd
         else case ent of None \<Rightarrow> nd
              | Some entry \<Rightarrow> if role nd = LEADER then answer_client entry nd else nd)"

text \<open>What sending and reading leave alone, for the termination of the loop.\<close>

lemma send_with_frame [frame]:
  "commit_index (send_with pack nd) = commit_index nd"
  "last_applied (send_with pack nd) = last_applied nd"
  by (simp_all add: send_with_def transport_send_def split_beta Let_def)

lemma call_frame [frame]:
  "commit_index (snd (call_log_read i nd)) = commit_index nd"
  "last_applied (snd (call_log_read i nd)) = last_applied nd"
  "commit_index (snd (call_pf_get f nd)) = commit_index nd"
  "last_applied (snd (call_pf_get f nd)) = last_applied nd"
  by (simp_all add: call_defs split_beta Let_def)

lemma apply_one_progress [frame]:
  "commit_index (apply_one nd) = commit_index nd"
  "last_applied (apply_one nd) = last_applied nd + 1"
  by (simp_all add: apply_one_def answer_client_def send_proc_response_def split_beta Let_def frame
      split: option.split)

function apply_to_state_machine :: "('l, 'p) raft_node_t \<Rightarrow> ('l, 'p) raft_node_t" where
  "apply_to_state_machine nd =
     (if last_applied nd < commit_index nd then apply_to_state_machine (apply_one nd) else nd)"
  by pat_completeness auto
termination
  by (relation "measure (\<lambda>nd. nat (commit_index nd - last_applied nd))") (auto simp: frame)

declare apply_to_state_machine.simps [simp del]

section \<open>AppendEntries\<close>

text \<open>
  A follower records the arrival of a heartbeat. \<open>None\<close> is the division by the window size 0
  in \<open>heartbeat_telemetry_record_interval\<close>.
\<close>

definition record_heartbeat ::
  "append_entries_req_t \<Rightarrow> u32 \<Rightarrow> ('l, 'p) raft_node_t \<Rightarrow> ('l, 'p) raft_node_t option" where
  "record_heartbeat req cur_term nd =
     (if role nd = FOLLOWER \<and> ae_n_entries req = 0
      then let (now, os) = get_usec (node_os nd);
               nd = nd\<lparr>node_os := os\<rparr>;
               ht = heartbeat_telemetry nd;
               interval = (if ht_last_heartbeat_usec ht \<noteq> 0
                           then now - ht_last_heartbeat_usec ht else 0)
           in case heartbeat_telemetry_record_interval ht now of
                None \<Rightarrow> None
              | Some ht \<Rightarrow>
                  let nd = nd\<lparr>heartbeat_telemetry := ht\<rparr>
                  in Some (if 0 < interval then telemetry_log ''heartbeat'' cur_term interval nd
                           else nd)
      else Some nd)"

text \<open>
  The loop over the new entries: \<open>log_idx\<close> is the index of the next one, \<open>log_len\<close> the local
  variable of the code.
\<close>

fun append_loop ::
  "log_entry_t list \<Rightarrow> u32 \<Rightarrow> int \<Rightarrow> ('l, 'p) raft_node_t \<Rightarrow> ('l, 'p) raft_node_t" where
  "append_loop [] log_idx log_len nd = nd"
| "append_loop (e # es) log_idx log_len nd =
     (if log_idx < u32_of_int log_len
      then let (t, nd) = raft_get_log_term (int_of_u32 log_idx) nd
           in if t \<noteq> le_term e
              then let nd = call_log_remove (log_len - int_of_u32 log_idx) nd;
                       log_len = int_of_u32 log_idx
                   in append_loop es (log_idx + 1) (log_len + 1)
                        (call_log_write (int_of_u32 log_idx) e nd)
              else append_loop es (log_idx + 1) log_len nd
      else append_loop es (log_idx + 1) (log_len + 1)
             (call_log_write (int_of_u32 log_idx) e nd))"

definition update_commit ::
  "append_entries_req_t \<Rightarrow> ('l, 'p) raft_node_t \<Rightarrow> ('l, 'p) raft_node_t" where
  "update_commit req nd =
     (if commit_index nd < ae_leader_commit req
      then let last_new_entry_idx = int_of_u32 (ae_prev_log_idx req + ae_n_entries req)
           in apply_to_state_machine (nd\<lparr>commit_index :=
                if ae_leader_commit req < last_new_entry_idx then ae_leader_commit req
                else last_new_entry_idx\<rparr>)
      else nd)"

text \<open>From the consistency check on: the part of the handler after the timer is set.\<close>

definition append_entries_to_log ::
  "append_entries_req_t \<Rightarrow> u32 \<Rightarrow> ('l, 'p) raft_node_t \<Rightarrow> ('l, 'p) raft_node_t" where
  "append_entries_to_log req cur_term nd =
     (let log_len = call_log_length nd
      in if log_len < 0 then nd
         else let (prev_term, nd) =
                    (if log_len \<le> int_of_u32 (ae_prev_log_idx req) then (0, nd)
                     else raft_get_log_term (int_of_u32 (ae_prev_log_idx req)) nd)
              in if log_len \<le> int_of_u32 (ae_prev_log_idx req) \<or> prev_term \<noteq> ae_prev_log_term req
                 then send_append_entries_response (ae_leader_id req) cur_term 0 0 nd
                 else let nd = append_loop (take (unat (ae_n_entries req)) (ae_entries req))
                                 (ae_prev_log_idx req + 1) log_len nd;
                          nd = update_commit req nd
                      in send_append_entries_response (ae_leader_id req) cur_term
                           (ae_prev_log_idx req + ae_n_entries req) 1 nd)"

definition handle_append_entries_request ::
  "append_entries_req_t \<Rightarrow> ('l, 'p) raft_node_t \<Rightarrow> ('l, 'p) raft_node_t" where
  "handle_append_entries_request req nd =
     (let (cur_term_opt, nd) = call_pf_get PF_CURRENT_TERM nd
      in if cur_term_opt < 0 then nd
         else let cur_term = u32_of_int cur_term_opt
              in if ae_term req < cur_term
                 then send_append_entries_response (ae_leader_id req) cur_term 0 0 nd
                 else let nd = (if cur_term < ae_term req \<or>
                                   ae_term req = cur_term \<and> role nd = CANDIDATE
                                then become_follower (ae_term req) (ae_leader_id req) nd
                                else nd\<lparr>leader_id := ae_leader_id req\<rparr>)
                      in case record_heartbeat req cur_term nd of
                           None \<Rightarrow> nd\<lparr>halted := Some (Undefined ''division by zero'')\<rparr>
                         | Some nd \<Rightarrow>
                             append_entries_to_log req cur_term (set_fault_detect_timer nd))"

definition match_count :: "int \<Rightarrow> ('l, 'p) raft_node_t \<Rightarrow> u32" where
  "match_count n nd =
     1 + of_nat (length (filter (\<lambda>i. i \<noteq> node_id nd \<and> n \<le> match_index nd ! unat i) (node_ids nd)))"

definition commit_step :: "u32 \<Rightarrow> int \<Rightarrow> ('l, 'p) raft_node_t \<Rightarrow> ('l, 'p) raft_node_t" where
  "commit_step cur_term n nd =
     (let (t, nd) = raft_get_log_term n nd
      in if t \<noteq> cur_term then nd
         else if cfg_num_nodes (config nd) div 2 < match_count n nd
              then nd\<lparr>commit_index := n\<rparr> else nd)"

definition advance_commit :: "u32 \<Rightarrow> int \<Rightarrow> ('l, 'p) raft_node_t \<Rightarrow> ('l, 'p) raft_node_t" where
  "advance_commit cur_term log_len nd =
     fold (commit_step cur_term) [commit_index nd + 1 .. log_len - 1] nd"

text \<open>
  The arrays \<open>match_index\<close> and \<open>next_index\<close> are indexed by the sender of the packet: a sender
  beyond them is an access out of bounds.
\<close>

definition handle_append_entries_response ::
  "u32 \<Rightarrow> append_entries_res_t \<Rightarrow> ('l, 'p) raft_node_t \<Rightarrow> ('l, 'p) raft_node_t" where
  "handle_append_entries_response src_id resp nd =
     (let (t, nd) = call_pf_get PF_CURRENT_TERM nd;
          cur_term = u32_of_int t
      in if cur_term < aer_term resp then become_follower (aer_term resp) src_id nd
         else if role nd \<noteq> LEADER \<or> aer_term resp < cur_term then nd
         else if length (match_index nd) \<le> unat src_id \<or> length (next_index nd) \<le> unat src_id
              then nd\<lparr>halted := Some (Undefined ''index out of bounds'')\<rparr>
         else if aer_success resp \<noteq> 0
              then let log_len = call_log_length nd;
                       nd = nd\<lparr>match_index := (match_index nd)
                                [unat src_id := int_of_u32 (aer_new_match_index resp)],
                               next_index := (next_index nd)[unat src_id := u32_of_int log_len]\<rparr>;
                       nd = advance_commit cur_term log_len nd
                   in apply_to_state_machine nd
              else if 0 < next_index nd ! unat src_id
                   then nd\<lparr>next_index := (next_index nd)
                             [unat src_id := next_index nd ! unat src_id - 1]\<rparr>
                   else nd)"

section \<open>RequestVote\<close>

definition decide_vote ::
  "request_vote_req_t \<Rightarrow> u32 \<Rightarrow> ('l, 'p) raft_node_t \<Rightarrow> ('l, 'p) raft_node_t" where
  "decide_vote req cur_term nd =
     (let (voted_for_opt, nd) = call_pf_get PF_VOTED_FOR nd
      in if voted_for_opt < 0 then nd
         else let voted_for = u32_of_int voted_for_opt;
                  has_voted = (voted_for \<noteq> PF_NO_VOTE_V)
              in if has_voted \<and> voted_for \<noteq> rv_candidate_id req
                 then send_request_vote_response (rv_candidate_id req) cur_term 0 nd
                 else let (up_to_date, nd) =
                            log_is_up_to_date (rv_last_log_idx req) (rv_last_log_term req) nd
                      in if \<not> up_to_date
                         then send_request_vote_response (rv_candidate_id req) cur_term 0 nd
                         else let nd = call_pf_set PF_VOTED_FOR (rv_candidate_id req) nd;
                                  nd = set_election_timer nd
                              in send_request_vote_response (rv_candidate_id req) cur_term 1 nd)"

definition handle_request_vote_request ::
  "u32 \<Rightarrow> request_vote_req_t \<Rightarrow> ('l, 'p) raft_node_t \<Rightarrow> ('l, 'p) raft_node_t" where
  "handle_request_vote_request src_id req nd =
     (let (cur_term_opt, nd) = call_pf_get PF_CURRENT_TERM nd
      in if cur_term_opt < 0 then nd
         else let cur_term = u32_of_int cur_term_opt
              in if rv_term req < cur_term
                 then send_request_vote_response (rv_candidate_id req) cur_term 0 nd
                 else if cur_term < rv_term req
                      then decide_vote req (rv_term req) (become_follower (rv_term req) src_id nd)
                      else decide_vote req cur_term nd)"

definition handle_request_vote_response ::
  "u32 \<Rightarrow> request_vote_res_t \<Rightarrow> ('l, 'p) raft_node_t \<Rightarrow> ('l, 'p) raft_node_t" where
  "handle_request_vote_response src_id resp nd =
     (if role nd \<noteq> CANDIDATE then nd
      else let (t, nd) = call_pf_get PF_CURRENT_TERM nd;
               cur_term = u32_of_int t
           in if cur_term < rvr_term resp then become_follower (rvr_term resp) src_id nd
              else if rvr_term resp < cur_term then nd
              else if rvr_vote_granted resp \<noteq> 0
                   then let nd = nd\<lparr>votes_received := votes_received nd + 1\<rparr>
                        in if cfg_num_nodes (config nd) div 2 < votes_received nd
                           then become_leader nd else nd
                   else nd)"

section \<open>Client requests\<close>

fun find_inactive :: "outstanding_req_t list \<Rightarrow> nat option" where
  "find_inactive [] = None"
| "find_inactive (r # rs) = (if or_active r = 0 then Some 0 else map_option Suc (find_inactive rs))"

definition handle_proc_request ::
  "proc_req_t \<Rightarrow> u32 \<Rightarrow> ('l, 'p) raft_node_t \<Rightarrow> ('l, 'p) raft_node_t" where
  "handle_proc_request req src_id nd =
     (if role nd \<noteq> LEADER
      then let (t, nd) = call_pf_get PF_CURRENT_TERM nd
           in send_proc_response src_id
                \<lparr>ps_client_id = pr_client_id req, ps_cmd_seqno = pr_cmd_seqno req, ps_success = 0,
                 ps_leader_hint = leader_id nd, ps_term = u32_of_int t\<rparr> nd
      else let log_len = call_log_length nd;
               (t, nd) = call_pf_get PF_CURRENT_TERM nd;
               nd = append_log_entry
                 \<lparr>le_term = u32_of_int t, le_client_id = pr_client_id req,
                  le_cmd_seqno = pr_cmd_seqno req, le_cmd = pr_cmd req\<rparr> nd;
               nd = (case find_inactive (outstanding_reqs nd) of
                       None \<Rightarrow> nd
                     | Some i \<Rightarrow> nd\<lparr>outstanding_reqs := (outstanding_reqs nd)
                         [i := \<lparr>or_client_id = pr_client_id req, or_cmd_seqno = pr_cmd_seqno req,
                                or_log_idx = u32_of_int log_len, or_active = 1\<rparr>]\<rparr>)
           in broadcast_append_entries nd)"

definition handle_proc_response ::
  "proc_res_t \<Rightarrow> ('l, 'p) raft_node_t \<Rightarrow> ('l, 'p) raft_node_t" where
  "handle_proc_response resp nd = nd"

end
