(* ===== verification/Raft_Run.thy ===== *)
theory Raft_Run
  imports Raft_Handlers
begin

text \<open>
  \<open>src/raft.c\<close>, lines 491 to 560 and 676 to 748: the dispatch of a packet, the timeout, and
  the event loop.
\<close>

section \<open>Dispatch\<close>

definition raft_handle_rpc :: "pkt_t \<Rightarrow> ('l, 'p) raft_node_t \<Rightarrow> ('l, 'p) raft_node_t" where
  "raft_handle_rpc pkt nd =
     (let code = h_code (pkt_header pkt); src = h_src (pkt_header pkt)
      in if code = RPC_CALL_APPEND_ENT
         then (case rpc_unpack_append_entries_req pkt of
                 Some req \<Rightarrow> handle_append_entries_request req nd | None \<Rightarrow> nd)
         else if code = RPC_RESP_APPEND_ENT
         then (case rpc_unpack_append_entries_res pkt of
                 Some resp \<Rightarrow> handle_append_entries_response src resp nd | None \<Rightarrow> nd)
         else if code = RPC_CALL_REQ_VOTE
         then (case rpc_unpack_request_vote_req pkt of
                 Some req \<Rightarrow> handle_request_vote_request src req nd | None \<Rightarrow> nd)
         else if code = RPC_RESP_REQ_VOTE
         then (case rpc_unpack_request_vote_res pkt of
                 Some resp \<Rightarrow> handle_request_vote_response src resp nd | None \<Rightarrow> nd)
         else if code = RPC_CALL_PROC
         then (case rpc_unpack_proc_req pkt of
                 Some req \<Rightarrow> handle_proc_request req src nd | None \<Rightarrow> nd)
         else if code = RPC_RESP_PROC
         then (case rpc_unpack_proc_res pkt of
                 Some resp \<Rightarrow> handle_proc_response resp nd | None \<Rightarrow> nd)
         else nd)"

section \<open>Timeout\<close>

definition raft_handle_timeout :: "('l, 'p) raft_node_t \<Rightarrow> ('l, 'p) raft_node_t" where
  "raft_handle_timeout nd =
     (let (t, nd) = call_pf_get PF_CURRENT_TERM nd;
          cur_term = u32_of_int t
      in case role nd of
           FOLLOWER \<Rightarrow>
             if uses_random_timeout nd
             then become_candidate (telemetry_log ''timeout'' cur_term 0 nd)
             else if cfg_timeout_scheme (config nd) = TS_ACCRUAL
             then let (failed, os) = heartbeat_telemetry_check_leader_failure
                        (heartbeat_telemetry nd) (node_os nd);
                      nd = nd\<lparr>node_os := os\<rparr>
                  in if failed then become_candidate (telemetry_log ''timeout'' cur_term 0 nd)
                     else set_fault_detect_timer nd
             else nd
         | CANDIDATE \<Rightarrow> start_election (telemetry_log ''timeout'' cur_term 0 nd)
         | LEADER \<Rightarrow>
             let nd = send_heartbeats (set_heartbeat_timer nd);
                 nd = nd\<lparr>heartbeat_count := heartbeat_count nd + 1\<rparr>
             in if 0 \<le> cfg_crash_after_h (config nd) \<and>
                   cfg_crash_after_h (config nd) \<le> heartbeat_count nd
                then let (t, nd) = call_pf_get PF_CURRENT_TERM nd;
                         nd = telemetry_log ''intentional_crash'' (u32_of_int t)
                                (word_of_int (heartbeat_count nd)) nd
                     in nd\<lparr>halted := Some (Exit 42)\<rparr>
                else nd)"

section \<open>The event loop\<close>

text \<open>
  One iteration, on what \<open>receive\<close> returned: 1 with a packet, 0 for a timeout, -1 for an error.
\<close>

definition raft_run_step :: "int \<times> pkt_t \<Rightarrow> ('l, 'p) raft_node_t \<Rightarrow> ('l, 'p) raft_node_t" where
  "raft_run_step received nd =
     (let (rc, pkt) = received;
          (timeout_ms, nd) = raft_get_timeout_ms nd
      in if rc = 1
         then if h_code (pkt_header pkt) = RPC_SHUTDOWN then nd\<lparr>running := 0\<rparr>
              else if h_dst (pkt_header pkt) \<noteq> node_id nd then nd
              else raft_handle_rpc pkt nd
         else if rc = 0 then raft_handle_timeout nd
         else let (expired, os) = timer_expired (timer nd) (node_os nd);
                  nd = nd\<lparr>node_os := os\<rparr>
              in if expired then raft_handle_timeout nd else nd\<lparr>running := 0\<rparr>)"

text \<open>The loop on a finite history of results of \<open>receive\<close>.\<close>

fun raft_run :: "(int \<times> pkt_t) list \<Rightarrow> ('l, 'p) raft_node_t \<Rightarrow> ('l, 'p) raft_node_t" where
  "raft_run [] nd = nd"
| "raft_run (r # rs) nd =
     (if running nd = 0 \<or> halted nd \<noteq> None then nd else raft_run rs (raft_run_step r nd))"

end
