(* ===== verification/Raft_Spec.thy ===== *)
theory Raft_Spec
  imports Raft_Run
begin

text \<open>
  The specification of a node: what its handlers do to the term, the vote, the role, the list of
  log entries, the indexes and the messages sent, with no files, packets, timers or telemetry.
  \<open>view\<close> reads it off a node, given what the contexts of the log and of the fields stand for.
  \<open>Raft_Refine\<close> proves that the handlers of the code compute these functions.
\<close>

section \<open>Messages\<close>

datatype rpc_msg =
    AppendReq append_entries_req_t
  | AppendRes append_entries_res_t
  | VoteReq request_vote_req_t
  | VoteRes request_vote_res_t
  | ProcReq proc_req_t
  | ProcRes proc_res_t
  | Shutdown
  | Garbage

record amsg =
  m_dst :: u32
  m_src :: u32
  m_body :: rpc_msg

definition decode_body :: "pkt_t \<Rightarrow> rpc_msg" where
  "decode_body pkt =
     (let code = h_code (pkt_header pkt)
      in if code = RPC_CALL_APPEND_ENT
         then case_option Garbage AppendReq (rpc_unpack_append_entries_req pkt)
         else if code = RPC_RESP_APPEND_ENT
         then case_option Garbage AppendRes (rpc_unpack_append_entries_res pkt)
         else if code = RPC_CALL_REQ_VOTE
         then case_option Garbage VoteReq (rpc_unpack_request_vote_req pkt)
         else if code = RPC_RESP_REQ_VOTE
         then case_option Garbage VoteRes (rpc_unpack_request_vote_res pkt)
         else if code = RPC_CALL_PROC
         then case_option Garbage ProcReq (rpc_unpack_proc_req pkt)
         else if code = RPC_RESP_PROC
         then case_option Garbage ProcRes (rpc_unpack_proc_res pkt)
         else if code = RPC_SHUTDOWN then Shutdown else Garbage)"

definition decode_pkt :: "pkt_t \<Rightarrow> amsg" where
  "decode_pkt pkt = \<lparr>m_dst = h_dst (pkt_header pkt), m_src = h_src (pkt_header pkt),
     m_body = decode_body pkt\<rparr>"

section \<open>The state of the specification\<close>

record anode =
  a_id :: u32
  a_num :: u32
  a_role :: raft_role_t
  a_term :: u32
  a_vote :: u32
  a_votes :: u32
  a_log :: "log_entry_t list"
  a_commit :: int
  a_applied :: int
  a_leader :: u32
  a_next :: "u32 list"
  a_match :: "int list"
  a_reqs :: "outstanding_req_t list"
  a_out :: "amsg list"
  a_running :: u8
  a_halted :: "halt_t option"

definition view ::
  "('l \<Rightarrow> log_entry_t list) \<Rightarrow> ('p \<Rightarrow> persistent_field_t \<Rightarrow> u32) \<Rightarrow> ('l, 'p) raft_node_t \<Rightarrow> anode" where
  "view entries field nd =
     \<lparr>a_id = node_id nd, a_num = cfg_num_nodes (config nd), a_role = role nd,
      a_term = field (pf_context (hard_state nd)) PF_CURRENT_TERM,
      a_vote = field (pf_context (hard_state nd)) PF_VOTED_FOR,
      a_votes = votes_received nd, a_log = entries (log_context (node_log nd)),
      a_commit = commit_index nd, a_applied = last_applied nd, a_leader = leader_id nd,
      a_next = next_index nd, a_match = match_index nd, a_reqs = outstanding_reqs nd,
      a_out = map decode_pkt (outbox nd), a_running = running nd, a_halted = halted nd\<rparr>"

section \<open>Operations\<close>

definition log_term :: "log_entry_t list \<Rightarrow> int \<Rightarrow> u32" where
  "log_term es i = (if 0 \<le> i \<and> i < int (length es) then le_term (es ! nat i) else 0)"

definition log_entry_at :: "log_entry_t list \<Rightarrow> int \<Rightarrow> log_entry_t" where
  "log_entry_at es i = (if 0 \<le> i \<and> i < int (length es) then es ! nat i else zero_entry)"

definition up_to_date :: "log_entry_t list \<Rightarrow> u32 \<Rightarrow> u32 \<Rightarrow> bool" where
  "up_to_date es req_idx req_term \<longleftrightarrow>
     (let mine = log_term es (int (length es) - 1)
      in mine < req_term \<or> mine = req_term \<and> u32_of_int (int (length es) - 1) \<le> req_idx)"

definition a_send :: "u32 \<Rightarrow> rpc_msg \<Rightarrow> anode \<Rightarrow> anode" where
  "a_send dst body a = a\<lparr>a_out := a_out a @ [\<lparr>m_dst = dst, m_src = a_id a, m_body = body\<rparr>]\<rparr>"

definition a_peers :: "anode \<Rightarrow> u32 list" where
  "a_peers a = filter (\<lambda>i. i \<noteq> a_id a) (map of_nat [0..<unat (a_num a)])"

definition a_broadcast :: "(u32 \<Rightarrow> rpc_msg) \<Rightarrow> anode \<Rightarrow> anode" where
  "a_broadcast body a =
     a\<lparr>a_out := a_out a @ map (\<lambda>i. \<lparr>m_dst = i, m_src = a_id a, m_body = body i\<rparr>) (a_peers a)\<rparr>"

definition a_vote_request :: "anode \<Rightarrow> request_vote_req_t" where
  "a_vote_request a =
     \<lparr>rv_term = a_term a, rv_candidate_id = a_id a,
      rv_last_log_idx = u32_of_int (int (length (a_log a)) - 1),
      rv_last_log_term = log_term (a_log a) (int (length (a_log a)) - 1)\<rparr>"

definition a_start_election :: "anode \<Rightarrow> anode" where
  "a_start_election a =
     (if int_of_u32 (a_term a) < 0 then a
      else let a = a\<lparr>a_term := a_term a + 1, a_vote := a_id a, a_votes := 1\<rparr>
           in a_broadcast (\<lambda>_. VoteReq (a_vote_request a)) a)"

definition a_become_follower :: "u32 \<Rightarrow> u32 \<Rightarrow> anode \<Rightarrow> anode" where
  "a_become_follower t lid a =
     a\<lparr>a_term := t, a_role := FOLLOWER, a_leader := lid, a_vote := PF_NO_VOTE_V, a_votes := 0\<rparr>"

definition a_become_candidate :: "anode \<Rightarrow> anode" where
  "a_become_candidate a =
     a_start_election (a\<lparr>a_role := CANDIDATE, a_leader := NO_LEADER, a_votes := 0\<rparr>)"

text \<open>The AppendEntries request to a peer, with at most \<open>limit\<close> entries.\<close>

definition a_append_request :: "int \<Rightarrow> anode \<Rightarrow> u32 \<Rightarrow> append_entries_req_t" where
  "a_append_request limit a i =
     (let next = a_next a ! unat i;
          n = max 0 (min limit (int (length (a_log a)) - int_of_u32 next))
      in \<lparr>ae_term = a_term a, ae_leader_id = a_id a, ae_prev_log_idx = next - 1,
          ae_prev_log_term = log_term (a_log a) (int_of_u32 next - 1),
          ae_leader_commit = a_commit a, ae_n_entries = u32_of_int n,
          ae_entries = map (\<lambda>j. log_entry_at (a_log a) (int_of_u32 next + int j)) [0..<nat n]\<rparr>)"

definition a_send_heartbeats :: "anode \<Rightarrow> anode" where
  "a_send_heartbeats a =
     (if a_role a \<noteq> LEADER then a else a_broadcast (\<lambda>i. AppendReq (a_append_request 0 a i)) a)"

definition a_broadcast_entries :: "anode \<Rightarrow> anode" where
  "a_broadcast_entries a =
     (if a_role a \<noteq> LEADER then a else a_broadcast (\<lambda>i. AppendReq (a_append_request 32 a i)) a)"

definition a_become_leader :: "anode \<Rightarrow> anode" where
  "a_become_leader a =
     a_send_heartbeats (a\<lparr>a_role := LEADER, a_leader := NO_LEADER,
       a_next := replicate (unat (a_num a)) (u32_of_int (int (length (a_log a)))),
       a_match := replicate (unat (a_num a)) (-1)\<rparr>)"

section \<open>Applying\<close>

definition a_answer :: "log_entry_t \<Rightarrow> anode \<Rightarrow> anode" where
  "a_answer entry a =
     (case find_outstanding (a_reqs a) (le_client_id entry) (le_cmd_seqno entry) of
        None \<Rightarrow> a
      | Some i \<Rightarrow>
          (a_send (le_client_id entry) (ProcRes \<lparr>ps_client_id = le_client_id entry,
             ps_cmd_seqno = le_cmd_seqno entry, ps_success = 1, ps_leader_hint = a_id a,
             ps_term = a_term a\<rparr>) a)
          \<lparr>a_reqs := (a_reqs a)[i := (a_reqs a ! i)\<lparr>or_active := 0\<rparr>]\<rparr>)"

definition a_apply_one :: "anode \<Rightarrow> anode" where
  "a_apply_one a =
     (let i = a_applied a + 1; a = a\<lparr>a_applied := i\<rparr>
      in if 0 \<le> i \<and> i < int (length (a_log a)) \<and> a_role a = LEADER
         then a_answer (a_log a ! nat i) a else a)"

primrec a_apply_n :: "nat \<Rightarrow> anode \<Rightarrow> anode" where
  "a_apply_n 0 a = a"
| "a_apply_n (Suc n) a = a_apply_n n (a_apply_one a)"

definition a_apply :: "anode \<Rightarrow> anode" where
  "a_apply a = a_apply_n (nat (a_commit a - a_applied a)) a"

section \<open>Handlers\<close>

text \<open>
  The loop of the handler over a list: the entries of a request from index \<open>idx\<close> on, into a log
  the loop takes to have \<open>len\<close> entries. \<open>merge_entries\<close> below is what it computes for a request
  that passed the consistency check.
\<close>

definition list_write :: "int \<Rightarrow> log_entry_t \<Rightarrow> log_entry_t list \<Rightarrow> log_entry_t list" where
  "list_write i e es =
     (if i = int (length es) then es @ [e]
      else if 0 \<le> i \<and> i < int (length es) then es[nat i := e] else es)"

definition list_remove :: "int \<Rightarrow> log_entry_t list \<Rightarrow> log_entry_t list" where
  "list_remove n es = take (length es - nat n) es"

fun a_append_loop ::
  "log_entry_t list \<Rightarrow> u32 \<Rightarrow> int \<Rightarrow> log_entry_t list \<Rightarrow> log_entry_t list" where
  "a_append_loop [] idx len es = es"
| "a_append_loop (e # new) idx len es =
     (if idx < u32_of_int len
      then if log_term es (int_of_u32 idx) \<noteq> le_term e
           then a_append_loop new (idx + 1) (int_of_u32 idx + 1)
                  (list_write (int_of_u32 idx) e (list_remove (len - int_of_u32 idx) es))
           else a_append_loop new (idx + 1) len es
      else a_append_loop new (idx + 1) (len + 1) (list_write (int_of_u32 idx) e es))"

fun merge_entries :: "log_entry_t list \<Rightarrow> nat \<Rightarrow> log_entry_t list \<Rightarrow> log_entry_t list" where
  "merge_entries [] i es = es"
| "merge_entries (e # new) i es =
     (if i < length es
      then if le_term (es ! i) \<noteq> le_term e then merge_entries new (Suc i) (take i es @ [e])
           else merge_entries new (Suc i) es
      else merge_entries new (Suc i) (es @ [e]))"

definition a_update_commit :: "append_entries_req_t \<Rightarrow> anode \<Rightarrow> anode" where
  "a_update_commit req a =
     (if a_commit a < ae_leader_commit req
      then a_apply (a\<lparr>a_commit := min (ae_leader_commit req)
             (int_of_u32 (ae_prev_log_idx req + ae_n_entries req))\<rparr>)
      else a)"

definition a_append_response :: "u32 \<Rightarrow> u32 \<Rightarrow> u32 \<Rightarrow> u8 \<Rightarrow> anode \<Rightarrow> anode" where
  "a_append_response dst t m ok a =
     a_send dst (AppendRes \<lparr>aer_term = t, aer_new_match_index = m, aer_success = ok\<rparr>) a"

definition a_append_to_log :: "append_entries_req_t \<Rightarrow> u32 \<Rightarrow> anode \<Rightarrow> anode" where
  "a_append_to_log req cur_term a =
     (let prev = int_of_u32 (ae_prev_log_idx req)
      in if int (length (a_log a)) \<le> prev \<or> log_term (a_log a) prev \<noteq> ae_prev_log_term req
         then a_append_response (ae_leader_id req) cur_term 0 0 a
         else a_append_response (ae_leader_id req) cur_term
                (ae_prev_log_idx req + ae_n_entries req) 1
                (a_update_commit req
                  (a\<lparr>a_log := a_append_loop (take (unat (ae_n_entries req)) (ae_entries req))
                    (ae_prev_log_idx req + 1) (int (length (a_log a))) (a_log a)\<rparr>)))"

definition a_append_request_handler :: "append_entries_req_t \<Rightarrow> anode \<Rightarrow> anode" where
  "a_append_request_handler req a =
     (if int_of_u32 (a_term a) < 0 then a
      else if ae_term req < a_term a
      then a_append_response (ae_leader_id req) (a_term a) 0 0 a
      else a_append_to_log req (a_term a)
             (if a_term a < ae_term req \<or> ae_term req = a_term a \<and> a_role a = CANDIDATE
              then a_become_follower (ae_term req) (ae_leader_id req) a
              else a\<lparr>a_leader := ae_leader_id req\<rparr>))"

definition a_match_count :: "int \<Rightarrow> anode \<Rightarrow> u32" where
  "a_match_count n a = 1 + of_nat (length (filter (\<lambda>i. n \<le> a_match a ! unat i) (a_peers a)))"

definition a_commit_step :: "int \<Rightarrow> anode \<Rightarrow> anode" where
  "a_commit_step n a =
     (if log_term (a_log a) n = a_term a \<and> a_num a div 2 < a_match_count n a
      then a\<lparr>a_commit := n\<rparr> else a)"

definition a_advance_commit :: "anode \<Rightarrow> anode" where
  "a_advance_commit a =
     fold a_commit_step [a_commit a + 1 .. int (length (a_log a)) - 1] a"

definition a_append_response_handler :: "u32 \<Rightarrow> append_entries_res_t \<Rightarrow> anode \<Rightarrow> anode" where
  "a_append_response_handler src resp a =
     (if a_term a < aer_term resp then a_become_follower (aer_term resp) src a
      else if a_role a \<noteq> LEADER \<or> aer_term resp < a_term a then a
      else if length (a_match a) \<le> unat src \<or> length (a_next a) \<le> unat src
           then a\<lparr>a_halted := Some (Undefined ''index out of bounds'')\<rparr>
      else if aer_success resp \<noteq> 0
           then a_apply (a_advance_commit
                  (a\<lparr>a_match := (a_match a)[unat src := int_of_u32 (aer_new_match_index resp)],
                     a_next := (a_next a)[unat src := u32_of_int (int (length (a_log a)))]\<rparr>))
           else if 0 < a_next a ! unat src
                then a\<lparr>a_next := (a_next a)[unat src := a_next a ! unat src - 1]\<rparr> else a)"

definition a_vote_response :: "u32 \<Rightarrow> u32 \<Rightarrow> u8 \<Rightarrow> anode \<Rightarrow> anode" where
  "a_vote_response dst t granted a =
     a_send dst (VoteRes \<lparr>rvr_term = t, rvr_vote_granted = granted\<rparr>) a"

definition a_decide_vote :: "request_vote_req_t \<Rightarrow> anode \<Rightarrow> anode" where
  "a_decide_vote req a =
     (if int_of_u32 (a_vote a) < 0 then a
      else if (a_vote a = PF_NO_VOTE_V \<or> a_vote a = rv_candidate_id req) \<and>
              up_to_date (a_log a) (rv_last_log_idx req) (rv_last_log_term req)
      then a_vote_response (rv_candidate_id req) (a_term a) 1 (a\<lparr>a_vote := rv_candidate_id req\<rparr>)
      else a_vote_response (rv_candidate_id req) (a_term a) 0 a)"

definition a_vote_request_handler :: "u32 \<Rightarrow> request_vote_req_t \<Rightarrow> anode \<Rightarrow> anode" where
  "a_vote_request_handler src req a =
     (if int_of_u32 (a_term a) < 0 then a
      else if rv_term req < a_term a
      then a_vote_response (rv_candidate_id req) (a_term a) 0 a
      else a_decide_vote req
             (if a_term a < rv_term req then a_become_follower (rv_term req) src a else a))"

definition a_vote_response_handler :: "u32 \<Rightarrow> request_vote_res_t \<Rightarrow> anode \<Rightarrow> anode" where
  "a_vote_response_handler src resp a =
     (if a_role a \<noteq> CANDIDATE then a
      else if a_term a < rvr_term resp then a_become_follower (rvr_term resp) src a
      else if rvr_term resp < a_term a \<or> rvr_vote_granted resp = 0 then a
      else let a = a\<lparr>a_votes := a_votes a + 1\<rparr>
           in if a_num a div 2 < a_votes a then a_become_leader a else a)"

definition a_proc_request_handler :: "u32 \<Rightarrow> proc_req_t \<Rightarrow> anode \<Rightarrow> anode" where
  "a_proc_request_handler src req a =
     (if a_role a \<noteq> LEADER
      then a_send src (ProcRes \<lparr>ps_client_id = pr_client_id req, ps_cmd_seqno = pr_cmd_seqno req,
             ps_success = 0, ps_leader_hint = a_leader a, ps_term = a_term a\<rparr>) a
      else let i = length (a_log a);
               a = a\<lparr>a_log := a_log a @ [\<lparr>le_term = a_term a, le_client_id = pr_client_id req,
                      le_cmd_seqno = pr_cmd_seqno req, le_cmd = pr_cmd req\<rparr>]\<rparr>
           in a_broadcast_entries (case find_inactive (a_reqs a) of None \<Rightarrow> a
                | Some k \<Rightarrow> a\<lparr>a_reqs := (a_reqs a)[k := \<lparr>or_client_id = pr_client_id req,
                    or_cmd_seqno = pr_cmd_seqno req, or_log_idx = u32_of_int (int i),
                    or_active = 1\<rparr>]\<rparr>))"

definition a_handle :: "amsg \<Rightarrow> anode \<Rightarrow> anode" where
  "a_handle m a =
     (case m_body m of
        AppendReq req \<Rightarrow> a_append_request_handler req a
      | AppendRes resp \<Rightarrow> a_append_response_handler (m_src m) resp a
      | VoteReq req \<Rightarrow> a_vote_request_handler (m_src m) req a
      | VoteRes resp \<Rightarrow> a_vote_response_handler (m_src m) resp a
      | ProcReq req \<Rightarrow> a_proc_request_handler (m_src m) req a
      | _ \<Rightarrow> a)"

definition a_receive :: "amsg \<Rightarrow> anode \<Rightarrow> anode" where
  "a_receive m a =
     (if m_body m = Shutdown then a\<lparr>a_running := 0\<rparr>
      else if m_dst m \<noteq> a_id a then a else a_handle m a)"

text \<open>
  A timeout: an election for a follower or a candidate, heartbeats for a leader, which may then
  exit. A follower whose detector does not suspect the leader does nothing.
\<close>

definition a_elect :: "anode \<Rightarrow> anode" where
  "a_elect a = (case a_role a of FOLLOWER \<Rightarrow> a_become_candidate a
     | CANDIDATE \<Rightarrow> a_start_election a | LEADER \<Rightarrow> a_send_heartbeats a)"

text \<open>The state of the specification after a start: what is on disk, and nothing else.\<close>

definition a_boot ::
  "u32 \<Rightarrow> u32 \<Rightarrow> log_entry_t list \<Rightarrow> u32 \<Rightarrow> u32 \<Rightarrow> u32 list \<Rightarrow> int list \<Rightarrow> anode" where
  "a_boot i n es t v ns ms =
     \<lparr>a_id = i, a_num = n, a_role = FOLLOWER, a_term = t, a_vote = v, a_votes = 0, a_log = es,
      a_commit = -1, a_applied = -1, a_leader = NO_LEADER, a_next = ns, a_match = ms,
      a_reqs = replicate MAX_OUTSTANDING_REQUESTS zero_outstanding, a_out = [], a_running = 1,
      a_halted = None\<rparr>"

text \<open>The log has room for the entries of one more request.\<close>

definition has_room :: "anode \<Rightarrow> bool" where
  "has_room a \<longleftrightarrow> length (a_log a) + 32 \<le> log_capacity"

end
