(* ===== verification/Raft_Refine.thy ===== *)
theory Raft_Refine
  imports Raft_Spec
begin

text \<open>
  The handlers of the code compute the handlers of the specification. The proofs are in the
  locale \<open>raft_env\<close>, which puts the contracts of the log and of the persisted fields together:
  they hold for every log and every field store that keep their contract. \<open>node_ok\<close> is the
  invariant they need: the node uses those stores in a good state, its uninitialised packets
  and those it sends have the size of a packet, its telemetry is well formed, and its commit
  index is a C \<open>int\<close>.
\<close>

definition node_ok ::
  "'l log_t \<Rightarrow> ('l \<Rightarrow> bool) \<Rightarrow> 'p persistent_fields_t \<Rightarrow> ('p \<Rightarrow> bool) \<Rightarrow>
   ('l, 'p) raft_node_t \<Rightarrow> bool" where
  "node_ok L good F fgood nd \<longleftrightarrow>
     node_log nd = L\<lparr>log_context := log_context (node_log nd)\<rparr> \<and>
     good (log_context (node_log nd)) \<and>
     hard_state nd = F\<lparr>pf_context := pf_context (hard_state nd)\<rparr> \<and>
     fgood (pf_context (hard_state nd)) \<and>
     wf_os (node_os nd) \<and> wf_telemetry (heartbeat_telemetry nd) \<and>
     ht_window_size (heartbeat_telemetry nd) \<noteq> 0 \<and>
     - (2 ^ 31) \<le> commit_index nd \<and> commit_index nd < 2 ^ 31 \<and> list_all wf_pkt (outbox nd)"

section \<open>What the specification does not see\<close>

named_theorems view_simps \<open>the view of an updated node\<close>

lemma view_update [view_simps]:
  "view E D (nd\<lparr>timer := tm\<rparr>) = view E D nd"
  "view E D (nd\<lparr>node_os := os\<rparr>) = view E D nd"
  "view E D (nd\<lparr>csv := lines\<rparr>) = view E D nd"
  "view E D (nd\<lparr>heartbeat_telemetry := ht\<rparr>) = view E D nd"
  "view E D (nd\<lparr>heartbeat_count := n\<rparr>) = view E D nd"
  "view E D (nd\<lparr>role := r\<rparr>) = (view E D nd)\<lparr>a_role := r\<rparr>"
  "view E D (nd\<lparr>votes_received := v\<rparr>) = (view E D nd)\<lparr>a_votes := v\<rparr>"
  "view E D (nd\<lparr>leader_id := l\<rparr>) = (view E D nd)\<lparr>a_leader := l\<rparr>"
  "view E D (nd\<lparr>commit_index := c\<rparr>) = (view E D nd)\<lparr>a_commit := c\<rparr>"
  "view E D (nd\<lparr>last_applied := c\<rparr>) = (view E D nd)\<lparr>a_applied := c\<rparr>"
  "view E D (nd\<lparr>next_index := ns\<rparr>) = (view E D nd)\<lparr>a_next := ns\<rparr>"
  "view E D (nd\<lparr>match_index := ms\<rparr>) = (view E D nd)\<lparr>a_match := ms\<rparr>"
  "view E D (nd\<lparr>outstanding_reqs := rs\<rparr>) = (view E D nd)\<lparr>a_reqs := rs\<rparr>"
  "view E D (nd\<lparr>running := b\<rparr>) = (view E D nd)\<lparr>a_running := b\<rparr>"
  "view E D (nd\<lparr>halted := h\<rparr>) = (view E D nd)\<lparr>a_halted := h\<rparr>"
  by (simp_all add: view_def node_id_def)

lemma view_select [view_simps]:
  "a_id (view E D nd) = node_id nd"
  "a_num (view E D nd) = cfg_num_nodes (config nd)"
  "a_role (view E D nd) = role nd"
  "a_votes (view E D nd) = votes_received nd"
  "a_commit (view E D nd) = commit_index nd"
  "a_applied (view E D nd) = last_applied nd"
  "a_leader (view E D nd) = leader_id nd"
  "a_next (view E D nd) = next_index nd"
  "a_match (view E D nd) = match_index nd"
  "a_reqs (view E D nd) = outstanding_reqs nd"
  "a_running (view E D nd) = running nd"
  "a_halted (view E D nd) = halted nd"
  by (simp_all add: view_def)

lemma node_ok_update [view_simps]:
  "node_ok L g F h (nd\<lparr>timer := tm\<rparr>) = node_ok L g F h nd"
  "node_ok L g F h (nd\<lparr>csv := lines\<rparr>) = node_ok L g F h nd"
  "node_ok L g F h (nd\<lparr>heartbeat_count := n\<rparr>) = node_ok L g F h nd"
  "node_ok L g F h (nd\<lparr>role := r\<rparr>) = node_ok L g F h nd"
  "node_ok L g F h (nd\<lparr>votes_received := v\<rparr>) = node_ok L g F h nd"
  "node_ok L g F h (nd\<lparr>leader_id := l\<rparr>) = node_ok L g F h nd"
  "node_ok L g F h (nd\<lparr>last_applied := c\<rparr>) = node_ok L g F h nd"
  "node_ok L g F h (nd\<lparr>next_index := ns\<rparr>) = node_ok L g F h nd"
  "node_ok L g F h (nd\<lparr>match_index := ms\<rparr>) = node_ok L g F h nd"
  "node_ok L g F h (nd\<lparr>outstanding_reqs := rs\<rparr>) = node_ok L g F h nd"
  "node_ok L g F h (nd\<lparr>running := b\<rparr>) = node_ok L g F h nd"
  "node_ok L g F h (nd\<lparr>halted := hl\<rparr>) = node_ok L g F h nd"
  by (simp_all add: node_ok_def)

lemma node_ok_os [view_simps]:
  "node_ok L g F h nd \<Longrightarrow> wf_os os \<Longrightarrow> node_ok L g F h (nd\<lparr>node_os := os\<rparr>)"
  by (simp add: node_ok_def)

lemma node_ok_commit [view_simps]:
  "node_ok L g F h nd \<Longrightarrow> - (2 ^ 31) \<le> c \<Longrightarrow> c < 2 ^ 31 \<Longrightarrow>
     node_ok L g F h (nd\<lparr>commit_index := c\<rparr>)"
  by (simp add: node_ok_def)

lemma node_ok_wf_os [view_simps]: "node_ok L g F h nd \<Longrightarrow> wf_os (node_os nd)"
  by (simp add: node_ok_def)

lemma node_ok_telemetry [view_simps]:
  "node_ok L g F h nd \<Longrightarrow> wf_telemetry ht \<Longrightarrow> ht_window_size ht \<noteq> 0 \<Longrightarrow>
     node_ok L g F h (nd\<lparr>heartbeat_telemetry := ht\<rparr>)"
  by (simp add: node_ok_def)

lemma reset_window [view_simps]:
  "ht_window_size (heartbeat_telemetry_reset ht) = ht_window_size ht"
  by (simp add: heartbeat_telemetry_reset_def)

lemma telemetry_log_keeps [view_simps]:
  "config (telemetry_log event t v nd) = config nd"
  "heartbeat_telemetry (telemetry_log event t v nd) = heartbeat_telemetry nd"
  by (simp_all add: telemetry_log_def split_beta Let_def)

lemma node_id_update [view_simps]:
  "node_id (nd\<lparr>timer := tm\<rparr>) = node_id nd"
  "node_id (nd\<lparr>node_os := os\<rparr>) = node_id nd"
  "node_id (nd\<lparr>csv := lines\<rparr>) = node_id nd"
  "node_id (nd\<lparr>outbox := out\<rparr>) = node_id nd"
  "node_id (nd\<lparr>votes_received := v\<rparr>) = node_id nd"
  "node_id (nd\<lparr>node_log := lg\<rparr>) = node_id nd"
  "node_id (nd\<lparr>hard_state := hs\<rparr>) = node_id nd"
  by (simp_all add: node_id_def)

section \<open>Timers and telemetry\<close>

lemma reset_timer_sim [view_simps]:
  "view E D (reset_timer d os nd) = view E D nd"
  "node_ok L g F h nd \<Longrightarrow> wf_os os \<Longrightarrow> node_ok L g F h (reset_timer d os nd)"
  by (simp_all add: reset_timer_def split_beta Let_def view_simps)

lemma timers_sim [view_simps]:
  "view E D (set_fault_detect_timer nd) = view E D nd"
  "view E D (set_election_timer nd) = view E D nd"
  "view E D (set_heartbeat_timer nd) = view E D nd"
  "view E D (snd (raft_get_timeout_ms nd)) = view E D nd"
  "node_ok L g F h nd \<Longrightarrow> node_ok L g F h (set_fault_detect_timer nd)"
  "node_ok L g F h nd \<Longrightarrow> node_ok L g F h (set_election_timer nd)"
  "node_ok L g F h nd \<Longrightarrow> node_ok L g F h (set_heartbeat_timer nd)"
  "node_ok L g F h nd \<Longrightarrow> node_ok L g F h (snd (raft_get_timeout_ms nd))"
  by (simp_all add: set_fault_detect_timer_def set_election_timer_def set_heartbeat_timer_def
      raft_get_timeout_ms_def split_beta Let_def view_simps)

lemma telemetry_sim [view_simps]:
  "view E D (telemetry_log event t v nd) = view E D nd"
  "node_ok L g F h nd \<Longrightarrow> node_ok L g F h (telemetry_log event t v nd)"
  by (simp_all add: telemetry_log_def split_beta Let_def view_simps)

section \<open>What the calls leave alone\<close>

lemma call_keeps [view_simps]:
  "node_id (snd (call_log_read i nd)) = node_id nd"
  "config (snd (call_log_read i nd)) = config nd"
  "role (snd (call_log_read i nd)) = role nd"
  "next_index (snd (call_log_read i nd)) = next_index nd"
  "match_index (snd (call_log_read i nd)) = match_index nd"
  "commit_index (snd (call_log_read i nd)) = commit_index nd"
  "last_applied (snd (call_log_read i nd)) = last_applied nd"
  "outstanding_reqs (snd (call_log_read i nd)) = outstanding_reqs nd"
  "votes_received (snd (call_log_read i nd)) = votes_received nd"
  "heartbeat_telemetry (snd (call_log_read i nd)) = heartbeat_telemetry nd"
  "node_os (snd (call_log_read i nd)) = node_os nd"
  "timer (snd (call_log_read i nd)) = timer nd"
  "node_id (snd (call_pf_get f nd)) = node_id nd"
  "config (snd (call_pf_get f nd)) = config nd"
  "role (snd (call_pf_get f nd)) = role nd"
  "next_index (snd (call_pf_get f nd)) = next_index nd"
  "match_index (snd (call_pf_get f nd)) = match_index nd"
  "commit_index (snd (call_pf_get f nd)) = commit_index nd"
  "last_applied (snd (call_pf_get f nd)) = last_applied nd"
  "outstanding_reqs (snd (call_pf_get f nd)) = outstanding_reqs nd"
  "votes_received (snd (call_pf_get f nd)) = votes_received nd"
  "heartbeat_telemetry (snd (call_pf_get f nd)) = heartbeat_telemetry nd"
  "node_os (snd (call_pf_get f nd)) = node_os nd"
  "timer (snd (call_pf_get f nd)) = timer nd"
  "node_id (call_pf_set f v nd) = node_id nd"
  "config (call_pf_set f v nd) = config nd"
  "role (call_pf_set f v nd) = role nd"
  "next_index (call_pf_set f v nd) = next_index nd"
  "match_index (call_pf_set f v nd) = match_index nd"
  "commit_index (call_pf_set f v nd) = commit_index nd"
  "last_applied (call_pf_set f v nd) = last_applied nd"
  "outstanding_reqs (call_pf_set f v nd) = outstanding_reqs nd"
  "votes_received (call_pf_set f v nd) = votes_received nd"
  "heartbeat_telemetry (call_pf_set f v nd) = heartbeat_telemetry nd"
  "node_os (call_pf_set f v nd) = node_os nd"
  "timer (call_pf_set f v nd) = timer nd"
  by (simp_all add: call_defs node_id_def split_beta Let_def)

lemma get_log_term_keeps [view_simps]:
  "node_id (snd (raft_get_log_term i nd)) = node_id nd"
  "config (snd (raft_get_log_term i nd)) = config nd"
  "role (snd (raft_get_log_term i nd)) = role nd"
  "next_index (snd (raft_get_log_term i nd)) = next_index nd"
  "match_index (snd (raft_get_log_term i nd)) = match_index nd"
  "commit_index (snd (raft_get_log_term i nd)) = commit_index nd"
  "last_applied (snd (raft_get_log_term i nd)) = last_applied nd"
  "outstanding_reqs (snd (raft_get_log_term i nd)) = outstanding_reqs nd"
  "votes_received (snd (raft_get_log_term i nd)) = votes_received nd"
  "heartbeat_telemetry (snd (raft_get_log_term i nd)) = heartbeat_telemetry nd"
  "node_os (snd (raft_get_log_term i nd)) = node_os nd"
  "timer (snd (raft_get_log_term i nd)) = timer nd"
  by (simp_all add: raft_get_log_term_def split_beta Let_def view_simps split: option.split)

lemma send_proc_response_keeps [view_simps]:
  "outstanding_reqs (send_proc_response dst resp nd) = outstanding_reqs nd"
  by (simp add: send_proc_response_def send_with_def transport_send_def split_beta Let_def)

named_theorems count_keeps \<open>what keeps the heartbeat count and the configuration\<close>

lemma for_each_peer_keeps:
  assumes "\<And>i y. g (body i y) = g y"
  shows "g (for_each_peer body nd) = g nd"
proof -
  have "g (fold (\<lambda>i y. if i = k then y else body i y) is x) = g x" for k "is" x
    using assms by (induction "is" arbitrary: x) simp_all
  then show ?thesis by (simp add: for_each_peer_def)
qed

lemma call_count [count_keeps]:
  "heartbeat_count (send_with pack nd) = heartbeat_count nd"
  "config (send_with pack nd) = config nd"
  "heartbeat_count (snd (raft_get_log_term i nd)) = heartbeat_count nd"
  "config (snd (raft_get_log_term i nd)) = config nd"
  "heartbeat_count (snd (call_pf_get f nd)) = heartbeat_count nd"
  "config (snd (call_pf_get f nd)) = config nd"
  "role (snd (call_pf_get f nd)) = role nd"
  "heartbeat_count (set_heartbeat_timer nd) = heartbeat_count nd"
  "config (set_heartbeat_timer nd) = config nd"
  by (simp_all add: send_with_def transport_send_def raft_get_log_term_def call_log_read_def
      call_pf_get_def set_heartbeat_timer_def reset_timer_def split_beta Let_def split: option.split)

lemma send_heartbeats_count [count_keeps]:
  "heartbeat_count (send_heartbeats nd) = heartbeat_count nd"
  "config (send_heartbeats nd) = config nd"
  unfolding send_heartbeats_def split_beta Let_def send_append_entries_request_def
  by (simp_all add: count_keeps for_each_peer_keeps [where g = heartbeat_count]
      for_each_peer_keeps [where g = config])

section \<open>Decoding what was packed\<close>

lemma decode_packed:
  assumes "wf_pkt pkt"
  shows "decode_pkt (snd (rpc_pack_append_entries_res pkt dst src aeres)) =
      \<lparr>m_dst = dst, m_src = src, m_body = AppendRes aeres\<rparr>"
    and "decode_pkt (snd (rpc_pack_request_vote_req pkt dst src rvreq)) =
      \<lparr>m_dst = dst, m_src = src, m_body = VoteReq rvreq\<rparr>"
    and "decode_pkt (snd (rpc_pack_request_vote_res pkt dst src rvres)) =
      \<lparr>m_dst = dst, m_src = src, m_body = VoteRes rvres\<rparr>"
    and "decode_pkt (snd (rpc_pack_proc_req pkt dst src preq)) =
      \<lparr>m_dst = dst, m_src = src, m_body = ProcReq preq\<rparr>"
    and "decode_pkt (snd (rpc_pack_proc_res pkt dst src pres)) =
      \<lparr>m_dst = dst, m_src = src, m_body = ProcRes pres\<rparr>"
    and "wf_ae aereq \<Longrightarrow> decode_pkt (snd (rpc_pack_append_entries_req pkt dst src aereq)) =
      \<lparr>m_dst = dst, m_src = src, m_body = AppendReq aereq\<rparr>"
  using pack_append_entries_res_ok [OF assms] pack_request_vote_req_ok [OF assms]
    pack_request_vote_res_ok [OF assms] pack_proc_req_ok [OF assms] pack_proc_res_ok [OF assms]
    pack_append_entries_req_ok [OF assms]
  by (simp_all add: decode_pkt_def decode_body_def Let_def rpc_codes)

text \<open>The dispatch of a packet is the dispatch on its decoded body.\<close>

lemma handle_rpc_decode:
  "raft_handle_rpc pkt nd =
     (case decode_body pkt of
        AppendReq req \<Rightarrow> handle_append_entries_request req nd
      | AppendRes resp \<Rightarrow> handle_append_entries_response (h_src (pkt_header pkt)) resp nd
      | VoteReq req \<Rightarrow> handle_request_vote_request (h_src (pkt_header pkt)) req nd
      | VoteRes resp \<Rightarrow> handle_request_vote_response (h_src (pkt_header pkt)) resp nd
      | ProcReq req \<Rightarrow> handle_proc_request req (h_src (pkt_header pkt)) nd
      | ProcRes resp \<Rightarrow> handle_proc_response resp nd
      | _ \<Rightarrow> nd)"
proof -
  let ?c = "h_code (pkt_header pkt)"
  note defs = raft_handle_rpc_def decode_body_def Let_def rpc_codes
  consider "?c = 0" | "?c = 1" | "?c = 2" | "?c = 3" | "?c = 4" | "?c = 5"
    | "?c \<noteq> 0" "?c \<noteq> 1" "?c \<noteq> 2" "?c \<noteq> 3" "?c \<noteq> 4" "?c \<noteq> 5"
    by blast
  then show ?thesis
  proof cases
    case 1
    then show ?thesis by (cases "rpc_unpack_append_entries_req pkt") (simp_all add: defs)
  next
    case 2
    then show ?thesis by (cases "rpc_unpack_append_entries_res pkt") (simp_all add: defs)
  next
    case 3
    then show ?thesis by (cases "rpc_unpack_request_vote_req pkt") (simp_all add: defs)
  next
    case 4
    then show ?thesis by (cases "rpc_unpack_request_vote_res pkt") (simp_all add: defs)
  next
    case 5
    then show ?thesis by (cases "rpc_unpack_proc_req pkt") (simp_all add: defs)
  next
    case 6
    then show ?thesis by (cases "rpc_unpack_proc_res pkt") (simp_all add: defs)
  next
    case 7
    then show ?thesis by (simp add: defs)
  qed
qed

lemma decode_append_req:
  "decode_body pkt = AppendReq req \<Longrightarrow> rpc_unpack_append_entries_req pkt = Some req"
  by (auto simp: decode_body_def Let_def split: if_splits option.splits)

section \<open>The environment of a node\<close>

locale raft_env =
  log_store L entries good + field_store F field fgood
  for L :: "'l log_t" and entries and good and F :: "'p persistent_fields_t" and field and fgood
begin

abbreviation ok :: "('l, 'p) raft_node_t \<Rightarrow> bool" where
  "ok \<equiv> node_ok L good F fgood"

abbreviation V :: "('l, 'p) raft_node_t \<Rightarrow> anode" where
  "V \<equiv> view entries field"


lemma ok_telemetry [view_simps]:
  "ok nd \<Longrightarrow> wf_telemetry (heartbeat_telemetry_reset (heartbeat_telemetry nd))"
  "ok nd \<Longrightarrow> ht_window_size (heartbeat_telemetry nd) \<noteq> 0"
  by (simp_all add: node_ok_def wf_telemetry_reset)

lemma ok_log_cases:
  assumes "ok nd"
  obtains c where "node_log nd = L\<lparr>log_context := c\<rparr>" and "good c"
    and "a_log (V nd) = entries c"
  using assms that [of "log_context (node_log nd)"] by (auto simp: node_ok_def view_def)

lemma ok_field_cases:
  assumes "ok nd"
  obtains c where "hard_state nd = F\<lparr>pf_context := c\<rparr>" and "fgood c"
    and "a_term (V nd) = field c PF_CURRENT_TERM" and "a_vote (V nd) = field c PF_VOTED_FOR"
  using assms that [of "pf_context (hard_state nd)"] by (auto simp: node_ok_def view_def)

lemma ok_set_log:
  "ok nd \<Longrightarrow> good c \<Longrightarrow> ok (nd\<lparr>node_log := L\<lparr>log_context := c\<rparr>\<rparr>)"
  "V (nd\<lparr>node_log := L\<lparr>log_context := c\<rparr>\<rparr>) = (V nd)\<lparr>a_log := entries c\<rparr>"
  by (simp_all add: node_ok_def view_def node_id_def)

lemma ok_set_field:
  "ok nd \<Longrightarrow> fgood c \<Longrightarrow> ok (nd\<lparr>hard_state := F\<lparr>pf_context := c\<rparr>\<rparr>)"
  "V (nd\<lparr>hard_state := F\<lparr>pf_context := c\<rparr>\<rparr>) =
     (V nd)\<lparr>a_term := field c PF_CURRENT_TERM, a_vote := field c PF_VOTED_FOR\<rparr>"
  by (simp_all add: node_ok_def view_def node_id_def)

section \<open>Calls through the interfaces\<close>

lemma log_length_sim [view_simps]:
  assumes "ok nd"
  shows "call_log_length nd = int (length (a_log (V nd)))"
  using assms by (cases rule: ok_log_cases) (simp add: call_log_length_def length_law)

lemma log_capacity_sim: "ok nd \<Longrightarrow> length (a_log (V nd)) \<le> log_capacity"
  by (erule ok_log_cases) (simp add: good_capacity)

lemma log_read_sim [view_simps]:
  assumes "ok nd"
  shows "ok (snd (call_log_read i nd))" and "V (snd (call_log_read i nd)) = V nd"
proof -
  obtain c where c: "node_log nd = L\<lparr>log_context := c\<rparr>" "good c" "a_log (V nd) = entries c"
    using assms by (rule ok_log_cases)
  have run: "snd (call_log_read i nd) = nd\<lparr>node_log := L\<lparr>log_context := snd (log_read L i 16 c)\<rparr>\<rparr>"
    by (simp add: call_log_read_def c split_beta Let_def)
  show "ok (snd (call_log_read i nd))"
    using assms c unfolding run by (intro ok_set_log read_good)
  show "V (snd (call_log_read i nd)) = V nd"
    using assms c unfolding run by (simp add: ok_set_log read_entries)
qed

lemma log_read_value:
  assumes "ok nd" and "i < 2 ^ 31"
  shows "fst (call_log_read i nd) =
    (if 0 \<le> i \<and> i < int (length (a_log (V nd))) then (16, Some (a_log (V nd) ! nat i))
     else (EOBND, None))"
  using assms(1)
  by (cases rule: ok_log_cases)
    (use assms(2) in \<open>auto simp: call_log_read_def split_beta Let_def read_law read_out_law\<close>)

lemma log_write_sim:
  assumes "ok nd" and "length (a_log (V nd)) < log_capacity" and "i < 2 ^ 31"
  shows "ok (call_log_write i e nd)"
    and "V (call_log_write i e nd) = (V nd)\<lparr>a_log := list_write i e (a_log (V nd))\<rparr>"
proof -
  obtain c where c: "node_log nd = L\<lparr>log_context := c\<rparr>" "good c" "a_log (V nd) = entries c"
    using assms(1) by (rule ok_log_cases)
  let ?c = "snd (log_write L i e 16 c)"
  have run: "call_log_write i e nd = nd\<lparr>node_log := L\<lparr>log_context := ?c\<rparr>\<rparr>"
    by (simp add: call_log_write_def c)
  consider "i = int (length (entries c))" | "0 \<le> i" "i < int (length (entries c))"
    | "i < 0 \<or> int (length (entries c)) < i" by linarith
  then have "good ?c \<and> entries ?c = list_write i e (entries c)"
  proof cases
    case 1
    then show ?thesis using c assms append_law [of c i e 16] by (simp add: list_write_def)
  next
    case 2
    then show ?thesis using c assms update_law [of c i e 16] by (simp add: list_write_def)
  next
    case 3
    then show ?thesis using c assms write_out_law [of c i e 16] by (auto simp: list_write_def)
  qed
  then show "ok (call_log_write i e nd)"
    and "V (call_log_write i e nd) = (V nd)\<lparr>a_log := list_write i e (a_log (V nd))\<rparr>"
    using assms(1) c(3) unfolding run by (simp_all add: ok_set_log)
qed

lemma log_remove_sim:
  assumes "ok nd" and "n < 2 ^ 31"
  shows "ok (call_log_remove n nd)"
    and "V (call_log_remove n nd) = (V nd)\<lparr>a_log := list_remove n (a_log (V nd))\<rparr>"
proof -
  obtain c where c: "node_log nd = L\<lparr>log_context := c\<rparr>" "good c" "a_log (V nd) = entries c"
    using assms(1) by (rule ok_log_cases)
  have run: "call_log_remove n nd =
      nd\<lparr>node_log := L\<lparr>log_context := snd (log_remove_last_n L n c)\<rparr>\<rparr>"
    by (simp add: call_log_remove_def c)
  show "ok (call_log_remove n nd)"
    and "V (call_log_remove n nd) = (V nd)\<lparr>a_log := list_remove n (a_log (V nd))\<rparr>"
    using assms c remove_law [of c n] unfolding run by (simp_all add: ok_set_log list_remove_def)
qed

lemma pf_get_sim [view_simps]:
  assumes "ok nd"
  shows "fst (call_pf_get PF_CURRENT_TERM nd) = int_of_u32 (a_term (V nd))"
    and "fst (call_pf_get PF_VOTED_FOR nd) = int_of_u32 (a_vote (V nd))"
    and "ok (snd (call_pf_get f nd))" and "V (snd (call_pf_get f nd)) = V nd"
proof -
  obtain c where c: "hard_state nd = F\<lparr>pf_context := c\<rparr>" "fgood c"
    "a_term (V nd) = field c PF_CURRENT_TERM" "a_vote (V nd) = field c PF_VOTED_FOR"
    using assms by (rule ok_field_cases)
  have run: "snd (call_pf_get f nd) =
      nd\<lparr>hard_state := F\<lparr>pf_context := snd (pf_get_fn F f c)\<rparr>\<rparr>"
    by (simp add: call_pf_get_def c split_beta Let_def)
  show "fst (call_pf_get PF_CURRENT_TERM nd) = int_of_u32 (a_term (V nd))"
    and "fst (call_pf_get PF_VOTED_FOR nd) = int_of_u32 (a_vote (V nd))"
    using c by (simp_all add: call_pf_get_def split_beta Let_def get_law)
  show "ok (snd (call_pf_get f nd))" and "V (snd (call_pf_get f nd)) = V nd"
    using assms c unfolding run by (simp_all add: ok_set_field get_good get_field)
qed

lemma pf_set_sim [view_simps]:
  assumes "ok nd"
  shows "ok (call_pf_set f v nd)"
    and "V (call_pf_set PF_CURRENT_TERM v nd) = (V nd)\<lparr>a_term := v\<rparr>"
    and "V (call_pf_set PF_VOTED_FOR v nd) = (V nd)\<lparr>a_vote := v\<rparr>"
proof -
  obtain c where c: "hard_state nd = F\<lparr>pf_context := c\<rparr>" "fgood c"
    "a_term (V nd) = field c PF_CURRENT_TERM" "a_vote (V nd) = field c PF_VOTED_FOR"
    using assms by (rule ok_field_cases)
  have run: "call_pf_set g v nd =
      nd\<lparr>hard_state := F\<lparr>pf_context := snd (pf_set_fn F g v c)\<rparr>\<rparr>" for g
    by (simp add: call_pf_set_def c)
  show "ok (call_pf_set f v nd)" and "V (call_pf_set PF_CURRENT_TERM v nd) = (V nd)\<lparr>a_term := v\<rparr>"
    and "V (call_pf_set PF_VOTED_FOR v nd) = (V nd)\<lparr>a_vote := v\<rparr>"
    using assms c unfolding run by (simp_all add: ok_set_field set_good set_field)
qed

section \<open>Sending\<close>

lemma send_with_sim:
  assumes "ok nd" and "\<And>pkt. wf_pkt pkt \<Longrightarrow>
    decode_pkt (snd (pack pkt)) = \<lparr>m_dst = dst, m_src = node_id nd, m_body = m\<rparr>"
    and "\<And>pkt. wf_pkt pkt \<Longrightarrow> wf_pkt (snd (pack pkt))"
  shows "ok (send_with pack nd)" and "V (send_with pack nd) = a_send dst m (V nd)"
proof -
  have wf: "wf_pkt (fst (fresh_pkt (node_os nd)))" "wf_os (snd (fresh_pkt (node_os nd)))"
    using assms(1) by (simp_all add: view_simps)
  show "ok (send_with pack nd)"
    using assms(1,3) wf by (simp add: send_with_def transport_send_def split_beta node_ok_def)
  show "V (send_with pack nd) = a_send dst m (V nd)"
    using assms(2) [OF wf(1)]
    by (simp add: send_with_def transport_send_def split_beta a_send_def view_def node_id_def)
qed

lemma send_sim [view_simps]:
  assumes "ok nd"
  shows "ok (send_append_entries_response dst t m s nd)"
    and "V (send_append_entries_response dst t m s nd) = a_append_response dst t m s (V nd)"
    and "ok (send_request_vote_request dst rvreq nd)"
    and "V (send_request_vote_request dst rvreq nd) = a_send dst (VoteReq rvreq) (V nd)"
    and "ok (send_request_vote_response dst t g nd)"
    and "V (send_request_vote_response dst t g nd) = a_vote_response dst t g (V nd)"
    and "ok (send_proc_response dst pres nd)"
    and "V (send_proc_response dst pres nd) = a_send dst (ProcRes pres) (V nd)"
    and "wf_ae aereq \<Longrightarrow> ok (send_append_entries_request dst aereq nd)"
    and "wf_ae aereq \<Longrightarrow>
      V (send_append_entries_request dst aereq nd) = a_send dst (AppendReq aereq) (V nd)"
  using send_with_sim [OF assms]
  by (auto simp: send_append_entries_response_def send_request_vote_request_def
      send_request_vote_response_def send_proc_response_def send_append_entries_request_def
      a_append_response_def a_vote_response_def decode_packed pack_append_entries_res_ok(2)
      pack_request_vote_req_ok(2) pack_request_vote_res_ok(2) pack_proc_res_ok(2) pack_append_entries_req_ok(2))

lemma for_each_peer_sim:
  assumes "ok nd"
    and step: "\<And>i nd' out. ok nd' \<Longrightarrow> V nd' = (V nd)\<lparr>a_out := out\<rparr> \<Longrightarrow> i \<in> set (a_peers (V nd)) \<Longrightarrow>
      ok (body i nd') \<and> V (body i nd') = a_send i (m i) (V nd')"
  shows "ok (for_each_peer body nd)" and "V (for_each_peer body nd) = a_broadcast m (V nd)"
proof -
  let ?f = "\<lambda>i nd'. if i = node_id nd then nd' else body i nd'"
  have "ok (fold ?f is nd') \<and> V (fold ?f is nd') = (V nd)\<lparr>a_out := out @ map
      (\<lambda>i. \<lparr>m_dst = i, m_src = node_id nd, m_body = m i\<rparr>) (filter (\<lambda>i. i \<noteq> node_id nd) is)\<rparr>"
    if "ok nd'" "V nd' = (V nd)\<lparr>a_out := out\<rparr>" "set is \<subseteq> set (node_ids nd)" for nd' out "is"
    using that
  proof (induction "is" arbitrary: nd' out)
    case (Cons i rest)
    show ?case
    proof (cases "i = node_id nd")
      case True
      then show ?thesis using Cons by simp
    next
      case False
      have "i \<in> set (a_peers (V nd))"
        using Cons.prems(3) False by (simp add: a_peers_def node_ids_def view_simps)
      then have "ok (body i nd')" "V (body i nd') = (V nd)\<lparr>a_out :=
          out @ [\<lparr>m_dst = i, m_src = node_id nd, m_body = m i\<rparr>]\<rparr>"
        using step [OF Cons.prems(1,2)] Cons.prems(2) by (simp_all add: a_send_def view_simps)
      then show ?thesis using Cons.IH Cons.prems(3) False by simp
    qed
  qed simp
  from this [OF assms(1), of "a_out (V nd)" "node_ids nd"]
  show "ok (for_each_peer body nd)" and "V (for_each_peer body nd) = a_broadcast m (V nd)"
    by (simp_all add: for_each_peer_def a_broadcast_def a_peers_def node_ids_def view_simps)
qed

section \<open>Reading the log\<close>

lemma get_log_term_sim [view_simps]:
  assumes "ok nd"
  shows "ok (snd (raft_get_log_term i nd))" and "V (snd (raft_get_log_term i nd)) = V nd"
    and "fst (raft_get_log_term i nd) = log_term (a_log (V nd)) i"
proof -
  have small: "i < 2 ^ 31" if "i < int (length (a_log (V nd)))"
    using that log_capacity_sim [OF assms] by (simp add: log_capacity_def)
  show "ok (snd (raft_get_log_term i nd))" and "V (snd (raft_get_log_term i nd)) = V nd"
    using assms by (auto simp: raft_get_log_term_def split_beta Let_def view_simps split: option.split)
  show "fst (raft_get_log_term i nd) = log_term (a_log (V nd)) i"
    using assms small
    by (auto simp: raft_get_log_term_def split_beta Let_def view_simps log_read_value log_term_def)
qed

lemma up_to_date_sim [view_simps]:
  assumes "ok nd"
  shows "ok (snd (log_is_up_to_date i t nd))" and "V (snd (log_is_up_to_date i t nd)) = V nd"
    and "fst (log_is_up_to_date i t nd) = up_to_date (a_log (V nd)) i t"
  using assms
  by (auto simp: log_is_up_to_date_def split_beta Let_def view_simps up_to_date_def)

lemma read_entries_sim:
  assumes "ok nd" and "i + int n \<le> 2 ^ 31"
  shows "ok (snd (read_entries n i nd)) \<and> V (snd (read_entries n i nd)) = V nd \<and>
    fst (read_entries n i nd) = map (\<lambda>j. log_entry_at (a_log (V nd)) (i + int j)) [0..<n]"
  using assms
proof (induction n arbitrary: i nd)
  case (Suc n)
  let ?nd = "snd (call_log_read i nd)"
  have "ok ?nd" "V ?nd = V nd" using Suc.prems by (simp_all add: view_simps)
  moreover have "i < 2 ^ 31" using Suc.prems by simp
  then have "(case snd (fst (call_log_read i nd)) of Some e \<Rightarrow> e | None \<Rightarrow> zero_entry) =
      log_entry_at (a_log (V nd)) i"
    using Suc.prems by (simp add: log_read_value log_entry_at_def)
  ultimately show ?case
    using Suc.IH [of ?nd "i + 1"] Suc.prems
    by (simp add: split_beta Let_def upt_conv_Cons map_Suc_upt [symmetric] comp_def add.assoc
        del: upt_Suc)
qed simp

section \<open>Broadcasts\<close>

lemma commit_range:
  "ok nd \<Longrightarrow> - (2 ^ 31) \<le> a_commit (V nd)" "ok nd \<Longrightarrow> a_commit (V nd) < 2 ^ 31"
  by (simp_all add: node_ok_def view_def)

lemma view_out:
  assumes "V nd' = (V nd)\<lparr>a_out := out\<rparr>"
  shows "node_id nd' = node_id nd" and "next_index nd' = next_index nd"
    and "commit_index nd' = commit_index nd" and "a_log (V nd') = a_log (V nd)"
  using arg_cong [OF assms, of a_id] arg_cong [OF assms, of a_next]
    arg_cong [OF assms, of a_commit] arg_cong [OF assms, of a_log]
  by (simp_all add: view_simps)

lemma broadcast_request_vote_sim [view_simps]:
  assumes "ok nd"
  shows "ok (broadcast_request_vote nd)"
    and "V (broadcast_request_vote nd) = a_broadcast (\<lambda>_. VoteReq (a_vote_request (V nd))) (V nd)"
proof -
  let ?n1 = "snd (call_pf_get PF_CURRENT_TERM nd)"
  let ?nd = "snd (raft_get_log_term (call_log_length nd - 1) ?n1)"
  have nd: "ok ?nd" "V ?nd = V nd" "ok ?n1" "V ?n1 = V nd" using assms by (simp_all add: view_simps)
  have run: "broadcast_request_vote nd = for_each_peer
      (\<lambda>i. send_request_vote_request i (a_vote_request (V nd))) ?nd"
    using assms nd
    by (simp add: broadcast_request_vote_def split_beta Let_def a_vote_request_def view_simps)
  show "ok (broadcast_request_vote nd)"
    and "V (broadcast_request_vote nd) = a_broadcast (\<lambda>_. VoteReq (a_vote_request (V nd))) (V nd)"
    using for_each_peer_sim [OF nd(1), of "\<lambda>i. send_request_vote_request i (a_vote_request (V nd))"
        "\<lambda>_. VoteReq (a_vote_request (V nd))"] nd(2)
    by (simp_all add: run view_simps)
qed

lemma wf_append_request:
  assumes "ok nd" and "0 \<le> limit" and "limit \<le> 32"
  shows "wf_ae (a_append_request limit (V nd) i)"
  using assms commit_range [OF assms(1)]
  by (simp add: wf_ae_def a_append_request_def Let_def MAX_APPEND_ENTRIES_N_def cast
      word_le_nat_alt)

lemma send_heartbeats_sim [view_simps]:
  assumes "ok nd"
  shows "ok (send_heartbeats nd)" and "V (send_heartbeats nd) = a_send_heartbeats (V nd)"
proof -
  let ?n1 = "snd (call_pf_get PF_CURRENT_TERM nd)"
  define body where "body = (\<lambda>i nd'. let next = next_index nd' ! unat i;
      (prev_term, nd') = raft_get_log_term (int_of_u32 next - 1) nd'
    in send_append_entries_request i
         \<lparr>ae_term = u32_of_int (fst (call_pf_get PF_CURRENT_TERM nd)), ae_leader_id = node_id nd',
          ae_prev_log_idx = next - 1, ae_prev_log_term = prev_term,
          ae_leader_commit = commit_index nd', ae_n_entries = 0, ae_entries = []\<rparr>
         (nd' :: ('l, 'p) raft_node_t))"
  define m where "m = (\<lambda>i. AppendReq (a_append_request 0 (V nd) i))"
  have nd: "ok ?n1" "V ?n1 = V nd" using assms by (simp_all add: view_simps)
  have run: "send_heartbeats nd = (if role nd \<noteq> LEADER then nd else for_each_peer body ?n1)"
    by (simp add: send_heartbeats_def split_beta body_def)
  have req: "\<lparr>ae_term = a_term (V nd), ae_leader_id = node_id nd,
      ae_prev_log_idx = next_index nd ! unat i - 1,
      ae_prev_log_term = log_term (a_log (V nd)) (int_of_u32 (next_index nd ! unat i) - 1),
      ae_leader_commit = commit_index nd, ae_n_entries = 0, ae_entries = []\<rparr> =
    a_append_request 0 (V nd) i" for i
    by (simp add: a_append_request_def view_simps Let_def)
  have step: "ok (body i nd') \<and> V (body i nd') = a_send i (m i) (V nd')"
    if "ok nd'" "V nd' = (V nd)\<lparr>a_out := out\<rparr>" for i nd' out
    using that(1) wf_append_request [OF assms, of 0 i] assms
    by (simp add: body_def m_def split_beta Let_def view_out [OF that(2)] req view_simps)
  have "ok (for_each_peer body ?n1) \<and> V (for_each_peer body ?n1) = a_broadcast m (V nd)"
    using for_each_peer_sim [OF nd(1), of body m] step unfolding nd(2) by blast
  then show "ok (send_heartbeats nd)" and "V (send_heartbeats nd) = a_send_heartbeats (V nd)"
    using assms unfolding run a_send_heartbeats_def m_def by (simp_all add: view_select)
qed

lemma clamp_count:
  "(if (if 32 < k then 32 else k) < 0 then 0 else if 32 < k then 32 else k) = max 0 (min 32 (k :: int))"
  by simp

lemma broadcast_append_entries_sim [view_simps]:
  assumes "ok nd"
  shows "ok (broadcast_append_entries nd)"
    and "V (broadcast_append_entries nd) = a_broadcast_entries (V nd)"
proof -
  let ?n1 = "snd (call_pf_get PF_CURRENT_TERM nd)"
  define count where "count = (\<lambda>i :: u32. max 0 (min 32 (int (length (a_log (V nd))) -
      int_of_u32 (next_index nd ! unat i))))"
  define body where "body = (\<lambda>i nd'. let next = next_index nd' ! unat i;
      (prev_term, nd') = raft_get_log_term (int_of_u32 next - 1) nd';
      n_to_send = max 0 (min 32 (call_log_length nd - int_of_u32 next));
      (es, nd') = read_entries (nat n_to_send) (int_of_u32 next) nd'
    in send_append_entries_request i
         \<lparr>ae_term = u32_of_int (fst (call_pf_get PF_CURRENT_TERM nd)), ae_leader_id = node_id nd',
          ae_prev_log_idx = next - 1, ae_prev_log_term = prev_term,
          ae_leader_commit = commit_index nd', ae_n_entries = u32_of_int n_to_send,
          ae_entries = es\<rparr> (nd' :: ('l, 'p) raft_node_t))"
  define m where "m = (\<lambda>i. AppendReq (a_append_request 32 (V nd) i))"
  have nd: "ok ?n1" "V ?n1 = V nd" using assms by (simp_all add: view_simps)
  have run: "broadcast_append_entries nd =
      (if role nd \<noteq> LEADER then nd else for_each_peer body ?n1)"
    unfolding broadcast_append_entries_def split_beta body_def Let_def clamp_count ..
  have step: "ok (body i nd') \<and> V (body i nd') = a_send i (m i) (V nd')"
    if 1: "ok nd'" "V nd' = (V nd)\<lparr>a_out := out\<rparr>" for i nd' out
  proof -
    let ?next = "int_of_u32 (next_index nd ! unat i)"
    let ?n2 = "snd (raft_get_log_term (?next - 1) nd')"
    let ?n3 = "snd (read_entries (nat (count i)) ?next ?n2)"
    have 2: "ok ?n2" "V ?n2 = V nd'" using 1 by (simp_all add: view_simps)
    have "?next + int (nat (count i)) \<le> 2 ^ 31"
      using log_capacity_sim [OF assms] sint_less_2p31 [of "next_index nd ! unat i"]
      by (auto simp: count_def log_capacity_def)
    note read = read_entries_sim [OF 2(1) this]
    have 3: "ok ?n3" "V ?n3 = (V nd)\<lparr>a_out := out\<rparr>" using read 2(2) 1(2) by simp_all
    have c: "max 0 (min 32 (int (length (a_log (V nd))) - ?next)) = count i"
      by (simp add: count_def)
    have bod: "body i nd' = send_append_entries_request i (a_append_request 32 (V nd) i) ?n3"
      using read 2 1(1) assms view_out [OF 3(2)] view_out [OF 1(2)]
      by (simp add: body_def split_beta Let_def a_append_request_def view_simps c)
    show ?thesis
      unfolding bod m_def using 3 1(2) wf_append_request [OF assms, of 32 i]
      by (simp add: view_simps)
  qed
  have "ok (for_each_peer body ?n1) \<and> V (for_each_peer body ?n1) = a_broadcast m (V nd)"
    using for_each_peer_sim [OF nd(1), of body m] step unfolding nd(2) by blast
  then show "ok (broadcast_append_entries nd)"
    and "V (broadcast_append_entries nd) = a_broadcast_entries (V nd)"
    using assms unfolding run a_broadcast_entries_def m_def by (simp_all add: view_select)
qed

section \<open>Roles\<close>

lemma start_election_sim [view_simps]:
  assumes "ok nd"
  shows "ok (start_election nd)" and "V (start_election nd) = a_start_election (V nd)"
  using assms
  by (simp_all add: start_election_def a_start_election_def split_beta Let_def view_simps)

lemma become_follower_sim [view_simps]:
  assumes "ok nd"
  shows "ok (become_follower t lid nd)"
    and "V (become_follower t lid nd) = a_become_follower t lid (V nd)"
  using assms
  by (simp_all add: become_follower_def a_become_follower_def Let_def view_simps)

lemma become_candidate_sim [view_simps]:
  assumes "ok nd"
  shows "ok (become_candidate nd)" and "V (become_candidate nd) = a_become_candidate (V nd)"
  using assms
  by (simp_all add: become_candidate_def a_become_candidate_def Let_def split_beta view_simps)

lemma become_leader_sim [view_simps]:
  assumes "ok nd"
  shows "ok (become_leader nd)" and "V (become_leader nd) = a_become_leader (V nd)"
  using assms
  by (simp_all add: become_leader_def a_become_leader_def Let_def split_beta view_simps)

section \<open>Applying\<close>

lemma answer_client_sim [view_simps]:
  assumes "ok nd"
  shows "ok (answer_client e nd)" and "V (answer_client e nd) = a_answer e (V nd)"
  using assms
  by (auto simp: answer_client_def a_answer_def Let_def split_beta view_simps split: option.split)

lemma apply_one_sim:
  assumes "ok nd" and "last_applied nd < 2 ^ 31 - 1"
  shows "ok (apply_one nd)" and "V (apply_one nd) = a_apply_one (V nd)"
  using assms
  by (auto simp: apply_one_def a_apply_one_def Let_def split_beta view_simps log_read_value)

lemma apply_sim [view_simps]:
  assumes "ok nd"
  shows "ok (apply_to_state_machine nd)" and "V (apply_to_state_machine nd) = a_apply (V nd)"
proof -
  have "ok (apply_to_state_machine nd) \<and> V (apply_to_state_machine nd) = a_apply_n k (V nd)"
    if "ok nd" "k = nat (commit_index nd - last_applied nd)" for k nd
    using that
  proof (induction k arbitrary: nd)
    case 0
    then show ?case by (subst (1 2) apply_to_state_machine.simps) simp
  next
    case (Suc k)
    have c: "commit_index nd < 2 ^ 31" using Suc.prems(1) by (simp add: node_ok_def)
    have less: "last_applied nd < commit_index nd" using Suc.prems(2) by simp
    then have one: "ok (apply_one nd)" "V (apply_one nd) = a_apply_one (V nd)"
      using Suc.prems(1) c by (auto intro!: apply_one_sim)
    have "k = nat (commit_index (apply_one nd) - last_applied (apply_one nd))"
      using Suc.prems(2) by (simp add: frame)
    with Suc.IH [OF one(1) this] one less show ?case
      by (subst (1 2) apply_to_state_machine.simps) simp
  qed
  from this [OF assms refl]
  show "ok (apply_to_state_machine nd)" and "V (apply_to_state_machine nd) = a_apply (V nd)"
    by (simp_all add: a_apply_def view_simps)
qed

section \<open>AppendEntries\<close>

lemma record_heartbeat_sim:
  assumes "ok nd"
  obtains nd' where "record_heartbeat req t nd = Some nd'" and "ok nd'" and "V nd' = V nd"
proof -
  let ?os = "snd (get_usec (node_os nd))" and ?ht = "heartbeat_telemetry nd"
  let ?now = "fst (get_usec (node_os nd))"
  have 1: "ok (nd\<lparr>node_os := ?os\<rparr>)" using assms by (simp add: view_simps)
  have wf: "wf_telemetry ?ht" "ht_window_size ?ht \<noteq> 0" using assms by (simp_all add: node_ok_def)
  obtain ht where ht: "heartbeat_telemetry_record_interval ?ht ?now = Some ht"
    "wf_telemetry ht" "ht_window_size ht \<noteq> 0"
  proof (cases "ht_last_heartbeat_usec ?ht = 0")
    case True
    show ?thesis
      by (rule that [OF record_interval_first [OF True]])
        (use wf in \<open>simp_all add: wf_telemetry_def\<close>)
  next
    case False
    obtain ht where h: "heartbeat_telemetry_record_interval ?ht ?now = Some ht" "wf_telemetry ht"
      using record_interval_recent [OF wf(1) False wf(2), of ?now] by blast
    then show ?thesis
      using that wf(2) False
      by (auto simp: heartbeat_telemetry_record_interval_def Let_def split: if_splits)
  qed
  show ?thesis
  proof (cases "role nd = FOLLOWER \<and> ae_n_entries req = 0")
    case True
    let ?n2 = "nd\<lparr>node_os := ?os, heartbeat_telemetry := ht\<rparr>"
    have "ok ?n2" "V ?n2 = V nd" using 1 ht by (simp_all add: view_simps)
    then show ?thesis
      using that True
      by (cases "0 < (if ht_last_heartbeat_usec ?ht \<noteq> 0
            then ?now - ht_last_heartbeat_usec ?ht else 0)")
        (auto simp: record_heartbeat_def split_beta Let_def ht view_simps)
  next
    case False
    then show ?thesis using that [of nd] assms by (auto simp: record_heartbeat_def)
  qed
qed

lemma length_list_write:
  "length (list_write i e es) \<le> Suc (length es)"
  by (simp add: list_write_def)

lemma length_list_remove: "length (list_remove n es) \<le> length es"
  by (simp add: list_remove_def)

lemma append_loop_sim:
  assumes "ok nd" and "0 \<le> len" and "len + int (length new) \<le> int log_capacity"
    and "length (a_log (V nd)) + length new \<le> log_capacity"
  shows "ok (append_loop new idx len nd)"
    and "V (append_loop new idx len nd) =
      (V nd)\<lparr>a_log := a_append_loop new idx len (a_log (V nd))\<rparr>"
proof -
  have "ok (append_loop new idx len nd) \<and> V (append_loop new idx len nd) =
      (V nd)\<lparr>a_log := a_append_loop new idx len (a_log (V nd))\<rparr>"
    using assms
  proof (induction new arbitrary: idx len nd)
    case (Cons e new)
    note cap = log_capacity_def
    have i31: "int_of_u32 idx < 2 ^ 31" by (rule sint_less_2p31)
    show ?case
    proof (cases "idx < u32_of_int len")
      case False
      let ?nd = "call_log_write (int_of_u32 idx) e nd"
      have 1: "ok ?nd" "V ?nd = (V nd)\<lparr>a_log := list_write (int_of_u32 idx) e (a_log (V nd))\<rparr>"
        using log_write_sim [OF Cons.prems(1) _ i31] Cons.prems(4) by simp_all
      show ?thesis
        using Cons.IH [OF 1(1), of "len + 1" "idx + 1"] Cons.prems False 1(2)
          length_list_write [of "int_of_u32 idx" e "a_log (V nd)"]
        by simp
    next
      case True
      have len: "0 \<le> len" "len < 2 ^ 31" using Cons.prems(2,3) by (simp_all add: cap)
      have small: "uint idx < len" using True len by (simp add: word_less_def cast)
      then have si: "int_of_u32 idx = uint idx" using len by (simp add: cast)
      let ?n1 = "snd (raft_get_log_term (int_of_u32 idx) nd)"
      have 1: "ok ?n1" "V ?n1 = V nd"
        "fst (raft_get_log_term (int_of_u32 idx) nd) = log_term (a_log (V nd)) (int_of_u32 idx)"
        using Cons.prems(1) by (simp_all add: view_simps)
      show ?thesis
      proof (cases "log_term (a_log (V nd)) (int_of_u32 idx) = le_term e")
        case same: True
        then show ?thesis
          using Cons.IH [OF 1(1), of len "idx + 1"] Cons.prems True 1 by (simp add: split_beta)
      next
        case diff: False
        let ?k = "len - int_of_u32 idx"
        let ?n2 = "call_log_remove ?k ?n1"
        let ?es = "list_remove ?k (a_log (V nd))"
        have "0 \<le> uint idx" by simp
        then have "?k < 2 ^ 31" using len(2) si by linarith
        then have 2: "ok ?n2" "V ?n2 = (V nd)\<lparr>a_log := ?es\<rparr>"
          using log_remove_sim [OF 1(1)] 1(2) by simp_all
        let ?n3 = "call_log_write (int_of_u32 idx) e ?n2"
        have room: "length ?es + length (e # new) \<le> log_capacity"
          using Cons.prems(4) length_list_remove [of ?k "a_log (V nd)"] by simp
        then have 3: "ok ?n3" "V ?n3 = (V nd)\<lparr>a_log := list_write (int_of_u32 idx) e ?es\<rparr>"
          using log_write_sim [OF 2(1) _ i31] 2(2) by simp_all
        show ?thesis
          using Cons.IH [OF 3(1), of "int_of_u32 idx + 1" "idx + 1"] Cons.prems True diff 1 3(2)
            small si room length_list_write [of "int_of_u32 idx" e ?es]
          by (simp add: split_beta Let_def)
      qed
    qed
  qed simp
  then show "ok (append_loop new idx len nd)" and "V (append_loop new idx len nd) =
      (V nd)\<lparr>a_log := a_append_loop new idx len (a_log (V nd))\<rparr>"
    by simp_all
qed

lemma update_commit_sim [view_simps]:
  assumes "ok nd" and "wf_ae req"
  shows "ok (update_commit req nd)" and "V (update_commit req nd) = a_update_commit req (V nd)"
proof -
  let ?c = "if ae_leader_commit req < int_of_u32 (ae_prev_log_idx req + ae_n_entries req)
    then ae_leader_commit req else int_of_u32 (ae_prev_log_idx req + ae_n_entries req)"
  have c: "?c = min (ae_leader_commit req) (int_of_u32 (ae_prev_log_idx req + ae_n_entries req))"
    by simp
  have "- (2 ^ 31) \<le> ?c \<and> ?c < 2 ^ 31"
    using assms(2) sint_ge [of "ae_prev_log_idx req + ae_n_entries req"]
      sint_lt [of "ae_prev_log_idx req + ae_n_entries req"] by (simp add: wf_ae_def)
  then have "ok (nd\<lparr>commit_index := ?c\<rparr>)" using assms(1) by (simp only: node_ok_commit)
  then show "ok (update_commit req nd)" and "V (update_commit req nd) = a_update_commit req (V nd)"
    using assms(1) unfolding update_commit_def a_update_commit_def c [symmetric] Let_def
    by (simp_all add: view_simps)
qed

lemma append_entries_to_log_sim:
  assumes "ok nd" and "wf_ae req"
    and room: "length (a_log (V nd)) + unat (ae_n_entries req) \<le> log_capacity"
  shows "ok (append_entries_to_log req t nd)"
    and "V (append_entries_to_log req t nd) = a_append_to_log req t (V nd)"
proof -
  let ?prev = "int_of_u32 (ae_prev_log_idx req)"
  let ?n1 = "snd (raft_get_log_term ?prev nd)"
  have 1: "ok ?n1" "V ?n1 = V nd" using assms(1) by (simp_all add: view_simps)
  let ?new = "take (unat (ae_n_entries req)) (ae_entries req)"
  let ?n2 = "append_loop ?new (ae_prev_log_idx req + 1) (int (length (a_log (V nd)))) ?n1"
  have "length ?new \<le> unat (ae_n_entries req)" by simp
  then have 2: "ok ?n2" "V ?n2 = (V nd)\<lparr>a_log := a_append_loop ?new (ae_prev_log_idx req + 1)
      (int (length (a_log (V nd)))) (a_log (V nd))\<rparr>"
    using append_loop_sim [OF 1(1), of "int (length (a_log (V nd)))" ?new "ae_prev_log_idx req + 1"]
      1(2) room by simp_all
  show "ok (append_entries_to_log req t nd)"
    and "V (append_entries_to_log req t nd) = a_append_to_log req t (V nd)"
    using assms(1,2) 1 2
    by (simp_all add: append_entries_to_log_def a_append_to_log_def split_beta Let_def view_simps)
qed

lemma append_entries_request_sim:
  assumes "ok nd" and "wf_ae req"
    and room: "length (a_log (V nd)) + unat (ae_n_entries req) \<le> log_capacity"
  shows "ok (handle_append_entries_request req nd)"
    and "V (handle_append_entries_request req nd) = a_append_request_handler req (V nd)"
proof -
  let ?t = "a_term (V nd)"
  define n1 where "n1 = snd (call_pf_get PF_CURRENT_TERM nd)"
  have 1: "ok n1" "V n1 = V nd" "role n1 = role nd"
    using assms(1) by (simp_all add: view_simps n1_def)
  let ?step = "?t < ae_term req \<or> ae_term req = ?t \<and> role nd = CANDIDATE"
  define n2 where "n2 = (if ?step then become_follower (ae_term req) (ae_leader_id req) n1
    else n1\<lparr>leader_id := ae_leader_id req\<rparr>)"
  have 2: "ok n2" "V n2 = (if ?step then a_become_follower (ae_term req) (ae_leader_id req) (V nd)
      else (V nd)\<lparr>a_leader := ae_leader_id req\<rparr>)"
    using 1 by (simp_all add: n2_def view_simps)
  obtain n3 where 3: "record_heartbeat req ?t n2 = Some n3" "ok n3" "V n3 = V n2"
    using 2(1) by (rule record_heartbeat_sim)
  have 4: "ok (set_fault_detect_timer n3)" "V (set_fault_detect_timer n3) = V n2"
    using 3 by (simp_all add: view_simps)
  have "a_log (V n2) = a_log (V nd)" using 2(2) by (simp add: a_become_follower_def)
  then have 5: "ok (append_entries_to_log req ?t (set_fault_detect_timer n3))"
    "V (append_entries_to_log req ?t (set_fault_detect_timer n3)) = a_append_to_log req ?t (V n2)"
    using append_entries_to_log_sim [OF 4(1) assms(2)] room 4(2) by simp_all
  have run: "handle_append_entries_request req nd =
      (if int_of_u32 ?t < 0 then n1
       else if ae_term req < ?t then send_append_entries_response (ae_leader_id req) ?t 0 0 n1
       else append_entries_to_log req ?t (set_fault_detect_timer n3))"
    using 3(1) 1(3) assms(1)
    by (simp add: handle_append_entries_request_def split_beta Let_def view_simps
        flip: n1_def n2_def)
  show "ok (handle_append_entries_request req nd)"
    using 1 5 by (simp add: run view_simps)
  show "V (handle_append_entries_request req nd) = a_append_request_handler req (V nd)"
    using 1 5(2) 2(2) by (simp add: run a_append_request_handler_def view_simps)
qed

lemma commit_step_sim:
  assumes "ok nd" and "- (2 ^ 31) \<le> n" and "n < 2 ^ 31"
  shows "ok (commit_step (a_term (V nd)) n nd)"
    and "V (commit_step (a_term (V nd)) n nd) = a_commit_step n (V nd)"
proof -
  have "match_count n (snd (raft_get_log_term n nd)) = a_match_count n (V nd)"
    by (simp add: match_count_def a_match_count_def a_peers_def node_ids_def view_simps conj_commute)
  then show "ok (commit_step (a_term (V nd)) n nd)"
    and "V (commit_step (a_term (V nd)) n nd) = a_commit_step n (V nd)"
    using assms
    by (simp_all add: commit_step_def a_commit_step_def split_beta Let_def view_simps)
qed

lemma a_commit_step_keeps:
  "a_term (a_commit_step n a) = a_term a" "a_log (a_commit_step n a) = a_log a"
  by (simp_all add: a_commit_step_def)

lemma advance_commit_sim:
  assumes "ok nd" and "len = int (length (a_log (V nd)))"
  shows "ok (advance_commit (a_term (V nd)) len nd)"
    and "V (advance_commit (a_term (V nd)) len nd) = a_advance_commit (V nd)"
proof -
  have fold: "ok (fold (commit_step (a_term (V nd))) ns nd) \<and>
      V (fold (commit_step (a_term (V nd))) ns nd) = fold a_commit_step ns (V nd)"
    if "ok nd" "\<forall>n \<in> set ns. - (2 ^ 31) \<le> n \<and> n < 2 ^ 31" for ns nd
    using that
  proof (induction ns arbitrary: nd)
    case (Cons n ns)
    let ?nd = "commit_step (a_term (V nd)) n nd"
    have 1: "ok ?nd" "V ?nd = a_commit_step n (V nd)"
      using Cons.prems by (simp_all add: commit_step_sim)
    then show ?case
      using Cons.IH [OF 1(1)] Cons.prems(2) by (simp add: a_commit_step_keeps)
  qed simp
  have "\<forall>n \<in> set [commit_index nd + 1 .. len - 1]. - (2 ^ 31) \<le> n \<and> n < 2 ^ 31"
    using log_capacity_sim [OF assms(1)] commit_range [OF assms(1)] assms(2)
    by (auto simp: log_capacity_def view_simps)
  from fold [OF assms(1) this]
  show "ok (advance_commit (a_term (V nd)) len nd)"
    and "V (advance_commit (a_term (V nd)) len nd) = a_advance_commit (V nd)"
    using assms(2) by (simp_all add: advance_commit_def a_advance_commit_def view_simps)
qed

lemma append_entries_response_sim:
  assumes "ok nd"
  shows "ok (handle_append_entries_response src resp nd)"
    and "V (handle_append_entries_response src resp nd) =
      a_append_response_handler src resp (V nd)"
proof -
  define n1 where "n1 = snd (call_pf_get PF_CURRENT_TERM nd)"
  have 1: "ok n1" "V n1 = V nd" "role n1 = role nd" "match_index n1 = match_index nd"
    "next_index n1 = next_index nd"
    using assms by (simp_all add: view_simps n1_def)
  define n2 where "n2 = n1\<lparr>match_index := (match_index nd)
      [unat src := int_of_u32 (aer_new_match_index resp)],
    next_index := (next_index nd)[unat src := u32_of_int (int (length (a_log (V nd))))]\<rparr>"
  have 2: "ok n2" "a_term (V n2) = a_term (V nd)" "a_log (V n2) = a_log (V nd)"
    "V n2 = (V nd)\<lparr>a_match := (match_index nd)[unat src := int_of_u32 (aer_new_match_index resp)],
      a_next := (next_index nd)[unat src := u32_of_int (int (length (a_log (V nd))))]\<rparr>"
    using 1 by (simp_all add: n2_def view_simps)
  note adv = advance_commit_sim [OF 2(1), of "int (length (a_log (V nd)))", unfolded 2(2,3), OF refl]
  have run: "handle_append_entries_response src resp nd =
      (if a_term (V nd) < aer_term resp then become_follower (aer_term resp) src n1
       else if role nd \<noteq> LEADER \<or> aer_term resp < a_term (V nd) then n1
       else if length (match_index nd) \<le> unat src \<or> length (next_index nd) \<le> unat src
            then n1\<lparr>halted := Some (Undefined ''index out of bounds'')\<rparr>
       else if aer_success resp \<noteq> 0
            then apply_to_state_machine
              (advance_commit (a_term (V nd)) (int (length (a_log (V nd)))) n2)
            else if 0 < next_index nd ! unat src
                 then n1\<lparr>next_index := (next_index nd)[unat src := next_index nd ! unat src - 1]\<rparr>
                 else n1)"
    using assms 1
    by (simp add: handle_append_entries_response_def split_beta Let_def n2_def view_simps
        flip: n1_def)
  show "ok (handle_append_entries_response src resp nd)"
    using 1 adv by (simp add: run view_simps)
  show "V (handle_append_entries_response src resp nd) =
      a_append_response_handler src resp (V nd)"
    using 1 adv 2(4) by (simp add: run a_append_response_handler_def view_simps)
qed

section \<open>RequestVote\<close>

lemma decide_vote_sim:
  assumes "ok nd" and "t = a_term (V nd)"
  shows "ok (decide_vote req t nd)" and "V (decide_vote req t nd) = a_decide_vote req (V nd)"
  using assms
  by (auto simp: decide_vote_def a_decide_vote_def split_beta Let_def view_simps)

lemma request_vote_request_sim:
  assumes "ok nd"
  shows "ok (handle_request_vote_request src req nd)"
    and "V (handle_request_vote_request src req nd) = a_vote_request_handler src req (V nd)"
proof -
  define n1 where "n1 = snd (call_pf_get PF_CURRENT_TERM nd)"
  have 1: "ok n1" "V n1 = V nd" using assms by (simp_all add: view_simps n1_def)
  have run: "handle_request_vote_request src req nd =
      (if int_of_u32 (a_term (V nd)) < 0 then n1
       else if rv_term req < a_term (V nd)
       then send_request_vote_response (rv_candidate_id req) (a_term (V nd)) 0 n1
       else if a_term (V nd) < rv_term req
       then decide_vote req (rv_term req) (become_follower (rv_term req) src n1)
       else decide_vote req (a_term (V nd)) n1)"
    using assms
    by (simp add: handle_request_vote_request_def split_beta Let_def view_simps flip: n1_def)
  have 2: "ok (become_follower (rv_term req) src n1)"
    "V (become_follower (rv_term req) src n1) = a_become_follower (rv_term req) src (V nd)"
    using 1 by (simp_all add: view_simps)
  note d = decide_vote_sim [OF 2(1), of "rv_term req" req] decide_vote_sim [OF 1(1), of "a_term (V nd)" req]
  have t: "a_term (V (become_follower (rv_term req) src n1)) = rv_term req"
    by (simp add: 2 a_become_follower_def)
  show "ok (handle_request_vote_request src req nd)"
    using 1 d t by (simp add: run view_simps)
  show "V (handle_request_vote_request src req nd) = a_vote_request_handler src req (V nd)"
    using 1 d t 2 by (simp add: run a_vote_request_handler_def view_simps)
qed

lemma request_vote_response_sim:
  assumes "ok nd"
  shows "ok (handle_request_vote_response src resp nd)"
    and "V (handle_request_vote_response src resp nd) = a_vote_response_handler src resp (V nd)"
  using assms
  by (auto simp: handle_request_vote_response_def a_vote_response_handler_def split_beta Let_def
      view_simps)

section \<open>Client requests, packets and timeouts\<close>

lemma append_log_entry_sim:
  assumes "ok nd" and "length (a_log (V nd)) < log_capacity"
  shows "ok (append_log_entry e nd)"
    and "V (append_log_entry e nd) = (V nd)\<lparr>a_log := a_log (V nd) @ [e]\<rparr>"
proof -
  have "int (length (a_log (V nd))) < 2 ^ 31" using assms(2) by (simp add: log_capacity_def)
  from log_write_sim [OF assms this]
  show "ok (append_log_entry e nd)"
    and "V (append_log_entry e nd) = (V nd)\<lparr>a_log := a_log (V nd) @ [e]\<rparr>"
    using assms(1) by (simp_all add: append_log_entry_def Let_def view_simps list_write_def)
qed

lemma append_log_entry_keeps [view_simps]:
  "outstanding_reqs (append_log_entry e nd) = outstanding_reqs nd"
  by (simp add: append_log_entry_def call_log_write_def Let_def)

lemma proc_request_sim:
  assumes "ok nd" and "length (a_log (V nd)) < log_capacity"
  shows "ok (handle_proc_request req src nd)"
    and "V (handle_proc_request req src nd) = a_proc_request_handler src req (V nd)"
proof -
  define n1 where "n1 = snd (call_pf_get PF_CURRENT_TERM nd)"
  have 1: "ok n1" "V n1 = V nd" "outstanding_reqs n1 = outstanding_reqs nd"
    "leader_id n1 = leader_id nd"
    using assms(1) by (simp_all add: view_simps n1_def) (simp add: call_pf_get_def split_beta)
  have t: "u32_of_int (fst (call_pf_get PF_CURRENT_TERM nd)) = a_term (V nd)"
    using assms(1) by (simp add: view_simps)
  define e where "e = \<lparr>le_term = a_term (V nd), le_client_id = pr_client_id req,
    le_cmd_seqno = pr_cmd_seqno req, le_cmd = pr_cmd req\<rparr>"
  define n2 where "n2 = append_log_entry e n1"
  have 2: "ok n2" "V n2 = (V nd)\<lparr>a_log := a_log (V nd) @ [e]\<rparr>"
    "outstanding_reqs n2 = outstanding_reqs nd"
    using append_log_entry_sim [OF 1(1)] assms(2) 1 by (simp_all add: n2_def view_simps)
  have run: "handle_proc_request req src nd =
      (if role nd \<noteq> LEADER
       then send_proc_response src \<lparr>ps_client_id = pr_client_id req, ps_cmd_seqno = pr_cmd_seqno req,
              ps_success = 0, ps_leader_hint = leader_id nd, ps_term = a_term (V nd)\<rparr> n1
       else broadcast_append_entries (case find_inactive (outstanding_reqs nd) of
              None \<Rightarrow> n2
            | Some i \<Rightarrow> n2\<lparr>outstanding_reqs := (outstanding_reqs nd)
                [i := \<lparr>or_client_id = pr_client_id req, or_cmd_seqno = pr_cmd_seqno req,
                   or_log_idx = u32_of_int (int (length (a_log (V nd)))), or_active = 1\<rparr>]\<rparr>))"
    using 2(3)
    by (simp add: handle_proc_request_def split_beta Let_def 1 t log_length_sim [OF assms(1)]
        flip: n1_def e_def n2_def split: option.split)
  show "ok (handle_proc_request req src nd)"
    using 1 2 by (auto simp: run view_simps split: option.split)
  show "V (handle_proc_request req src nd) = a_proc_request_handler src req (V nd)"
    using 1 2 by (auto simp: run a_proc_request_handler_def Let_def e_def view_simps split: option.split)
qed

lemma handle_rpc_sim:
  assumes "ok nd" and "has_room (V nd)"
  shows "ok (raft_handle_rpc pkt nd)"
    and "V (raft_handle_rpc pkt nd) = a_handle (decode_pkt pkt) (V nd)"
proof -
  have room: "length (a_log (V nd)) < log_capacity"
    "wf_ae req \<Longrightarrow> length (a_log (V nd)) + unat (ae_n_entries req) \<le> log_capacity" for req
    using assms(2) wf_ae_size(1) [of req] by (simp_all add: has_room_def)
  have ae: "ok (handle_append_entries_request req nd) \<and>
      V (handle_append_entries_request req nd) = a_append_request_handler req (V nd)"
    if "decode_body pkt = AppendReq req" for req
  proof -
    have "wf_ae req" by (rule unpack_append_entries_req_wf [OF decode_append_req [OF that]])
    then show ?thesis using append_entries_request_sim [OF assms(1)] room(2) by blast
  qed
  note sims = append_entries_response_sim [OF assms(1)] request_vote_request_sim [OF assms(1)]
    request_vote_response_sim [OF assms(1)] proc_request_sim [OF assms(1) room(1)]
  show "ok (raft_handle_rpc pkt nd)"
    using assms(1) sims ae
    by (cases "decode_body pkt") (simp_all add: handle_rpc_decode handle_proc_response_def)
  show "V (raft_handle_rpc pkt nd) = a_handle (decode_pkt pkt) (V nd)"
    using sims ae
    by (cases "decode_body pkt")
      (simp_all add: handle_rpc_decode handle_proc_response_def a_handle_def decode_pkt_def)
qed

text \<open>
  A timeout starts an election or sends heartbeats, unless the failure detector of a follower
  does not suspect the leader; a leader that counts its heartbeats may end the process.
\<close>

lemma handle_timeout_sim:
  assumes "ok nd"
  shows "ok (raft_handle_timeout nd)"
    and "V (raft_handle_timeout nd) = a_elect (V nd) \<or>
      role nd = FOLLOWER \<and> V (raft_handle_timeout nd) = V nd \<or>
      role nd = LEADER \<and> V (raft_handle_timeout nd) = (a_elect (V nd))\<lparr>a_halted := Some (Exit 42)\<rparr>"
proof -
  have wf: "wf_os (snd (heartbeat_telemetry_check_leader_failure ht os)) = wf_os os" for ht os
    by (simp add: heartbeat_telemetry_check_leader_failure_def split_beta Let_def)
  show "ok (raft_handle_timeout nd)"
    using assms
    by (cases "role nd") (simp_all add: raft_handle_timeout_def split_beta Let_def view_simps wf)
  show "V (raft_handle_timeout nd) = a_elect (V nd) \<or>
      role nd = FOLLOWER \<and> V (raft_handle_timeout nd) = V nd \<or>
      role nd = LEADER \<and> V (raft_handle_timeout nd) = (a_elect (V nd))\<lparr>a_halted := Some (Exit 42)\<rparr>"
    using assms
    by (cases "role nd")
      (auto simp: raft_handle_timeout_def a_elect_def split_beta Let_def view_simps wf)
qed

text \<open>What a timeout does, with the verdict of the detector and the count of the heartbeats.\<close>

lemma handle_timeout_exact:
  assumes "ok nd"
  shows "V (raft_handle_timeout nd) = (case role nd of
      FOLLOWER \<Rightarrow>
        if uses_random_timeout nd \<or> cfg_timeout_scheme (config nd) = TS_ACCRUAL \<and>
          fst (heartbeat_telemetry_check_leader_failure (heartbeat_telemetry nd) (node_os nd))
        then a_become_candidate (V nd) else V nd
    | CANDIDATE \<Rightarrow> a_start_election (V nd)
    | LEADER \<Rightarrow>
        if 0 \<le> cfg_crash_after_h (config nd) \<and> cfg_crash_after_h (config nd) \<le> heartbeat_count nd + 1
        then (a_send_heartbeats (V nd))\<lparr>a_halted := Some (Exit 42)\<rparr> else a_send_heartbeats (V nd))"
proof -
  have wf: "wf_os (snd (heartbeat_telemetry_check_leader_failure ht os)) = wf_os os" for ht os
    by (simp add: heartbeat_telemetry_check_leader_failure_def split_beta Let_def)
  have random: "uses_random_timeout (snd (call_pf_get f nd)) = uses_random_timeout nd" for f
    by (simp add: uses_random_timeout_def view_simps)
  show ?thesis
    using assms
    by (cases "role nd")
      (simp_all add: raft_handle_timeout_def split_beta Let_def view_simps wf random count_keeps)
qed

lemma run_step_receive:
  assumes "ok nd" and "has_room (V nd)"
  shows "ok (raft_run_step (1, pkt) nd)"
    and "V (raft_run_step (1, pkt) nd) = a_receive (decode_pkt pkt) (V nd)"
proof -
  define n1 where "n1 = snd (raft_get_timeout_ms nd)"
  have 1: "ok n1" "V n1 = V nd" "node_id n1 = node_id nd"
    using assms(1) by (simp_all add: n1_def view_simps node_id_def raft_get_timeout_ms_def Let_def split_beta)
  have body: "decode_body pkt = Shutdown \<longleftrightarrow> h_code (pkt_header pkt) = RPC_SHUTDOWN"
    by (auto simp: decode_body_def Let_def rpc_codes split: option.splits)
  have run: "raft_run_step (1, pkt) nd =
      (if h_code (pkt_header pkt) = RPC_SHUTDOWN then n1\<lparr>running := 0\<rparr>
       else if h_dst (pkt_header pkt) \<noteq> node_id nd then n1 else raft_handle_rpc pkt n1)"
    using 1(3) by (simp add: raft_run_step_def split_beta Let_def flip: n1_def)
  note rpc = handle_rpc_sim [OF 1(1), of pkt, unfolded 1(2), OF assms(2)]
  show "ok (raft_run_step (1, pkt) nd)" using 1 rpc by (simp add: run view_simps)
  show "V (raft_run_step (1, pkt) nd) = a_receive (decode_pkt pkt) (V nd)"
    using 1 rpc by (simp add: run a_receive_def body decode_pkt_def view_simps)
qed

lemma run_step_timeout:
  assumes "ok nd"
  shows "ok (raft_run_step (0, pkt) nd)"
    and "V (raft_run_step (0, pkt) nd) = a_elect (V nd) \<or>
      role nd = FOLLOWER \<and> V (raft_run_step (0, pkt) nd) = V nd \<or>
      role nd = LEADER \<and>
      V (raft_run_step (0, pkt) nd) = (a_elect (V nd))\<lparr>a_halted := Some (Exit 42)\<rparr>"
proof -
  define n1 where "n1 = snd (raft_get_timeout_ms nd)"
  have 1: "ok n1" "V n1 = V nd" "role n1 = role nd"
    using assms by (simp_all add: n1_def view_simps) (simp add: raft_get_timeout_ms_def Let_def split_beta)
  have run: "raft_run_step (0, pkt) nd = raft_handle_timeout n1"
    by (simp add: raft_run_step_def split_beta flip: n1_def)
  show "ok (raft_run_step (0, pkt) nd)"
    unfolding run by (rule handle_timeout_sim(1) [OF 1(1)])
  show "V (raft_run_step (0, pkt) nd) = a_elect (V nd) \<or>
      role nd = FOLLOWER \<and> V (raft_run_step (0, pkt) nd) = V nd \<or>
      role nd = LEADER \<and>
      V (raft_run_step (0, pkt) nd) = (a_elect (V nd))\<lparr>a_halted := Some (Exit 42)\<rparr>"
    using handle_timeout_sim(2) [OF 1(1)] unfolding run 1(2,3) .
qed

lemma run_step_timeout_exact:
  assumes "ok nd"
  shows "V (raft_run_step (0, pkt) nd) = (case role nd of
      FOLLOWER \<Rightarrow>
        if uses_random_timeout nd \<or> cfg_timeout_scheme (config nd) = TS_ACCRUAL \<and>
          fst (heartbeat_telemetry_check_leader_failure (heartbeat_telemetry nd)
            (node_os (snd (raft_get_timeout_ms nd))))
        then a_become_candidate (V nd) else V nd
    | CANDIDATE \<Rightarrow> a_start_election (V nd)
    | LEADER \<Rightarrow>
        if 0 \<le> cfg_crash_after_h (config nd) \<and> cfg_crash_after_h (config nd) \<le> heartbeat_count nd + 1
        then (a_send_heartbeats (V nd))\<lparr>a_halted := Some (Exit 42)\<rparr> else a_send_heartbeats (V nd))"
proof -
  define n1 where "n1 = snd (raft_get_timeout_ms nd)"
  have 1: "ok n1" "V n1 = V nd" using assms by (simp_all add: n1_def view_simps)
  have 2: "role n1 = role nd" "config n1 = config nd" "heartbeat_count n1 = heartbeat_count nd"
    "heartbeat_telemetry n1 = heartbeat_telemetry nd" "uses_random_timeout n1 = uses_random_timeout nd"
    by (simp_all add: n1_def raft_get_timeout_ms_def Let_def split_beta uses_random_timeout_def)
  have "raft_run_step (0, pkt) nd = raft_handle_timeout n1"
    by (simp add: raft_run_step_def split_beta flip: n1_def)
  then show ?thesis
    using handle_timeout_exact [OF 1(1)] unfolding 1(2) 2 n1_def [symmetric] by simp
qed

text \<open>A follower that waits a random timeout starts an election when it is over.\<close>

lemma run_step_timeout_random:
  assumes "ok nd" and "role nd = FOLLOWER" and "uses_random_timeout nd"
  shows "V (raft_run_step (0, pkt) nd) = a_elect (V nd)"
proof -
  define n1 where "n1 = snd (raft_get_timeout_ms nd)"
  have 1: "ok n1" "V n1 = V nd" "role n1 = FOLLOWER" "uses_random_timeout n1"
    using assms
    by (simp_all add: n1_def view_simps)
      (simp_all add: raft_get_timeout_ms_def Let_def split_beta uses_random_timeout_def)
  have run: "raft_run_step (0, pkt) nd = raft_handle_timeout n1"
    by (simp add: raft_run_step_def split_beta flip: n1_def)
  have "uses_random_timeout (snd (call_pf_get PF_CURRENT_TERM n1))"
    using 1(4) by (simp add: uses_random_timeout_def view_simps)
  then show ?thesis
    using 1 assms(2) unfolding run
    by (simp add: raft_handle_timeout_def a_elect_def split_beta Let_def view_simps)
qed

text \<open>An error of \<open>receive\<close>: a timeout if the timer has expired, the end of the loop otherwise.\<close>

lemma run_step_error:
  assumes "ok nd" and "rc \<noteq> 0" and "rc \<noteq> 1"
  shows "ok (raft_run_step (rc, pkt) nd)"
    and "V (raft_run_step (rc, pkt) nd) = (V nd)\<lparr>a_running := 0\<rparr> \<or>
      V (raft_run_step (rc, pkt) nd) = a_elect (V nd) \<or>
      role nd = FOLLOWER \<and> V (raft_run_step (rc, pkt) nd) = V nd \<or>
      role nd = LEADER \<and>
      V (raft_run_step (rc, pkt) nd) = (a_elect (V nd))\<lparr>a_halted := Some (Exit 42)\<rparr>"
proof -
  define n1 where "n1 = snd (raft_get_timeout_ms nd)"
  define n2 where "n2 = n1\<lparr>node_os := snd (timer_expired (timer n1) (node_os n1))\<rparr>"
  have 1: "ok n1" "V n1 = V nd" "role n1 = role nd"
    using assms(1)
    by (simp_all add: n1_def view_simps) (simp add: raft_get_timeout_ms_def Let_def split_beta)
  have 2: "ok n2" "V n2 = V nd" "role n2 = role nd"
    using 1 by (simp_all add: n2_def view_simps)
  have run: "raft_run_step (rc, pkt) nd =
      (if fst (timer_expired (timer n1) (node_os n1)) then raft_handle_timeout n2
       else n2\<lparr>running := 0\<rparr>)"
    using assms(2,3) by (simp add: raft_run_step_def split_beta Let_def n2_def flip: n1_def)
  show "ok (raft_run_step (rc, pkt) nd)"
    using 2 handle_timeout_sim(1) [OF 2(1)] by (simp add: run view_simps)
  show "V (raft_run_step (rc, pkt) nd) = (V nd)\<lparr>a_running := 0\<rparr> \<or>
      V (raft_run_step (rc, pkt) nd) = a_elect (V nd) \<or>
      role nd = FOLLOWER \<and> V (raft_run_step (rc, pkt) nd) = V nd \<or>
      role nd = LEADER \<and>
      V (raft_run_step (rc, pkt) nd) = (a_elect (V nd))\<lparr>a_halted := Some (Exit 42)\<rparr>"
    using handle_timeout_sim(2) [OF 2(1)] 2 by (auto simp: run view_simps)
qed

end

end
