(* ===== verification/Log_Merge.thy ===== *)
theory Log_Merge
  imports Raft_Spec
begin

text \<open>
  The loop of the AppendEntries handler as list merging: \<open>a_append_loop\<close> on \<open>u32\<close> indexes is
  \<open>merge_entries\<close>, and what \<open>merge_entries\<close> does to a log.
\<close>

section \<open>The loop computes the merge\<close>

lemma append_loop_merge:
  assumes "i \<le> length es" and "length es + length new \<le> log_capacity"
  shows "a_append_loop new (of_nat i) (int (length es)) es = merge_entries new i es"
  using assms
proof (induction new arbitrary: i es)
  case (Cons e new)
  have cap: "length es < 2 ^ 31" "i < 2 ^ 31" using Cons.prems by (simp_all add: log_capacity_def)
  then have u: "unat (of_nat i :: u32) = i" "unat (of_nat (length es) :: u32) = length es"
    by (simp_all add: unat_of_nat take_bit_nat_eq_self)
  have si: "int_of_u32 (of_nat i) = int i"
    using cap u(1) sint_eq_small [of "of_nat i"] unfolding uint_nat by (simp only:)
  have less: "(of_nat i :: u32) < of_nat (length es) \<longleftrightarrow> i < length es"
    by (simp add: word_less_nat_alt u)
  have suc: "of_nat i + 1 = (of_nat (Suc i) :: u32)" by simp
  show ?case
  proof (cases "i < length es")
    case False
    then have "i = length es" using Cons.prems(1) by simp
    moreover have "a_append_loop new (of_nat (Suc i)) (int (length (es @ [e]))) (es @ [e]) =
        merge_entries new (Suc i) (es @ [e])"
      using Cons.prems False by (intro Cons.IH) simp_all
    ultimately show ?thesis
      using False less si by (simp add: suc list_write_def del: of_nat_Suc)
        (simp add: algebra_simps)
  next
    case True
    show ?thesis
    proof (cases "le_term (es ! i) = le_term e")
      case same: True
      then show ?thesis
        using Cons.IH [of "Suc i" es] Cons.prems True less si
        by (simp add: suc log_term_def del: of_nat_Suc)
    next
      case diff: False
      have "a_append_loop new (of_nat (Suc i)) (int (length (take i es @ [e]))) (take i es @ [e]) =
          merge_entries new (Suc i) (take i es @ [e])"
        using Cons.prems True by (intro Cons.IH) simp_all
      moreover have "length es - nat (int (length es) - int i) = i" using True by simp
      ultimately show ?thesis
        using diff True less si
        by (simp add: suc log_term_def list_remove_def list_write_def min_def del: of_nat_Suc)
          (simp add: algebra_simps)
    qed
  qed
qed simp

section \<open>What the merge keeps and what it adds\<close>

lemma merge_take: "i \<le> length es \<Longrightarrow> j \<le> i \<Longrightarrow> take j (merge_entries new i es) = take j es"
proof (induction new i es rule: merge_entries.induct)
  case (2 e new i es)
  then show ?case by (cases "i < length es") (auto simp: min_def)
qed simp

lemma merge_length: "i \<le> length es \<Longrightarrow> i + length new \<le> length (merge_entries new i es)"
proof (induction new i es rule: merge_entries.induct)
  case (2 e new i es)
  then show ?case by (cases "i < length es") auto
qed simp

lemma merge_nth: "i \<le> length es \<Longrightarrow> j < i \<Longrightarrow> merge_entries new i es ! j = es ! j"
  using merge_take [of i es i new] by (metis nth_take order_refl)

text \<open>After the merge the log has the terms of the request at the indexes of the request.\<close>

lemma merge_terms:
  "i \<le> length es \<Longrightarrow> k < length new \<Longrightarrow>
     le_term (merge_entries new i es ! (i + k)) = le_term (new ! k)"
proof (induction new i es arbitrary: k rule: merge_entries.induct)
  case (2 e new i es)
  show ?case
  proof (cases k)
    case 0
    then show ?thesis
      using 2 by (cases "i < length es") (auto simp: merge_nth nth_append)
  next
    case (Suc k')
    then show ?thesis
      using 2 by (cases "i < length es") auto
  qed
qed simp

text \<open>If no entry conflicts, nothing is removed: the request only extends the log.\<close>

definition agrees :: "log_entry_t list \<Rightarrow> nat \<Rightarrow> log_entry_t list \<Rightarrow> bool" where
  "agrees new i es \<longleftrightarrow>
     list_all2 (\<lambda>e f. le_term e = le_term f) (take (length es - i) new)
       (take (length new) (drop i es))"

lemma agrees_Cons:
  "i < length es \<Longrightarrow> agrees (e # new) i es \<longleftrightarrow>
     le_term e = le_term (es ! i) \<and> agrees new (Suc i) es"
  by (simp add: agrees_def Cons_nth_drop_Suc [symmetric] Suc_diff_Suc [symmetric])

lemma merge_beyond: "length es \<le> i \<Longrightarrow> i \<le> length es \<Longrightarrow> merge_entries new i es = es @ new"
  by (induction new arbitrary: i es) simp_all

lemma merge_agrees:
  "i \<le> length es \<Longrightarrow> agrees new i es \<Longrightarrow>
     merge_entries new i es = es @ drop (length es - i) new"
proof (induction new i es rule: merge_entries.induct)
  case (2 e new i es)
  show ?case
  proof (cases "i < length es")
    case True
    then show ?thesis
      using 2 by (simp add: agrees_Cons Suc_diff_Suc [symmetric])
  next
    case False
    then show ?thesis using 2 merge_beyond [of es i "e # new"] by simp
  qed
qed simp

lemma merge_again:
  assumes "i \<le> length es"
  shows "merge_entries new i (merge_entries new i es) = merge_entries new i es"
proof -
  let ?m = "merge_entries new i es"
  have len: "i + length new \<le> length ?m" using assms by (rule merge_length)
  have "agrees new i ?m"
    using len merge_terms [OF assms, of _ new]
    by (auto simp: agrees_def list_all2_conv_all_nth)
  then show ?thesis using merge_agrees [of i ?m new] len by simp
qed

end
