(* ===== verification/Posix_File.thy ===== *)
theory Posix_File
  imports Byte_Order
begin

text \<open>
  The POSIX calls \<open>persist-unix\<close> makes on an open file: \<open>fstat\<close>, \<open>lseek\<close> with \<open>SEEK_SET\<close>,
  \<open>read\<close>, \<open>write\<close>, \<open>fsync\<close> and \<open>ftruncate\<close>. A file is its bytes as the system shows them, the
  bytes that the last \<open>fsync\<close> put on the device (\<open>f_durable\<close>), the offset of the descriptor, and
  how the system treats its next calls: in full, in part (a short count), or not at all
  (an error, -1). A theorem about every \<open>f_io\<close> is a theorem about every pattern of errors; a
  crash of the process before its \<open>k\<close>-th call is the pattern in which no call from the
  \<open>k\<close>-th on does anything.
\<close>

datatype io_res = IoFull | IoShort nat | IoFail

record file_t =
  f_content :: "u8 list"
  f_durable :: "u8 list"
  f_pos :: nat
  f_io :: "nat \<Rightarrow> io_res"
  f_calls :: nat

definition file_open :: "u8 list \<Rightarrow> (nat \<Rightarrow> io_res) \<Rightarrow> file_t" where
  "file_open bytes io = \<lparr>f_content = bytes, f_durable = bytes, f_pos = 0, f_io = io, f_calls = 0\<rparr>"

definition io_next :: "file_t \<Rightarrow> io_res \<times> file_t" where
  "io_next f = (f_io f (f_calls f), f\<lparr>f_calls := f_calls f + 1\<rparr>)"

definition overwrite :: "nat \<Rightarrow> u8 list \<Rightarrow> u8 list \<Rightarrow> u8 list" where
  "overwrite pos bs content =
     take pos content @ replicate (pos - length content) 0 @ bs @ drop (pos + length bs) content"

definition sys_lseek :: "int \<Rightarrow> file_t \<Rightarrow> int \<times> file_t" where
  "sys_lseek off f =
     (let (r, f) = io_next f
      in if off < 0 \<or> r = IoFail then (-1, f) else (off, f\<lparr>f_pos := nat off\<rparr>))"

definition sys_read :: "nat \<Rightarrow> file_t \<Rightarrow> (int \<times> u8 list) \<times> file_t" where
  "sys_read n f =
     (let (r, f) = io_next f
      in case r of
           IoFail \<Rightarrow> ((-1, []), f)
         | IoShort m \<Rightarrow>
             let bs = take (min n m) (drop (f_pos f) (f_content f))
             in ((int (length bs), bs), f\<lparr>f_pos := f_pos f + length bs\<rparr>)
         | IoFull \<Rightarrow>
             let bs = take n (drop (f_pos f) (f_content f))
             in ((int (length bs), bs), f\<lparr>f_pos := f_pos f + length bs\<rparr>))"

definition sys_write :: "u8 list \<Rightarrow> file_t \<Rightarrow> int \<times> file_t" where
  "sys_write data f =
     (let (r, f) = io_next f;
          put = (\<lambda>bs. (int (length bs),
            f\<lparr>f_content := overwrite (f_pos f) bs (f_content f), f_pos := f_pos f + length bs\<rparr>))
      in case r of IoFail \<Rightarrow> (-1, f) | IoShort m \<Rightarrow> put (take m data) | IoFull \<Rightarrow> put data)"

definition sys_fsync :: "file_t \<Rightarrow> int \<times> file_t" where
  "sys_fsync f = (let (r, f) = io_next f
      in if r = IoFail then (-1, f) else (0, f\<lparr>f_durable := f_content f\<rparr>))"

definition sys_ftruncate :: "int \<Rightarrow> file_t \<Rightarrow> int \<times> file_t" where
  "sys_ftruncate len f =
     (let (r, f) = io_next f
      in if len < 0 \<or> r = IoFail then (-1, f)
         else (0, f\<lparr>f_content := take (nat len) (f_content f) @
                     replicate (nat len - length (f_content f)) 0\<rparr>))"

text \<open>
  \<open>fstat\<close>: the result and \<open>st_size\<close>. When the call fails the struct keeps what was in it before.
\<close>

definition sys_fstat :: "int \<Rightarrow> file_t \<Rightarrow> (int \<times> int) \<times> file_t" where
  "sys_fstat st_size f =
     (let (r, f) = io_next f
      in (if r = IoFail then (-1, st_size) else (0, int (length (f_content f))), f))"

lemmas sys_defs = sys_fstat_def sys_lseek_def sys_read_def sys_write_def sys_fsync_def sys_ftruncate_def io_next_def

section \<open>Overwriting\<close>

lemma length_overwrite [simp]:
  "length (overwrite pos bs content) = max (length content) (pos + length bs)"
  by (auto simp: overwrite_def)

lemma overwrite_empty: "pos \<le> length content \<Longrightarrow> overwrite pos [] content = content"
  by (simp add: overwrite_def)

lemma take_overwrite_before:
  "n \<le> pos \<Longrightarrow> n \<le> length content \<Longrightarrow> take n (overwrite pos bs content) = take n content"
  by (simp add: overwrite_def min_def)

lemma overwrite_read_same:
  "pos \<le> length content \<Longrightarrow> take (length bs) (drop pos (overwrite pos bs content)) = bs"
  by (simp add: overwrite_def)

lemma overwrite_read_before:
  "q + n \<le> pos \<Longrightarrow> pos \<le> length content \<Longrightarrow>
     take n (drop q (overwrite pos bs content)) = take n (drop q content)"
  by (auto simp: overwrite_def drop_take min_def)

lemma overwrite_read_after:
  "pos + length bs \<le> q \<Longrightarrow> pos \<le> length content \<Longrightarrow>
     drop q (overwrite pos bs content) = drop q content"
  by (simp add: overwrite_def)

lemma overwrite_read_part:
  "pos \<le> length content \<Longrightarrow> length bs \<le> n \<Longrightarrow> take n (drop pos (overwrite pos bs content)) =
     bs @ drop (length bs) (take n (drop pos content))"
  by (simp add: overwrite_def drop_take ac_simps)

section \<open>A file whose calls all succeed\<close>

definition io_ok :: "file_t \<Rightarrow> bool" where
  "io_ok f \<longleftrightarrow> (\<forall>k. f_io f k = IoFull)"

lemma io_ok_update [simp]:
  "io_ok (f\<lparr>f_calls := k\<rparr>) = io_ok f"
  "io_ok (f\<lparr>f_pos := p\<rparr>) = io_ok f"
  "io_ok (f\<lparr>f_content := bs\<rparr>) = io_ok f"
  "io_ok (f\<lparr>f_durable := bs\<rparr>) = io_ok f"
  by (simp_all add: io_ok_def)

lemma io_ok_calls [simp]:
  "io_ok (snd (sys_fstat sz f)) = io_ok f"
  "io_ok (snd (sys_lseek off f)) = io_ok f"
  "io_ok (snd (sys_read n f)) = io_ok f"
  "io_ok (snd (sys_write bs f)) = io_ok f"
  "io_ok (snd (sys_fsync f)) = io_ok f"
  "io_ok (snd (sys_ftruncate len f)) = io_ok f"
  by (simp_all add: sys_defs io_ok_def Let_def split: io_res.splits)

lemma sys_ok:
  assumes "io_ok f"
  shows "0 \<le> off \<Longrightarrow> sys_lseek off f = (off, f\<lparr>f_calls := f_calls f + 1, f_pos := nat off\<rparr>)"
    and "sys_read n f = ((int (length (take n (drop (f_pos f) (f_content f)))),
            take n (drop (f_pos f) (f_content f))),
          f\<lparr>f_calls := f_calls f + 1,
            f_pos := f_pos f + length (take n (drop (f_pos f) (f_content f)))\<rparr>)"
    and "sys_write bs f = (int (length bs), f\<lparr>f_calls := f_calls f + 1,
            f_content := overwrite (f_pos f) bs (f_content f), f_pos := f_pos f + length bs\<rparr>)"
    and "sys_fsync f = (0, f\<lparr>f_calls := f_calls f + 1, f_durable := f_content f\<rparr>)"
    and "0 \<le> len \<Longrightarrow> sys_ftruncate len f = (0, f\<lparr>f_calls := f_calls f + 1,
            f_content := take (nat len) (f_content f) @
              replicate (nat len - length (f_content f)) 0\<rparr>)"
    and "sys_fstat sz f = ((0, int (length (f_content f))), f\<lparr>f_calls := f_calls f + 1\<rparr>)"
  using assms by (simp_all add: sys_defs io_ok_def Let_def)

section \<open>Integers in the byte order of the host\<close>

text \<open>\<open>write(fd, &v, 4)\<close> and \<open>read(fd, &v, 4)\<close> of a \<open>uint32_t\<close>, on a little-endian host.\<close>

definition host_bytes :: "u32 \<Rightarrow> u8 list" where
  "host_bytes v = [ucast v, ucast (drop_bit 8 v), ucast (drop_bit 16 v), ucast (drop_bit 24 v)]"

definition host_value :: "u8 list \<Rightarrow> u32" where
  "host_value bs = push_bit 24 (ucast (bs ! 3)) OR push_bit 16 (ucast (bs ! 2)) OR
     push_bit 8 (ucast (bs ! 1)) OR ucast (bs ! 0)"

lemma host_value_bytes [simp]: "host_value (host_bytes v) = v"
proof -
  have "drop_bit 0 v = v" by simp
  then show ?thesis
    using bytes_glue [of v] by (simp add: host_value_def host_bytes_def)
qed

lemma length_host_bytes [simp]: "length (host_bytes v) = 4"
  by (simp add: host_bytes_def)

section \<open>Any pattern of errors\<close>

text \<open>Words of four bytes that are written together or not at all.\<close>

definition untorn :: "file_t \<Rightarrow> bool" where
  "untorn f \<longleftrightarrow> (\<forall>k m. f_io f k = IoShort m \<longrightarrow> m = 0 \<or> 4 \<le> m)"

lemma sys_lseek_frame:
  "f_content (snd (sys_lseek off f)) = f_content f"
  "f_io (snd (sys_lseek off f)) = f_io f"
  "0 \<le> off \<Longrightarrow> fst (sys_lseek off f) \<noteq> -1 \<Longrightarrow> f_pos (snd (sys_lseek off f)) = nat off"
  by (auto simp: sys_defs Let_def split: if_splits)

lemma sys_fstat_frame:
  "f_content (snd (sys_fstat sz f)) = f_content f" "f_pos (snd (sys_fstat sz f)) = f_pos f"
  by (simp_all add: sys_defs Let_def)

lemma sys_fsync_frame: "f_content (snd (sys_fsync f)) = f_content f"
  by (simp add: sys_defs Let_def)

end
