(* ===== verification/Persist_Log.thy ===== *)
theory Persist_Log
  imports Log_Store Posix_File
begin

text \<open>
  \<open>src/persist-unix/log.c\<close>: the log in two files, \<open>raft_<id>.log\<close> with 16 bytes an entry and
  \<open>raft_<id>.log.meta\<close> with the length in the byte order of the host (little endian here).
  Every system call is there in the code's order with its error return.

  \<open>log_entries\<close> is the list a log context stands for, \<open>log_good\<close> the contexts whose files
  agree with the length in memory and whose device does not fail; \<open>file_log\<close> interprets the
  contract \<open>log_store\<close> on the functions of the file. The last section is about devices that do
  fail: a log whose process stops in the middle of a call is reopened with its old or with its
  new contents.
\<close>

section \<open>The context and the functions\<close>

record log_context_t =
  log_fd :: file_t
  meta_fd :: file_t
  lc_length :: u32

definition f_log_read ::
  "int \<Rightarrow> int \<Rightarrow> log_context_t \<Rightarrow> (int \<times> log_entry_t option) \<times> log_context_t" where
  "f_log_read idx n lctx =
     (if idx < 0 \<or> lc_length lctx \<le> u32_of_int idx then ((EOBND, None), lctx)
      else let (r, f) = sys_lseek (idx * uint log_entry_packed_size) (log_fd lctx);
               lctx = lctx\<lparr>log_fd := f\<rparr>
           in if r = -1 then ((-1, None), lctx)
              else let ((k, buf), f) = sys_read (unat log_entry_packed_size) (log_fd lctx);
                       lctx = lctx\<lparr>log_fd := f\<rparr>
                   in if k \<noteq> uint log_entry_packed_size then ((-1, None), lctx)
                      else ((n, Some (entry_of_bytes buf)), lctx))"

text \<open>Writing the length to the meta file: the end of \<open>f_log_write\<close> and \<open>f_log_remove_last_n\<close>.\<close>

definition write_meta :: "log_context_t \<Rightarrow> bool \<times> log_context_t" where
  "write_meta lctx =
     (let (r, f) = sys_lseek 0 (meta_fd lctx);
          lctx = lctx\<lparr>meta_fd := f\<rparr>
      in if r = -1 then (False, lctx)
         else let (k, f) = sys_write (host_bytes (lc_length lctx)) (meta_fd lctx);
                  lctx = lctx\<lparr>meta_fd := f\<rparr>
              in if k \<noteq> 4 then (False, lctx)
                 else (True, lctx\<lparr>meta_fd := snd (sys_fsync (meta_fd lctx))\<rparr>))"

definition f_log_write ::
  "int \<Rightarrow> log_entry_t \<Rightarrow> int \<Rightarrow> log_context_t \<Rightarrow> int \<times> log_context_t" where
  "f_log_write idx entry n lctx =
     (if idx < 0 \<or> lc_length lctx < u32_of_int idx then (EOBND, lctx)
      else let (r, f) = sys_lseek (idx * uint log_entry_packed_size) (log_fd lctx);
               lctx = lctx\<lparr>log_fd := f\<rparr>
           in if r = -1 then (-1, lctx)
              else let (k, f) = sys_write (entry_bytes entry) (log_fd lctx);
                       lctx = lctx\<lparr>log_fd := f\<rparr>
                   in if k \<noteq> uint log_entry_packed_size then (-1, lctx)
                      else let lctx = lctx\<lparr>log_fd := snd (sys_fsync (log_fd lctx))\<rparr>
                           in if u32_of_int idx = lc_length lctx
                              then let lctx = lctx\<lparr>lc_length := lc_length lctx + 1\<rparr>;
                                       (ok, lctx) = write_meta lctx
                                   in (if ok then 0 else -1, lctx)
                              else (0, lctx))"

definition f_log_entry_size :: "int \<Rightarrow> log_context_t \<Rightarrow> int" where
  "f_log_entry_size idx lctx = uint log_entry_packed_size"

definition f_log_start_index :: "log_context_t \<Rightarrow> int" where
  "f_log_start_index lctx = 0"

definition f_log_end_index :: "log_context_t \<Rightarrow> int" where
  "f_log_end_index lctx = int_of_u32 (lc_length lctx) - 1"

definition f_log_length :: "log_context_t \<Rightarrow> int" where
  "f_log_length lctx = int_of_u32 (lc_length lctx)"

definition f_log_remove_last_n :: "int \<Rightarrow> log_context_t \<Rightarrow> int \<times> log_context_t" where
  "f_log_remove_last_n n lctx =
     (if n \<le> 0 then (0, lctx)
      else let n = (if lc_length lctx < u32_of_int n then int_of_u32 (lc_length lctx) else n);
               lctx = lctx\<lparr>lc_length := lc_length lctx - u32_of_int n\<rparr>;
               (ok, lctx) = write_meta lctx
           in if \<not> ok then (-1, lctx)
              else (n, lctx\<lparr>log_fd := snd (sys_ftruncate
                      (uint (lc_length lctx) * uint log_entry_packed_size) (log_fd lctx))\<rparr>))"

text \<open>
  \<open>log_init\<close>: \<open>None\<close> for a file that does not open, which ends the process (\<open>exit(1)\<close>, here
  \<open>None\<close>). A new meta file gets the length 0. An existing one gives the length. The code looks at
  the results neither of \<open>fstat\<close> nor of that \<open>read\<close>: \<open>heap\<close> is what was in memory before them, the
  field of the length and the size in the struct.
\<close>

definition file_log_ops :: "log_context_t \<Rightarrow> log_context_t log_t" where
  "file_log_ops ctx =
     \<lparr>log_read = f_log_read, log_write = f_log_write, log_entry_size = f_log_entry_size,
      log_start_index = f_log_start_index, log_end_index = f_log_end_index,
      log_length = f_log_length, log_remove_last_n = f_log_remove_last_n, log_context = ctx\<rparr>"

definition log_init :: "file_t option \<Rightarrow> file_t option \<Rightarrow> u32 \<times> int \<Rightarrow> log_context_t log_t option" where
  "log_init log_file meta_file heap =
     (case (log_file, meta_file) of
        (Some lf, Some mf) \<Rightarrow>
          let ((_, st_size), mf) = sys_fstat (snd heap) mf
          in if st_size < 4
          then let (_, mf) = sys_write (host_bytes 0) mf;
                   (_, mf) = sys_fsync mf
               in Some (file_log_ops \<lparr>log_fd = lf, meta_fd = mf, lc_length = 0\<rparr>)
          else let (_, mf) = sys_lseek 0 mf;
                   ((k, bs), mf) = sys_read 4 mf
               in Some (file_log_ops \<lparr>log_fd = lf, meta_fd = mf,
                     lc_length = (if k = 4 then host_value bs else fst heap)\<rparr>)
      | _ \<Rightarrow> None)"

section \<open>The list a log stands for\<close>

definition slot :: "u8 list \<Rightarrow> nat \<Rightarrow> log_entry_t" where
  "slot content i = entry_of_bytes (take 16 (drop (16 * i) content))"

definition disk_entries :: "u8 list \<Rightarrow> nat \<Rightarrow> log_entry_t list" where
  "disk_entries content n = map (slot content) [0..<n]"

definition log_entries :: "log_context_t \<Rightarrow> log_entry_t list" where
  "log_entries lctx = disk_entries (f_content (log_fd lctx)) (unat (lc_length lctx))"

definition files_agree :: "log_context_t \<Rightarrow> bool" where
  "files_agree lctx \<longleftrightarrow>
     unat (lc_length lctx) \<le> log_capacity \<and>
     16 * unat (lc_length lctx) \<le> length (f_content (log_fd lctx)) \<and>
     f_content (meta_fd lctx) = host_bytes (lc_length lctx)"

definition log_good :: "log_context_t \<Rightarrow> bool" where
  "log_good lctx \<longleftrightarrow> io_ok (log_fd lctx) \<and> io_ok (meta_fd lctx) \<and> files_agree lctx"

lemma length_disk_entries [simp]: "length (disk_entries content n) = n"
  by (simp add: disk_entries_def)

lemma length_log_entries [simp]: "length (log_entries lctx) = unat (lc_length lctx)"
  by (simp add: log_entries_def)

lemma nth_disk_entries [simp]: "i < n \<Longrightarrow> disk_entries content n ! i = slot content i"
  by (simp add: disk_entries_def)

lemma take_disk_entries [simp]:
  "take m (disk_entries content n) = disk_entries content (min m n)"
  by (simp add: disk_entries_def take_map min_def)

lemma slot_overwrite_same:
  "16 * i \<le> length content \<Longrightarrow> slot (overwrite (16 * i) (entry_bytes e) content) i = e"
  using overwrite_read_same [of "16 * i" content "entry_bytes e"] by (simp add: slot_def)

lemma slot_overwrite_other:
  assumes "i \<noteq> j" and "16 * j \<le> length content" and "length bs \<le> 16"
  shows "slot (overwrite (16 * j) bs content) i = slot content i"
proof (cases "i < j")
  case True
  then show ?thesis
    using assms by (simp add: slot_def overwrite_read_before)
next
  case False
  then show ?thesis
    using assms by (simp add: slot_def overwrite_read_after)
qed

lemma disk_entries_append:
  assumes "16 * n \<le> length content"
  shows "disk_entries (overwrite (16 * n) (entry_bytes e) content) (Suc n) =
    disk_entries content n @ [e]"
  using assms by (simp add: disk_entries_def slot_overwrite_same slot_overwrite_other)

lemma disk_entries_tail:
  assumes "16 * n \<le> length content" and "length bs \<le> 16"
  shows "disk_entries (overwrite (16 * n) bs content) n = disk_entries content n"
  using assms by (simp add: disk_entries_def slot_overwrite_other)

lemma disk_entries_update:
  assumes "i < n" and "16 * n \<le> length content"
  shows "disk_entries (overwrite (16 * i) (entry_bytes e) content) n =
    (disk_entries content n)[i := e]"
  using assms
  by (intro nth_equalityI)
    (auto simp: nth_list_update slot_overwrite_same slot_overwrite_other)

lemma disk_entries_truncate:
  "disk_entries (take (16 * n) content @ replicate k 0) n = disk_entries content n"
  if "16 * n \<le> length content"
  using that
  by (auto simp: disk_entries_def slot_def drop_take min_def)

section \<open>The functions on a good context\<close>

lemma packed_size [simp]: "uint log_entry_packed_size = 16" "unat log_entry_packed_size = 16"
  by (simp_all add: log_entry_packed_size_def)

lemma log_good_small: "log_good c \<Longrightarrow> unat (lc_length c) < 2 ^ 31"
  by (simp add: log_good_def files_agree_def log_capacity_def)

lemma f_log_length_good: "log_good c \<Longrightarrow> f_log_length c = int (length (log_entries c))"
  using log_good_small [of c] by (simp add: f_log_length_def cast)

lemma f_log_read_in:
  assumes "log_good c" and "0 \<le> i" and "i < int (length (log_entries c))"
  shows "f_log_read i n c = ((n, Some (log_entries c ! nat i)),
    c\<lparr>log_fd := (log_fd c)\<lparr>f_calls := f_calls (log_fd c) + 2, f_pos := 16 * nat i + 16\<rparr>\<rparr>)"
proof -
  have ok: "io_ok (log_fd c)" and len: "16 * unat (lc_length c) \<le> length (f_content (log_fd c))"
    using assms(1) by (auto simp: log_good_def files_agree_def)
  have i: "nat i < length (log_entries c)" using assms(2,3) by linarith
  have "i < 2 ^ 32" using assms uint_below [OF log_good_small [OF assms(1)]] by simp
  then have "\<not> lc_length c \<le> u32_of_int i"
    using assms(2,3) by (simp add: u32_le_of_int)
  moreover have "16 * nat i + 16 \<le> length (f_content (log_fd c))"
    using len i by simp
  then have bytes: "length (take 16 (drop (16 * nat i) (f_content (log_fd c)))) = 16" by simp
  moreover have "nat (i * 16) = 16 * nat i" using assms(2) by simp
  ultimately show ?thesis
    using assms(2) i ok
    by (simp add: f_log_read_def Let_def sys_ok log_entries_def slot_def)
qed

lemma f_log_read_out:
  assumes "log_good c" and "i < 0 \<or> int (length (log_entries c)) \<le> i \<and> i < 2 ^ 31"
  shows "f_log_read i n c = ((EOBND, None), c)"
  using assms by (auto simp: f_log_read_def u32_le_of_int)

lemma write_meta_ok:
  assumes "io_ok (meta_fd c)" and "length (f_content (meta_fd c)) = 4"
  shows "fst (write_meta c)" and "log_fd (snd (write_meta c)) = log_fd c"
    and "lc_length (snd (write_meta c)) = lc_length c"
    and "io_ok (meta_fd (snd (write_meta c)))"
    and "f_content (meta_fd (snd (write_meta c))) = host_bytes (lc_length c)"
  using assms by (simp_all add: write_meta_def Let_def sys_ok overwrite_def)

lemma f_log_append:
  assumes "log_good c" and "i = int (length (log_entries c))" and "i < int log_capacity"
  shows "fst (f_log_write i e n c) = 0" and "log_good (snd (f_log_write i e n c))"
    and "log_entries (snd (f_log_write i e n c)) = log_entries c @ [e]"
proof -
  let ?k = "unat (lc_length c)"
  let ?content = "overwrite (16 * ?k) (entry_bytes e) (f_content (log_fd c))"
  let ?c1 = "c\<lparr>log_fd := (log_fd c)\<lparr>f_content := ?content, f_pos := 16 * ?k + 16,
      f_calls := Suc (Suc (Suc (f_calls (log_fd c)))), f_durable := ?content\<rparr>, lc_length := lc_length c + 1\<rparr>"
  have ok: "io_ok (log_fd c)" "io_ok (meta_fd c)"
    and len: "16 * ?k \<le> length (f_content (log_fd c))"
    and meta: "f_content (meta_fd c) = host_bytes (lc_length c)"
    using assms(1) by (auto simp: log_good_def files_agree_def)
  have i: "i = int ?k" "?k < log_capacity"
    using assms(2,3) unfolding length_log_entries by linarith+
  then have suc: "unat (lc_length c + 1) = Suc ?k"
    by (simp add: unat_suc_below log_capacity_def)
  have eq: "u32_of_int i = lc_length c" using i by simp
  have idx: "nat (i * 16) = 16 * ?k" "0 \<le> i"
    unfolding i(1) by (rule nat_times_16) simp
  note meta1 = write_meta_ok [of ?c1, simplified]
  have run: "f_log_write i e n c = (0, snd (write_meta ?c1))"
    using ok idx eq meta meta1(1) by (simp add: f_log_write_def Let_def sys_ok split_beta)
  show "fst (f_log_write i e n c) = 0" using run by simp
  show "log_good (snd (f_log_write i e n c))"
    using ok meta meta1 len suc i(2) by (simp add: run log_good_def files_agree_def)
  show "log_entries (snd (f_log_write i e n c)) = log_entries c @ [e]"
    using ok meta meta1 suc len by (simp add: run log_entries_def disk_entries_append)
qed

lemma f_log_update:
  assumes "log_good c" and "0 \<le> i" and "i < int (length (log_entries c))"
  shows "fst (f_log_write i e n c) = 0" and "log_good (snd (f_log_write i e n c))"
    and "log_entries (snd (f_log_write i e n c)) = (log_entries c)[nat i := e]"
proof -
  let ?content = "overwrite (16 * nat i) (entry_bytes e) (f_content (log_fd c))"
  have ok: "io_ok (log_fd c)" and len: "16 * unat (lc_length c) \<le> length (f_content (log_fd c))"
    using assms(1) by (auto simp: log_good_def files_agree_def)
  have i: "nat i < unat (lc_length c)"
    using assms(2,3) unfolding length_log_entries by linarith
  have b: "i < 2 ^ 32" "i < uint (lc_length c)"
    using assms(3) uint_below [OF log_good_small [OF assms(1)]] by simp_all
  then have n: "\<not> lc_length c < u32_of_int i" "u32_of_int i \<noteq> lc_length c"
    using assms(2) by (simp_all add: u32_less_of_int u32_of_int_eq_iff)
  have idx: "nat (i * 16) = 16 * nat i" using assms(2) by simp
  have run: "f_log_write i e n c = (0, c\<lparr>log_fd := (log_fd c)\<lparr>f_calls := f_calls (log_fd c) + 3,
      f_content := ?content, f_pos := 16 * nat i + 16, f_durable := ?content\<rparr>\<rparr>)"
    using ok idx n assms(2) by (simp add: f_log_write_def Let_def sys_ok)
  show "fst (f_log_write i e n c) = 0" using run by simp
  show "log_good (snd (f_log_write i e n c))"
    using assms(1) ok len by (simp add: run log_good_def files_agree_def)
  show "log_entries (snd (f_log_write i e n c)) = (log_entries c)[nat i := e]"
    using i len by (simp add: run log_entries_def disk_entries_update)
qed

lemma f_log_write_out:
  assumes "log_good c" and "i < 0 \<or> int (length (log_entries c)) < i \<and> i < 2 ^ 31"
  shows "f_log_write i e n c = (EOBND, c)"
  using assms by (auto simp: f_log_write_def u32_less_of_int)

text \<open>The clamp of the count, and the length that is left.\<close>

lemma remove_count:
  assumes "0 < n" and "n < 2 ^ 31" and "unat (k :: u32) < 2 ^ 31"
  shows "(if k < u32_of_int n then int_of_u32 k else n) = min n (uint k)"
    and "unat (k - u32_of_int (min n (uint k))) = unat k - nat n"
proof -
  show "(if k < u32_of_int n then int_of_u32 k else n) = min n (uint k)"
    using assms by (simp add: u32_less_of_int cast min_def)
  have "unat (u32_of_int (min n (uint k))) = nat (min n (uint k))"
    using assms by (intro unat_u32_of_int) auto
  also have "nat (min n (uint k)) = min (nat n) (unat k)"
    unfolding nat_min_int by simp
  finally have m: "unat (u32_of_int (min n (uint k))) = min (nat n) (unat k)" .
  then have "u32_of_int (min n (uint k)) \<le> k" by (simp add: word_le_nat_alt)
  then show "unat (k - u32_of_int (min n (uint k))) = unat k - nat n"
    by (simp add: unat_sub m)
qed

lemma f_log_remove:
  assumes "log_good c" and "n < 2 ^ 31"
  shows "fst (f_log_remove_last_n n c) = max 0 (min n (int (length (log_entries c))))"
    and "log_good (snd (f_log_remove_last_n n c))"
    and "log_entries (snd (f_log_remove_last_n n c)) =
      take (length (log_entries c) - nat n) (log_entries c)"
proof -
  let ?k = "unat (lc_length c)" and ?m = "min n (uint (lc_length c))"
  let ?c1 = "c\<lparr>lc_length := lc_length c - u32_of_int ?m\<rparr>"
  have ok: "io_ok (log_fd c)" "io_ok (meta_fd c)"
    and len: "16 * ?k \<le> length (f_content (log_fd c))" and cap: "?k \<le> log_capacity"
    and meta: "f_content (meta_fd c) = host_bytes (lc_length c)"
    using assms(1) by (auto simp: log_good_def files_agree_def)
  have small: "?k < 2 ^ 31" using log_good_small [OF assms(1)] .
  have run: "f_log_remove_last_n n c = (?m, (snd (write_meta ?c1))\<lparr>log_fd :=
      snd (sys_ftruncate (uint (lc_length c - u32_of_int ?m) * 16) (log_fd c))\<rparr>)" if "0 < n"
    using that ok meta write_meta_ok [of ?c1, simplified] remove_count(1) [OF that assms(2) small]
    by (simp add: f_log_remove_last_n_def Let_def split_beta)
  have left: "unat (lc_length c - u32_of_int ?m) = ?k - nat n" if "0 < n"
    using remove_count(2) [OF that assms(2) small] .
  show "fst (f_log_remove_last_n n c) = max 0 (min n (int (length (log_entries c))))"
  proof (cases "0 < n")
    case True
    then show ?thesis using run by simp
  next
    case False
    then show ?thesis by (simp add: f_log_remove_last_n_def)
  qed
  let ?c2 = "snd (f_log_remove_last_n n c)" and ?j = "?k - nat n"
  have fin: "io_ok (log_fd ?c2) \<and> io_ok (meta_fd ?c2) \<and> unat (lc_length ?c2) = ?j \<and>
      f_content (meta_fd ?c2) = host_bytes (lc_length ?c2) \<and>
      f_content (log_fd ?c2) = take (16 * ?j) (f_content (log_fd c)) @
        replicate (16 * ?j - length (f_content (log_fd c))) 0" if "0 < n"
    using ok meta write_meta_ok [of ?c1, simplified] left [OF that]
    by (simp add: run [OF that] sys_ok nat_uint_times_16)
  show "log_good ?c2"
  proof (cases "0 < n")
    case True
    with fin cap len show ?thesis by (simp add: log_good_def files_agree_def)
  next
    case False
    then show ?thesis using assms(1) by (simp add: f_log_remove_last_n_def)
  qed
  show "log_entries ?c2 = take (length (log_entries c) - nat n) (log_entries c)"
  proof (cases "0 < n")
    case True
    have "16 * ?j \<le> length (f_content (log_fd c))" using len by simp
    note trunc = disk_entries_truncate [OF this]
    have "log_entries ?c2 = disk_entries (f_content (log_fd c)) ?j"
      unfolding log_entries_def using fin [OF True] trunc by metis
    then show ?thesis by (simp add: log_entries_def)
  next
    case False
    then show ?thesis by (simp add: f_log_remove_last_n_def)
  qed
qed

lemma f_log_read_frame:
  "io_ok (log_fd (snd (f_log_read i n c))) = io_ok (log_fd c)"
  "f_content (log_fd (snd (f_log_read i n c))) = f_content (log_fd c)"
  "meta_fd (snd (f_log_read i n c)) = meta_fd c"
  "lc_length (snd (f_log_read i n c)) = lc_length c"
  by (simp_all add: f_log_read_def sys_defs Let_def split_beta io_ok_def split: io_res.split)

section \<open>The contract holds\<close>

interpretation file_log: log_store "file_log_ops ctx" log_entries log_good
proof (unfold_locales, goal_cases)
  case (1 c)
  then show ?case by (simp add: log_good_def files_agree_def)
next
  case (2 c)
  then show ?case by (simp add: file_log_ops_def f_log_length_good del: length_log_entries)
next
  case (3 c)
  then show ?case
    using f_log_length_good [of c] by (simp add: file_log_ops_def f_log_end_index_def f_log_length_def)
next
  case (4 c)
  then show ?case by (simp add: file_log_ops_def f_log_start_index_def)
next
  case (5 c i n)
  then show ?case by (simp add: file_log_ops_def f_log_read_in del: length_log_entries)
next
  case (6 c i n)
  then show ?case by (simp add: file_log_ops_def f_log_read_out del: length_log_entries)
next
  case (7 c i n)
  then show ?case by (simp add: file_log_ops_def log_good_def files_agree_def f_log_read_frame)
next
  case (8 c i n)
  then show ?case by (simp add: file_log_ops_def log_entries_def f_log_read_frame)
next
  case (9 c i e n)
  then show ?case by (simp add: file_log_ops_def f_log_append del: length_log_entries)
next
  case (10 c i e n)
  then show ?case by (simp add: file_log_ops_def f_log_update del: length_log_entries)
next
  case (11 c i e n)
  then show ?case by (simp add: file_log_ops_def f_log_write_out del: length_log_entries)
next
  case (12 c n)
  then show ?case by (simp add: file_log_ops_def f_log_remove del: length_log_entries)
qed

section \<open>Devices that fail\<close>

text \<open>
  \<open>reopen\<close> is \<open>log_init\<close> in the next process, on what the files hold and on a device that
  works again. The meta file is \<open>untorn\<close>: its four bytes are written together or not at all; the
  log file may be torn anywhere.
\<close>

definition reopen :: "log_context_t \<Rightarrow> u32 \<times> int \<Rightarrow> log_context_t log_t option" where
  "reopen c heap = log_init (Some (file_open (f_content (log_fd c)) (\<lambda>_. IoFull)))
     (Some (file_open (f_content (meta_fd c)) (\<lambda>_. IoFull))) heap"

definition reopened :: "log_context_t \<Rightarrow> u32 \<times> int \<Rightarrow> log_entry_t list" where
  "reopened c heap =
     (case reopen c heap of Some lg \<Rightarrow> log_entries (log_context lg) | None \<Rightarrow> [])"

lemma reopen_entries:
  assumes "f_content (meta_fd c) = host_bytes n"
  shows "reopened c heap = disk_entries (f_content (log_fd c)) (unat n)"
proof -
  let ?f = "file_open (host_bytes n) (\<lambda>_. IoFull)"
  have "io_ok ?f" by (simp add: io_ok_def file_open_def)
  then show ?thesis
    using assms by (simp add: reopened_def reopen_def log_init_def sys_ok Let_def split_beta
        file_log_ops_def log_entries_def file_open_def io_ok_def)
qed

lemma write_meta_frame:
  "log_fd (snd (write_meta c)) = log_fd c"
  "lc_length (snd (write_meta c)) = lc_length c"
  by (simp_all add: write_meta_def Let_def split_beta)

lemma write_meta_any_io:
  assumes "untorn (meta_fd c)" and "length (f_content (meta_fd c)) = 4"
  shows "f_content (meta_fd (snd (write_meta c))) = f_content (meta_fd c) \<and> \<not> fst (write_meta c) \<or>
     f_content (meta_fd (snd (write_meta c))) = host_bytes (lc_length c) \<and> fst (write_meta c)"
proof -
  have torn: "m = 0 \<or> 4 \<le> m" if "f_io (meta_fd c) k = IoShort m" for k m
    using assms(1) that by (auto simp: untorn_def)
  show ?thesis
    using assms(2)
    by (auto simp: write_meta_def sys_defs Let_def split_beta overwrite_def
        split: io_res.split dest!: torn)
qed

lemma log_write_tail:
  assumes "16 * k \<le> length content"
  shows "disk_entries (overwrite (16 * k) (take m (entry_bytes e)) content) k =
    disk_entries content k"
  using assms by (intro disk_entries_tail) auto

lemma sys_write_entry_any_io:
  assumes "f_pos f = 16 * k" and "16 * k \<le> length (f_content f)"
  obtains (full) "fst (sys_write (entry_bytes e) f) = 16"
      "f_content (snd (sys_write (entry_bytes e) f)) = overwrite (16 * k) (entry_bytes e) (f_content f)"
  | (part) m where "fst (sys_write (entry_bytes e) f) \<noteq> 16"
      "f_content (snd (sys_write (entry_bytes e) f)) =
         overwrite (16 * k) (take m (entry_bytes e)) (f_content f)"
proof (cases "f_io f (f_calls f)")
  case IoFull
  then show ?thesis using full assms by (simp add: sys_defs Let_def)
next
  case (IoShort m)
  then show ?thesis
    using full part [of m] assms by (cases "16 \<le> m") (auto simp: sys_defs Let_def)
next
  case IoFail
  then show ?thesis
    using part [of 0] assms by (simp add: sys_defs Let_def overwrite_empty)
qed

lemma f_log_append_any_io:
  assumes agree: "files_agree c" and un: "untorn (meta_fd c)"
    and i: "i = int (length (log_entries c))" and cap: "length (log_entries c) < log_capacity"
  shows "fst (f_log_write i e n c) = -1 \<and>
      reopened (snd (f_log_write i e n c)) heap = log_entries c \<or>
    fst (f_log_write i e n c) = 0 \<and>
      reopened (snd (f_log_write i e n c)) heap = log_entries c @ [e]"
proof -
  let ?k = "unat (lc_length c)" and ?content = "f_content (log_fd c)"
  have len: "16 * ?k \<le> length ?content"
    and meta: "f_content (meta_fd c) = host_bytes (lc_length c)"
    using agree by (auto simp: files_agree_def)
  have k: "?k < log_capacity" using cap by simp
  have suc: "unat (lc_length c + 1) = Suc ?k"
    using k by (simp add: unat_suc_below log_capacity_def)
  have eq: "u32_of_int i = lc_length c" "\<not> i < 0" using i by simp_all
  let ?ls = "sys_lseek (i * 16) (log_fd c)"
  have pos: "f_pos (snd ?ls) = 16 * ?k" if "fst ?ls \<noteq> -1"
    using sys_lseek_frame(3) [OF _ that] eq i nat_uint_times_16 [of "lc_length c"] by simp
  show ?thesis
  proof (cases "fst ?ls = -1")
    case True
    then have "snd (f_log_write i e n c) = c\<lparr>log_fd := snd ?ls\<rparr>" "fst (f_log_write i e n c) = -1"
      using eq by (simp_all add: f_log_write_def Let_def split_beta)
    then show ?thesis
      using meta by (simp add: reopen_entries sys_lseek_frame log_entries_def)
  next
    case lseek: False
    let ?w = "sys_write (entry_bytes e) (snd ?ls)"
    have "16 * ?k \<le> length (f_content (snd ?ls))" using len by (simp add: sys_lseek_frame)
    then show ?thesis
    proof (cases rule: sys_write_entry_any_io [OF pos [OF lseek], of e, case_names full part, consumes 1])
      case (part m)
      then have "snd (f_log_write i e n c) = c\<lparr>log_fd := snd ?w\<rparr>" "fst (f_log_write i e n c) = -1"
        using lseek eq by (simp_all add: f_log_write_def Let_def split_beta)
      then show ?thesis
        using meta part(2) len
        by (simp add: reopen_entries sys_lseek_frame log_entries_def log_write_tail)
    next
      case full
      let ?c1 = "c\<lparr>log_fd := snd (sys_fsync (snd ?w)), lc_length := lc_length c + 1\<rparr>"
      have run: "f_log_write i e n c = (if fst (write_meta ?c1) then 0 else -1, snd (write_meta ?c1))"
        using full(1) lseek eq by (simp add: f_log_write_def Let_def split_beta)
      have log: "f_content (log_fd (snd (write_meta ?c1))) =
          overwrite (16 * ?k) (entry_bytes e) ?content"
        using full(2) by (simp add: write_meta_frame sys_fsync_frame sys_lseek_frame)
      have old: "disk_entries (overwrite (16 * ?k) (entry_bytes e) ?content) ?k = log_entries c"
        using len by (simp add: disk_entries_tail log_entries_def)
      have new: "disk_entries (overwrite (16 * ?k) (entry_bytes e) ?content) (Suc ?k) =
          log_entries c @ [e]"
        using len by (simp add: disk_entries_append log_entries_def)
      show ?thesis
        using write_meta_any_io [of ?c1] un meta
        by (auto simp: run reopen_entries log old new suc)
    qed
  qed
qed

lemma f_log_remove_any_io:
  assumes agree: "files_agree c" and un: "untorn (meta_fd c)" and n: "n < 2 ^ 31"
  shows "fst (f_log_remove_last_n n c) = -1 \<and>
      reopened (snd (f_log_remove_last_n n c)) heap = log_entries c \<or>
    fst (f_log_remove_last_n n c) = max 0 (min n (int (length (log_entries c)))) \<and>
      reopened (snd (f_log_remove_last_n n c)) heap =
        take (length (log_entries c) - nat n) (log_entries c)"
proof (cases "0 < n")
  case False
  then show ?thesis
    using agree by (simp add: f_log_remove_last_n_def reopen_entries files_agree_def log_entries_def)
next
  case True
  let ?k = "unat (lc_length c)" and ?content = "f_content (log_fd c)"
  let ?c1 = "c\<lparr>lc_length := lc_length c - u32_of_int (min n (uint (lc_length c)))\<rparr>"
  have len: "16 * ?k \<le> length ?content" and small: "?k < 2 ^ 31"
    and meta: "f_content (meta_fd c) = host_bytes (lc_length c)"
    using agree by (auto simp: files_agree_def log_capacity_def)
  note count = remove_count [OF True n small]
  let ?f = "snd (sys_ftruncate (uint (lc_length ?c1) * 16) (log_fd c))"
  have run: "f_log_remove_last_n n c = (if fst (write_meta ?c1)
      then (min n (uint (lc_length c)), (snd (write_meta ?c1))\<lparr>log_fd := ?f\<rparr>)
      else (-1, snd (write_meta ?c1)))"
    using True count(1)
    by (simp add: f_log_remove_last_n_def Let_def split_beta write_meta_frame)
  have left: "16 * (?k - nat n) \<le> length ?content" using len by simp
  have trunc: "disk_entries (f_content ?f) (?k - nat n) = disk_entries ?content (?k - nat n)"
    using disk_entries_truncate [OF left, of "16 * (?k - nat n) - length ?content"] count(2)
    by (auto simp: sys_ftruncate_def io_next_def Let_def nat_uint_times_16)
  have meta1: "f_content (meta_fd (snd (write_meta ?c1))) = host_bytes (lc_length c) \<and>
      \<not> fst (write_meta ?c1) \<or>
    f_content (meta_fd (snd (write_meta ?c1))) = host_bytes (lc_length ?c1) \<and> fst (write_meta ?c1)"
    using write_meta_any_io [of ?c1] un meta by simp
  have m: "min (?k - nat n) ?k = ?k - nat n" by simp
  from meta1 show ?thesis
  proof (elim disjE)
    assume old: "f_content (meta_fd (snd (write_meta ?c1))) = host_bytes (lc_length c) \<and>
      \<not> fst (write_meta ?c1)"
    then show ?thesis
      by (simp add: run reopen_entries write_meta_frame log_entries_def)
  next
    assume new: "f_content (meta_fd (snd (write_meta ?c1))) = host_bytes (lc_length ?c1) \<and>
      fst (write_meta ?c1)"
    have "reopened (snd (f_log_remove_last_n n c)) heap = disk_entries ?content (?k - nat n)"
      using new trunc count(2) by (simp add: run reopen_entries write_meta_frame)
    moreover have "fst (f_log_remove_last_n n c) = max 0 (min n (int (length (log_entries c))))"
      using new True by (simp add: run)
    ultimately show ?thesis by (simp add: log_entries_def m)
  qed
qed

section \<open>Properties\<close>

text \<open>An empty log on devices that do as they are told, and an entry, for concrete inputs.\<close>

definition empty_log :: "(nat \<Rightarrow> io_res) \<Rightarrow> (nat \<Rightarrow> io_res) \<Rightarrow> log_context_t" where
  "empty_log io mio =
     \<lparr>log_fd = file_open [] io, meta_fd = file_open (host_bytes 0) mio, lc_length = 0\<rparr>"

definition some_entry :: log_entry_t where
  "some_entry = \<lparr>le_term = 1, le_client_id = 9, le_cmd_seqno = 1, le_cmd = 77\<rparr>"

definition other_entry :: log_entry_t where
  "other_entry = \<lparr>le_term = 2, le_client_id = 9, le_cmd_seqno = 2, le_cmd = 78\<rparr>"

lemma empty_log_agree [simp]: "files_agree (empty_log io mio)" "log_entries (empty_log io mio) = []"
  by (simp_all add: files_agree_def empty_log_def file_open_def log_entries_def disk_entries_def)

lemma empty_log_good [simp]: "log_good (empty_log (\<lambda>_. IoFull) (\<lambda>_. IoFull))"
  by (simp add: log_good_def) (simp add: empty_log_def io_ok_def file_open_def)

text \<open>
  C27: whatever the two devices do during an append (calls that fail, short writes, a stop of the
  process at any call), provided the four bytes of the length are written together or not at all
  (\<open>untorn\<close>), a log that is opened again has its old entries, and then -1 was reported, or its old
  entries and the new one, and then success was reported.
\<close>

theorem append_survives_crash:
  assumes "files_agree c" and "untorn (meta_fd c)" and "i = int (length (log_entries c))"
    and "length (log_entries c) < log_capacity"
  shows "fst (f_log_write i e n c) = -1 \<and>
      reopened (snd (f_log_write i e n c)) heap = log_entries c \<or>
    fst (f_log_write i e n c) = 0 \<and>
      reopened (snd (f_log_write i e n c)) heap = log_entries c @ [e]"
  using assms by (rule f_log_append_any_io)

theorem append_survives_crash_witness:
  "reopened (snd (f_log_write 0 some_entry 16 (empty_log (\<lambda>_. IoShort 5) (\<lambda>_. IoFail)))) (0, 0) = [] \<or>
   reopened (snd (f_log_write 0 some_entry 16 (empty_log (\<lambda>_. IoShort 5) (\<lambda>_. IoFail)))) (0, 0) =
     [some_entry]"
proof -
  let ?c = "empty_log (\<lambda>_. IoShort 5) (\<lambda>_. IoFail)"
  have "untorn (meta_fd ?c)" by (simp add: untorn_def empty_log_def file_open_def)
  from append_survives_crash [OF empty_log_agree(1) this, of 0 some_entry 16 "(0, 0)"]
  show ?thesis by (auto simp: log_capacity_def)
qed

text \<open>
  C28: the same for the removal of the last entries, provided the four bytes of the length are
  written together or not at all: either -1 is reported and the log opened again has all its
  entries, or the number of removed entries is reported and exactly these are gone. A failure of
  \<open>ftruncate\<close> on the log file, which the code does not look at, changes neither.
\<close>

theorem remove_survives_crash:
  assumes "files_agree c" and "untorn (meta_fd c)" and "n < 2 ^ 31"
  shows "fst (f_log_remove_last_n n c) = -1 \<and>
      reopened (snd (f_log_remove_last_n n c)) heap = log_entries c \<or>
    fst (f_log_remove_last_n n c) = max 0 (min n (int (length (log_entries c)))) \<and>
      reopened (snd (f_log_remove_last_n n c)) heap =
        take (length (log_entries c) - nat n) (log_entries c)"
  using assms by (rule f_log_remove_any_io)

definition two_entries :: "(nat \<Rightarrow> io_res) \<Rightarrow> (nat \<Rightarrow> io_res) \<Rightarrow> log_context_t" where
  "two_entries io mio = \<lparr>log_fd = file_open (entry_bytes some_entry @ entry_bytes other_entry) io,
     meta_fd = file_open (host_bytes 2) mio, lc_length = 2\<rparr>"

lemma two_entries_agree [simp]:
  "files_agree (two_entries io mio)" "log_entries (two_entries io mio) = [some_entry, other_entry]"
  by (simp_all add: files_agree_def two_entries_def file_open_def log_entries_def disk_entries_def
      slot_def log_capacity_def upt_rec [of _ 2] upt_rec [of _ "Suc 0"])

theorem remove_survives_crash_witness:
  "reopened (snd (f_log_remove_last_n 1 (two_entries (\<lambda>_. IoFail) (\<lambda>_. IoFull)))) (0, 0) = [some_entry] \<and>
   reopened (snd (f_log_remove_last_n 1 (two_entries (\<lambda>_. IoFull) (\<lambda>k. if k = 0 then IoFull else IoFail)))) (0, 0) =
     [some_entry, other_entry]"
proof -
  let ?c = "two_entries (\<lambda>_. IoFail) (\<lambda>_. IoFull)"
  let ?d = "two_entries (\<lambda>_. IoFull) (\<lambda>k. if k = 0 then IoFull else IoFail)"
  have un: "untorn (meta_fd ?c)" "untorn (meta_fd ?d)"
    by (simp_all add: untorn_def two_entries_def file_open_def)
  have "fst (f_log_remove_last_n 1 ?c) = 1" "fst (f_log_remove_last_n 1 ?d) = -1"
    by (simp_all add: f_log_remove_last_n_def write_meta_def two_entries_def sys_defs file_open_def Let_def)
  then show ?thesis
    using remove_survives_crash [OF two_entries_agree(1) un(1), of 1 "(0, 0)"]
      remove_survives_crash [OF two_entries_agree(1) un(2), of 1 "(0, 0)"] by simp
qed

text \<open>
  The length is written over the old one in place. A \<open>write\<close> that the system cuts inside the four
  bytes leaves a length that is neither the old nor the new one: here 511 between 256 and 255.
\<close>

theorem torn_length:
  assumes "lc_length c = 256" and "f_content (meta_fd c) = host_bytes 256"
    and "f_io (meta_fd c) = (\<lambda>k. if k = f_calls (meta_fd c) then IoFull else IoShort 1)"
  shows "fst (f_log_remove_last_n 1 c) = -1 \<and>
    f_content (meta_fd (snd (f_log_remove_last_n 1 c))) = host_bytes 511"
  using assms
  by (simp add: f_log_remove_last_n_def write_meta_def sys_defs Let_def overwrite_def host_bytes_def
      drop_bit_eq_div)

theorem torn_length_witness:
  "f_content (meta_fd (snd (f_log_remove_last_n 1
     ((two_entries (\<lambda>_. IoFull) (\<lambda>k. if k = 0 then IoFull else IoShort 1))
       \<lparr>lc_length := 256, meta_fd := file_open (host_bytes 256) (\<lambda>k. if k = 0 then IoFull else IoShort 1)\<rparr>)))) =
   host_bytes 511"
  using torn_length [of "(two_entries (\<lambda>_. IoFull) (\<lambda>k. if k = 0 then IoFull else IoShort 1))
       \<lparr>lc_length := 256, meta_fd := file_open (host_bytes 256) (\<lambda>k. if k = 0 then IoFull else IoShort 1)\<rparr>"]
  by (simp add: file_open_def)

text \<open>C30: an entry that was appended is read back, and every other entry is still there.\<close>

theorem append_then_read:
  assumes "log_good c" and "length (log_entries c) < log_capacity"
  shows "let c' = snd (f_log_write (int (length (log_entries c))) e 16 c)
    in fst (f_log_read (int (length (log_entries c))) 16 c') = (16, Some e) \<and>
       f_log_length c' = f_log_length c + 1 \<and> log_entries c' = log_entries c @ [e] \<and> log_good c'"
proof -
  let ?i = "int (length (log_entries c))"
  let ?c' = "snd (f_log_write ?i e 16 c)"
  have "?i < int log_capacity" using assms(2) by (simp only: of_nat_less_iff)
  note a = f_log_append(2,3) [OF assms(1) refl this, of e 16]
  have "f_log_read ?i 16 ?c' = ((16, Some (log_entries ?c' ! nat ?i)),
      ?c'\<lparr>log_fd := (log_fd ?c')\<lparr>f_calls := f_calls (log_fd ?c') + 2, f_pos := 16 * nat ?i + 16\<rparr>\<rparr>)"
    using a(2) by (intro f_log_read_in [OF a(1)]) (simp_all del: length_log_entries)
  moreover have "f_log_length ?c' = f_log_length c + 1"
    unfolding f_log_length_good [OF a(1)] f_log_length_good [OF assms(1)] a(2) by simp
  moreover have "log_entries ?c' ! nat ?i = e"
    unfolding a(2) nat_int by (rule nth_append_length)
  ultimately show ?thesis using a by (simp add: Let_def)
qed

theorem append_then_read_witness:
  "fst (f_log_read 0 16 (snd (f_log_write 0 some_entry 16
     (empty_log (\<lambda>_. IoFull) (\<lambda>_. IoFull))))) = (16, Some some_entry)"
  using append_then_read [OF empty_log_good, of some_entry] by (simp add: log_capacity_def Let_def)

text \<open>
  C31: an index outside the log is refused and changes nothing: reading at or after the end, or
  before the beginning, writing after the end.
\<close>

theorem log_bounds_errors:
  assumes "log_good c" and "i < 2 ^ 31"
  shows "(i < 0 \<or> int (length (log_entries c)) \<le> i \<longrightarrow> f_log_read i n c = ((EOBND, None), c)) \<and>
    (i < 0 \<or> int (length (log_entries c)) < i \<longrightarrow> f_log_write i e n c = (EOBND, c))"
  using f_log_read_out [OF assms(1), of i n] f_log_write_out [OF assms(1), of i e n] assms(2)
  by blast

theorem log_bounds_errors_witness:
  "f_log_read 0 16 (empty_log (\<lambda>_. IoFull) (\<lambda>_. IoFull)) =
     ((EOBND, None), empty_log (\<lambda>_. IoFull) (\<lambda>_. IoFull)) \<and>
   f_log_write 1 some_entry 16 (empty_log (\<lambda>_. IoFull) (\<lambda>_. IoFull)) =
     (EOBND, empty_log (\<lambda>_. IoFull) (\<lambda>_. IoFull))"
  using log_bounds_errors [OF empty_log_good, of 0] log_bounds_errors [OF empty_log_good, of 1]
  by simp

end
