(* ===== verification/Persist_Fields.thy ===== *)
theory Persist_Fields
  imports Field_Store Posix_File
begin

text \<open>
  \<open>src/persist-unix/persistent-fields.c\<close>: the term and the vote in the file
  \<open>raft_<id>.state\<close>, four bytes each. \<open>file_fields\<close> interprets the contract \<open>field_store\<close>. On a
  device that fails, a reopened file has the old or the new value of the field that was being
  written, or the first bytes of the new one if the system cut the \<open>write\<close>, and the old value of
  the other.
\<close>

record pf_context_t =
  pf_fd :: file_t

definition pf_get :: "persistent_field_t \<Rightarrow> pf_context_t \<Rightarrow> int \<times> pf_context_t" where
  "pf_get f pfc =
     (let (r, fd) = sys_lseek (int (pf_code f * 4)) (pf_fd pfc);
          pfc = pfc\<lparr>pf_fd := fd\<rparr>
      in if r = -1 then (-1, pfc)
         else let ((k, bs), fd) = sys_read 4 (pf_fd pfc);
                  pfc = pfc\<lparr>pf_fd := fd\<rparr>
              in if k \<noteq> 4 then (-1, pfc) else (int_of_u32 (host_value bs), pfc))"

definition pf_set :: "persistent_field_t \<Rightarrow> u32 \<Rightarrow> pf_context_t \<Rightarrow> int \<times> pf_context_t" where
  "pf_set f v pfc =
     (let (r, fd) = sys_lseek (int (pf_code f * 4)) (pf_fd pfc);
          pfc = pfc\<lparr>pf_fd := fd\<rparr>
      in if r = -1 then (-1, pfc)
         else let (k, fd) = sys_write (host_bytes v) (pf_fd pfc);
                  pfc = pfc\<lparr>pf_fd := fd\<rparr>
              in if k \<noteq> 4 then (-1, pfc)
                 else (0, pfc\<lparr>pf_fd := snd (sys_fsync (pf_fd pfc))\<rparr>))"

definition file_fields_ops :: "pf_context_t \<Rightarrow> pf_context_t persistent_fields_t" where
  "file_fields_ops ctx = \<lparr>pf_get_fn = pf_get, pf_set_fn = pf_set, pf_context = ctx\<rparr>"

text \<open>
  \<open>None\<close> is \<open>exit(1)\<close>: the file does not open, \<open>fstat\<close> fails, or the first contents cannot be
  written. The struct of \<open>fstat\<close> is not read when the call failed.
\<close>

definition persistent_fields_init :: "file_t option \<Rightarrow> pf_context_t persistent_fields_t option" where
  "persistent_fields_init state_file =
     (case state_file of
        None \<Rightarrow> None
      | Some fd \<Rightarrow>
          let ((r, st_size), fd) = sys_fstat 0 fd
          in if r = -1 then None
             else if st_size < 2 * 4
             then let (k, fd) = sys_write (host_bytes 0 @ host_bytes PF_NO_VOTE_V) fd
                  in if k \<noteq> 8 then None
                     else Some (file_fields_ops \<lparr>pf_fd = snd (sys_fsync fd)\<rparr>)
             else Some (file_fields_ops \<lparr>pf_fd = fd\<rparr>))"

section \<open>The values of the fields\<close>

definition disk_field :: "u8 list \<Rightarrow> persistent_field_t \<Rightarrow> u32" where
  "disk_field content f = host_value (take 4 (drop (pf_code f * 4) content))"

definition pf_field :: "pf_context_t \<Rightarrow> persistent_field_t \<Rightarrow> u32" where
  "pf_field pfc = disk_field (f_content (pf_fd pfc))"

definition pf_good :: "pf_context_t \<Rightarrow> bool" where
  "pf_good pfc \<longleftrightarrow> io_ok (pf_fd pfc) \<and> 8 \<le> length (f_content (pf_fd pfc))"

lemma disk_field_overwrite:
  assumes "8 \<le> length content"
  shows "disk_field (overwrite (pf_code g * 4) (host_bytes v) content) f =
    (if f = g then v else disk_field content f)"
proof (cases f)
  case PF_CURRENT_TERM
  then show ?thesis
    using assms overwrite_read_same [of 0 content "host_bytes v"]
      overwrite_read_before [of 0 4 4 content "host_bytes v"]
    by (cases g) (simp_all add: disk_field_def)
next
  case PF_VOTED_FOR
  then show ?thesis
    using assms overwrite_read_same [of 4 content "host_bytes v"]
    by (cases g) (simp_all add: disk_field_def overwrite_read_after)
qed

lemma pf_code_bound: "pf_code f * 4 \<le> 4"
  by (cases f) simp_all

lemma pf_get_good:
  assumes "pf_good c"
  shows "fst (pf_get f c) = int_of_u32 (pf_field c f)"
    and "pf_good (snd (pf_get f c))" and "pf_field (snd (pf_get f c)) = pf_field c"
proof -
  have "4 \<le> length (f_content (pf_fd c)) - pf_code f * 4"
    using assms pf_code_bound [of f] unfolding pf_good_def by linarith
  then show "fst (pf_get f c) = int_of_u32 (pf_field c f)"
    and "pf_good (snd (pf_get f c))" and "pf_field (snd (pf_get f c)) = pf_field c"
    using assms
    by (simp_all add: pf_get_def pf_good_def sys_ok Let_def pf_field_def disk_field_def nat_mult_distrib)
qed

lemma pf_set_good:
  assumes "pf_good c"
  shows "fst (pf_set f v c) = 0" and "pf_good (snd (pf_set f v c))"
    and "pf_field (snd (pf_set f v c)) = (pf_field c)(f := v)"
  using assms
  by (auto simp: pf_set_def pf_good_def sys_ok Let_def pf_field_def nat_mult_distrib
      disk_field_overwrite)

interpretation file_fields: field_store "file_fields_ops ctx" pf_field pf_good
  by unfold_locales (simp_all add: file_fields_ops_def pf_get_good pf_set_good)

section \<open>A new file, and devices that fail\<close>

lemma persistent_fields_init_fresh:
  assumes "io_ok fd" and "f_content fd = []" and "f_pos fd = 0"
  shows "\<exists>ctx. persistent_fields_init (Some fd) = Some (file_fields_ops ctx) \<and> pf_good ctx \<and>
    pf_field ctx PF_CURRENT_TERM = 0 \<and> pf_field ctx PF_VOTED_FOR = PF_NO_VOTE_V"
proof -
  let ?bs = "host_bytes 0 @ host_bytes PF_NO_VOTE_V"
  let ?fd = "fd\<lparr>f_content := ?bs, f_pos := 8, f_calls := Suc (Suc (Suc (f_calls fd))),
      f_durable := ?bs\<rparr>"
  have "persistent_fields_init (Some fd) = Some (file_fields_ops \<lparr>pf_fd = ?fd\<rparr>)"
    using assms by (simp add: persistent_fields_init_def sys_ok Let_def overwrite_def)
  moreover have "pf_good \<lparr>pf_fd = ?fd\<rparr>" using assms by (simp add: pf_good_def)
  moreover have "pf_field \<lparr>pf_fd = ?fd\<rparr> PF_CURRENT_TERM = 0"
    "pf_field \<lparr>pf_fd = ?fd\<rparr> PF_VOTED_FOR = PF_NO_VOTE_V"
    by (simp_all add: pf_field_def disk_field_def)
  ultimately show ?thesis by blast
qed

lemma persistent_fields_init_existing:
  assumes "io_ok fd" and "8 \<le> length (f_content fd)"
  shows "persistent_fields_init (Some fd) = Some (file_fields_ops \<lparr>pf_fd = snd (sys_fstat 0 fd)\<rparr>)"
    and "pf_good \<lparr>pf_fd = snd (sys_fstat 0 fd)\<rparr>"
    and "pf_field \<lparr>pf_fd = snd (sys_fstat 0 fd)\<rparr> = disk_field (f_content fd)"
  using assms by (simp_all add: persistent_fields_init_def pf_good_def pf_field_def sys_ok)

text \<open>The four bytes of a field in the file.\<close>

definition pf_bytes :: "pf_context_t \<Rightarrow> persistent_field_t \<Rightarrow> u8 list" where
  "pf_bytes pfc f = take 4 (drop (pf_code f * 4) (f_content (pf_fd pfc)))"

lemma pf_field_bytes: "pf_field c f = host_value (pf_bytes c f)"
  by (simp add: pf_field_def disk_field_def pf_bytes_def)

text \<open>
  What any pattern of errors leaves: \<open>m\<close> is the number of bytes that \<open>write\<close> took, and the result
  says whether it took all of them.
\<close>

lemma pf_set_writes:
  assumes "8 \<le> length (f_content (pf_fd c))"
  obtains m where "m \<le> 4" and "fst (pf_set f v c) = (if m = 4 then 0 else -1)"
    and "f_content (pf_fd (snd (pf_set f v c))) =
      overwrite (pf_code f * 4) (take m (host_bytes v)) (f_content (pf_fd c))"
proof -
  let ?ls = "sys_lseek (int (pf_code f * 4)) (pf_fd c)"
  let ?w = "sys_write (host_bytes v) (snd ?ls)" and ?q = "pf_code f * 4"
  have run: "pf_set f v c = (if fst ?ls = -1 then (-1, c\<lparr>pf_fd := snd ?ls\<rparr>)
      else if fst ?w \<noteq> 4 then (-1, c\<lparr>pf_fd := snd ?w\<rparr>)
      else (0, c\<lparr>pf_fd := snd (sys_fsync (snd ?w))\<rparr>))"
    by (simp add: pf_set_def split_beta Let_def)
  have q: "?q \<le> length (f_content (pf_fd c))" using assms pf_code_bound [of f] by simp
  note empty = overwrite_empty [OF q]
  show thesis
  proof (cases "fst ?ls = -1")
    case True
    then show ?thesis using that [of 0] run empty by (simp add: sys_lseek_frame)
  next
    case False
    then have pos: "f_pos (snd ?ls) = ?q" using sys_lseek_frame(3) [of "int ?q"] by simp
    obtain m where m: "m \<le> 4" "m = 4 \<longleftrightarrow> fst ?w = 4"
      "f_content (snd ?w) = overwrite ?q (take m (host_bytes v)) (f_content (pf_fd c))"
    proof (cases "f_io (snd ?ls) (f_calls (snd ?ls))")
      case IoFull
      then show ?thesis
        using that [of 4] pos by (simp add: sys_write_def io_next_def sys_lseek_frame)
    next
      case (IoShort m)
      then show ?thesis
        using that [of "min m 4"] pos by (simp add: sys_write_def io_next_def sys_lseek_frame min_def)
    next
      case IoFail
      then show ?thesis
        using that [of 0] empty by (simp add: sys_write_def io_next_def sys_lseek_frame)
    qed
    then show ?thesis using that [of m] False by (simp add: run sys_fsync_frame)
  qed
qed

lemma pf_bytes_other:
  assumes "8 \<le> length content" and "g \<noteq> f" and "length bs \<le> 4"
  shows "take 4 (drop (pf_code g * 4) (overwrite (pf_code f * 4) bs content)) =
    take 4 (drop (pf_code g * 4) content)"
  using assms by (cases f; cases g) (simp_all add: take_overwrite_before overwrite_read_after)

text \<open>
  The result of \<open>fsync\<close> is not looked at: when it fails, success is reported for a value that is not
  on the device.
\<close>

lemma fsync_failure_ignored:
  assumes "8 \<le> length (f_content (pf_fd c))"
    and "f_io (pf_fd c) = (\<lambda>k. if k = f_calls (pf_fd c) + 2 then IoFail else IoFull)"
  shows "fst (pf_set f v c) = 0" and "f_durable (pf_fd (snd (pf_set f v c))) = f_durable (pf_fd c)"
    and "pf_field (snd (pf_set f v c)) f = v"
  using assms by (simp_all add: pf_set_def sys_defs Let_def pf_field_def nat_mult_distrib disk_field_overwrite)

section \<open>Properties\<close>

text \<open>
  A term or vote that was set is read back, as a C \<open>int\<close>, and the other field is unchanged.
\<close>

theorem field_set_get:
  assumes "pf_good c"
  shows "fst (pf_set f v c) = 0 \<and> fst (pf_get f (snd (pf_set f v c))) = int_of_u32 v \<and>
    (\<forall>g. g = f \<or> fst (pf_get g (snd (pf_set f v c))) = fst (pf_get g c))"
proof -
  have "fst (pf_get g (snd (pf_set f v c))) = fst (pf_get g c)" if "g \<noteq> f" for g
    using file_fields.get_after_set_other [OF assms that] by (simp add: file_fields_ops_def)
  then show ?thesis
    using pf_set_good [OF assms] pf_get_good(1) by auto
qed

definition fresh_fields :: "(nat \<Rightarrow> io_res) \<Rightarrow> pf_context_t" where
  "fresh_fields io = \<lparr>pf_fd = file_open (host_bytes 0 @ host_bytes PF_NO_VOTE_V) io\<rparr>"

lemma fresh_fields_good [simp]: "pf_good (fresh_fields (\<lambda>_. IoFull))"
  by (simp add: pf_good_def fresh_fields_def io_ok_def file_open_def)

theorem field_set_get_witness:
  "fst (pf_get PF_VOTED_FOR (snd (pf_set PF_VOTED_FOR 2 (fresh_fields (\<lambda>_. IoFull))))) = 2"
  using field_set_get [OF fresh_fields_good, of PF_VOTED_FOR 2] by simp

text \<open>
  C29: whatever the device does while a field is set, short writes included, the four bytes of the
  field in the file are the first bytes of the new value and the rest of the old one. Success is
  reported exactly when all four are new; the other field and the length of the file stay. So with
  no byte written the file has the old value, with four the new one, and only a \<open>write\<close> that the
  system cut inside the four bytes leaves a value that is neither.
\<close>

theorem field_survives_crash:
  assumes "8 \<le> length (f_content (pf_fd c))"
  shows "\<exists>m \<le> 4. fst (pf_set f v c) = (if m = 4 then 0 else -1) \<and>
    pf_bytes (snd (pf_set f v c)) f = take m (host_bytes v) @ drop m (pf_bytes c f) \<and>
    (\<forall>g. g \<noteq> f \<longrightarrow> pf_field (snd (pf_set f v c)) g = pf_field c g) \<and>
    length (f_content (pf_fd (snd (pf_set f v c)))) = length (f_content (pf_fd c)) \<and>
    (m = 0 \<longrightarrow> pf_field (snd (pf_set f v c)) = pf_field c) \<and>
    (m = 4 \<longrightarrow> pf_field (snd (pf_set f v c)) = (pf_field c)(f := v))"
proof (rule pf_set_writes [OF assms, of f v])
  fix m
  let ?c = "snd (pf_set f v c)"
  assume m: "m \<le> 4" and r: "fst (pf_set f v c) = (if m = 4 then 0 else -1)"
    and content: "f_content (pf_fd ?c) =
      overwrite (pf_code f * 4) (take m (host_bytes v)) (f_content (pf_fd c))"
  have q: "pf_code f * 4 \<le> length (f_content (pf_fd c))" "pf_code f * 4 \<le> 4"
    using pf_code_bound [of f] assms by linarith+
  have mine: "pf_bytes ?c f = take m (host_bytes v) @ drop m (pf_bytes c f)"
    using overwrite_read_part [OF q(1), of "take m (host_bytes v)" 4] m
    by (simp add: pf_bytes_def content min_def)
  have other: "pf_field ?c g = pf_field c g" if "g \<noteq> f" for g
    using pf_bytes_other [OF assms that, of "take m (host_bytes v)"]
    by (simp add: pf_field_bytes pf_bytes_def content)
  have "pf_field ?c f = (if m = 0 then pf_field c f else v)" if "m = 0 \<or> m = 4"
    using mine that by (auto simp: pf_field_bytes pf_bytes_def)
  then have "pf_field ?c g = (if m = 0 then pf_field c g else ((pf_field c)(f := v)) g)"
    if "m = 0 \<or> m = 4" for g
    using other [of g] that by (cases "g = f") simp_all
  then have "(m = 0 \<longrightarrow> pf_field ?c = pf_field c) \<and> (m = 4 \<longrightarrow> pf_field ?c = (pf_field c)(f := v))"
    by (simp add: fun_eq_iff)
  moreover have "length (f_content (pf_fd ?c)) = length (f_content (pf_fd c))"
    using assms q(2) m by (simp add: content)
  ultimately show ?thesis using m r mine other by blast
qed

theorem field_survives_crash_witness:
  "\<exists>m \<le> 4. pf_bytes (snd (pf_set PF_CURRENT_TERM 513 (fresh_fields (\<lambda>_. IoShort 1)))) PF_CURRENT_TERM =
     take m [1, 2, 0, 0] @ drop m [0, 0, 0, 0]"
proof -
  let ?c = "fresh_fields (\<lambda>_. IoShort 1)"
  have "8 \<le> length (f_content (pf_fd ?c))" by (simp add: fresh_fields_def file_open_def)
  from field_survives_crash [OF this, of PF_CURRENT_TERM 513]
  obtain m where "m \<le> 4" and "pf_bytes (snd (pf_set PF_CURRENT_TERM 513 ?c)) PF_CURRENT_TERM =
      take m (host_bytes 513) @ drop m (pf_bytes ?c PF_CURRENT_TERM)" by blast
  moreover have "host_bytes 513 = [1, 2, 0, 0]" "pf_bytes ?c PF_CURRENT_TERM = [0, 0, 0, 0]"
    by (simp_all add: host_bytes_def pf_bytes_def fresh_fields_def file_open_def drop_bit_eq_div)
  ultimately show ?thesis by auto
qed

end
