(* ===== verification/Raft_Files.thy ===== *)
theory Raft_Files
  imports Raft_Refine Log_Merge Persist_Log Persist_Fields
begin

text \<open>
  The node of \<open>node.c\<close>: the consensus core over the file log and the file of the persisted
  fields. \<open>file_env\<close> interprets the environment of a node on them, so that the simulation of
  \<open>Raft_Refine\<close> holds for the code as it is linked; \<open>unix_ok\<close> is its invariant and \<open>unix_view\<close>
  the state of the specification a node stands for.
\<close>

type_synonym unix_node = "(log_context_t, pf_context_t) raft_node_t"

definition unix_view :: "unix_node \<Rightarrow> anode" where
  "unix_view nd = view log_entries pf_field nd"

definition unix_ok :: "unix_node \<Rightarrow> bool" where
  "unix_ok nd \<longleftrightarrow>
     node_log nd = file_log_ops (log_context (node_log nd)) \<and>
     log_good (log_context (node_log nd)) \<and>
     hard_state nd = file_fields_ops (pf_context (hard_state nd)) \<and>
     pf_good (pf_context (hard_state nd)) \<and>
     wf_os (node_os nd) \<and> wf_telemetry (heartbeat_telemetry nd) \<and>
     ht_window_size (heartbeat_telemetry nd) \<noteq> 0 \<and>
     - (2 ^ 31) \<le> commit_index nd \<and> commit_index nd < 2 ^ 31 \<and> list_all wf_pkt (outbox nd)"

interpretation file_env: raft_env "file_log_ops ctx" log_entries log_good "file_fields_ops fctx"
  pf_field pf_good
  by (rule raft_env.intro) (rule file_log.log_store_axioms file_fields.field_store_axioms)+

lemma unix_ok_node_ok:
  "unix_ok nd \<longleftrightarrow> node_ok (file_log_ops ctx) log_good (file_fields_ops fctx) pf_good nd"
  by (simp add: unix_ok_def node_ok_def file_log_ops_def file_fields_ops_def)

section \<open>The simulation on files\<close>

lemma unix_receive:
  assumes "unix_ok nd" and "has_room (unix_view nd)"
  shows "unix_ok (raft_run_step (1, pkt) nd)"
    and "unix_view (raft_run_step (1, pkt) nd) = a_receive (decode_pkt pkt) (unix_view nd)"
  using assms file_env.run_step_receive [of undefined undefined nd pkt]
  by (simp_all add: unix_view_def unix_ok_node_ok [of _ undefined undefined])

lemma unix_timeout:
  assumes "unix_ok nd"
  shows "unix_ok (raft_run_step (0, pkt) nd)"
    and "unix_view (raft_run_step (0, pkt) nd) = a_elect (unix_view nd) \<or>
      role nd = FOLLOWER \<and> unix_view (raft_run_step (0, pkt) nd) = unix_view nd \<or>
      role nd = LEADER \<and> unix_view (raft_run_step (0, pkt) nd) =
        (a_elect (unix_view nd))\<lparr>a_halted := Some (Exit 42)\<rparr>"
  using assms file_env.run_step_timeout [of undefined undefined nd pkt]
  by (simp_all add: unix_view_def unix_ok_node_ok [of _ undefined undefined])

lemmas unix_timeout_exact = file_env.run_step_timeout_exact [of undefined undefined, folded unix_view_def
    unix_ok_node_ok]

lemma unix_timeout_random:
  assumes "unix_ok nd" and "role nd = FOLLOWER" and "uses_random_timeout nd"
  shows "unix_view (raft_run_step (0, pkt) nd) = a_elect (unix_view nd)"
  using assms file_env.run_step_timeout_random [of undefined undefined nd pkt]
  by (simp add: unix_view_def unix_ok_node_ok [of _ undefined undefined])

lemma unix_error:
  assumes "unix_ok nd" and "rc \<noteq> 0" and "rc \<noteq> 1"
  shows "unix_ok (raft_run_step (rc, pkt) nd)"
    and "unix_view (raft_run_step (rc, pkt) nd) = (unix_view nd)\<lparr>a_running := 0\<rparr> \<or>
      unix_view (raft_run_step (rc, pkt) nd) = a_elect (unix_view nd) \<or>
      role nd = FOLLOWER \<and> unix_view (raft_run_step (rc, pkt) nd) = unix_view nd \<or>
      role nd = LEADER \<and> unix_view (raft_run_step (rc, pkt) nd) =
        (a_elect (unix_view nd))\<lparr>a_halted := Some (Exit 42)\<rparr>"
  using assms file_env.run_step_error [of undefined undefined nd rc pkt]
  by (simp_all add: unix_view_def unix_ok_node_ok [of _ undefined undefined])

lemma unix_handle_rpc:
  assumes "unix_ok nd" and "has_room (unix_view nd)"
  shows "unix_ok (raft_handle_rpc pkt nd)"
    and "unix_view (raft_handle_rpc pkt nd) = a_handle (decode_pkt pkt) (unix_view nd)"
  using assms file_env.handle_rpc_sim [of undefined undefined nd pkt]
  by (simp_all add: unix_view_def unix_ok_node_ok [of _ undefined undefined])

section \<open>Starting and restarting\<close>

lemma unix_create:
  assumes "log_good lc" and "pf_good pc" and "wf_os os" and "cfg_accrual_window_size cfg \<noteq> 0"
  shows "unix_ok (raft_create cfg (file_log_ops lc) (file_fields_ops pc) ns ms os lines)"
    and "unix_view (raft_create cfg (file_log_ops lc) (file_fields_ops pc) ns ms os lines) =
      a_boot (cfg_id cfg) (cfg_num_nodes cfg) (log_entries lc) (pf_field pc PF_CURRENT_TERM)
        (pf_field pc PF_VOTED_FOR) ns ms"
  using assms wf_telemetry_init
    [of "cfg_accrual_threshold cfg" "cfg_accrual_window_size cfg" "cfg_accrual_ramp_size cfg"]
  by (simp_all add: raft_create_def unix_ok_def unix_view_def view_def a_boot_def node_id_def
      file_log_ops_def file_fields_ops_def heartbeat_telemetry_init_def)

end
