(* ===== verification/C_Library.thy ===== *)
theory C_Library
  imports Main
begin

text \<open>
  The functions of the C library the programs use on their arguments and on addresses: \<open>atoi\<close>, on
  a decimal number in range, as C defines it, and \<open>strtok\<close> with one separator.
\<close>

section \<open>Decimal numbers\<close>

definition is_digit :: "char \<Rightarrow> bool" where
  "is_digit c \<longleftrightarrow> 48 \<le> (of_char c :: nat) \<and> (of_char c :: nat) \<le> 57"

definition is_space :: "char \<Rightarrow> bool" where
  "is_space c \<longleftrightarrow> (of_char c :: nat) = 32 \<or> 9 \<le> (of_char c :: nat) \<and> (of_char c :: nat) \<le> 13"

definition digits_value :: "string \<Rightarrow> int" where
  "digits_value cs = foldl (\<lambda>v c. 10 * v + (of_char c - 48)) 0 cs"

text \<open>A sign, if there is one, and the rest.\<close>

definition take_sign :: "string \<Rightarrow> int \<times> string" where
  "take_sign cs = (case cs of [] \<Rightarrow> (1, [])
     | c # rest \<Rightarrow> if c = CHR ''-'' then (-1, rest) else if c = CHR ''+'' then (1, rest) else (1, cs))"

definition atoi :: "string \<Rightarrow> int" where
  "atoi cs = (let (sgn, cs) = take_sign (dropWhile is_space cs)
              in sgn * digits_value (takeWhile is_digit cs))"

section \<open>Tokens\<close>

text \<open>The tokens \<open>strtok\<close> gives one after the other: the maximal pieces without the separator.\<close>

fun split_at :: "char \<Rightarrow> string \<Rightarrow> string \<Rightarrow> string list" where
  "split_at d [] tok = (if tok = [] then [] else [tok])"
| "split_at d (c # cs) tok =
     (if c = d then (if tok = [] then [] else [tok]) @ split_at d cs []
      else split_at d cs (tok @ [c]))"

definition strtok_all :: "char \<Rightarrow> string \<Rightarrow> string list" where
  "strtok_all d cs = split_at d cs []"

end
