(* ===== verification/Node_Main.thy ===== *)
theory Node_Main
  imports Raft_Files C_Library
begin

text \<open>
  \<open>src/util-unix/node.c\<close>: the program of a node. \<open>node_options\<close> is the loop over the arguments,
  \<open>node_config\<close> the checks and the split of the peer list, \<open>start_node\<close> the construction of the
  node over its files, up to the call of \<open>raft_run\<close>. Of the C library they use \<open>atoi\<close>, \<open>atof\<close>
  and \<open>strtok\<close>, modelled on the inputs C defines: a decimal number in range for the first, a
  decimal number without hexadecimal digits, \<open>inf\<close> or \<open>nan\<close> for the second.
\<close>

section \<open>The C library\<close>

definition atof :: "string \<Rightarrow> double" where
  "atof cs =
     (let (sgn, cs) = take_sign (dropWhile is_space cs);
          whole = takeWhile is_digit cs; cs = dropWhile is_digit cs;
          dot = (cs \<noteq> [] \<and> hd cs = CHR ''.'');
          frac = (if dot then takeWhile is_digit (tl cs) else []);
          cs = (if dot then dropWhile is_digit (tl cs) else cs);
          (esgn, ecs) = (if cs \<noteq> [] \<and> (hd cs = CHR ''e'' \<or> hd cs = CHR ''E'')
                         then take_sign (tl cs) else (1, []));
          e = esgn * digits_value (takeWhile is_digit ecs) - int (length frac);
          m = of_int (digits_value (whole @ frac))
      in of_int sgn * fl (if 0 \<le> e then m * 10 ^ nat e else m / 10 ^ nat (- e)))"

section \<open>The arguments\<close>

record node_opts =
  no_id :: u32
  no_peers :: "string option"
  no_scheme :: u32
  no_lb :: u32
  no_ub :: u32
  no_thresh :: double
  no_window :: u32
  no_ramp :: u32
  no_crash :: int

definition default_opts :: node_opts where
  "default_opts = \<lparr>no_id = 0, no_peers = None, no_scheme = TS_TIMEOUT, no_lb = 1000, no_ub = 2000,
     no_thresh = 1, no_window = 32, no_ramp = 8, no_crash = -1\<rparr>"

function node_options :: "string list \<Rightarrow> node_opts \<Rightarrow> node_opts" where
  "node_options [] opts = opts"
| "node_options (arg # rest) opts =
     (if arg = ''--id'' \<and> 1 \<le> length rest
      then node_options (drop 1 rest) (opts\<lparr>no_id := u32_of_int (atoi (rest ! 0))\<rparr>)
      else if arg = ''--peers'' \<and> 1 \<le> length rest
      then node_options (drop 1 rest) (opts\<lparr>no_peers := Some (rest ! 0)\<rparr>)
      else if arg = ''--a'' \<and> 3 \<le> length rest
      then node_options (drop 3 rest) (opts\<lparr>no_scheme := TS_ACCRUAL, no_thresh := atof (rest ! 0),
             no_window := u32_of_int (atoi (rest ! 1)), no_ramp := u32_of_int (atoi (rest ! 2))\<rparr>)
      else if arg = ''--t'' \<and> 2 \<le> length rest
      then node_options (drop 2 rest) (opts\<lparr>no_scheme := TS_TIMEOUT,
             no_lb := u32_of_int (atoi (rest ! 0)), no_ub := u32_of_int (atoi (rest ! 1))\<rparr>)
      else if arg = ''--crash_after_heartbeats'' \<and> 1 \<le> length rest
      then node_options (drop 1 rest) (opts\<lparr>no_crash := atoi (rest ! 0)\<rparr>)
      else node_options rest opts)"
  by pat_completeness auto
termination by (relation "measure (\<lambda>(args, opts). length args)") auto

text \<open>The configuration and the peers, or the exit code.\<close>

definition node_config :: "string list \<Rightarrow> int + raft_config_t \<times> string list" where
  "node_config args =
     (let opts = node_options args default_opts
      in case no_peers opts of
           None \<Rightarrow> Inl 1
         | Some peers_str \<Rightarrow>
             if no_ub opts < no_lb opts then Inl 1
             else let peers = take 128 (strtok_all (CHR '','') peers_str);
                      num_peers = of_nat (length peers)
                  in if num_peers \<le> no_id opts then Inl 1
                     else Inr (\<lparr>cfg_id = no_id opts, cfg_num_nodes = num_peers,
                       cfg_timeout_scheme = no_scheme opts, cfg_accrual_threshold = no_thresh opts,
                       cfg_accrual_window_size = no_window opts, cfg_accrual_ramp_size = no_ramp opts,
                       cfg_timeout_lb_ms = no_lb opts, cfg_timeout_ub_ms = no_ub opts,
                       cfg_crash_after_h = no_crash opts\<rparr>, peers))"

lemma node_config_bounds:
  assumes "node_config args = Inr (cfg, peers)"
  shows "cfg_id cfg < cfg_num_nodes cfg" and "cfg_num_nodes cfg \<le> 128"
    and "unat (cfg_num_nodes cfg) = length peers" and "cfg_num_nodes cfg \<le> PF_NO_VOTE_V"
proof -
  have len: "unat (of_nat (length (take 128 xs)) :: u32) = length (take 128 xs)" for xs :: "string list"
    by (simp add: unat_of_nat take_bit_nat_eq_self min_def)
  show "cfg_id cfg < cfg_num_nodes cfg" and "unat (cfg_num_nodes cfg) = length peers"
    and le: "cfg_num_nodes cfg \<le> 128"
    using assms len
    by (auto simp: node_config_def Let_def word_le_nat_alt word_less_nat_alt
        split: option.splits if_splits)
  show "cfg_num_nodes cfg \<le> PF_NO_VOTE_V"
    by (rule order_trans [OF le]) (simp add: PF_NO_VOTE_V_def)
qed

section \<open>The node\<close>

definition record_start :: "raft_config_t \<Rightarrow> csv_line list \<Rightarrow> os_t \<Rightarrow> csv_line list \<times> os_t" where
  "record_start cfg old_csv os =
     (let (opened, os) = fopen_call os
      in if \<not> opened then (old_csv, os)
         else let lines = old_csv @ (if old_csv = [] then [CsvHeader] else []);
                  (now, os) = get_usec os
              in (lines @ [CsvStart (cfg_id cfg) now], os))"

text \<open>
  The files are what \<open>open\<close> gave; \<open>heap\<close>, \<open>heap_next\<close> and \<open>heap_match\<close> what was in
  memory before. \<open>None\<close> is an exit inside \<open>log_init\<close> or \<open>persistent_fields_init\<close>.
\<close>

definition start_node ::
  "raft_config_t \<Rightarrow> file_t option \<Rightarrow> file_t option \<Rightarrow> file_t option \<Rightarrow> u32 \<times> int \<Rightarrow> u32 list \<Rightarrow> int list \<Rightarrow>
   csv_line list \<Rightarrow> os_t \<Rightarrow> unix_node option" where
  "start_node cfg log_file meta_file state_file heap heap_next heap_match old_csv os =
     (case log_init log_file meta_file heap of
        None \<Rightarrow> None
      | Some lg \<Rightarrow>
          (case persistent_fields_init state_file of
             None \<Rightarrow> None
           | Some pf \<Rightarrow>
               let (old_csv, os) = record_start cfg old_csv os;
                   nd = raft_create cfg lg pf heap_next heap_match os old_csv;
                   (d, os) = random_timeout_usec (cfg_timeout_lb_ms cfg) (cfg_timeout_ub_ms cfg)
                               (node_os nd);
                   (tm, os) = timer_reset ((timer nd)\<lparr>duration_usec := d\<rparr>) os
               in Some (nd\<lparr>timer := tm, node_os := os\<rparr>)))"

lemma wf_os_record_start [simp]: "wf_os (snd (record_start cfg old_csv os)) = wf_os os"
  by (simp add: record_start_def split_beta Let_def)

lemma unix_view_update [simp]:
  "unix_view (nd\<lparr>timer := tm, node_os := os\<rparr>) = unix_view nd"
  "unix_view (nd\<lparr>outbox := []\<rparr>) = (unix_view nd)\<lparr>a_out := []\<rparr>"
  by (simp_all add: unix_view_def view_def node_id_def)

lemma unix_ok_update [simp]:
  "unix_ok nd \<Longrightarrow> wf_os os \<Longrightarrow> unix_ok (nd\<lparr>timer := tm, node_os := os\<rparr>)"
  "unix_ok nd \<Longrightarrow> unix_ok (nd\<lparr>outbox := []\<rparr>)"
  by (simp_all add: unix_ok_def)

text \<open>Starting on files that are in a good state, new ones and old ones.\<close>

lemma start_node_good:
  assumes "log_init lf mf heap = Some (file_log_ops lc)" and "log_good lc"
    and "persistent_fields_init sf = Some (file_fields_ops pc)" and "pf_good pc"
    and "wf_os os" and "cfg_accrual_window_size cfg \<noteq> 0"
  shows "\<exists>nd. start_node cfg lf mf sf heap ns ms old_csv os = Some nd \<and> unix_ok nd \<and>
    unix_view nd = a_boot (cfg_id cfg) (cfg_num_nodes cfg) (log_entries lc)
      (pf_field pc PF_CURRENT_TERM) (pf_field pc PF_VOTED_FOR) ns ms"
proof -
  have wf: "wf_os (snd (record_start cfg old_csv os))" using assms(5) by simp
  define r where "r = raft_create cfg (file_log_ops lc) (file_fields_ops pc) ns ms
    (snd (record_start cfg old_csv os)) (fst (record_start cfg old_csv os))"
  define d where "d = random_timeout_usec (cfg_timeout_lb_ms cfg) (cfg_timeout_ub_ms cfg) (node_os r)"
  define tm where "tm = timer_reset ((timer r)\<lparr>duration_usec := fst d\<rparr>) (snd d)"
  have r: "unix_ok r" "unix_view r = a_boot (cfg_id cfg) (cfg_num_nodes cfg) (log_entries lc)
      (pf_field pc PF_CURRENT_TERM) (pf_field pc PF_VOTED_FOR) ns ms"
    using unix_create [OF assms(2,4) wf assms(6)] by (simp_all add: r_def)
  have os: "wf_os (snd tm)" using r(1) by (simp add: tm_def d_def unix_ok_def)
  have "start_node cfg lf mf sf heap ns ms old_csv os = Some (r\<lparr>timer := fst tm, node_os := snd tm\<rparr>)"
    using assms(1,3) by (simp add: start_node_def split_beta Let_def flip: r_def d_def tm_def)
  then show ?thesis using r os by simp
qed

lemma start_node_config:
  "start_node cfg lf mf sf heap ns ms old_csv os = Some nd \<Longrightarrow> config nd = cfg"
  by (auto simp: start_node_def raft_create_def split_beta Let_def split: option.splits)

definition disk :: "u8 list \<Rightarrow> file_t option" where
  "disk bytes = Some (file_open bytes (\<lambda>_. IoFull))"

lemma start_node_fresh:
  assumes "wf_os os" and "cfg_accrual_window_size cfg \<noteq> 0"
  shows "\<exists>nd. start_node cfg (disk []) (disk []) (disk []) heap ns ms old_csv os = Some nd \<and> unix_ok nd \<and>
    unix_view nd = a_boot (cfg_id cfg) (cfg_num_nodes cfg) [] 0 PF_NO_VOTE_V ns ms"
proof -
  let ?f = "file_open [] (\<lambda>_. IoFull)"
  have f: "io_ok ?f" "f_content ?f = []" "f_pos ?f = 0" by (simp_all add: io_ok_def file_open_def)
  obtain pc where pc: "persistent_fields_init (Some ?f) = Some (file_fields_ops pc)" "pf_good pc"
    "pf_field pc PF_CURRENT_TERM = 0" "pf_field pc PF_VOTED_FOR = PF_NO_VOTE_V"
    using persistent_fields_init_fresh [OF f] by blast
  let ?mf = "snd (sys_fsync (snd (sys_write (host_bytes 0) (snd (sys_fstat (snd heap) ?f)))))"
  let ?lc = "\<lparr>log_fd = ?f, meta_fd = ?mf, lc_length = 0\<rparr>"
  have lg: "log_init (Some ?f) (Some ?f) heap = Some (file_log_ops ?lc)"
    by (simp add: log_init_def f sys_ok split_beta Let_def)
  have "f_content ?mf = host_bytes 0" using f by (simp add: sys_ok overwrite_def)
  then have good: "log_good ?lc" "log_entries ?lc = []"
    using f by (simp_all add: log_good_def files_agree_def log_entries_def disk_entries_def)
  show ?thesis
    using start_node_good [OF lg good(1) pc(1,2) assms, of ns ms old_csv] good(2) pc(3,4)
    by (simp add: disk_def)
qed

lemma start_node_again:
  assumes "unix_ok nd" and "wf_os os" and "cfg_accrual_window_size cfg \<noteq> 0"
  shows "\<exists>nd'. start_node cfg (disk (f_content (log_fd (log_context (node_log nd)))))
      (disk (f_content (meta_fd (log_context (node_log nd)))))
      (disk (f_content (pf_fd (pf_context (hard_state nd))))) heap ns ms old_csv os = Some nd' \<and>
    unix_ok nd' \<and> unix_view nd' = a_boot (cfg_id cfg) (cfg_num_nodes cfg)
      (a_log (unix_view nd)) (a_term (unix_view nd)) (a_vote (unix_view nd)) ns ms"
proof -
  let ?c = "log_context (node_log nd)" and ?p = "pf_context (hard_state nd)"
  let ?lf = "file_open (f_content (log_fd ?c)) (\<lambda>_. IoFull)"
  let ?mf = "file_open (f_content (meta_fd ?c)) (\<lambda>_. IoFull)"
  let ?sf = "file_open (f_content (pf_fd ?p)) (\<lambda>_. IoFull)"
  have f: "io_ok (file_open bs (\<lambda>_. IoFull))" "f_content (file_open bs io) = bs"
    "f_pos (file_open bs io) = 0" for bs io
    by (simp_all add: io_ok_def file_open_def)
  have good: "log_good ?c" "8 \<le> length (f_content (pf_fd ?p))"
    using assms(1) by (simp_all add: unix_ok_def pf_good_def)
  then have agree: "files_agree ?c" by (simp add: log_good_def)
  let ?mf' = "snd (sys_read 4 (snd (sys_lseek 0 (snd (sys_fstat (snd heap) ?mf)))))"
  let ?lc = "\<lparr>log_fd = ?lf, meta_fd = ?mf', lc_length = lc_length ?c\<rparr>"
  have "f_content ?mf = host_bytes (lc_length ?c)" using agree by (simp add: files_agree_def f)
  then have lg: "log_init (Some ?lf) (Some ?mf) heap = Some (file_log_ops ?lc)"
    by (simp add: log_init_def f sys_ok split_beta Let_def)
  have "f_content ?mf' = f_content (meta_fd ?c)" by (simp add: f sys_ok)
  then have lc: "log_good ?lc" "log_entries ?lc = log_entries ?c"
    using agree by (simp_all add: log_good_def files_agree_def f log_entries_def)
  have "8 \<le> length (f_content ?sf)" using good(2) by (simp add: f)
  note pf = persistent_fields_init_existing [OF f(1) this]
  show ?thesis
    using start_node_good [OF lg lc(1) pf(1,2) assms(2,3), of ns ms old_csv] lc(2) pf(3)
    by (simp add: disk_def unix_view_def view_def pf_field_def f)
qed

end
