(* ===== verification/Raft_Effect.thy ===== *)
theory Raft_Effect
  imports Raft_Spec
begin

text \<open>
  What one step of a node does to its term, vote, role and count of votes, and which messages
  about votes and entries it sends: the relation \<open>effect\<close> has one rule for each kind of step.
  The invariants of a cluster are proved by cases on it, and not on the handlers.
\<close>

section \<open>Messages that carry no vote\<close>

definition quiet_msg :: "anode \<Rightarrow> amsg \<Rightarrow> bool" where
  "quiet_msg a m \<longleftrightarrow> m_src m = a_id a \<and>
     (case m_body m of
        VoteReq r \<Rightarrow> False
      | VoteRes r \<Rightarrow> rvr_vote_granted r = 0
      | AppendReq r \<Rightarrow> a_role a = LEADER \<and> ae_term r = a_term a \<and> m_dst m \<noteq> a_id a
      | Shutdown \<Rightarrow> False
      | _ \<Rightarrow> True)"

definition quiet_out :: "anode \<Rightarrow> amsg list \<Rightarrow> bool" where
  "quiet_out a out \<longleftrightarrow> list_all (quiet_msg a) out"

definition same_shape :: "anode \<Rightarrow> anode \<Rightarrow> bool" where
  "same_shape a a' \<longleftrightarrow> a_id a' = a_id a \<and> a_num a' = a_num a \<and>
     length (a_match a') = length (a_match a) \<and> length (a_next a') = length (a_next a)"

definition keeps :: "anode \<Rightarrow> anode \<Rightarrow> amsg list \<Rightarrow> bool" where
  "keeps a a' out \<longleftrightarrow> a_term a' = a_term a \<and> a_vote a' = a_vote a \<and> a_role a' = a_role a \<and>
     a_votes a' = a_votes a \<and> same_shape a a' \<and> a_out a' = a_out a @ out \<and> quiet_out a out"

lemma quiet_out_simps [simp]:
  "quiet_out a []"
  "quiet_out a (xs @ ys) \<longleftrightarrow> quiet_out a xs \<and> quiet_out a ys"
  by (simp_all add: quiet_out_def)

lemma quiet_out_cong:
  "a_id a' = a_id a \<Longrightarrow> a_role a' = a_role a \<Longrightarrow> a_term a' = a_term a \<Longrightarrow>
     quiet_out a' out = quiet_out a out"
  by (simp add: quiet_out_def quiet_msg_def [abs_def] cong: rpc_msg.case_cong)

lemma same_shape_refl [simp]: "same_shape a a"
  by (simp add: same_shape_def)

lemma keeps_refl: "keeps a a []"
  by (simp add: keeps_def)

lemma keeps_trans:
  assumes "keeps a b out1" and "keeps b c out2"
  shows "keeps a c (out1 @ out2)"
  using assms quiet_out_cong [of b a out2] by (simp add: keeps_def same_shape_def)

section \<open>The steps\<close>

inductive effect :: "amsg option \<Rightarrow> anode \<Rightarrow> anode \<Rightarrow> amsg list \<Rightarrow> bool" where
  quiet: "keeps a a' out \<Longrightarrow> effect mo a a' out"
| step_down: "\<lbrakk> a_term a < a_term a' \<or>
      a_term a' = a_term a \<and> a_role a = CANDIDATE \<and> 0 \<le> int_of_u32 (a_term a) \<and>
      (\<exists>m r. mo = Some m \<and> m_dst m = a_id a \<and> m_body m = AppendReq r \<and> ae_term r = a_term a);
    a_vote a' = PF_NO_VOTE_V; a_role a' = FOLLOWER; same_shape a a';
    a_out a' = a_out a @ out; quiet_out a' out \<rbrakk> \<Longrightarrow> effect mo a a' out"
| grant: "\<lbrakk> mo = Some m; m_dst m = a_id a; m_body m = VoteReq r; a_term a' = rv_term r;
    a_vote a' = rv_candidate_id r;
    up_to_date (a_log a) (rv_last_log_idx r) (rv_last_log_term r);
    a_term a < a_term a' \<and> a_role a' = FOLLOWER \<or>
    a_term a' = a_term a \<and> a_role a' = a_role a \<and> a_votes a' = a_votes a \<and>
    (a_vote a = PF_NO_VOTE_V \<or> a_vote a = rv_candidate_id r);
    same_shape a a';
    a_out a' = a_out a @ out;
    out = [\<lparr>m_dst = rv_candidate_id r, m_src = a_id a,
            m_body = VoteRes \<lparr>rvr_term = rv_term r, rvr_vote_granted = 1\<rparr>\<rparr>] \<rbrakk> \<Longrightarrow>
    effect mo a a' out"
| campaign: "\<lbrakk> 0 \<le> int_of_u32 (a_term a); a_term a' = a_term a + 1; a_vote a' = a_id a;
    a_role a' = CANDIDATE; a_votes a' = 1; same_shape a a'; a_out a' = a_out a @ out;
    out = map (\<lambda>i. \<lparr>m_dst = i, m_src = a_id a, m_body = VoteReq (a_vote_request a')\<rparr>) (a_peers a) \<rbrakk> \<Longrightarrow>
    effect mo a a' out"
| stuck: "\<lbrakk> int_of_u32 (a_term a) < 0; a_term a' = a_term a; a_vote a' = a_vote a;
    a_role a' = CANDIDATE; a_role a = CANDIDATE \<and> a_votes a' = a_votes a \<or> a_votes a' = 0;
    same_shape a a'; a_out a' = a_out a \<rbrakk> \<Longrightarrow> effect mo a a' []"
| count_vote: "\<lbrakk> mo = Some m; m_dst m = a_id a; m_body m = VoteRes r; rvr_term r = a_term a;
    rvr_vote_granted r \<noteq> 0;
    a_role a = CANDIDATE; a_role a' = CANDIDATE; a_term a' = a_term a; a_vote a' = a_vote a;
    a_votes a' = a_votes a + 1; same_shape a a'; a_out a' = a_out a \<rbrakk> \<Longrightarrow> effect mo a a' []"
| win: "\<lbrakk> mo = Some m; m_dst m = a_id a; m_body m = VoteRes r; rvr_term r = a_term a;
    rvr_vote_granted r \<noteq> 0;
    a_role a = CANDIDATE; a_role a' = LEADER; a_term a' = a_term a; a_vote a' = a_vote a;
    a_num a div 2 < a_votes a + 1; a_id a' = a_id a; a_num a' = a_num a;
    length (a_match a') = unat (a_num a); length (a_next a') = unat (a_num a);
    a_out a' = a_out a @ out; quiet_out a' out \<rbrakk> \<Longrightarrow> effect mo a a' out"

inductive_cases effectE: "effect mo a a' out"

section \<open>The pieces of the handlers\<close>

definition quietly :: "anode \<Rightarrow> anode \<Rightarrow> bool" where
  "quietly a a' \<longleftrightarrow> (\<exists>out. keeps a a' out)"

lemma quietly_refl [intro, simp]: "quietly a a"
  using keeps_refl by (auto simp: quietly_def)

lemma quietly_trans: "quietly a b \<Longrightarrow> quietly b c \<Longrightarrow> quietly a c"
  using keeps_trans by (fastforce simp: quietly_def)

lemma quietly_update [intro, simp]:
  "quietly a (a\<lparr>a_log := lg\<rparr>)" "quietly a (a\<lparr>a_commit := c\<rparr>)"
  "quietly a (a\<lparr>a_applied := c\<rparr>)" "quietly a (a\<lparr>a_leader := ld\<rparr>)"
  "quietly a (a\<lparr>a_reqs := rs\<rparr>)" "quietly a (a\<lparr>a_running := b\<rparr>)"
  "quietly a (a\<lparr>a_halted := h\<rparr>)"
  "quietly a (a\<lparr>a_next := (a_next a)[k := x]\<rparr>)"
  "quietly a (a\<lparr>a_match := (a_match a)[k := y], a_next := (a_next a)[k := x]\<rparr>)"
  by (auto simp: quietly_def keeps_def same_shape_def intro!: exI [of _ "[]"])

lemma quietly_send:
  "quiet_msg a \<lparr>m_dst = dst, m_src = a_id a, m_body = body\<rparr> \<Longrightarrow> quietly a (a_send dst body a)"
  unfolding quietly_def
  by (intro exI [of _ "[\<lparr>m_dst = dst, m_src = a_id a, m_body = body\<rparr>]"])
    (simp add: keeps_def a_send_def same_shape_def quiet_out_def)

lemma quietly_answer: "quietly a (a_answer e a)"
  by (auto simp: a_answer_def quiet_msg_def split: option.split
      intro!: quietly_trans [OF quietly_send quietly_update(5)])

lemma quietly_apply_one: "quietly a (a_apply_one a)"
  by (auto simp: a_apply_one_def Let_def
      intro!: quietly_trans [OF quietly_update(3) quietly_answer])

lemma quietly_apply_n: "quietly a (a_apply_n n a)"
  by (induction n arbitrary: a) (auto intro: quietly_trans [OF quietly_apply_one])

lemma quietly_apply: "quietly a (a_apply a)"
  by (simp add: a_apply_def quietly_apply_n)

lemma quietly_update_commit: "quietly a (a_update_commit req a)"
  by (auto simp: a_update_commit_def intro!: quietly_trans [OF quietly_update(2) quietly_apply])

lemma quietly_append_response: "quietly a (a_append_response dst t m ok a)"
  unfolding a_append_response_def by (rule quietly_send) (simp add: quiet_msg_def)

lemma quietly_append_to_log: "quietly a (a_append_to_log req t a)"
  unfolding a_append_to_log_def Let_def
  by (auto intro!: quietly_append_response
      quietly_trans [OF quietly_trans [OF quietly_update(1) quietly_update_commit] quietly_append_response])

lemma fold_commit_step: "\<exists>c. fold a_commit_step ns a = a\<lparr>a_commit := c\<rparr>"
proof (induction ns arbitrary: a)
  case Nil
  then show ?case by (auto intro: exI [of _ "a_commit a"])
next
  case (Cons n ns)
  have "\<exists>c. a_commit_step n a = a\<lparr>a_commit := c\<rparr>"
    unfolding a_commit_step_def by (cases a) (auto intro: exI [of _ "a_commit a"])
  then obtain c where "a_commit_step n a = a\<lparr>a_commit := c\<rparr>" by blast
  then show ?case using Cons [of "a\<lparr>a_commit := c\<rparr>"] by auto
qed

lemma quietly_advance_commit: "quietly a (a_advance_commit a)"
  using fold_commit_step [of "[a_commit a + 1 .. int (length (a_log a)) - 1]" a]
  by (auto simp: a_advance_commit_def)

lemma quietly_broadcast:
  assumes "a_role a = LEADER"
  shows "quietly a (a_broadcast (\<lambda>i. AppendReq (a_append_request limit a i)) a)"
  using assms unfolding quietly_def
  by (intro exI [of _ "map (\<lambda>i. \<lparr>m_dst = i, m_src = a_id a,
      m_body = AppendReq (a_append_request limit a i)\<rparr>) (a_peers a)"])
    (simp add: keeps_def a_broadcast_def same_shape_def quiet_out_def list_all_iff quiet_msg_def
      a_append_request_def Let_def a_peers_def)

lemma quietly_heartbeats: "quietly a (a_send_heartbeats a)"
  by (auto simp: a_send_heartbeats_def intro: quietly_broadcast)

lemma quietly_broadcast_entries: "quietly a (a_broadcast_entries a)"
  by (auto simp: a_broadcast_entries_def intro: quietly_broadcast)

section \<open>Every step has an effect\<close>

text \<open>A step is some effect, with the messages it sends.\<close>

definition effects :: "amsg option \<Rightarrow> anode \<Rightarrow> anode \<Rightarrow> bool" where
  "effects mo a a' \<longleftrightarrow> (\<exists>out. a_out a' = a_out a @ out \<and> effect mo a a' out)"

lemma effects_quiet: "quietly a a' \<Longrightarrow> effects mo a a'"
  unfolding quietly_def effects_def by (metis effect.quiet keeps_def)

lemma quiet_out_follower:
  "a_id a' = a_id a \<Longrightarrow> a_role a \<noteq> LEADER \<Longrightarrow> quiet_out a out \<Longrightarrow> quiet_out a' out"
  by (auto simp: quiet_out_def list_all_iff quiet_msg_def split: rpc_msg.splits)

lemma effects_step_down:
  assumes "quietly (a_become_follower t lid a) a'"
    and "a_term a < t \<or> t = a_term a \<and> a_role a = CANDIDATE \<and> 0 \<le> int_of_u32 (a_term a) \<and>
      (\<exists>m r. mo = Some m \<and> m_dst m = a_id a \<and> m_body m = AppendReq r \<and> ae_term r = a_term a)"
  shows "effects mo a a'"
proof -
  let ?b = "a_become_follower t lid a"
  obtain out where k: "keeps ?b a' out" using assms(1) by (auto simp: quietly_def)
  then have "quiet_out a' out"
    using quiet_out_cong [of a' ?b out] by (simp add: keeps_def same_shape_def)
  then have "effect mo a a' out"
    using assms(2) k
    by (intro effect.step_down) (auto simp: keeps_def a_become_follower_def same_shape_def)
  then show ?thesis using k by (auto simp: effects_def keeps_def a_become_follower_def)
qed

lemma append_request_effects:
  assumes "m_body m = AppendReq req" and "m_dst m = a_id a"
  shows "effects (Some m) a (a_append_request_handler req a)"
proof -
  let ?t = "a_term a"
  consider "int_of_u32 ?t < 0" | "0 \<le> int_of_u32 ?t" "ae_term req < ?t"
    | (down) "0 \<le> int_of_u32 ?t" "?t < ae_term req \<or> ae_term req = ?t \<and> a_role a = CANDIDATE"
    | (up) "0 \<le> int_of_u32 ?t" "ae_term req = ?t" "a_role a \<noteq> CANDIDATE"
    by (cases "int_of_u32 ?t < 0") (use linorder_less_linear in \<open>auto simp: not_less\<close>)
  then show ?thesis
  proof cases
    case down
    then have "a_append_request_handler req a =
        a_append_to_log req ?t (a_become_follower (ae_term req) (ae_leader_id req) a)"
      by (auto simp: a_append_request_handler_def)
    moreover have "?t < ae_term req \<or> ae_term req = ?t \<and> a_role a = CANDIDATE \<and> 0 \<le> int_of_u32 ?t \<and>
        (\<exists>m' r. Some m = Some m' \<and> m_dst m' = a_id a \<and> m_body m' = AppendReq r \<and> ae_term r = ?t)"
      using down assms by auto
    ultimately show ?thesis
      using effects_step_down [OF quietly_append_to_log] by metis
  next
    case up
    then show ?thesis
      by (auto simp: a_append_request_handler_def
          intro!: effects_quiet quietly_trans [OF quietly_update(4) quietly_append_to_log])
  qed (auto simp: a_append_request_handler_def intro!: effects_quiet quietly_append_response)
qed

lemma append_response_effects: "effects mo a (a_append_response_handler src resp a)"
proof (cases "a_term a < aer_term resp")
  case True
  then show ?thesis
    by (auto simp: a_append_response_handler_def intro: effects_step_down [where t = "aer_term resp"])
next
  case False
  have "quietly a (a_apply (a_advance_commit (a\<lparr>a_match := (a_match a)[k := y], a_next := (a_next a)[k := x]\<rparr>)))"
    for k x y
    by (rule quietly_trans [OF quietly_trans [OF quietly_update(9) quietly_advance_commit] quietly_apply])
  then show ?thesis
    using False by (auto simp: a_append_response_handler_def intro!: effects_quiet)
qed

lemma decide_vote_cases:
  obtains (no) "quietly b (a_decide_vote req b)"
  | (yes) "0 \<le> int_of_u32 (a_vote b)" "a_vote b = PF_NO_VOTE_V \<or> a_vote b = rv_candidate_id req"
      "up_to_date (a_log b) (rv_last_log_idx req) (rv_last_log_term req)"
      "a_decide_vote req b =
         a_vote_response (rv_candidate_id req) (a_term b) 1 (b\<lparr>a_vote := rv_candidate_id req\<rparr>)"
proof -
  have "quietly b (a_vote_response dst t 0 b)" for dst t
    unfolding a_vote_response_def by (rule quietly_send) (simp add: quiet_msg_def)
  then show ?thesis
    using no yes unfolding a_decide_vote_def
    by (cases "int_of_u32 (a_vote b) < 0";
        cases "(a_vote b = PF_NO_VOTE_V \<or> a_vote b = rv_candidate_id req) \<and>
          up_to_date (a_log b) (rv_last_log_idx req) (rv_last_log_term req)") simp_all
qed

lemma vote_request_effects:
  assumes "m_body m = VoteReq req" and "m_dst m = a_id a"
  shows "effects (Some m) a (a_vote_request_handler src req a)"
proof -
  let ?t = "a_term a" and ?T = "rv_term req"
  have no: "quietly a (a_vote_response dst t 0 a)" for dst t
    unfolding a_vote_response_def by (rule quietly_send) (simp add: quiet_msg_def)
  let ?b = "if ?t < ?T then a_become_follower ?T src a else a"
  show ?thesis
  proof (cases "int_of_u32 ?t < 0 \<or> ?T < ?t")
    case True
    then show ?thesis
      using no by (auto simp: a_vote_request_handler_def intro!: effects_quiet)
  next
    case False
    then have run: "a_vote_request_handler src req a = a_decide_vote req ?b" and le: "?t \<le> ?T"
      by (auto simp: a_vote_request_handler_def)
    show ?thesis
    proof (cases rule: decide_vote_cases [of ?b req])
      case no
      then show ?thesis
        using le by (cases "?t < ?T") (auto simp: run intro: effects_step_down effects_quiet)
    next
      case yes
      let ?out = "[\<lparr>m_dst = rv_candidate_id req, m_src = a_id a,
        m_body = VoteRes \<lparr>rvr_term = ?T, rvr_vote_granted = 1\<rparr>\<rparr>]"
      have t: "a_term ?b = ?T" "a_log ?b = a_log a" using le by (auto simp: a_become_follower_def)
      have "effect (Some m) a (a_decide_vote req ?b) ?out"
        unfolding yes(4) t(1)
        by (rule effect.grant [OF refl assms(2,1)])
          (use yes(2) yes(3) [unfolded t] le in \<open>auto simp: a_vote_response_def a_send_def a_become_follower_def
              same_shape_def\<close>)
      moreover have "a_out (a_decide_vote req ?b) = a_out a @ ?out"
        unfolding yes(4) t(1) by (simp add: a_vote_response_def a_send_def a_become_follower_def)
      ultimately show ?thesis by (auto simp: run effects_def)
    qed
  qed
qed

lemma vote_response_effects:
  assumes "m_body m = VoteRes resp" and "m_dst m = a_id a"
  shows "effects (Some m) a (a_vote_response_handler src resp a)"
proof -
  let ?t = "a_term a"
  consider "a_role a \<noteq> CANDIDATE"
    | (down) "a_role a = CANDIDATE" "?t < rvr_term resp"
    | "a_role a = CANDIDATE" "rvr_term resp < ?t \<or> rvr_vote_granted resp = 0" "\<not> ?t < rvr_term resp"
    | (vote) "a_role a = CANDIDATE" "rvr_term resp = ?t" "rvr_vote_granted resp \<noteq> 0"
    using linorder_less_linear [of ?t "rvr_term resp"]
    by (cases "a_role a = CANDIDATE"; cases "rvr_vote_granted resp = 0") auto
  then show ?thesis
  proof cases
    case down
    then show ?thesis
      by (auto simp: a_vote_response_handler_def intro: effects_step_down [where t = "rvr_term resp"])
  next
    case vote
    let ?b = "a\<lparr>a_votes := a_votes a + 1\<rparr>"
    let ?c = "?b\<lparr>a_role := LEADER, a_leader := NO_LEADER,
      a_next := replicate (unat (a_num a)) (u32_of_int (int (length (a_log a)))),
      a_match := replicate (unat (a_num a)) (-1)\<rparr>"
    show ?thesis
    proof (cases "a_num a div 2 < a_votes a + 1")
      case True
      have run: "a_vote_response_handler src resp a = a_send_heartbeats ?c"
        using vote True by (simp add: a_vote_response_handler_def Let_def a_become_leader_def)
      obtain out where k: "keeps ?c (a_send_heartbeats ?c) out"
        using quietly_heartbeats by (auto simp: quietly_def)
      then have "quiet_out (a_send_heartbeats ?c) out"
        using quiet_out_cong [of "a_send_heartbeats ?c" ?c out] by (simp add: keeps_def same_shape_def)
      then have "effect (Some m) a (a_send_heartbeats ?c) out"
        by (intro effect.win [OF refl assms(2,1) vote(2,3,1)])
          (use k True in \<open>simp_all add: keeps_def same_shape_def\<close>)
      then show ?thesis using k by (auto simp: run effects_def keeps_def)
    next
      case False
      have "effect (Some m) a ?b []"
        by (rule effect.count_vote [OF refl assms(2,1) vote(2,3,1)])
          (use vote in \<open>simp_all add: same_shape_def\<close>)
      then show ?thesis
        using vote False by (auto simp: a_vote_response_handler_def effects_def Let_def)
    qed
  qed (auto simp: a_vote_response_handler_def intro!: effects_quiet)
qed

lemma proc_request_effects: "effects mo a (a_proc_request_handler src req a)"
proof (rule effects_quiet)
  have *: "quietly a (a_broadcast_entries (a\<lparr>a_log := lg\<rparr>))"
    "quietly a (a_broadcast_entries (a\<lparr>a_log := lg, a_reqs := rs\<rparr>))" for lg rs
    by (rule quietly_trans [OF quietly_update(1) quietly_broadcast_entries],
        rule quietly_trans [OF quietly_trans [OF quietly_update(1) quietly_update(5)]
          quietly_broadcast_entries])
  show "quietly a (a_proc_request_handler src req a)"
    using * by (auto simp: a_proc_request_handler_def Let_def quiet_msg_def
        intro!: quietly_send split: option.split)
qed

theorem receive_effects: "effects (Some m) a (a_receive m a)"
  by (auto simp: a_receive_def a_handle_def append_request_effects append_response_effects
      vote_request_effects vote_response_effects proc_request_effects
      intro: effects_quiet split: rpc_msg.split)

lemma start_election_effects:
  assumes "a_role a = CANDIDATE \<or> a_role a = FOLLOWER"
    and "b = a \<or> b = a\<lparr>a_role := CANDIDATE, a_leader := NO_LEADER, a_votes := 0\<rparr>"
    and "a_role b = CANDIDATE"
  shows "effects mo a (a_start_election b)"
proof (cases "int_of_u32 (a_term a) < 0")
  case True
  then have run: "a_start_election b = b" using assms(2) by (auto simp: a_start_election_def)
  have "effect mo a b []"
    by (rule effect.stuck [OF True]) (use assms in \<open>auto simp: same_shape_def\<close>)
  then show ?thesis using assms(2) by (auto simp: run effects_def)
next
  case False
  let ?c = "a_start_election b"
  let ?out = "map (\<lambda>i. \<lparr>m_dst = i, m_src = a_id a, m_body = VoteReq (a_vote_request ?c)\<rparr>) (a_peers a)"
  have out: "a_out ?c = a_out a @ ?out"
    using assms(2) False
    by (auto simp: a_start_election_def a_broadcast_def a_peers_def a_vote_request_def Let_def)
  have "effect mo a ?c ?out"
    by (rule effect.campaign)
      (use out False assms(2,3) in \<open>auto simp: a_start_election_def a_broadcast_def Let_def same_shape_def\<close>)
  then show ?thesis using out by (auto simp: effects_def)
qed

theorem elect_effects: "effects mo a (a_elect a)"
proof (cases "a_role a")
  case FOLLOWER
  then show ?thesis
    unfolding a_elect_def by (simp add: a_become_candidate_def start_election_effects)
next
  case CANDIDATE
  then show ?thesis unfolding a_elect_def by (simp add: start_election_effects)
next
  case LEADER
  then show ?thesis
    unfolding a_elect_def by (simp add: effects_quiet quietly_heartbeats)
qed

end
