(* ===== verification/Raft_Commit.thy ===== *)
theory Raft_Commit
  imports Raft_Spec
begin

text \<open>
  Committing and applying in the specification: what applying keeps, and which index a leader
  moves its commit index to.
\<close>

section \<open>Applying\<close>

lemma answer_frame [simp]:
  "a_commit (a_answer e a) = a_commit a" "a_applied (a_answer e a) = a_applied a"
  "a_log (a_answer e a) = a_log a" "a_match (a_answer e a) = a_match a"
  "a_next (a_answer e a) = a_next a" "a_role (a_answer e a) = a_role a"
  "a_num (a_answer e a) = a_num a" "a_id (a_answer e a) = a_id a" "a_term (a_answer e a) = a_term a"
  by (simp_all add: a_answer_def a_send_def split: option.split)

lemma apply_one_frame [simp]:
  "a_commit (a_apply_one a) = a_commit a" "a_applied (a_apply_one a) = a_applied a + 1"
  "a_log (a_apply_one a) = a_log a" "a_match (a_apply_one a) = a_match a"
  "a_next (a_apply_one a) = a_next a" "a_role (a_apply_one a) = a_role a"
  "a_num (a_apply_one a) = a_num a" "a_id (a_apply_one a) = a_id a" "a_term (a_apply_one a) = a_term a"
  by (simp_all add: a_apply_one_def Let_def)

lemma apply_n_frame [simp]:
  "a_commit (a_apply_n k a) = a_commit a" "a_applied (a_apply_n k a) = a_applied a + int k"
  "a_log (a_apply_n k a) = a_log a" "a_match (a_apply_n k a) = a_match a"
  "a_next (a_apply_n k a) = a_next a" "a_role (a_apply_n k a) = a_role a"
  "a_num (a_apply_n k a) = a_num a" "a_id (a_apply_n k a) = a_id a" "a_term (a_apply_n k a) = a_term a"
  by (induction k arbitrary: a) simp_all

lemma apply_frame [simp]:
  "a_commit (a_apply a) = a_commit a" "a_log (a_apply a) = a_log a"
  "a_match (a_apply a) = a_match a" "a_next (a_apply a) = a_next a" "a_role (a_apply a) = a_role a"
  "a_num (a_apply a) = a_num a" "a_id (a_apply a) = a_id a" "a_term (a_apply a) = a_term a"
  "a_applied (a_apply a) = max (a_applied a) (a_commit a)"
  by (simp_all add: a_apply_def)

section \<open>Which index is committed\<close>

text \<open>An entry of the current term that a majority of the nodes has.\<close>

definition committable :: "anode \<Rightarrow> int \<Rightarrow> bool" where
  "committable a n \<longleftrightarrow> log_term (a_log a) n = a_term a \<and> a_num a div 2 < a_match_count n a"

lemma committable_update [simp]:
  "committable (a\<lparr>a_commit := c\<rparr>) = committable a" "committable (a_apply a) = committable a"
  by (auto simp: committable_def a_match_count_def a_peers_def fun_eq_iff)

lemma commit_step_committable:
  "a_commit_step n a = (if committable a n then a\<lparr>a_commit := n\<rparr> else a)"
  by (simp add: a_commit_step_def committable_def)

lemma fold_commit_committable:
  "fold a_commit_step ns a =
     (case filter (committable a) ns of [] \<Rightarrow> a | m # ms \<Rightarrow> a\<lparr>a_commit := last (m # ms)\<rparr>)"
proof (induction ns arbitrary: a)
  case (Cons n ns)
  then show ?case
    by (cases "filter (committable a) ns") (simp_all add: commit_step_committable)
qed simp

lemma advance_commit_cases:
  obtains (none) "a_advance_commit a = a"
      "\<And>n. a_commit a < n \<Longrightarrow> n < int (length (a_log a)) \<Longrightarrow> \<not> committable a n"
  | (some) m where "a_advance_commit a = a\<lparr>a_commit := m\<rparr>" "a_commit a < m"
      "m < int (length (a_log a))" "committable a m"
      "\<And>n. m < n \<Longrightarrow> n < int (length (a_log a)) \<Longrightarrow> \<not> committable a n"
proof (cases "filter (committable a) [a_commit a + 1 .. int (length (a_log a)) - 1]")
  case Nil
  then show ?thesis
    by (intro none) (auto simp: a_advance_commit_def fold_commit_committable filter_empty_conv)
next
  case (Cons m ms)
  let ?ns = "filter (committable a) [a_commit a + 1 .. int (length (a_log a)) - 1]"
  have last: "last ?ns \<in> set ?ns" using Cons by (intro last_in_set) simp
  have "sorted ?ns" by (simp add: sorted_wrt_filter)
  moreover have snoc: "?ns = butlast ?ns @ [last ?ns]" using Cons by simp
  ultimately have "\<forall>n \<in> set (butlast ?ns). n \<le> last ?ns"
    by (metis sorted_append list.set_intros(1))
  then have max: "n \<le> last ?ns" if "n \<in> set ?ns" for n
    using that snoc by (metis Un_iff empty_iff insert_iff list.set(1) list.set(2) order_refl set_append)
  show ?thesis
  proof (rule some)
    show "a_advance_commit a = a\<lparr>a_commit := last ?ns\<rparr>"
      by (simp add: a_advance_commit_def fold_commit_committable Cons)
    show "a_commit a < last ?ns" "last ?ns < int (length (a_log a))" "committable a (last ?ns)"
      using last by auto
    show "\<not> committable a n" if "last ?ns < n" "n < int (length (a_log a))" for n
    proof
      assume "committable a n"
      then have "n \<in> set ?ns" using that last by auto
      then show False using max that(1) by fastforce
    qed
  qed
qed

end
