(* ===== verification/Log_Effect.thy ===== *)
theory Log_Effect
  imports Raft_Effect Raft_Commit
begin

text \<open>
  What one step of a node does to its log, its commit index and the indexes of a leader, and
  which requests and successful answers about entries it sends: the relation \<open>log_effect\<close>, the
  counterpart of \<open>effect\<close> for the log.
\<close>

section \<open>Messages\<close>

text \<open>A message that carries no entries, acknowledges none and requests none.\<close>

definition plain :: "amsg \<Rightarrow> bool" where
  "plain m \<longleftrightarrow> (case m_body m of AppendReq r \<Rightarrow> False | AppendRes r \<Rightarrow> aer_success r = 0
     | ProcReq r \<Rightarrow> False | _ \<Rightarrow> True)"

text \<open>A request of a leader in the state \<open>a\<close>, with some entries or none.\<close>

definition leader_request :: "anode \<Rightarrow> amsg \<Rightarrow> bool" where
  "leader_request a m \<longleftrightarrow> a_role a = LEADER \<and> m_src m = a_id a \<and> m_dst m \<in> set (a_peers a) \<and>
     (\<exists>limit. 0 \<le> limit \<and> limit \<le> 32 \<and> m_body m = AppendReq (a_append_request limit a (m_dst m)))"

definition plain_or_request :: "anode \<Rightarrow> amsg list \<Rightarrow> bool" where
  "plain_or_request a out \<longleftrightarrow> (\<forall>m \<in> set out. plain m \<or> leader_request a m)"

text \<open>What the log depends on, apart from the log.\<close>

definition same_indexes :: "anode \<Rightarrow> anode \<Rightarrow> bool" where
  "same_indexes a a' \<longleftrightarrow> a_next a' = a_next a \<and> a_match a' = a_match a"

text \<open>The request an entry was made for.\<close>

definition request_of :: "log_entry_t \<Rightarrow> proc_req_t" where
  "request_of e = \<lparr>pr_client_id = le_client_id e, pr_cmd_seqno = le_cmd_seqno e, pr_cmd = le_cmd e\<rparr>"

definition requested :: "amsg option \<Rightarrow> log_entry_t \<Rightarrow> bool" where
  "requested mo e \<longleftrightarrow> (\<exists>m. mo = Some m \<and> m_body m = ProcReq (request_of e))"

section \<open>The steps\<close>

inductive log_effect :: "amsg option \<Rightarrow> anode \<Rightarrow> anode \<Rightarrow> amsg list \<Rightarrow> bool" where
  idle: "\<lbrakk> a_log a' = a_log a; a_commit a' = a_commit a; same_indexes a a';
    a_role a' = LEADER \<Longrightarrow> a_role a = LEADER \<and> a_term a' = a_term a;
    plain_or_request a' out \<rbrakk> \<Longrightarrow> log_effect mo a a' out"
| win: "\<lbrakk> a_log a' = a_log a; a_commit a' = a_commit a; a_role a = CANDIDATE; a_role a' = LEADER;
    a_term a' = a_term a; a_next a' = replicate (unat (a_num a)) (of_nat (length (a_log a)));
    a_match a' = replicate (unat (a_num a)) (-1); plain_or_request a' out \<rbrakk> \<Longrightarrow>
    log_effect mo a a' out"
| append: "\<lbrakk> a_role a = LEADER; a_role a' = LEADER; a_term a' = a_term a;
    a_log a' = a_log a @ [e]; le_term e = a_term a; a_commit a' = a_commit a; same_indexes a a';
    plain_or_request a' out; requested mo e \<rbrakk> \<Longrightarrow> log_effect mo a a' out"
| merge: "\<lbrakk> mo = Some m; m_dst m = a_id a; m_body m = AppendReq r; 0 \<le> int_of_u32 (a_term a);
    a_term a \<le> ae_term r; a_term a' = ae_term r;
    a_role a' = FOLLOWER \<or> a_role a' = a_role a \<and> a_term a' = a_term a;
    int_of_u32 (ae_prev_log_idx r) < int (length (a_log a));
    log_term (a_log a) (int_of_u32 (ae_prev_log_idx r)) = ae_prev_log_term r;
    a_log a' = a_append_loop (take (unat (ae_n_entries r)) (ae_entries r)) (ae_prev_log_idx r + 1)
      (int (length (a_log a))) (a_log a);
    a_commit a' = (if a_commit a < ae_leader_commit r
      then min (ae_leader_commit r) (int_of_u32 (ae_prev_log_idx r + ae_n_entries r))
      else a_commit a);
    same_indexes a a'; out = out1 @ [\<lparr>m_dst = ae_leader_id r, m_src = a_id a,
      m_body = AppendRes \<lparr>aer_term = a_term a,
        aer_new_match_index = ae_prev_log_idx r + ae_n_entries r, aer_success = 1\<rparr>\<rparr>];
    list_all plain out1 \<rbrakk> \<Longrightarrow> log_effect mo a a' out"
| stored: "\<lbrakk> mo = Some m; m_dst m = a_id a; m_body m = AppendRes r; aer_term r = a_term a;
    aer_success r \<noteq> 0;
    a_role a = LEADER; a_role a' = LEADER; a_term a' = a_term a; a_log a' = a_log a;
    unat (m_src m) < length (a_match a); unat (m_src m) < length (a_next a);
    a_match a' = (a_match a)[unat (m_src m) := int_of_u32 (aer_new_match_index r)];
    a_next a' = (a_next a)[unat (m_src m) := of_nat (length (a_log a))];
    a_commit a' = a_commit a \<or> a_commit a < a_commit a' \<and> a_commit a' < int (length (a_log a)) \<and>
      committable a' (a_commit a');
    list_all plain out \<rbrakk> \<Longrightarrow> log_effect mo a a' out"
| refused: "\<lbrakk> a_role a = LEADER; a_role a' = LEADER; a_term a' = a_term a; a_log a' = a_log a;
    a_commit a' = a_commit a; a_match a' = a_match a; k < length (a_next a);
    0 < a_next a ! k; a_next a' = (a_next a)[k := a_next a ! k - 1]; out = [] \<rbrakk> \<Longrightarrow>
    log_effect mo a a' out"

definition log_effects :: "amsg option \<Rightarrow> anode \<Rightarrow> anode \<Rightarrow> bool" where
  "log_effects mo a a' \<longleftrightarrow> (\<exists>out. a_out a' = a_out a @ out \<and> log_effect mo a a' out)"

lemma plain_or_request_plain: "list_all plain out \<Longrightarrow> plain_or_request a out"
  by (simp add: plain_or_request_def list_all_iff)

lemma plain_simps [simp]:
  "plain \<lparr>m_dst = d, m_src = s, m_body = VoteReq vq\<rparr>"
  "plain \<lparr>m_dst = d, m_src = s, m_body = VoteRes vr\<rparr>"
  "plain \<lparr>m_dst = d, m_src = s, m_body = ProcRes pr\<rparr>"
  "plain \<lparr>m_dst = d, m_src = s, m_body = AppendRes ar\<rparr> \<longleftrightarrow> aer_success ar = 0"
  by (simp_all add: plain_def)

section \<open>Steps that leave the log alone\<close>

lemma apply_plain: "\<exists>out. a_out (a_apply a) = a_out a @ out \<and> list_all plain out"
proof -
  have one: "\<exists>out. a_out (a_apply_one a) = a_out a @ out \<and> list_all plain out" for a
    by (auto simp: a_apply_one_def a_answer_def a_send_def Let_def split: option.split)
  have "\<exists>out. a_out (a_apply_n k a) = a_out a @ out \<and> list_all plain out" for k a
  proof (induction k arbitrary: a)
    case (Suc k)
    show ?case using one [of a] Suc [of "a_apply_one a"] by fastforce
  qed simp
  then show ?thesis by (simp add: a_apply_def)
qed

lemma idle_effects:
  assumes "a_log a' = a_log a" "a_commit a' = a_commit a" "same_indexes a a'"
    and "a_role a' \<noteq> LEADER \<or> a_role a = LEADER \<and> a_term a' = a_term a"
    and "a_out a' = a_out a @ out" and "list_all plain out"
  shows "log_effects mo a a'"
  unfolding log_effects_def
  using assms by (intro exI [of _ out] conjI log_effect.idle) (auto intro: plain_or_request_plain)

lemma log_effects_refl: "log_effects mo a a"
  by (rule idle_effects [where out = "[]"]) (auto simp: same_indexes_def)

lemma broadcast_requests:
  assumes "a_role a = LEADER" and "0 \<le> limit" and "limit \<le> 32"
    and "b = a_broadcast (\<lambda>i. AppendReq (a_append_request limit a i)) a"
  shows "\<exists>out. a_out b = a_out a @ out \<and> plain_or_request b out"
proof -
  have "a_append_request l b i = a_append_request l a i" for l i
    by (simp add: assms(4) a_append_request_def a_broadcast_def Let_def)
  moreover have "a_peers b = a_peers a" "a_role b = LEADER" "a_id b = a_id a"
    using assms(1) by (simp_all add: assms(4) a_peers_def a_broadcast_def)
  ultimately show ?thesis
    using assms(2,3) by (auto simp: plain_or_request_def leader_request_def assms(4) a_broadcast_def)
qed

lemma broadcast_frame [simp]:
  "a_log (a_broadcast f a) = a_log a" "a_commit (a_broadcast f a) = a_commit a"
  "a_next (a_broadcast f a) = a_next a" "a_match (a_broadcast f a) = a_match a"
  "a_role (a_broadcast f a) = a_role a" "a_term (a_broadcast f a) = a_term a"
  "a_num (a_broadcast f a) = a_num a" "a_id (a_broadcast f a) = a_id a"
  by (simp_all add: a_broadcast_def)

lemma heartbeats_effects: "log_effects mo a (a_send_heartbeats a)"
proof (cases "a_role a = LEADER")
  case True
  from broadcast_requests [OF True, of 0 "a_send_heartbeats a"] show ?thesis
    using True unfolding log_effects_def
    by (auto simp: a_send_heartbeats_def same_indexes_def intro!: log_effect.idle)
next
  case False
  then show ?thesis by (intro idle_effects) (auto simp: a_send_heartbeats_def same_indexes_def)
qed

lemma win_effects:
  assumes "a_role a = CANDIDATE"
  shows "log_effects mo a (a_become_leader (a\<lparr>a_votes := k\<rparr>))"
proof -
  let ?c = "a\<lparr>a_votes := k, a_role := LEADER, a_leader := NO_LEADER,
       a_next := replicate (unat (a_num a)) (u32_of_int (int (length (a_log a)))),
       a_match := replicate (unat (a_num a)) (-1)\<rparr>"
  let ?b = "a_become_leader (a\<lparr>a_votes := k\<rparr>)"
  have run: "?b = a_broadcast (\<lambda>i. AppendReq (a_append_request 0 ?c i)) ?c"
    by (simp add: a_become_leader_def a_send_heartbeats_def)
  obtain out where "a_out ?b = a_out ?c @ out" "plain_or_request ?b out"
    using broadcast_requests [of ?c 0 ?b] run by auto
  then show ?thesis
    unfolding log_effects_def using assms
    by (intro exI [of _ out] conjI log_effect.win) (simp_all add: run)
qed

lemma vote_request_log_effects: "log_effects mo a (a_vote_request_handler src req a)"
  by (auto simp: a_vote_request_handler_def a_decide_vote_def a_vote_response_def a_send_def
      a_become_follower_def same_indexes_def intro: idle_effects)

lemma vote_response_log_effects: "log_effects mo a (a_vote_response_handler src resp a)"
  by (auto simp: a_vote_response_handler_def a_become_follower_def same_indexes_def Let_def
      intro: idle_effects win_effects)

lemma proc_request_log_effects:
  assumes "m_body m = ProcReq req"
  shows "log_effects (Some m) a (a_proc_request_handler src req a)"
proof (cases "a_role a = LEADER")
  case False
  then show ?thesis
    by (auto simp: a_proc_request_handler_def a_send_def same_indexes_def intro: idle_effects)
next
  case True
  let ?e = "\<lparr>le_term = a_term a, le_client_id = pr_client_id req,
    le_cmd_seqno = pr_cmd_seqno req, le_cmd = pr_cmd req\<rparr>"
  obtain rs where "a_proc_request_handler src req a =
      a_broadcast_entries (a\<lparr>a_log := a_log a @ [?e], a_reqs := rs\<rparr>)"
  proof (cases "find_inactive (a_reqs a)")
    case None
    then show ?thesis using True that [of "a_reqs a"] by (simp add: a_proc_request_handler_def Let_def)
  next
    case (Some k)
    then show ?thesis using True that by (simp add: a_proc_request_handler_def Let_def)
  qed
  moreover define c where "c = a\<lparr>a_log := a_log a @ [?e], a_reqs := rs\<rparr>"
  ultimately have run: "a_proc_request_handler src req a =
      a_broadcast (\<lambda>i. AppendReq (a_append_request 32 c i)) c" and c: "a_role c = LEADER"
    using True by (simp_all add: a_broadcast_entries_def)
  then obtain out where out: "a_out (a_proc_request_handler src req a) = a_out c @ out"
    "plain_or_request (a_proc_request_handler src req a) out"
    using broadcast_requests [OF c, of 32] by auto
  show ?thesis
    unfolding log_effects_def
    by (intro exI [of _ out] conjI log_effect.append [where e = ?e])
      (use True out assms in \<open>simp_all add: run c_def same_indexes_def requested_def request_of_def\<close>)
qed

lemma update_commit_result:
  obtains out where "a_out (a_update_commit r a) = a_out a @ out" and "list_all plain out"
    and "a_log (a_update_commit r a) = a_log a" and "a_role (a_update_commit r a) = a_role a"
    and "a_term (a_update_commit r a) = a_term a" and "a_id (a_update_commit r a) = a_id a"
    and "same_indexes a (a_update_commit r a)"
    and "a_commit (a_update_commit r a) = (if a_commit a < ae_leader_commit r
      then min (ae_leader_commit r) (int_of_u32 (ae_prev_log_idx r + ae_n_entries r))
      else a_commit a)"
proof -
  let ?b = "a\<lparr>a_commit := min (ae_leader_commit r) (int_of_u32 (ae_prev_log_idx r + ae_n_entries r))\<rparr>"
  obtain out where "a_out (a_apply ?b) = a_out a @ out" "list_all plain out"
    using apply_plain [of ?b] by auto
  then show ?thesis
    using that [of out] that [of "[]"]
    by (cases "a_commit a < ae_leader_commit r") (auto simp: a_update_commit_def same_indexes_def)
qed

lemma append_to_log_effects:
  assumes "mo = Some m" and "m_dst m = a_id a" and "m_body m = AppendReq r"
    and "0 \<le> int_of_u32 (a_term a)" and "a_term a \<le> ae_term r"
    and "b = a_become_follower (ae_term r) lid a \<or> b = a\<lparr>a_leader := lid\<rparr> \<and> ae_term r = a_term a"
  shows "log_effects mo a (a_append_to_log r (a_term a) b)"
proof (cases "int (length (a_log b)) \<le> int_of_u32 (ae_prev_log_idx r) \<or>
    log_term (a_log b) (int_of_u32 (ae_prev_log_idx r)) \<noteq> ae_prev_log_term r")
  case True
  then show ?thesis
    using assms(6)
    by (auto simp: a_append_to_log_def a_append_response_def a_send_def a_become_follower_def
        same_indexes_def Let_def intro: idle_effects)
next
  case False
  define c where "c = b\<lparr>a_log := a_append_loop (take (unat (ae_n_entries r)) (ae_entries r))
    (ae_prev_log_idx r + 1) (int (length (a_log b))) (a_log b)\<rparr>"
  let ?d = "a_append_to_log r (a_term a) b"
  have run: "?d = a_append_response (ae_leader_id r) (a_term a)
      (ae_prev_log_idx r + ae_n_entries r) 1 (a_update_commit r c)"
    using False by (simp add: a_append_to_log_def c_def Let_def)
  have b: "a_log b = a_log a" "a_commit b = a_commit a" "a_out b = a_out a" "a_id b = a_id a"
    "a_term b = ae_term r" "same_indexes a b"
    "a_role b = FOLLOWER \<or> a_role b = a_role a \<and> a_term b = a_term a"
    using assms(6) by (auto simp: a_become_follower_def same_indexes_def)
  obtain out where out: "a_out (a_update_commit r c) = a_out c @ out" "list_all plain out"
    "a_log (a_update_commit r c) = a_log c" "a_role (a_update_commit r c) = a_role c"
    "a_term (a_update_commit r c) = a_term c" "a_id (a_update_commit r c) = a_id c"
    "same_indexes c (a_update_commit r c)"
    "a_commit (a_update_commit r c) = (if a_commit c < ae_leader_commit r
      then min (ae_leader_commit r) (int_of_u32 (ae_prev_log_idx r + ae_n_entries r))
      else a_commit c)"
    by (rule update_commit_result)
  have c: "a_commit c = a_commit a" "a_out c = a_out a" "a_id c = a_id a" "a_term c = ae_term r"
    "a_role c = a_role b" "same_indexes a c"
    using b by (simp_all add: c_def same_indexes_def)
  show ?thesis
    unfolding log_effects_def
  proof (intro exI conjI log_effect.merge [where ?out1.0 = out and m = m and r = r])
    show "a_out ?d = a_out a @ out @ [\<lparr>m_dst = ae_leader_id r, m_src = a_id a,
      m_body = AppendRes \<lparr>aer_term = a_term a,
        aer_new_match_index = ae_prev_log_idx r + ae_n_entries r, aer_success = 1\<rparr>\<rparr>]"
      unfolding run a_append_response_def a_send_def using out(1,6) c by simp
  qed (use assms(1-5) False b out c in
    \<open>simp_all add: run a_append_response_def a_send_def same_indexes_def c_def\<close>)
qed

lemma append_request_log_effects:
  assumes "m_body m = AppendReq r" and "m_dst m = a_id a"
  shows "log_effects (Some m) a (a_append_request_handler r a)"
proof -
  consider "int_of_u32 (a_term a) < 0 \<or> ae_term r < a_term a"
    | (down) "0 \<le> int_of_u32 (a_term a)" "a_term a \<le> ae_term r"
        "a_term a < ae_term r \<or> ae_term r = a_term a \<and> a_role a = CANDIDATE"
    | (up) "0 \<le> int_of_u32 (a_term a)" "ae_term r = a_term a" "a_role a \<noteq> CANDIDATE"
    by (cases "a_role a = CANDIDATE"; cases "int_of_u32 (a_term a) < 0 \<or> ae_term r < a_term a")
      (auto simp: not_less le_less)
  then show ?thesis
  proof cases
    case 1
    then show ?thesis
      by (auto simp: a_append_request_handler_def a_append_response_def a_send_def same_indexes_def
          intro: idle_effects)
  next
    case down
    then have "a_append_request_handler r a =
        a_append_to_log r (a_term a) (a_become_follower (ae_term r) (ae_leader_id r) a)"
      by (auto simp: a_append_request_handler_def)
    then show ?thesis
      using append_to_log_effects [OF refl assms(2,1) down(1,2)] by auto
  next
    case up
    then have "a_append_request_handler r a =
        a_append_to_log r (a_term a) (a\<lparr>a_leader := ae_leader_id r\<rparr>)"
      by (auto simp: a_append_request_handler_def)
    then show ?thesis
      using append_to_log_effects [OF refl assms(2,1) up(1)] up(2) by auto
  qed
qed

lemma append_response_log_effects:
  assumes "m_body m = AppendRes r" and "m_dst m = a_id a"
  shows "log_effects (Some m) a (a_append_response_handler (m_src m) r a)"
proof -
  consider "a_term a < aer_term r \<or> a_role a \<noteq> LEADER \<or> aer_term r < a_term a \<or>
      length (a_match a) \<le> unat (m_src m) \<or> length (a_next a) \<le> unat (m_src m)"
    | (ok) "aer_term r = a_term a" "a_role a = LEADER" "unat (m_src m) < length (a_match a)"
        "unat (m_src m) < length (a_next a)" "aer_success r \<noteq> 0"
    | (no) "aer_term r = a_term a" "a_role a = LEADER" "unat (m_src m) < length (a_match a)"
        "unat (m_src m) < length (a_next a)" "aer_success r = 0"
    by (cases "aer_success r = 0"; cases "a_term a = aer_term r"; cases "a_role a = LEADER";
        cases "length (a_match a) \<le> unat (m_src m) \<or> length (a_next a) \<le> unat (m_src m)")
      (auto simp: neq_iff not_le)
  then show ?thesis
  proof cases
    case 1
    then show ?thesis
      by (auto simp: a_append_response_handler_def a_become_follower_def same_indexes_def
          intro: idle_effects)
  next
    case no
    show ?thesis
    proof (cases "0 < a_next a ! unat (m_src m)")
      case True
      then show ?thesis
        using no by (auto simp: a_append_response_handler_def log_effects_def intro: log_effect.refused)
    next
      case False
      then show ?thesis using no log_effects_refl by (simp add: a_append_response_handler_def)
    qed
  next
    case ok
    define b where "b = a\<lparr>a_match := (a_match a)[unat (m_src m) := int_of_u32 (aer_new_match_index r)],
      a_next := (a_next a)[unat (m_src m) := of_nat (length (a_log a))]\<rparr>"
    let ?c = "a_advance_commit b"
    have run: "a_append_response_handler (m_src m) r a = a_apply ?c"
      using ok by (simp add: a_append_response_handler_def b_def)
    obtain k where c: "?c = b\<lparr>a_commit := k\<rparr>" "k = a_commit a \<or>
        a_commit a < k \<and> k < int (length (a_log a)) \<and> committable b k"
    proof (cases rule: advance_commit_cases [of b])
      case none
      then show ?thesis using that [of "a_commit a"] by (simp add: b_def)
    next
      case (some k)
      then show ?thesis using that [of k] by (simp add: b_def)
    qed
    obtain out where out: "a_out (a_apply ?c) = a_out ?c @ out" "list_all plain out"
      using apply_plain by blast
    show ?thesis
      unfolding log_effects_def run c(1)
      by (intro exI [of _ out] conjI log_effect.stored [OF refl assms(2,1)])
        (use c ok out in \<open>simp_all add: b_def\<close>)
  qed
qed

theorem receive_log_effects: "log_effects (Some m) a (a_receive m a)"
  by (auto simp: a_receive_def a_handle_def append_request_log_effects append_response_log_effects
      vote_request_log_effects vote_response_log_effects proc_request_log_effects same_indexes_def
      intro: idle_effects split: rpc_msg.split)

theorem elect_log_effects: "log_effects mo a (a_elect a)"
proof -
  have start: "log_effects mo a (a_start_election b)"
    if "a_role b \<noteq> LEADER" "a_log b = a_log a" "a_commit b = a_commit a" "same_indexes a b"
      "a_out b = a_out a" for b
    using that
    by (auto simp: a_start_election_def same_indexes_def Let_def a_broadcast_def list_all_iff
        intro!: idle_effects)
  show ?thesis
    by (cases "a_role a")
      (auto simp: a_elect_def a_become_candidate_def same_indexes_def heartbeats_effects intro!: start)
qed

end
