(* ===== verification/Cluster.thy ===== *)
theory Cluster
  imports Log_Effect "HOL-Library.Multiset"
begin

text \<open>
  A cluster of nodes of the specification, its network and its history. The network is the
  multiset of the messages under way: it may lose and reorder them, but it does not duplicate
  them, as the TCP connections of \<open>transport-socket.c\<close> do not. A node may stop and restart at
  any time between two steps, with the log, the term and the vote it had.

  The last five fields are the history. They keep every vote a node ever had in its persisted
  fields, every node that ever was a leader, the log the leader of a term had last, the log of
  every voter when it voted (as long as the term had no leader), and every acknowledgement of
  entries in the term of its sender, where a leader acknowledges its own log.
\<close>

record cluster =
  cl_node :: "u32 \<Rightarrow> anode"
  cl_net :: "amsg multiset"
  cl_votes :: "(u32 \<times> u32 \<times> u32) set"
  cl_leaders :: "(u32 \<times> u32) set"
  cl_logs :: "u32 \<Rightarrow> log_entry_t list"
  cl_ballots :: "(u32 \<times> u32 \<times> u32 \<times> log_entry_t list) set"
  cl_acks :: "(u32 \<times> u32 \<times> int) set"

definition history_vote :: "u32 \<Rightarrow> anode \<Rightarrow> (u32 \<times> u32 \<times> u32) set" where
  "history_vote i a = (if a_vote a = PF_NO_VOTE_V then {} else {(a_term a, i, a_vote a)})"

definition history_leader :: "u32 \<Rightarrow> anode \<Rightarrow> (u32 \<times> u32) set" where
  "history_leader i a = (if a_role a = LEADER then {(a_term a, i)} else {})"

text \<open>The term \<open>t\<close> has, or had, a leader.\<close>

definition led :: "cluster \<Rightarrow> u32 \<Rightarrow> bool" where
  "led s t \<longleftrightarrow> (\<exists>l. (t, l) \<in> cl_leaders s)"

definition history_ballot :: "u32 \<Rightarrow> anode \<Rightarrow> cluster \<Rightarrow> (u32 \<times> u32 \<times> u32 \<times> log_entry_t list) set" where
  "history_ballot i a s =
     (if a_vote a = PF_NO_VOTE_V \<or> led s (a_term a) then {} else {(a_term a, i, a_vote a, a_log a)})"

definition history_ack :: "u32 \<Rightarrow> anode \<Rightarrow> (u32 \<times> u32 \<times> int) set" where
  "history_ack i a = {(a_term a, i, int_of_u32 (aer_new_match_index r)) | m r. m \<in> set (a_out a) \<and>
     m_body m = AppendRes r \<and> aer_success r \<noteq> 0 \<and> aer_term r = a_term a} \<union>
     (if a_role a = LEADER then {(a_term a, i, int (length (a_log a)) - 1)} else {})"

text \<open>Node \<open>i\<close> has stepped to \<open>a\<close>: what it sent goes to the network.\<close>

definition after_step :: "u32 \<Rightarrow> anode \<Rightarrow> cluster \<Rightarrow> cluster" where
  "after_step i a s =
     \<lparr>cl_node = (cl_node s)(i := a\<lparr>a_out := []\<rparr>), cl_net = cl_net s + mset (a_out a),
      cl_votes = cl_votes s \<union> history_vote i a, cl_leaders = cl_leaders s \<union> history_leader i a,
      cl_logs = (if a_role a = LEADER then (cl_logs s)(a_term a := a_log a) else cl_logs s),
      cl_ballots = cl_ballots s \<union> history_ballot i a s, cl_acks = cl_acks s \<union> history_ack i a\<rparr>"

definition from_client :: "amsg \<Rightarrow> bool" where
  "from_client m \<longleftrightarrow> (case m_body m of ProcReq r \<Rightarrow> True | Shutdown \<Rightarrow> True | Garbage \<Rightarrow> True | _ \<Rightarrow> False)"

inductive cstep :: "u32 \<Rightarrow> cluster \<Rightarrow> cluster \<Rightarrow> bool" for n where
  receive: "i < n \<Longrightarrow> has_room (cl_node s i) \<Longrightarrow> m \<in># cl_net s \<Longrightarrow>
    cstep n s (after_step i (a_receive m (cl_node s i)) (s\<lparr>cl_net := cl_net s - {#m#}\<rparr>))"
| elect: "i < n \<Longrightarrow> cstep n s (after_step i (a_elect (cl_node s i)) s)"
| stop: "i < n \<Longrightarrow> cstep n s (after_step i ((cl_node s i)\<lparr>a_running := 0\<rparr>) s)"
| exit: "i < n \<Longrightarrow> cstep n s (after_step i ((cl_node s i)\<lparr>a_halted := h\<rparr>) s)"
| lose: "m \<in># cl_net s \<Longrightarrow> cstep n s (s\<lparr>cl_net := cl_net s - {#m#}\<rparr>)"
| client: "from_client m \<Longrightarrow> cstep n s (s\<lparr>cl_net := add_mset m (cl_net s)\<rparr>)"
| restart: "i < n \<Longrightarrow> length ns = unat n \<Longrightarrow> length ms = unat n \<Longrightarrow> a = cl_node s i \<Longrightarrow>
    cstep n s (after_step i (a_boot i n (a_log a) (a_term a) (a_vote a) ns ms) s)"

inductive_cases cstepE: "cstep n s s'"

definition cstart :: "u32 \<Rightarrow> cluster \<Rightarrow> bool" where
  "cstart n s \<longleftrightarrow> cl_net s = {#} \<and> cl_votes s = {} \<and> cl_leaders s = {} \<and> cl_ballots s = {} \<and>
     cl_acks s = {} \<and>
     (\<forall>i. i < n \<longrightarrow> (\<exists>ns ms. length ns = unat n \<and> length ms = unat n \<and>
        cl_node s i = a_boot i n [] 0 PF_NO_VOTE_V ns ms))"

text \<open>
  Two kinds of step: a node takes a step of the specification (\<open>node_step\<close>, on the message
  \<open>mo\<close> if there is one), or something happens to the network or to a node that is down.
\<close>

definition taken :: "amsg option \<Rightarrow> amsg multiset" where
  "taken mo = (case mo of None \<Rightarrow> {#} | Some m \<Rightarrow> {#m#})"

definition node_step :: "u32 \<Rightarrow> amsg option \<Rightarrow> u32 \<Rightarrow> anode \<Rightarrow> cluster \<Rightarrow> cluster \<Rightarrow> bool" where
  "node_step n mo i a s s' \<longleftrightarrow> i < n \<and> taken mo \<subseteq># cl_net s \<and> effects mo (cl_node s i) a \<and>
     s' = after_step i a (s\<lparr>cl_net := cl_net s - taken mo\<rparr>)"

lemma cstep_cases:
  assumes "cstep n s s'"
  obtains (node) mo i a where "node_step n mo i a s s'"
  | (lose) m where "m \<in># cl_net s" "s' = s\<lparr>cl_net := cl_net s - {#m#}\<rparr>"
  | (client) m where "from_client m" "s' = s\<lparr>cl_net := add_mset m (cl_net s)\<rparr>"
  | (restart) i ns ms where "i < n" "length ns = unat n" "length ms = unat n"
      "s' = after_step i (a_boot i n (a_log (cl_node s i)) (a_term (cl_node s i))
        (a_vote (cl_node s i)) ns ms) s"
proof -
  have none: "node_step n None i a s (after_step i a s)"
    if "i < n" "effects None (cl_node s i) a" for i a
    using that by (simp add: node_step_def taken_def)
  from assms show ?thesis
  proof (cases rule: cstep.cases)
    case (receive i m)
    have "node_step n (Some m) i (a_receive m (cl_node s i)) s s'"
      using receive receive_effects [of m "cl_node s i"] by (simp add: node_step_def taken_def)
    then show ?thesis by (rule node)
  next
    case (elect i)
    then show ?thesis using node none elect_effects by blast
  next
    case (stop i)
    then show ?thesis using node none effects_quiet quietly_update(6) by blast
  next
    case (exit i h)
    then show ?thesis using node none effects_quiet quietly_update(7) by blast
  qed (use lose client restart in blast)+
qed

end
