(* ===== verification/Election.thy ===== *)
theory Election
  imports Cluster
begin

text \<open>
  Election safety: two nodes that ever were leaders in the same term are the same node. The
  proof is by invariants of the reachable states of a cluster, in four groups: where votes and
  messages come from (\<open>cast_inv\<close>), that a vote request is answered at most once
  (\<open>token_inv\<close>), that a candidate has not counted more votes than were cast for it
  (\<open>count_inv\<close>), and what makes a majority lasting (\<open>unique_inv\<close>).

  The code lets a candidate that finds a leader of its own term forget its vote
  (\<open>become_follower\<close> clears it) and vote again in that term. A node may therefore vote for two
  candidates in one term, and the invariants are about the nodes that cannot: those that made
  the leader.
\<close>

section \<open>Where votes and messages come from\<close>

definition msg_ok :: "u32 \<Rightarrow> cluster \<Rightarrow> amsg \<Rightarrow> bool" where
  "msg_ok n s m \<longleftrightarrow>
     (case m_body m of
        VoteReq r \<Rightarrow> m_src m = rv_candidate_id r \<and> m_src m < n \<and> m_dst m < n \<and>
          m_dst m \<noteq> m_src m \<and> rv_term r \<le> a_term (cl_node s (m_src m)) \<and>
          (rv_term r, m_src m, m_src m) \<in> cl_votes s
      | VoteRes r \<Rightarrow> m_src m < n \<and> (rvr_vote_granted r \<noteq> 0 \<longrightarrow> m_dst m < n \<and> m_dst m \<noteq> m_src m \<and>
          (rvr_term r, m_src m, m_dst m) \<in> cl_votes s)
      | AppendReq r \<Rightarrow> (ae_term r, m_src m) \<in> cl_leaders s \<and> m_dst m \<noteq> m_src m
      | AppendRes r \<Rightarrow> m_src m < n
      | _ \<Rightarrow> True)"

definition vote_ok :: "u32 \<Rightarrow> cluster \<Rightarrow> u32 \<Rightarrow> u32 \<Rightarrow> u32 \<Rightarrow> bool" where
  "vote_ok n s t v x \<longleftrightarrow> v < n \<and> x < n \<and> t \<le> a_term (cl_node s v) \<and> t \<le> a_term (cl_node s x) \<and>
     (t, x, x) \<in> cl_votes s"

definition node_inv :: "u32 \<Rightarrow> cluster \<Rightarrow> u32 \<Rightarrow> bool" where
  "node_inv n s i \<longleftrightarrow>
     (let a = cl_node s i
      in a_id a = i \<and> a_num a = n \<and> a_out a = [] \<and>
         (a_vote a \<noteq> PF_NO_VOTE_V \<longrightarrow> (a_term a, i, a_vote a) \<in> cl_votes s) \<and>
         (a_role a = LEADER \<longrightarrow> (a_term a, i) \<in> cl_leaders s) \<and>
         (a_role a = CANDIDATE \<and> 0 \<le> int_of_u32 (a_term a) \<longrightarrow> a_vote a = i))"

definition cast_inv :: "u32 \<Rightarrow> cluster \<Rightarrow> bool" where
  "cast_inv n s \<longleftrightarrow>
     (\<forall>i. i < n \<longrightarrow> node_inv n s i) \<and> (\<forall>m. m \<in># cl_net s \<longrightarrow> msg_ok n s m) \<and>
     (\<forall>t v x. (t, v, x) \<in> cl_votes s \<longrightarrow> vote_ok n s t v x) \<and>
     (\<forall>t l. (t, l) \<in> cl_leaders s \<longrightarrow> l < n)"

text \<open>Terms and histories only grow.\<close>

definition grows :: "u32 \<Rightarrow> cluster \<Rightarrow> cluster \<Rightarrow> bool" where
  "grows n s s' \<longleftrightarrow> cl_votes s \<subseteq> cl_votes s' \<and> cl_leaders s \<subseteq> cl_leaders s' \<and>
     (\<forall>i. i < n \<longrightarrow> a_term (cl_node s i) \<le> a_term (cl_node s' i))"

lemma msg_ok_grows: "grows n s s' \<Longrightarrow> msg_ok n s m \<Longrightarrow> msg_ok n s' m"
  by (auto simp: msg_ok_def grows_def split: rpc_msg.splits intro: order_trans)

lemma vote_ok_grows: "grows n s s' \<Longrightarrow> vote_ok n s t v x \<Longrightarrow> vote_ok n s' t v x"
  unfolding vote_ok_def grows_def by (meson order_trans subsetD)

lemma effect_term:
  assumes "effect mo a a' out"
  shows "a_term a \<le> a_term a'"
  using assms
proof (cases rule: effect.cases)
  case campaign
  then have "unat (a_term a) < 2 ^ 31"
    using sint_nonneg_unat [of "a_term a"] by simp
  then show ?thesis using campaign by (simp add: word_le_nat_alt unat_suc_below)
qed (auto simp: keeps_def)

lemma effect_shape: "effect mo a a' out \<Longrightarrow> a_id a' = a_id a \<and> a_num a' = a_num a"
  by (elim effectE) (auto simp: keeps_def same_shape_def)

lemma node_step_grows:
  assumes "node_step n mo i a' s s'"
  shows "grows n s s'"
proof -
  have "a_term (cl_node s i) \<le> a_term a'"
    using assms effect_term by (auto simp: node_step_def effects_def)
  then show ?thesis using assms by (auto simp: grows_def node_step_def after_step_def)
qed

section \<open>Preservation of the first group\<close>

lemma after_step_simps [simp]:
  "cl_node (after_step i a s) j = (if j = i then a\<lparr>a_out := []\<rparr> else cl_node s j)"
  "cl_net (after_step i a s) = cl_net s + mset (a_out a)"
  "cl_votes (after_step i a s) = cl_votes s \<union> history_vote i a"
  "cl_leaders (after_step i a s) = cl_leaders s \<union> history_leader i a"
  "cl_logs (after_step i a s) =
     (if a_role a = LEADER then (cl_logs s)(a_term a := a_log a) else cl_logs s)"
  "cl_ballots (after_step i a s) = cl_ballots s \<union> history_ballot i a s"
  "cl_acks (after_step i a s) = cl_acks s \<union> history_ack i a"
  by (simp_all add: after_step_def)

lemma node_stepE:
  assumes "node_step n mo i a' s s'" and "cast_inv n s"
  obtains out where "i < n" and "taken mo \<subseteq># cl_net s" and "effect mo (cl_node s i) a' out"
    and "a_out a' = out" and "s' = after_step i a' (s\<lparr>cl_net := cl_net s - taken mo\<rparr>)"
    and "node_inv n s i"
  using assms by (auto simp: node_step_def effects_def cast_inv_def node_inv_def Let_def)

lemma cast_net: "cast_inv n s \<Longrightarrow> m \<in># cl_net s \<Longrightarrow> msg_ok n s m"
  by (simp add: cast_inv_def)

lemma cast_vote: "cast_inv n s \<Longrightarrow> (t, v, x) \<in> cl_votes s \<Longrightarrow> vote_ok n s t v x"
  by (simp add: cast_inv_def)

lemma mset_subset_taken: "taken (Some m) \<subseteq># M \<longleftrightarrow> m \<in># M"
  by (simp add: taken_def)

lemma node_step_node_inv:
  assumes "node_step n mo i a' s s'" and "cast_inv n s" and "n \<le> PF_NO_VOTE_V" and "j < n"
  shows "node_inv n s' j"
proof (cases "j = i")
  case False
  have "node_inv n s j" using assms by (simp add: cast_inv_def)
  then show ?thesis
    using False node_step_grows [OF assms(1)] assms(1)
    by (auto simp: node_inv_def Let_def node_step_def grows_def)
next
  case True
  obtain out where e: "effect mo (cl_node s i) a' out"
    "s' = after_step i a' (s\<lparr>cl_net := cl_net s - taken mo\<rparr>)" "node_inv n s i"
    using assms(1,2) by (rule node_stepE)
  have "a_id a' = i" "a_num a' = n"
    using effect_shape [OF e(1)] e(3) by (simp_all add: node_inv_def Let_def)
  moreover have "a_role a' = CANDIDATE \<Longrightarrow> 0 \<le> int_of_u32 (a_term a') \<Longrightarrow> a_vote a' = i"
    using e(1)
  proof (cases rule: effect.cases)
    case (grant m r)
    have "m \<in># cl_net s" using assms(1) grant(1) by (simp add: node_step_def mset_subset_taken)
    then have m: "msg_ok n s m" using assms(2) by (simp add: cast_net)
    assume a: "a_role a' = CANDIDATE" "0 \<le> int_of_u32 (a_term a')"
    then have "a_vote (cl_node s i) = i" "i < n"
      using grant e(3) assms(1) by (auto simp: node_inv_def Let_def node_step_def)
    then have "rv_candidate_id r = i"
      using grant a assms(3) by auto
    then show ?thesis using grant by simp
  qed (use e(3) in \<open>auto simp: keeps_def node_inv_def Let_def\<close>)
  ultimately show ?thesis
    using True e(2) by (simp add: node_inv_def Let_def history_vote_def history_leader_def)
qed

lemma quiet_msg_ok:
  assumes "quiet_msg a m" and "a_id a = i" and "i < n"
  shows "msg_ok n (after_step i a s) m"
  using assms
  by (auto simp: quiet_msg_def msg_ok_def history_leader_def split: rpc_msg.splits)

lemma peers_member: "j \<in> set (a_peers a) \<Longrightarrow> j \<noteq> a_id a \<and> j < a_num a"
  by (auto simp: a_peers_def word_less_nat_alt unat_of_nat take_bit_nat_eq_self_iff
      intro: le_less_trans [OF take_bit_nat_less_eq_self])

lemma node_step_msg_ok:
  assumes "node_step n mo i a' s s'" and inv: "cast_inv n s" and "n \<le> PF_NO_VOTE_V"
    and "m \<in># cl_net s'"
  shows "msg_ok n s' m"
proof -
  obtain out where i: "i < n" and t: "taken mo \<subseteq># cl_net s" and e: "effect mo (cl_node s i) a' out"
    and out: "a_out a' = out" and s': "s' = after_step i a' (s\<lparr>cl_net := cl_net s - taken mo\<rparr>)"
    and ni: "node_inv n s i"
    using assms(1,2) by (rule node_stepE)
  have id: "a_id a' = i" using effect_shape [OF e] ni by (simp add: node_inv_def Let_def)
  have silent: "msg_ok n s' m" if "quiet_out a' out" "m \<in> set out"
    using that id i unfolding s' by (intro quiet_msg_ok) (auto simp: quiet_out_def list_all_iff)
  consider "m \<in># cl_net s" | "m \<in> set out"
    using assms(4) out by (auto simp: s' dest: in_diffD)
  then show ?thesis
  proof cases
    case 1
    then show ?thesis
      using msg_ok_grows [OF node_step_grows [OF assms(1)]] cast_net [OF inv] by blast
  next
    case 2
    from e show ?thesis
    proof (cases rule: effect.cases)
      case quiet
      then show ?thesis
        using 2 quiet_out_cong [of a' "cl_node s i" out] by (auto simp: keeps_def same_shape_def intro!: silent)
    next
      case (grant m' r)
      have "m' \<in># cl_net s" using t grant(1) by (simp add: mset_subset_taken)
      then have "msg_ok n s m'" by (rule cast_net [OF inv])
      then have c: "rv_candidate_id r < n" "rv_candidate_id r \<noteq> i"
        using grant ni by (auto simp: msg_ok_def node_inv_def Let_def)
      have m: "m = \<lparr>m_dst = rv_candidate_id r, m_src = i,
          m_body = VoteRes \<lparr>rvr_term = rv_term r, rvr_vote_granted = 1\<rparr>\<rparr>"
        using 2 grant ni by (simp add: node_inv_def Let_def)
      have "rv_candidate_id r \<noteq> PF_NO_VOTE_V" using c(1) assms(3) by auto
      then have "(rv_term r, i, rv_candidate_id r) \<in> cl_votes s'"
        using grant by (simp add: s' history_vote_def)
      then show ?thesis using i c by (simp add: m msg_ok_def)
    next
      case campaign
      have "i \<noteq> PF_NO_VOTE_V" using i assms(3) by auto
      then have v: "(a_term a', i, i) \<in> cl_votes s'"
        using campaign ni by (simp add: s' history_vote_def node_inv_def Let_def)
      show ?thesis
        using 2 campaign ni i id v
        by (auto simp: msg_ok_def s' node_inv_def Let_def a_vote_request_def dest!: peers_member)
    qed (use 2 silent in auto)
  qed
qed

lemma node_step_vote_ok:
  assumes "node_step n mo i a' s s'" and inv: "cast_inv n s" and "n \<le> PF_NO_VOTE_V"
    and "(t, v, x) \<in> cl_votes s'"
  shows "vote_ok n s' t v x"
proof -
  obtain out where i: "i < n" and tk: "taken mo \<subseteq># cl_net s" and e: "effect mo (cl_node s i) a' out"
    and s': "s' = after_step i a' (s\<lparr>cl_net := cl_net s - taken mo\<rparr>)" and ni: "node_inv n s i"
    using assms(1,2) by (rule node_stepE)
  note grows = node_step_grows [OF assms(1)]
  show ?thesis
  proof (cases "(t, v, x) \<in> cl_votes s")
    case True
    then show ?thesis using vote_ok_grows [OF grows] cast_vote [OF inv] by blast
  next
    case False
    then have new: "t = a_term a'" "v = i" "x = a_vote a'" "a_vote a' \<noteq> PF_NO_VOTE_V"
      using assms(4) by (auto simp: s' history_vote_def split: if_splits)
    have same: "a_term a' = a_term (cl_node s i) \<Longrightarrow> a_vote a' = a_vote (cl_node s i) \<Longrightarrow> False"
      using False new ni by (simp add: node_inv_def Let_def)
    from e show ?thesis
    proof (cases rule: effect.cases)
      case (grant m r)
      have "m \<in># cl_net s" using tk grant(1) by (simp add: mset_subset_taken)
      then have "msg_ok n s m" by (rule cast_net [OF inv])
      then have c: "x < n" "x \<noteq> i" "t \<le> a_term (cl_node s x)" "(t, x, x) \<in> cl_votes s"
        using grant ni new by (auto simp: msg_ok_def node_inv_def Let_def)
      then show ?thesis using new i by (simp add: vote_ok_def s')
    next
      case campaign
      then have "x = i" using new ni by (simp add: node_inv_def Let_def)
      then show ?thesis using new i assms(4) by (simp add: vote_ok_def s' history_vote_def)
    qed (use new same in \<open>auto simp: keeps_def\<close>)
  qed
qed

lemma node_step_cast_inv:
  assumes "node_step n mo i a' s s'" and "cast_inv n s" and "n \<le> PF_NO_VOTE_V"
  shows "cast_inv n s'"
proof -
  have "l < n" if "(t, l) \<in> cl_leaders s'" for t l
    using that assms(1,2)
    by (auto simp: node_step_def cast_inv_def history_leader_def split: if_splits)
  then show ?thesis
    using node_step_node_inv [OF assms] node_step_msg_ok [OF assms] node_step_vote_ok [OF assms]
    by (simp add: cast_inv_def)
qed

section \<open>Steps of the network, and restarts\<close>

lemma quiet_history_vote:
  assumes "node_inv n s i" and "a_term a = a_term (cl_node s i)" and "a_vote a = a_vote (cl_node s i)"
  shows "history_vote i a \<subseteq> cl_votes s"
  using assms by (simp add: node_inv_def Let_def history_vote_def)

lemma boot_select [simp]:
  "a_id (a_boot i n es t v ns ms) = i" "a_num (a_boot i n es t v ns ms) = n"
  "a_term (a_boot i n es t v ns ms) = t" "a_vote (a_boot i n es t v ns ms) = v"
  "a_role (a_boot i n es t v ns ms) = FOLLOWER" "a_out (a_boot i n es t v ns ms) = []"
  by (simp_all add: a_boot_def)

text \<open>
  The steps that are not steps of a node keep the history, every term and every vote; they take
  a message away, add one of a client, or make a node a follower.
\<close>

definition calm :: "u32 \<Rightarrow> cluster \<Rightarrow> cluster \<Rightarrow> bool" where
  "calm n s s' \<longleftrightarrow> cl_votes s' = cl_votes s \<and> cl_leaders s' = cl_leaders s \<and>
     (\<forall>m. m \<in># cl_net s' \<longrightarrow> m \<in># cl_net s \<or> from_client m) \<and>
     filter_mset (\<lambda>m. \<not> from_client m) (cl_net s') \<subseteq># cl_net s \<and>
     (\<forall>i. i < n \<longrightarrow> a_term (cl_node s' i) = a_term (cl_node s i) \<and>
        a_vote (cl_node s' i) = a_vote (cl_node s i) \<and> a_id (cl_node s' i) = i \<and>
        a_num (cl_node s' i) = n \<and> a_out (cl_node s' i) = [] \<and>
        (a_role (cl_node s' i) = a_role (cl_node s i) \<and> a_votes (cl_node s' i) = a_votes (cl_node s i) \<or>
         a_role (cl_node s' i) = FOLLOWER))"

lemma cstep_node_or_calm:
  assumes "cstep n s s'" and "cast_inv n s"
  obtains (node) mo i a where "node_step n mo i a s s'" | (calm) "calm n s s'"
  using assms(1)
proof (cases rule: cstep_cases)
  case (lose m)
  have "filter_mset P (cl_net s - {#m#}) \<subseteq># cl_net s" for P
    by (rule subset_mset.order_trans [OF multiset_filter_subset diff_subset_eq_self])
  then have "calm n s s'"
    using lose assms(2)
    by (auto simp: calm_def cast_inv_def node_inv_def Let_def simp del: filter_diff_mset
        dest: in_diffD)
  then show ?thesis by (rule calm)
next
  case (client m)
  then show ?thesis
    using assms(2) calm by (auto simp: calm_def cast_inv_def node_inv_def Let_def)
next
  case (restart i ns ms)
  have ni: "node_inv n s j" if "j < n" for j using that assms(2) by (simp add: cast_inv_def)
  let ?a = "a_boot i n (a_log (cl_node s i)) (a_term (cl_node s i)) (a_vote (cl_node s i)) ns ms"
  have "cl_votes s' = cl_votes s" "cl_leaders s' = cl_leaders s" "cl_net s' = cl_net s"
    using quiet_history_vote [OF ni [OF restart(1)], of ?a] restart(4)
    by (auto simp: history_leader_def)
  moreover have "cl_node s' j = (if j = i then ?a\<lparr>a_out := []\<rparr> else cl_node s j)" for j
    using restart(4) by simp
  ultimately have "calm n s s'"
    using ni restart(1) by (auto simp: calm_def node_inv_def Let_def)
  then show ?thesis by (rule calm)
qed (use node in blast)

lemma calm_cast_inv:
  assumes "calm n s s'" and "cast_inv n s"
  shows "cast_inv n s'"
proof -
  have grows: "grows n s s'" using assms(1) by (simp add: calm_def grows_def)
  have "node_inv n s' i" if "i < n" for i
    using that assms by (auto simp: node_inv_def Let_def calm_def cast_inv_def)
  moreover have "msg_ok n s' m" if "m \<in># cl_net s'" for m
  proof (cases "from_client m")
    case True
    then show ?thesis by (auto simp: msg_ok_def from_client_def split: rpc_msg.splits)
  next
    case False
    then have "m \<in># cl_net s" using that assms(1) by (auto simp: calm_def)
    then show ?thesis using assms(2) msg_ok_grows [OF grows] by (simp add: cast_inv_def)
  qed
  moreover have "vote_ok n s' t v x" if "(t, v, x) \<in> cl_votes s'" for t v x
    using that assms vote_ok_grows [OF grows] by (simp add: calm_def cast_inv_def)
  ultimately show ?thesis
    using assms by (simp add: calm_def cast_inv_def)
qed

section \<open>A vote request is answered once\<close>

definition asks :: "u32 \<Rightarrow> u32 \<Rightarrow> u32 \<Rightarrow> amsg \<Rightarrow> bool" where
  "asks t c v m \<longleftrightarrow> m_dst m = v \<and>
     (case m_body m of VoteReq r \<Rightarrow> rv_term r = t \<and> rv_candidate_id r = c | _ \<Rightarrow> False)"

definition requests :: "u32 \<Rightarrow> u32 \<Rightarrow> u32 \<Rightarrow> amsg multiset \<Rightarrow> nat" where
  "requests t c v M = size (filter_mset (asks t c v) M)"

definition token_inv :: "cluster \<Rightarrow> bool" where
  "token_inv s \<longleftrightarrow> (\<forall>t c v. v \<noteq> c \<longrightarrow>
     requests t c v (cl_net s) + (if (t, v, c) \<in> cl_votes s then 1 else 0) \<le> 1)"

lemma requests_add [simp]: "requests t c v (M + N) = requests t c v M + requests t c v N"
  by (simp add: requests_def)

lemma requests_quiet: "quiet_out a out \<Longrightarrow> requests t c v (mset out) = 0"
  by (auto simp: requests_def quiet_out_def list_all_iff quiet_msg_def
      asks_def split: rpc_msg.splits)

lemma requests_mono: "M \<subseteq># N \<Longrightarrow> requests t c v M \<le> requests t c v N"
  by (simp add: requests_def size_mset_mono multiset_filter_mono)

lemma requests_taken:
  assumes "taken (Some m) \<subseteq># M"
  shows "requests t c v (M - taken (Some m)) + (if asks t c v m then 1 else 0) = requests t c v M"
proof -
  have "M = add_mset m (M - taken (Some m))"
    using assms by (simp add: taken_def)
  then have "requests t c v M = requests t c v (add_mset m (M - taken (Some m)))" by simp
  then show ?thesis by (simp add: requests_def)
qed

lemma distinct_peers: "distinct (a_peers a)"
proof -
  have "inj_on (of_nat :: nat \<Rightarrow> u32) {0..<unat (a_num a)}"
    by (rule inj_on_inverseI [where g = unat])
      (use unsigned_less [of "a_num a", where 'a = nat] in
        \<open>auto simp: unat_of_nat intro!: take_bit_nat_eq_self dest: less_trans\<close>)
  then show ?thesis by (simp add: a_peers_def distinct_map)
qed

lemma requests_campaign:
  "requests t c v (mset (map (\<lambda>i. \<lparr>m_dst = i, m_src = s, m_body = VoteReq r\<rparr>) ps)) \<le> 1"
  if "distinct ps"
  using that
proof (induction ps)
  case (Cons p ps)
  have "requests t c v (mset (map (\<lambda>i. \<lparr>m_dst = i, m_src = s, m_body = VoteReq r\<rparr>) ps)) = 0"
    if "p = v"
    using Cons.prems that by (auto simp: requests_def asks_def)
  then show ?case using Cons by (auto simp: requests_def asks_def)
qed (simp add: requests_def)

lemma requests_calm:
  assumes "calm n s s'"
  shows "requests t c v (cl_net s') \<le> requests t c v (cl_net s)"
proof -
  have "filter_mset (asks t c v) (cl_net s') =
      filter_mset (asks t c v) (filter_mset (\<lambda>m. \<not> from_client m) (cl_net s'))"
    by (auto simp: filter_filter_mset asks_def from_client_def intro!: filter_mset_cong
        split: rpc_msg.splits)
  then have "requests t c v (cl_net s') =
      requests t c v (filter_mset (\<lambda>m. \<not> from_client m) (cl_net s'))"
    by (simp add: requests_def)
  also have "\<dots> \<le> requests t c v (cl_net s)"
    using assms by (intro requests_mono) (simp add: calm_def)
  finally show ?thesis .
qed

text \<open>No one asks for votes, and no one votes, for a candidate in a term it has not reached.\<close>

lemma no_early_requests:
  assumes "cast_inv n s" and "c < n" and "a_term (cl_node s c) < t"
  shows "requests t c v (cl_net s) = 0" and "(t, v, c) \<notin> cl_votes s"
proof -
  have "\<not> asks t c v m" if "m \<in># cl_net s" for m
    using cast_net [OF assms(1) that] assms(3)
    by (auto simp: msg_ok_def asks_def split: rpc_msg.splits)
  then show "requests t c v (cl_net s) = 0" by (simp add: requests_def)
  show "(t, v, c) \<notin> cl_votes s"
    using cast_vote [OF assms(1), of t v c] assms(3) by (auto simp: vote_ok_def)
qed

lemma node_step_votes:
  assumes "node_step n mo i a' s s'" and "cast_inv n s" and "n \<le> PF_NO_VOTE_V"
    and "(t, v, x) \<in> cl_votes s'" and "(t, v, x) \<notin> cl_votes s"
  shows "v = i \<and> t = a_term a' \<and> x = a_vote a' \<and> x \<noteq> PF_NO_VOTE_V \<and>
    (a_term (cl_node s i) < t \<and> x = i \<or>
     (\<exists>m r. mo = Some m \<and> m_dst m = i \<and> m_body m = VoteReq r \<and> rv_term r = t \<and>
        rv_candidate_id r = x))"
proof -
  obtain out where i: "i < n" and tk: "taken mo \<subseteq># cl_net s" and e: "effect mo (cl_node s i) a' out"
    and s': "s' = after_step i a' (s\<lparr>cl_net := cl_net s - taken mo\<rparr>)" and ni: "node_inv n s i"
    using assms(1,2) by (rule node_stepE)
  have new: "t = a_term a'" "v = i" "x = a_vote a'" "a_vote a' \<noteq> PF_NO_VOTE_V"
    using assms(4,5) by (auto simp: s' history_vote_def split: if_splits)
  have same: "a_term a' = a_term (cl_node s i) \<Longrightarrow> a_vote a' = a_vote (cl_node s i) \<Longrightarrow> False"
    using assms(5) new ni by (simp add: node_inv_def Let_def)
  from e show ?thesis
  proof (cases rule: effect.cases)
    case campaign
    have "unat (a_term (cl_node s i)) < 2 ^ 31"
      using campaign(1) by (simp add: sint_nonneg_unat)
    then show ?thesis
      using campaign new ni
      by (auto simp: node_inv_def Let_def word_less_nat_alt unat_suc_below)
  qed (use new same ni in \<open>auto simp: keeps_def node_inv_def Let_def\<close>)
qed

lemma node_step_token_inv:
  assumes "node_step n mo i a' s s'" and inv: "cast_inv n s" and "n \<le> PF_NO_VOTE_V"
    and tok: "token_inv s"
  shows "token_inv s'"
proof -
  obtain out where i: "i < n" and tk: "taken mo \<subseteq># cl_net s" and e: "effect mo (cl_node s i) a' out"
    and out: "a_out a' = out" and s': "s' = after_step i a' (s\<lparr>cl_net := cl_net s - taken mo\<rparr>)"
    and ni: "node_inv n s i"
    using assms(1,2) by (rule node_stepE)
  have less: "requests t c v (cl_net s - taken mo) \<le> requests t c v (cl_net s)" for t c v
    by (rule requests_mono) simp
  have net: "requests t c v (cl_net s') = requests t c v (cl_net s - taken mo) +
      requests t c v (mset out)" for t c v
    by (simp add: s' out)
  have old: "requests t c v (cl_net s) + (if (t, v, c) \<in> cl_votes s then 1 else 0) \<le> 1"
    if "v \<noteq> c" for t c v
    using tok that by (simp add: token_inv_def)
  have mono: "(t, v, c) \<in> cl_votes s \<Longrightarrow> (t, v, c) \<in> cl_votes s'" for t v c by (simp add: s')
  show ?thesis
    unfolding token_inv_def
  proof (intro allI impI)
    fix t c v :: u32
    assume vc: "v \<noteq> c"
    consider (asked) "requests t c v (mset out) \<noteq> 0" | (voted) "requests t c v (mset out) = 0"
        "(t, v, c) \<in> cl_votes s'" "(t, v, c) \<notin> cl_votes s"
      | (none) "requests t c v (mset out) = 0" "(t, v, c) \<in> cl_votes s' \<longleftrightarrow> (t, v, c) \<in> cl_votes s"
      using mono by blast
    then show "requests t c v (cl_net s') + (if (t, v, c) \<in> cl_votes s' then 1 else 0) \<le> 1"
    proof cases
      case none
      then show ?thesis using old [OF vc, of t] less [of t c v] by (simp add: net)
    next
      case voted
      obtain m r where m: "mo = Some m" "m_dst m = v" "m_body m = VoteReq r" "rv_term r = t"
        "rv_candidate_id r = c"
        using node_step_votes [OF assms(1,2,3) voted(2,3)] vc by auto
      have "asks t c v m" using m by (simp add: asks_def)
      then have "requests t c v (cl_net s - taken mo) + 1 = requests t c v (cl_net s)"
        using requests_taken [of m "cl_net s" t c v] tk m(1) by simp
      then show ?thesis using old [OF vc, of t] voted by (simp add: net)
    next
      case asked
      from e show ?thesis
      proof (cases rule: effect.cases)
        case campaign
        have "c = i" "t = a_term a'"
        proof -
          have "\<exists>p. asks t c v \<lparr>m_dst = p, m_src = a_id (cl_node s i),
              m_body = VoteReq (a_vote_request a')\<rparr>"
            using asked campaign by (auto simp: requests_def)
          then show "c = i" "t = a_term a'"
            using campaign ni by (auto simp: asks_def a_vote_request_def same_shape_def node_inv_def Let_def)
        qed
        have "a_term (cl_node s i) < t"
          using campaign \<open>t = a_term a'\<close>
          by (simp add: word_less_nat_alt unat_suc_below sint_nonneg_unat)
        note early = no_early_requests [OF inv i this, of v]
        have "(t, v, i) \<notin> cl_votes s'"
          using early(2) vc \<open>c = i\<close> by (auto simp: s' history_vote_def)
        moreover have "requests t c v (mset out) \<le> 1"
          using campaign requests_campaign [OF distinct_peers] by simp
        ultimately show ?thesis
          using early(1) less [of t c v] \<open>c = i\<close> by (simp add: net)
      qed (use asked requests_quiet quiet_out_cong [of a' "cl_node s i" out] in
          \<open>auto simp: keeps_def same_shape_def requests_def asks_def\<close>)
    qed
  qed
qed

lemma calm_token_inv:
  assumes "calm n s s'" and "token_inv s"
  shows "token_inv s'"
  unfolding token_inv_def
proof (intro allI impI)
  fix t c v :: u32
  assume "v \<noteq> c"
  then have "requests t c v (cl_net s) + (if (t, v, c) \<in> cl_votes s then 1 else 0) \<le> 1"
    using assms(2) by (simp add: token_inv_def)
  moreover have "cl_votes s' = cl_votes s" using assms(1) by (simp add: calm_def)
  ultimately show "requests t c v (cl_net s') + (if (t, v, c) \<in> cl_votes s' then 1 else 0) \<le> 1"
    using requests_calm [OF assms(1), of t c v] by simp
qed

section \<open>A candidate counts the votes cast for it\<close>

definition grants :: "u32 \<Rightarrow> u32 \<Rightarrow> amsg \<Rightarrow> bool" where
  "grants t c m \<longleftrightarrow> m_dst m = c \<and>
     (case m_body m of VoteRes r \<Rightarrow> rvr_term r = t \<and> rvr_vote_granted r \<noteq> 0 | _ \<Rightarrow> False)"

definition granted :: "u32 \<Rightarrow> u32 \<Rightarrow> amsg multiset \<Rightarrow> nat" where
  "granted t c M = size (filter_mset (grants t c) M)"

definition supporters :: "u32 \<Rightarrow> u32 \<Rightarrow> cluster \<Rightarrow> u32 set" where
  "supporters t c s = {v. v \<noteq> c \<and> (t, v, c) \<in> cl_votes s}"

definition count_inv :: "u32 \<Rightarrow> cluster \<Rightarrow> bool" where
  "count_inv n s \<longleftrightarrow>
     (\<forall>t c. granted t c (cl_net s) \<le> card (supporters t c s)) \<and>
     (\<forall>i. i < n \<longrightarrow> a_role (cl_node s i) = CANDIDATE \<longrightarrow>
        unat (a_votes (cl_node s i)) + granted (a_term (cl_node s i)) i (cl_net s)
          \<le> 1 + card (supporters (a_term (cl_node s i)) i s))"

lemma granted_add [simp]: "granted t c (M + N) = granted t c M + granted t c N"
  by (simp add: granted_def)

lemma granted_mono: "M \<subseteq># N \<Longrightarrow> granted t c M \<le> granted t c N"
  by (simp add: granted_def size_mset_mono multiset_filter_mono)

lemma granted_quiet: "quiet_out a out \<Longrightarrow> granted t c (mset out) = 0"
  by (auto simp: granted_def quiet_out_def list_all_iff quiet_msg_def grants_def
      split: rpc_msg.splits)

lemma granted_taken:
  assumes "taken (Some m) \<subseteq># M" and "grants t c m"
  shows "granted t c (M - taken (Some m)) + 1 = granted t c M"
proof -
  have "M = add_mset m (M - taken (Some m))" using assms by (simp add: taken_def)
  then have "granted t c M = granted t c (add_mset m (M - taken (Some m)))" by simp
  then show ?thesis using assms(2) by (simp add: granted_def)
qed

lemma finite_supporters: "finite (supporters t c s)"
  by (rule finite_subset [OF subset_UNIV]) simp

lemma supporters_mono:
  "cl_votes s \<subseteq> cl_votes s' \<Longrightarrow> card (supporters t c s) \<le> card (supporters t c s')"
  by (rule card_mono [OF finite_supporters]) (auto simp: supporters_def)

lemma granted_calm:
  assumes "calm n s s'"
  shows "granted t c (cl_net s') \<le> granted t c (cl_net s)"
proof -
  have "filter_mset (grants t c) (cl_net s') =
      filter_mset (grants t c) (filter_mset (\<lambda>m. \<not> from_client m) (cl_net s'))"
    by (auto simp: filter_filter_mset grants_def from_client_def intro!: filter_mset_cong
        split: rpc_msg.splits)
  then have "granted t c (cl_net s') = granted t c (filter_mset (\<lambda>m. \<not> from_client m) (cl_net s'))"
    by (simp add: granted_def)
  also have "\<dots> \<le> granted t c (cl_net s)"
    using assms by (intro granted_mono) (simp add: calm_def)
  finally show ?thesis .
qed

lemma calm_count_inv:
  assumes "calm n s s'" and "count_inv n s"
  shows "count_inv n s'"
proof -
  have g: "granted t c (cl_net s') \<le> granted t c (cl_net s)" for t c
    by (rule granted_calm [OF assms(1)])
  have v: "supporters t c s' = supporters t c s" for t c
    using assms(1) by (simp add: calm_def supporters_def)
  have "granted t c (cl_net s') \<le> card (supporters t c s')" for t c
    using assms(2) order_trans [OF g] by (simp add: v count_inv_def)
  moreover have "unat (a_votes (cl_node s' i)) + granted (a_term (cl_node s' i)) i (cl_net s')
      \<le> 1 + card (supporters (a_term (cl_node s' i)) i s')"
    if "i < n" "a_role (cl_node s' i) = CANDIDATE" for i
  proof -
    have same: "a_term (cl_node s' i) = a_term (cl_node s i)" "a_votes (cl_node s' i) = a_votes (cl_node s i)"
      "a_role (cl_node s i) = CANDIDATE"
      using assms(1) that by (auto simp: calm_def)
    have "unat (a_votes (cl_node s i)) + granted (a_term (cl_node s i)) i (cl_net s)
        \<le> 1 + card (supporters (a_term (cl_node s i)) i s)"
      using assms(2) that(1) same(3) by (simp add: count_inv_def)
    then show ?thesis
      using g [of "a_term (cl_node s i)" i] unfolding same v by linarith
  qed
  ultimately show ?thesis by (simp add: count_inv_def)
qed

text \<open>A vote that is granted is a new supporter: the request had not been answered before.\<close>

lemma granted_out:
  assumes "node_step n mo i a' s s'" and "cast_inv n s" and "n \<le> PF_NO_VOTE_V" and "token_inv s"
    and "a_out a' = out"
  shows "granted t c (mset out) + card (supporters t c s) \<le> card (supporters t c s')"
proof -
  have i: "i < n" and tk: "taken mo \<subseteq># cl_net s" and e: "effect mo (cl_node s i) a' out"
    and s': "s' = after_step i a' (s\<lparr>cl_net := cl_net s - taken mo\<rparr>)" and ni: "node_inv n s i"
    using node_stepE [OF assms(1,2)] assms(5) by metis+
  have mono: "card (supporters t c s) \<le> card (supporters t c s')"
    by (rule supporters_mono) (simp add: s')
  show ?thesis
  proof (cases "granted t c (mset out) = 0")
    case False
    from e show ?thesis
    proof (cases rule: effect.cases)
      case (grant m r)
      have m: "m \<in># cl_net s" using tk grant(1) by (simp add: mset_subset_taken)
      have tc: "t = rv_term r" "c = rv_candidate_id r"
        using False grant by (auto simp: granted_def grants_def split: if_splits)
      have c: "c < n" "c \<noteq> i"
        using cast_net [OF assms(2) m] grant ni tc by (auto simp: msg_ok_def node_inv_def Let_def)
      have "asks t c i m" using grant tc ni by (simp add: asks_def node_inv_def Let_def)
      then have "requests t c i (cl_net s) \<noteq> 0"
        using m by (auto simp: requests_def)
      moreover have "requests t c i (cl_net s) + (if (t, i, c) \<in> cl_votes s then 1 else 0) \<le> 1"
        using assms(4) c(2) by (auto simp: token_inv_def)
      ultimately have "(t, i, c) \<notin> cl_votes s" by (auto split: if_splits)
      then have new: "i \<notin> supporters t c s" by (simp add: supporters_def)
      have "c \<noteq> PF_NO_VOTE_V" using c(1) assms(3) by auto
      then have "supporters t c s' = insert i (supporters t c s)"
        using grant tc c(2) by (auto simp: supporters_def s' history_vote_def)
      then have "card (supporters t c s') = Suc (card (supporters t c s))"
        using new finite_supporters by simp
      moreover have "granted t c (mset out) \<le> 1" using grant by (simp add: granted_def)
      ultimately show ?thesis by simp
    qed (use False granted_quiet quiet_out_cong [of a' "cl_node s i" out] in
        \<open>auto simp: keeps_def same_shape_def granted_def grants_def\<close>)
  qed (use mono in simp)
qed

lemma no_early_supporters:
  assumes "cast_inv n s" and "c < n" and "a_term (cl_node s c) < t"
  shows "supporters t c s = {}"
  using no_early_requests(2) [OF assms] by (auto simp: supporters_def)

lemma node_step_count_inv:
  assumes "node_step n mo i a' s s'" and inv: "cast_inv n s" and "n \<le> PF_NO_VOTE_V"
    and "token_inv s" and cnt: "count_inv n s"
  shows "count_inv n s'"
proof -
  obtain out where i: "i < n" and tk: "taken mo \<subseteq># cl_net s" and e: "effect mo (cl_node s i) a' out"
    and out: "a_out a' = out" and s': "s' = after_step i a' (s\<lparr>cl_net := cl_net s - taken mo\<rparr>)"
    and ni: "node_inv n s i"
    using assms(1,2) by (rule node_stepE)
  have less: "granted t c (cl_net s - taken mo) \<le> granted t c (cl_net s)" for t c
    by (rule granted_mono) simp
  have net: "granted t c (cl_net s') = granted t c (cl_net s - taken mo) + granted t c (mset out)"
    for t c by (simp add: s' out)
  note go = granted_out [OF assms(1-4) out]
  have all: "granted t c (cl_net s) \<le> card (supporters t c s)" for t c
    using cnt by (simp add: count_inv_def)
  have gr: "granted t c (cl_net s') \<le> card (supporters t c s')" for t c
    using go [of t c] all [of t c] less [of t c] unfolding net by linarith
  moreover have "unat (a_votes (cl_node s' j)) + granted (a_term (cl_node s' j)) j (cl_net s')
      \<le> 1 + card (supporters (a_term (cl_node s' j)) j s')"
    if j: "j < n" "a_role (cl_node s' j) = CANDIDATE" for j
  proof (cases "j = i")
    case False
    then have "cl_node s' j = cl_node s j" by (simp add: s')
    then have "unat (a_votes (cl_node s' j)) + granted (a_term (cl_node s' j)) j (cl_net s)
        \<le> 1 + card (supporters (a_term (cl_node s' j)) j s)"
      using cnt j by (simp add: count_inv_def)
    then show ?thesis
      using go [of "a_term (cl_node s' j)" j] less [of "a_term (cl_node s' j)" j]
      unfolding net by linarith
  next
    case True
    let ?t = "a_term (cl_node s i)"
    have node: "cl_node s' j = a'\<lparr>a_out := []\<rparr>" using True by (simp add: s')
    have role: "a_role a' = CANDIDATE" using j(2) node by simp
    have old: "unat (a_votes (cl_node s i)) + granted ?t i (cl_net s) \<le> 1 + card (supporters ?t i s)"
      if "a_role (cl_node s i) = CANDIDATE"
      using cnt i that by (simp add: count_inv_def)
    have same: ?thesis
      if "a_role (cl_node s i) = CANDIDATE" "a_term a' = ?t" "a_votes a' = a_votes (cl_node s i)"
      using old [OF that(1)] go [of ?t i] less [of ?t i] that(2,3) True unfolding net node by simp
    from e show ?thesis
    proof (cases rule: effect.cases)
      case campaign
      have "?t < a_term a'"
        using campaign by (simp add: word_less_nat_alt unat_suc_below sint_nonneg_unat)
      then have "granted (a_term a') i (cl_net s) = 0"
        using no_early_supporters [OF inv i, of "a_term a'"] all [of "a_term a'" i] by simp
      moreover have "granted (a_term a') i (mset out) = 0"
        using campaign by (auto simp: granted_def grants_def)
      ultimately show ?thesis
        using campaign less [of "a_term a'" i] True unfolding net node by simp
    next
      case stuck
      show ?thesis
      proof (cases "a_votes a' = 0")
        case True
        then show ?thesis using gr [of "a_term (cl_node s' j)" j] unfolding node by simp
      next
        case False
        then show ?thesis using same stuck by blast
      qed
    next
      case (count_vote m r)
      have "grants ?t i m" using count_vote ni by (simp add: grants_def node_inv_def Let_def)
      then have "granted ?t i (cl_net s - taken mo) + 1 = granted ?t i (cl_net s)"
        using granted_taken [of m "cl_net s" ?t i] tk count_vote(2) by simp
      moreover have "unat (a_votes a') \<le> unat (a_votes (cl_node s i)) + 1"
        using count_vote by (simp add: unat_word_ariths)
      ultimately show ?thesis
        using old [OF count_vote(7)] go [of ?t i] count_vote True unfolding net node by simp
    qed (use role same in \<open>auto simp: keeps_def\<close>)
  qed
  ultimately show ?thesis by (simp add: count_inv_def)
qed

section \<open>Majorities\<close>

definition pledged :: "cluster \<Rightarrow> u32 \<Rightarrow> u32 \<Rightarrow> u32 \<Rightarrow> bool" where
  "pledged s t l v \<longleftrightarrow> (t, v, l) \<in> cl_votes s \<and> (\<forall>x. (t, v, x) \<in> cl_votes s \<longrightarrow> x = l) \<and>
     (a_term (cl_node s v) = t \<longrightarrow> a_vote (cl_node s v) = l \<and>
       (a_role (cl_node s v) = CANDIDATE \<longrightarrow> int_of_u32 t < 0))"

definition unique_inv :: "u32 \<Rightarrow> cluster \<Rightarrow> bool" where
  "unique_inv n s \<longleftrightarrow>
     (\<forall>i x. i < n \<longrightarrow> (a_term (cl_node s i), i, x) \<in> cl_votes s \<longrightarrow>
        x = a_vote (cl_node s i) \<or> led s (a_term (cl_node s i))) \<and>
     (\<forall>t v x y. (t, v, x) \<in> cl_votes s \<longrightarrow> (t, v, y) \<in> cl_votes s \<longrightarrow> x = y \<or> led s t) \<and>
     (\<forall>t l. (t, l) \<in> cl_leaders s \<longrightarrow>
        (\<exists>Q. unat n < 2 * card Q \<and> Q \<subseteq> {v. v < n} \<and> (\<forall>v. v \<in> Q \<longrightarrow> pledged s t l v)))"

lemma card_members: "card {v :: u32. v < n} = unat n"
proof -
  have "k \<in> unat ` {v :: u32. v < n}" if "k < unat n" for k
    using that unsigned_less [of n, where 'a = nat]
    by (intro image_eqI [of _ _ "of_nat k"])
      (simp_all add: word_less_nat_alt unat_of_nat take_bit_nat_eq_self)
  then have "unat ` {v :: u32. v < n} = {0..<unat n}"
    by (auto simp: word_less_nat_alt)
  moreover have "inj_on unat {v :: u32. v < n}"
    by (rule inj_onI) (simp add: word_unat_eq_iff)
  ultimately show ?thesis using card_image by fastforce
qed

lemma majorities_meet:
  assumes "Q \<subseteq> {v :: u32. v < n}" and "R \<subseteq> {v. v < n}"
    and "unat n < 2 * card Q" and "unat n < 2 * card R"
  shows "Q \<inter> R \<noteq> {}"
proof
  assume empty: "Q \<inter> R = {}"
  have fin: "finite {v :: u32. v < n}" by (rule finite_subset [OF subset_UNIV]) simp
  then have "card (Q \<union> R) = card Q + card R"
    using assms(1,2) empty by (intro card_Un_disjoint) (auto intro: finite_subset)
  moreover have "card (Q \<union> R) \<le> unat n"
    using card_mono [OF fin, of "Q \<union> R"] assms(1,2) card_members [of n] by simp
  ultimately show False using assms(3,4) by simp
qed

lemma one_leader:
  assumes "unique_inv n s" and "(t, l) \<in> cl_leaders s" and "(t, l') \<in> cl_leaders s"
  shows "l = l'"
proof -
  obtain Q R where "unat n < 2 * card Q" "Q \<subseteq> {v. v < n}" "\<forall>v. v \<in> Q \<longrightarrow> pledged s t l v"
    "unat n < 2 * card R" "R \<subseteq> {v. v < n}" "\<forall>v. v \<in> R \<longrightarrow> pledged s t l' v"
    using assms unfolding unique_inv_def by meson
  then obtain v where "pledged s t l v" "pledged s t l' v"
    using majorities_meet [of Q n R] by blast
  then show ?thesis by (auto simp: pledged_def)
qed

section \<open>Preservation of the last group\<close>

lemma vote_term: "cast_inv n s \<Longrightarrow> (t, v, x) \<in> cl_votes s \<Longrightarrow> t \<le> a_term (cl_node s v)"
  using cast_vote [of n s t v x] by (simp add: vote_ok_def)

text \<open>A node that voted for the leader keeps its vote.\<close>

lemma node_step_pledged:
  assumes "node_step n mo i a' s s'" and inv: "cast_inv n s" and "n \<le> PF_NO_VOTE_V"
    and p: "pledged s t l v"
  shows "pledged s' t l v"
proof -
  obtain out where i: "i < n" and tk: "taken mo \<subseteq># cl_net s" and e: "effect mo (cl_node s i) a' out"
    and s': "s' = after_step i a' (s\<lparr>cl_net := cl_net s - taken mo\<rparr>)" and ni: "node_inv n s i"
    using assms(1,2) by (rule node_stepE)
  have vote: "(t, v, l) \<in> cl_votes s" and only: "(t, v, x) \<in> cl_votes s \<Longrightarrow> x = l" for x
    using p by (auto simp: pledged_def)
  have l: "l < n" using cast_vote [OF inv vote] by (simp add: vote_ok_def)
  show ?thesis
  proof (cases "v = i")
    case False
    then show ?thesis using p by (auto simp: pledged_def s' history_vote_def)
  next
    case True
    let ?T = "a_term (cl_node s i)"
    have le: "t \<le> ?T" using vote_term [OF inv vote] True by simp
    have eq: "a_vote (cl_node s i) = l" "a_role (cl_node s i) = CANDIDATE \<Longrightarrow> int_of_u32 t < 0"
      if "?T = t" using p that True by (simp_all add: pledged_def)
    have now: "a_vote a' = l \<and> (a_role a' = CANDIDATE \<longrightarrow> int_of_u32 t < 0)" if "a_term a' = t"
      using e
    proof (cases rule: effect.cases)
      case (grant m r)
      then have "?T = t" using that le by auto
      then have "a_vote (cl_node s i) = l" "l \<noteq> PF_NO_VOTE_V" using eq(1) l assms(3) by auto
      then show ?thesis using grant that le \<open>?T = t\<close> eq(2) by auto
    next
      case campaign
      then show ?thesis using that le effect_term [OF e]
        by (auto simp: word_less_nat_alt word_le_nat_alt unat_suc_below sint_nonneg_unat)
    qed (use that le eq in \<open>auto simp: keeps_def\<close>)
    have "x = l" if "(t, v, x) \<in> cl_votes s'" for x
      using that only now True by (auto simp: s' history_vote_def split: if_splits)
    then show ?thesis using vote now True by (auto simp: pledged_def s')
  qed
qed

text \<open>What a node did not vote for in its term, it forgot because there was a leader.\<close>

lemma node_step_forgot:
  assumes "node_step n mo i a' s s'" and inv: "cast_inv n s" and "n \<le> PF_NO_VOTE_V"
    and old: "\<And>x. (a_term (cl_node s i), i, x) \<in> cl_votes s \<Longrightarrow>
      x = a_vote (cl_node s i) \<or> led s (a_term (cl_node s i))"
    and "(a_term a', i, x) \<in> cl_votes s'"
  shows "x = a_vote a' \<or> led s' (a_term a')"
proof -
  obtain out where i: "i < n" and tk: "taken mo \<subseteq># cl_net s" and e: "effect mo (cl_node s i) a' out"
    and s': "s' = after_step i a' (s\<lparr>cl_net := cl_net s - taken mo\<rparr>)" and ni: "node_inv n s i"
    using assms(1,2) by (rule node_stepE)
  let ?T = "a_term (cl_node s i)"
  have led: "led s t \<Longrightarrow> led s' t" for t by (auto simp: led_def s')
  show ?thesis
  proof (cases "(a_term a', i, x) \<in> cl_votes s")
    case False
    then show ?thesis using assms(5) by (auto simp: s' history_vote_def split: if_splits)
  next
    case True
    have le: "a_term a' \<le> ?T" using vote_term [OF inv True] .
    then have T: "a_term a' = ?T" using effect_term [OF e] by simp
    then have x: "x = a_vote (cl_node s i) \<or> led s' (a_term a')" using old True led by auto
    have xn: "x \<noteq> PF_NO_VOTE_V"
      using cast_vote [OF inv True] assms(3) by (auto simp: vote_ok_def)
    from e show ?thesis
    proof (cases rule: effect.cases)
      case step_down
      then obtain m r where m: "mo = Some m" "m_body m = AppendReq r" "ae_term r = ?T"
        using T by auto
      then have "msg_ok n s m" using tk by (intro cast_net [OF inv]) (simp add: mset_subset_taken)
      then have "(?T, m_src m) \<in> cl_leaders s" using m by (simp add: msg_ok_def)
      then show ?thesis using led [of ?T] T by (auto simp: led_def)
    next
      case campaign
      then show ?thesis
        using T by simp
    qed (use x xn T in \<open>auto simp: keeps_def\<close>)
  qed
qed

text \<open>A new leader has the votes of a majority.\<close>

lemma node_step_leader:
  assumes "node_step n mo i a' s s'" and inv: "cast_inv n s" and cnt: "count_inv n s"
    and "(t, l) \<in> cl_leaders s'" and "(t, l) \<notin> cl_leaders s"
  shows "l = i \<and> t = a_term (cl_node s i) \<and> t = a_term a' \<and> a_role a' = LEADER \<and>
    a_vote a' = a_vote (cl_node s i) \<and> cl_votes s' = cl_votes s \<and> a_role (cl_node s i) = CANDIDATE \<and>
    unat n < 2 * card {v. (t, v, i) \<in> cl_votes s}"
proof -
  obtain out where i: "i < n" and tk: "taken mo \<subseteq># cl_net s" and e: "effect mo (cl_node s i) a' out"
    and s': "s' = after_step i a' (s\<lparr>cl_net := cl_net s - taken mo\<rparr>)" and ni: "node_inv n s i"
    using assms(1,2) by (rule node_stepE)
  have new: "l = i" "t = a_term a'" "a_role a' = LEADER"
    using assms(4,5) by (auto simp: s' history_leader_def split: if_splits)
  have old: "\<not> (a_role (cl_node s i) = LEADER \<and> a_term (cl_node s i) = t)"
    using assms(5) new ni by (auto simp: node_inv_def Let_def)
  from e show ?thesis
  proof (cases rule: effect.cases)
    case (win m r)
    have m: "m \<in># cl_net s" using tk win(1) by (simp add: mset_subset_taken)
    have id: "a_id (cl_node s i) = i" "a_num (cl_node s i) = n" using ni by (simp_all add: node_inv_def Let_def)
    then have dst: "m_dst m = i" using win by simp
    let ?S = "supporters t i s"
    have t: "t = a_term (cl_node s i)" using win new by simp
    have "(t, m_src m, i) \<in> cl_votes s"
      using cast_net [OF inv m] win t dst by (auto simp: msg_ok_def)
    then have self: "(t, i, i) \<in> cl_votes s"
      using cast_vote [OF inv] by (auto simp: vote_ok_def)
    then have voters: "{v. (t, v, i) \<in> cl_votes s} = insert i ?S"
      by (auto simp: supporters_def)
    have card: "card {v. (t, v, i) \<in> cl_votes s} = Suc (card ?S)"
      unfolding voters using finite_supporters by (simp add: supporters_def)
    have "grants t i m" using win t dst by (simp add: grants_def)
    then have "granted t i (cl_net s) \<noteq> 0" using m by (auto simp: granted_def)
    moreover have "unat (a_votes (cl_node s i)) + granted t i (cl_net s) \<le> 1 + card ?S"
      using cnt i win t by (simp add: count_inv_def)
    moreover have "unat n div 2 < unat (a_votes (cl_node s i) + 1)"
      using win id by (simp add: word_less_nat_alt unat_div)
    moreover have "unat (a_votes (cl_node s i) + 1) \<le> unat (a_votes (cl_node s i)) + 1"
      by (simp add: unat_word_ariths)
    ultimately have "unat n div 2 < Suc (card ?S)" by linarith
    then have "unat n < 2 * card {v. (t, v, i) \<in> cl_votes s}"
      unfolding card by (simp add: div_less_iff_less_mult)
    moreover have "cl_votes s' = cl_votes s"
      using quiet_history_vote [OF ni, of a'] win by (auto simp: s')
    ultimately show ?thesis using win new t by simp
  qed (use new old in \<open>auto simp: keeps_def\<close>)
qed

lemma node_step_unique_inv:
  assumes step: "node_step n mo i a' s s'" and inv: "cast_inv n s" and n: "n \<le> PF_NO_VOTE_V"
    and cnt: "count_inv n s" and uni: "unique_inv n s"
  shows "unique_inv n s'"
proof -
  have s': "s' = after_step i a' (s\<lparr>cl_net := cl_net s - taken mo\<rparr>)"
    using step by (simp add: node_step_def)
  have led: "led s t \<Longrightarrow> led s' t" for t by (auto simp: led_def s')
  have inv': "cast_inv n s'" by (rule node_step_cast_inv [OF step inv n])
  have f: "x = a_vote (cl_node s j) \<or> led s (a_term (cl_node s j))"
    if "j < n" "(a_term (cl_node s j), j, x) \<in> cl_votes s" for j x
    using uni that by (simp add: unique_inv_def)
  have f': "x = a_vote (cl_node s' j) \<or> led s' (a_term (cl_node s' j))"
    if "j < n" "(a_term (cl_node s' j), j, x) \<in> cl_votes s'" for j x
  proof (cases "j = i")
    case True
    then show ?thesis
      using node_step_forgot [OF step inv n, of x] f [of i] that by (simp add: s')
  next
    case False
    then have "(a_term (cl_node s j), j, x) \<in> cl_votes s"
      using that(2) by (auto simp: s' history_vote_def split: if_splits)
    then show ?thesis using f [OF that(1)] led False by (auto simp: s')
  qed
  have two: "x = y \<or> led s' t" if "(t, v, x) \<in> cl_votes s'" "(t, v, y) \<in> cl_votes s'" for t v x y
  proof (cases "(t, v, x) \<in> cl_votes s \<and> (t, v, y) \<in> cl_votes s")
    case True
    then show ?thesis using uni led unfolding unique_inv_def by blast
  next
    case False
    then have "v = i" "t = a_term (cl_node s' i)"
      using that by (auto simp: s' history_vote_def split: if_splits)
    moreover have "i < n" using step by (simp add: node_step_def)
    ultimately show ?thesis using f' [of i x] f' [of i y] that by auto
  qed
  have led': "\<exists>Q. unat n < 2 * card Q \<and> Q \<subseteq> {v. v < n} \<and> (\<forall>v. v \<in> Q \<longrightarrow> pledged s' t l v)"
    if tl: "(t, l) \<in> cl_leaders s'" for t l
  proof (cases "(t, l) \<in> cl_leaders s")
    case True
    then obtain Q where "unat n < 2 * card Q" "Q \<subseteq> {v. v < n}" "\<forall>v. v \<in> Q \<longrightarrow> pledged s t l v"
      using uni unfolding unique_inv_def by blast
    then show ?thesis using node_step_pledged [OF step inv n] by blast
  next
    case False
    let ?Q = "{v. (t, v, i) \<in> cl_votes s}"
    note new = node_step_leader [OF step inv cnt tl False]
    have sub: "?Q \<subseteq> {v. v < n}" using cast_vote [OF inv] by (auto simp: vote_ok_def)
    have none: "\<not> led s t"
    proof
      assume "led s t"
      then obtain l' R where R: "(t, l') \<in> cl_leaders s" "unat n < 2 * card R" "R \<subseteq> {v. v < n}"
        "\<forall>v. v \<in> R \<longrightarrow> pledged s t l' v"
        using uni unfolding unique_inv_def led_def by blast
      then obtain v where "v \<in> ?Q" "pledged s t l' v"
        using majorities_meet [OF sub R(3)] new by blast
      then have "i = l'" by (auto simp: pledged_def)
      then show False using False R(1) new by simp
    qed
    have "pledged s' t i v" if v: "v \<in> ?Q" for v
    proof -
      have only: "x = i" if "(t, v, x) \<in> cl_votes s" for x
        using uni that v none unfolding unique_inv_def by blast
      have vn: "v < n" using sub v by auto
      have now: "a_vote (cl_node s v) = i" if "a_term (cl_node s v) = t"
        using f [OF vn, of i] v none that by auto
      have role: "int_of_u32 t < 0"
        if "a_term (cl_node s' v) = t" "a_role (cl_node s' v) = CANDIDATE"
      proof (rule ccontr)
        assume "\<not> int_of_u32 t < 0"
        moreover have "node_inv n s' v" using inv' vn by (simp add: cast_inv_def)
        ultimately have "a_vote (cl_node s' v) = v" using that by (simp add: node_inv_def Let_def)
        moreover have "v \<noteq> i" using that(2) new by (auto simp: s')
        ultimately show False using now that(1) by (simp add: s')
      qed
      have "a_vote (cl_node s' v) = i" if "a_term (cl_node s' v) = t"
        using now that new by (cases "v = i") (simp_all add: s')
      then show ?thesis using v new only role by (simp add: pledged_def)
    qed
    then show ?thesis using new sub by blast
  qed
  show ?thesis unfolding unique_inv_def using f' two led' by blast
qed

lemma calm_unique_inv:
  assumes "calm n s s'" and "cast_inv n s" and "unique_inv n s"
  shows "unique_inv n s'"
proof -
  have same: "cl_votes s' = cl_votes s" "cl_leaders s' = cl_leaders s"
    and node: "i < n \<Longrightarrow> a_term (cl_node s' i) = a_term (cl_node s i) \<and>
      a_vote (cl_node s' i) = a_vote (cl_node s i) \<and>
      (a_role (cl_node s' i) = CANDIDATE \<longrightarrow> a_role (cl_node s i) = CANDIDATE)" for i
    using assms(1) by (auto simp: calm_def)
  have led: "led s' t = led s t" for t by (simp add: led_def same)
  have "pledged s' t l v" if "pledged s t l v" for t l v
  proof -
    have "v < n"
      using that cast_vote [OF assms(2)] by (auto simp: pledged_def vote_ok_def)
    then show ?thesis using that node [of v] by (auto simp: pledged_def same)
  qed
  then show ?thesis
    using assms(3) node unfolding unique_inv_def same led by (metis (no_types, lifting))
qed

section \<open>Reachable states\<close>

inductive creach :: "u32 \<Rightarrow> cluster \<Rightarrow> bool" for n where
  start: "cstart n s \<Longrightarrow> creach n s"
| step: "creach n s \<Longrightarrow> cstep n s s' \<Longrightarrow> creach n s'"

definition election_inv :: "u32 \<Rightarrow> cluster \<Rightarrow> bool" where
  "election_inv n s \<longleftrightarrow> cast_inv n s \<and> token_inv s \<and> count_inv n s \<and> unique_inv n s"

lemma cstart_inv: "cstart n s \<Longrightarrow> election_inv n s"
  by (force simp: cstart_def election_inv_def cast_inv_def node_inv_def Let_def token_inv_def
      requests_def count_inv_def granted_def unique_inv_def)

lemma cstep_inv:
  assumes "cstep n s s'" and "election_inv n s" and n: "n \<le> PF_NO_VOTE_V"
  shows "election_inv n s'"
proof -
  have inv: "cast_inv n s" "token_inv s" "count_inv n s" "unique_inv n s"
    using assms(2) by (simp_all add: election_inv_def)
  from assms(1) inv(1) show ?thesis
  proof (cases rule: cstep_node_or_calm)
    case (node mo i a)
    show ?thesis
      using node_step_cast_inv [OF node inv(1) n] node_step_token_inv [OF node inv(1) n inv(2)]
        node_step_count_inv [OF node inv(1) n inv(2,3)]
        node_step_unique_inv [OF node inv(1) n inv(3,4)]
      by (simp add: election_inv_def)
  next
    case calm
    show ?thesis
      using calm_cast_inv [OF calm inv(1)] calm_token_inv [OF calm inv(2)]
        calm_count_inv [OF calm inv(3)] calm_unique_inv [OF calm inv(1,4)]
      by (simp add: election_inv_def)
  qed
qed

lemma creach_inv: "creach n s \<Longrightarrow> n \<le> PF_NO_VOTE_V \<Longrightarrow> election_inv n s"
  by (induction rule: creach.induct) (auto intro: cstart_inv cstep_inv)

lemma creach_leaders:
  assumes "creach n s" and "n \<le> PF_NO_VOTE_V"
    and "(t, l) \<in> cl_leaders s" and "(t, l') \<in> cl_leaders s"
  shows "l = l'"
  using creach_inv [OF assms(1,2)] one_leader assms(3,4) unfolding election_inv_def by blast

text \<open>Every AppendEntries request of a term comes from the one leader of that term.\<close>

lemma creach_append_source:
  assumes "creach n s" and "n \<le> PF_NO_VOTE_V" and "i < n"
    and "m \<in># cl_net s" and "m_body m = AppendReq r"
    and "a_role (cl_node s i) = LEADER" and "ae_term r = a_term (cl_node s i)"
  shows "m_src m = i"
proof -
  have inv: "cast_inv n s" using creach_inv [OF assms(1,2)] by (simp add: election_inv_def)
  have "(ae_term r, m_src m) \<in> cl_leaders s"
    using cast_net [OF inv assms(4)] assms(5) by (simp add: msg_ok_def)
  moreover have "node_inv n s i" using inv assms(3) by (simp add: cast_inv_def)
  then have "(ae_term r, i) \<in> cl_leaders s"
    using assms(6,7) by (simp add: node_inv_def Let_def)
  ultimately show ?thesis by (rule creach_leaders [OF assms(1,2)])
qed

lemma cstep_leaders_mono:
  assumes "(cstep n)\<^sup>*\<^sup>* s s'" and "creach n s" and "n \<le> PF_NO_VOTE_V"
  shows "creach n s' \<and> cl_leaders s \<subseteq> cl_leaders s'"
  using assms(1)
proof (induction rule: rtranclp_induct)
  case (step s1 s2)
  have inv: "cast_inv n s1"
    using creach_inv step.IH assms(3) by (auto simp: election_inv_def)
  have "cl_leaders s1 \<subseteq> cl_leaders s2"
    using step.hyps(2) inv
  proof (cases rule: cstep_node_or_calm)
    case (node mo i a)
    then show ?thesis using node_step_grows [OF node] by (simp add: grows_def)
  qed (simp add: calm_def)
  then show ?case using step creach.step by blast
qed (use assms in simp)

end
