(* ===== verification/Unix_Cluster.thy ===== *)
theory Unix_Cluster
  imports Node_Main Election
begin

text \<open>
  A cluster of the programs: nodes over files (\<open>Raft_Files\<close>), started as \<open>node.c\<close> starts them,
  with packets under way between them. A step is one iteration of the event loop of a running
  node, on a packet of the network, on a timeout or on an error of \<open>receive\<close>; the loss of a
  packet; a packet from a client; or the end of a process and its start on the files it left.
  \<open>sim\<close> relates it to the cluster of the specification, so that what \<open>Election\<close> proves holds for
  the programs.

  The network takes what a node sent when its handler is done. A log stays below its capacity
  of \<open>2 ^ 31 - 1\<close> entries, minus the entries of one request (\<open>has_room\<close>).
\<close>

record ucluster =
  u_node :: "u32 \<Rightarrow> unix_node"
  u_net :: "pkt_t multiset"

definition u_after :: "u32 \<Rightarrow> unix_node \<Rightarrow> ucluster \<Rightarrow> ucluster" where
  "u_after i nd s = \<lparr>u_node = (u_node s)(i := nd\<lparr>outbox := []\<rparr>),
     u_net = u_net s + mset (outbox nd)\<rparr>"

definition up :: "unix_node \<Rightarrow> bool" where
  "up nd \<longleftrightarrow> running nd \<noteq> 0 \<and> halted nd = None"

definition client_pkt :: "pkt_t \<Rightarrow> bool" where
  "client_pkt pkt \<longleftrightarrow> h_code (pkt_header pkt) = RPC_CALL_PROC \<or> h_code (pkt_header pkt) = RPC_SHUTDOWN"

definition node_cfg :: "u32 \<Rightarrow> u32 \<Rightarrow> raft_config_t \<Rightarrow> bool" where
  "node_cfg n i cfg \<longleftrightarrow> cfg_id cfg = i \<and> cfg_num_nodes cfg = n \<and> cfg_accrual_window_size cfg \<noteq> 0"

inductive ustep :: "u32 \<Rightarrow> ucluster \<Rightarrow> ucluster \<Rightarrow> bool" for n where
  receive: "\<lbrakk> i < n; up (u_node s i); has_room (unix_view (u_node s i)); pkt \<in># u_net s \<rbrakk> \<Longrightarrow>
    ustep n s (u_after i (raft_run_step (1, pkt) (u_node s i)) (s\<lparr>u_net := u_net s - {#pkt#}\<rparr>))"
| timeout: "\<lbrakk> i < n; up (u_node s i) \<rbrakk> \<Longrightarrow>
    ustep n s (u_after i (raft_run_step (0, pkt) (u_node s i)) s)"
| failure: "\<lbrakk> i < n; up (u_node s i) \<rbrakk> \<Longrightarrow>
    ustep n s (u_after i (raft_run_step (-1, pkt) (u_node s i)) s)"
| lose: "pkt \<in># u_net s \<Longrightarrow> ustep n s (s\<lparr>u_net := u_net s - {#pkt#}\<rparr>)"
| client: "client_pkt pkt \<Longrightarrow> ustep n s (s\<lparr>u_net := add_mset pkt (u_net s)\<rparr>)"
| restart: "\<lbrakk> i < n; node_cfg n i cfg; wf_os os; length ns = unat n; length ms = unat n;
    start_node cfg (disk (f_content (log_fd (log_context (node_log (u_node s i))))))
      (disk (f_content (meta_fd (log_context (node_log (u_node s i))))))
      (disk (f_content (pf_fd (pf_context (hard_state (u_node s i)))))) heap ns ms lines os =
      Some nd \<rbrakk> \<Longrightarrow> ustep n s (u_after i nd s)"

definition ustart :: "u32 \<Rightarrow> ucluster \<Rightarrow> bool" where
  "ustart n s \<longleftrightarrow> u_net s = {#} \<and>
     (\<forall>i. i < n \<longrightarrow> (\<exists>cfg heap ns ms lines os. node_cfg n i cfg \<and> wf_os os \<and>
        length ns = unat n \<and> length ms = unat n \<and>
        start_node cfg (disk []) (disk []) (disk []) heap ns ms lines os = Some (u_node s i)))"

section \<open>The simulation\<close>

definition sim :: "u32 \<Rightarrow> ucluster \<Rightarrow> cluster \<Rightarrow> bool" where
  "sim n s a \<longleftrightarrow> cl_net a = image_mset decode_pkt (u_net s) \<and>
     (\<forall>i. i < n \<longrightarrow> unix_ok (u_node s i) \<and> unix_view (u_node s i) = cl_node a i)"

lemma unix_view_out: "a_out (unix_view nd) = map decode_pkt (outbox nd)"
  by (simp add: unix_view_def view_def)

lemma sim_after:
  assumes "sim n s a" and "unix_ok nd" and "unix_view nd = x"
  shows "sim n (u_after i nd s) (after_step i x a)"
  using assms
  by (auto simp: sim_def u_after_def after_step_def unix_view_out)

lemma sim_take:
  assumes "sim n s a" and "pkt \<in># u_net s"
  shows "sim n (s\<lparr>u_net := u_net s - {#pkt#}\<rparr>) (a\<lparr>cl_net := cl_net a - {#decode_pkt pkt#}\<rparr>)"
    and "decode_pkt pkt \<in># cl_net a"
  using assms by (auto simp: sim_def image_mset_Diff)

lemma ustart_sim:
  assumes "ustart n s"
  obtains a where "sim n s a" and "cstart n a"
proof -
  have node: "unix_ok (u_node s i) \<and> (\<exists>ns ms. length ns = unat n \<and> length ms = unat n \<and>
      unix_view (u_node s i) = a_boot i n [] 0 PF_NO_VOTE_V ns ms)" if "i < n" for i
  proof -
    obtain cfg heap ns ms lines os where c: "node_cfg n i cfg" "wf_os os" "length ns = unat n"
      "length ms = unat n"
      "start_node cfg (disk []) (disk []) (disk []) heap ns ms lines os = Some (u_node s i)"
      using assms \<open>i < n\<close> unfolding ustart_def by blast
    then show ?thesis
      using start_node_fresh [of os cfg heap ns ms lines] by (auto simp: node_cfg_def)
  qed
  let ?a = "\<lparr>cl_node = \<lambda>i. unix_view (u_node s i), cl_net = {#}, cl_votes = {}, cl_leaders = {},
    cl_logs = \<lambda>_. [], cl_ballots = {}, cl_acks = {}\<rparr>"
  have "sim n s ?a" using assms node by (simp add: sim_def ustart_def)
  moreover have "cstart n ?a" using node by (simp add: cstart_def)
  ultimately show ?thesis by (rule that)
qed

lemma history_update [simp]:
  "history_ballot i (x\<lparr>a_halted := h\<rparr>) s = history_ballot i x s"
  "history_ballot i (x\<lparr>a_out := ms\<rparr>) s = history_ballot i x s"
  "history_ack i (x\<lparr>a_halted := h\<rparr>) = history_ack i x"
  "history_ack i (x\<lparr>a_out := []\<rparr>) \<subseteq> history_ack i x"
  by (auto simp: history_ballot_def history_ack_def)

lemma history_ballot_again:
  "history_ballot i x s \<union> history_ballot i x (after_step i x s) = history_ballot i x s"
  by (auto simp: history_ballot_def led_def after_step_def)

lemma after_halted:
  "after_step i (x\<lparr>a_halted := h\<rparr>) a =
     after_step i ((cl_node (after_step i x a) i)\<lparr>a_halted := h\<rparr>) (after_step i x a)"
proof (rule cluster.equality)
  show "cl_ballots (after_step i (x\<lparr>a_halted := h\<rparr>) a) = cl_ballots (after_step i
      ((cl_node (after_step i x a) i)\<lparr>a_halted := h\<rparr>) (after_step i x a))"
    using history_ballot_again [of i x a] by auto
  show "cl_acks (after_step i (x\<lparr>a_halted := h\<rparr>) a) = cl_acks (after_step i
      ((cl_node (after_step i x a) i)\<lparr>a_halted := h\<rparr>) (after_step i x a))"
    by (auto dest: subsetD [OF history_update(4)])
qed (auto simp: history_vote_def history_leader_def)

text \<open>A timeout: the step \<open>elect\<close>, an exit after it, or nothing.\<close>

lemma timeout_steps:
  assumes "i < n"
    and "x = a_elect (cl_node a i) \<or> x = (a_elect (cl_node a i))\<lparr>a_halted := h\<rparr>"
  shows "(cstep n)\<^sup>*\<^sup>* a (after_step i x a)"
proof -
  let ?b = "after_step i (a_elect (cl_node a i)) a"
  have 1: "cstep n a ?b" using assms(1) by (rule cstep.elect)
  moreover have "cstep n ?b (after_step i ((cl_node ?b i)\<lparr>a_halted := h\<rparr>) ?b)"
    using assms(1) by (rule cstep.exit)
  ultimately show ?thesis
    using assms(2) after_halted [where i = i and x = "a_elect (cl_node a i)" and h = h and a = a] by auto
qed

lemma sim_idle:
  assumes "sim n s a" and "i < n" and "unix_ok nd" and "unix_view nd = unix_view (u_node s i)"
    and "a_out (cl_node a i) = []"
  shows "sim n (u_after i nd s) a"
proof -
  have "map decode_pkt (outbox nd) = []"
    using assms unix_view_out [of nd] by (simp add: sim_def)
  then show ?thesis
    using assms by (auto simp: sim_def u_after_def)
qed

lemma sim_timeout:
  assumes "sim n s a" and "i < n" and "a_out (cl_node a i) = []" and "unix_ok nd"
    and "unix_view nd = a_elect (cl_node a i) \<or> unix_view nd = cl_node a i \<or>
      unix_view nd = (a_elect (cl_node a i))\<lparr>a_halted := h\<rparr>"
  shows "\<exists>a'. (cstep n)\<^sup>*\<^sup>* a a' \<and> sim n (u_after i nd s) a'"
proof (cases "unix_view nd = cl_node a i")
  case True
  then show ?thesis
    using sim_idle [OF assms(1,2,4)] assms(1,2,3) by (auto simp: sim_def)
next
  case False
  then show ?thesis
    using timeout_steps [OF assms(2), of "unix_view nd" a h] sim_after [OF assms(1,4) refl] assms(5)
    by blast
qed

lemma decode_client: "client_pkt pkt \<Longrightarrow> from_client (decode_pkt pkt)"
  by (auto simp: client_pkt_def from_client_def decode_pkt_def decode_body_def Let_def rpc_codes
      split: option.split)

lemma ustep_sim:
  assumes "ustep n s s'" and "sim n s a" and "\<And>i. i < n \<Longrightarrow> a_out (cl_node a i) = [] \<and>
    a_id (cl_node a i) = i \<and> a_num (cl_node a i) = n"
  shows "\<exists>a'. (cstep n)\<^sup>*\<^sup>* a a' \<and> sim n s' a'"
proof -
  have node: "unix_ok (u_node s i)" "unix_view (u_node s i) = cl_node a i" if "i < n" for i
    using assms(2) that by (simp_all add: sim_def)
  from assms(1) show ?thesis
  proof (cases rule: ustep.cases)
    case (receive i pkt)
    note u = unix_receive [OF node(1) [OF receive(2)] receive(4), of pkt, unfolded node(2) [OF receive(2)]]
    note t = sim_take [OF assms(2) receive(5)]
    have "cstep n a (after_step i (a_receive (decode_pkt pkt) (cl_node a i))
        (a\<lparr>cl_net := cl_net a - {#decode_pkt pkt#}\<rparr>))"
      using receive(4) t(2) node(2) [OF receive(2)] by (intro cstep.receive receive(2)) simp_all
    then show ?thesis
      using sim_after [OF t(1) u] receive(1) by blast
  next
    case (timeout i pkt)
    note u = unix_timeout [OF node(1) [OF timeout(2)], of pkt, unfolded node(2) [OF timeout(2)]]
    show ?thesis
      using sim_timeout [OF assms(2) timeout(2) _ u(1), of "Some (Exit 42)"] u(2)
        assms(3) [OF timeout(2)] unfolding timeout(1) by blast
  next
    case (failure i pkt)
    note u = unix_error [OF node(1) [OF failure(2)], of "-1" pkt, unfolded node(2) [OF failure(2)], simplified]
    show ?thesis
    proof (cases "unix_view (raft_run_step (-1, pkt) (u_node s i)) = (cl_node a i)\<lparr>a_running := 0\<rparr>")
      case True
      have "cstep n a (after_step i ((cl_node a i)\<lparr>a_running := 0\<rparr>) a)"
        using failure(2) by (rule cstep.stop)
      then show ?thesis using sim_after [OF assms(2) u(1) True] failure(1) by blast
    next
      case False
      then show ?thesis
        using sim_timeout [OF assms(2) failure(2) _ u(1), of "Some (Exit 42)"] u(2)
          assms(3) [OF failure(2)] unfolding failure(1) by blast
    qed
  next
    case (lose pkt)
    then show ?thesis
      using sim_take [OF assms(2) lose(2)] cstep.lose [of "decode_pkt pkt" a n] by blast
  next
    case (client pkt)
    have "sim n s' (a\<lparr>cl_net := add_mset (decode_pkt pkt) (cl_net a)\<rparr>)"
      using client(1) assms(2) by (simp add: sim_def)
    then show ?thesis
      using cstep.client [OF decode_client [OF client(2)], of n a] by blast
  next
    case (restart i cfg os ns ms heap lines nd)
    have cfg: "cfg_id cfg = i" "cfg_num_nodes cfg = n" "cfg_accrual_window_size cfg \<noteq> 0"
      using restart(3) by (simp_all add: node_cfg_def)
    obtain nd' where "start_node cfg (disk (f_content (log_fd (log_context (node_log (u_node s i))))))
      (disk (f_content (meta_fd (log_context (node_log (u_node s i))))))
      (disk (f_content (pf_fd (pf_context (hard_state (u_node s i)))))) heap ns ms lines os = Some nd'"
      "unix_ok nd'" "unix_view nd' = a_boot i n (a_log (cl_node a i)) (a_term (cl_node a i))
        (a_vote (cl_node a i)) ns ms"
      using start_node_again [OF node(1) [OF restart(2)] restart(4) cfg(3), of heap ns ms lines]
      unfolding cfg(1,2) node(2) [OF restart(2)] by blast
    then have nd: "unix_ok nd" "unix_view nd = a_boot i n (a_log (cl_node a i)) (a_term (cl_node a i))
        (a_vote (cl_node a i)) ns ms"
      using restart(7) by simp_all
    have "cstep n a (after_step i (a_boot i n (a_log (cl_node a i)) (a_term (cl_node a i))
        (a_vote (cl_node a i)) ns ms) a)"
      by (rule cstep.restart [OF restart(2,5,6) refl])
    then show ?thesis using sim_after [OF assms(2) nd] restart(1) by blast
  qed
qed

section \<open>Executions\<close>

lemma usteps_sim:
  assumes "(ustep n)\<^sup>*\<^sup>* s s'" and "sim n s a" and "creach n a" and "n \<le> PF_NO_VOTE_V"
  shows "\<exists>a'. (cstep n)\<^sup>*\<^sup>* a a' \<and> creach n a' \<and> sim n s' a'"
  using assms(1)
proof (induction rule: rtranclp_induct)
  case base
  then show ?case using assms(2,3) by blast
next
  case (step s1 s2)
  then obtain b where b: "(cstep n)\<^sup>*\<^sup>* a b" "creach n b" "sim n s1 b" by blast
  have "cast_inv n b" using creach_inv [OF b(2) assms(4)] by (simp add: election_inv_def)
  then have "a_out (cl_node b i) = [] \<and> a_id (cl_node b i) = i \<and> a_num (cl_node b i) = n"
    if "i < n" for i using that by (simp add: cast_inv_def node_inv_def Let_def)
  then obtain c where c: "(cstep n)\<^sup>*\<^sup>* b c" "sim n s2 c"
    using ustep_sim [OF step.hyps(2) b(3)] by blast
  moreover have "creach n c" using cstep_leaders_mono [OF c(1) b(2) assms(4)] by blast
  ultimately show ?case using b(1) by (meson rtranclp_trans)
qed

lemma sim_leader:
  assumes "sim n s a" and "creach n a" and "n \<le> PF_NO_VOTE_V" and "i < n"
    and "role (u_node s i) = LEADER"
  shows "(a_term (unix_view (u_node s i)), i) \<in> cl_leaders a"
proof -
  have "cast_inv n a" using creach_inv [OF assms(2,3)] by (simp add: election_inv_def)
  then have "node_inv n a i" using assms(4) by (simp add: cast_inv_def)
  moreover have "unix_view (u_node s i) = cl_node a i" using assms(1,4) by (simp add: sim_def)
  moreover have "a_role (unix_view (u_node s i)) = LEADER"
    using assms(5) by (simp add: unix_view_def view_def)
  ultimately show ?thesis by (simp add: node_inv_def Let_def)
qed

text \<open>The term a node has in its file.\<close>

definition node_term :: "unix_node \<Rightarrow> u32" where
  "node_term nd = pf_field (pf_context (hard_state nd)) PF_CURRENT_TERM"

lemma view_term: "a_term (unix_view nd) = node_term nd"
  by (simp add: unix_view_def view_def node_term_def)

lemma leaders_of_a_term:
  assumes "ustart n s" and "(ustep n)\<^sup>*\<^sup>* s s1" and "(ustep n)\<^sup>*\<^sup>* s1 s2" and n: "n \<le> PF_NO_VOTE_V"
    and i: "i < n" "role (u_node s1 i) = LEADER" and j: "j < n" "role (u_node s2 j) = LEADER"
    and t: "node_term (u_node s1 i) = node_term (u_node s2 j)"
  shows "i = j"
proof -
  obtain a where a: "sim n s a" "cstart n a" using assms(1) by (rule ustart_sim)
  then have "creach n a" by (intro creach.start)
  then obtain a1 where a1: "creach n a1" "sim n s1 a1"
    using usteps_sim [OF assms(2) a(1) _ n] by blast
  then obtain a2 where a2: "(cstep n)\<^sup>*\<^sup>* a1 a2" "creach n a2" "sim n s2 a2"
    using usteps_sim [OF assms(3) a1(2,1) n] by blast
  have "(node_term (u_node s1 i), i) \<in> cl_leaders a2"
    using sim_leader [OF a1(2,1) n i] cstep_leaders_mono [OF a2(1) a1(1) n] by (auto simp: view_term)
  moreover have "(node_term (u_node s1 i), j) \<in> cl_leaders a2"
    using sim_leader [OF a2(3,2) n j] t by (simp add: view_term)
  ultimately show ?thesis by (rule creach_leaders [OF a2(2) n])
qed

section \<open>Two nodes to run\<close>

text \<open>Two nodes of the default configuration, an oracle that answers zeroes.\<close>

definition demo_os :: os_t where
  "demo_os = \<lparr>os_clock = \<lambda>_. (0, 0), os_rand = \<lambda>_. 0, os_fopen = \<lambda>_. False,
     os_stack = \<lambda>_. zero_pkt, os_calls = 0\<rparr>"

definition demo_cfg :: "u32 \<Rightarrow> raft_config_t" where
  "demo_cfg i = \<lparr>cfg_id = i, cfg_num_nodes = 2, cfg_timeout_scheme = TS_TIMEOUT,
     cfg_accrual_threshold = 1, cfg_accrual_window_size = 32, cfg_accrual_ramp_size = 8,
     cfg_timeout_lb_ms = 1000, cfg_timeout_ub_ms = 2000, cfg_crash_after_h = -1\<rparr>"

lemma demo_wf [simp]: "wf_os demo_os" "node_cfg 2 i (demo_cfg i)"
  by (simp_all add: wf_os_def demo_os_def node_cfg_def demo_cfg_def)

definition boot2 :: "u32 \<Rightarrow> anode" where
  "boot2 i = a_boot i 2 [] 0 PF_NO_VOTE_V [0, 0] [0, 0]"

definition ask2 :: amsg where
  "ask2 = \<lparr>m_dst = 1, m_src = 0, m_body = VoteReq \<lparr>rv_term = 1, rv_candidate_id = 0,
     rv_last_log_idx = -1, rv_last_log_term = 0\<rparr>\<rparr>"

definition yes2 :: amsg where
  "yes2 = \<lparr>m_dst = 0, m_src = 1, m_body = VoteRes \<lparr>rvr_term = 1, rvr_vote_granted = 1\<rparr>\<rparr>"

lemma demo_peers: "[0..<2] = [0, Suc 0]"
  by (simp add: upt_rec)

lemma demo_elect: "a_out (a_elect (boot2 0)) = [ask2]" "a_role (a_elect (boot2 0)) = CANDIDATE"
  by (simp_all add: boot2_def a_boot_def a_elect_def a_become_candidate_def a_start_election_def
      a_broadcast_def a_peers_def a_vote_request_def demo_peers log_term_def ask2_def)

lemma demo_vote: "a_out (a_receive ask2 (boot2 1)) = [yes2]"
  by (simp add: a_receive_def a_handle_def ask2_def yes2_def boot2_def a_boot_def
      a_vote_request_handler_def a_decide_vote_def a_become_follower_def up_to_date_def log_term_def
      a_vote_response_def a_send_def PF_NO_VOTE_V_def)

definition demo_node :: "u32 \<Rightarrow> unix_node" where
  "demo_node i = the (start_node (demo_cfg i) (disk []) (disk []) (disk []) (0, 0) [0, 0] [0, 0] [] demo_os)"

lemma demo_node:
  "start_node (demo_cfg i) (disk []) (disk []) (disk []) (0, 0) [0, 0] [0, 0] [] demo_os = Some (demo_node i)"
  "unix_ok (demo_node i)" "unix_view (demo_node i) = boot2 i" "config (demo_node i) = demo_cfg i"
proof -
  have "cfg_accrual_window_size (demo_cfg i) \<noteq> 0" by (simp add: demo_cfg_def)
  from start_node_fresh [OF demo_wf(1) this, of "(0, 0)" "[0, 0]" "[0, 0]" "[]"]
  obtain nd where nd: "start_node (demo_cfg i) (disk []) (disk []) (disk []) (0, 0) [0, 0] [0, 0] [] demo_os =
      Some nd" "unix_ok nd" "unix_view nd = boot2 i"
    by (auto simp: boot2_def demo_cfg_def)
  then have "demo_node i = nd" by (simp add: demo_node_def)
  then show "start_node (demo_cfg i) (disk []) (disk []) (disk []) (0, 0) [0, 0] [0, 0] [] demo_os =
      Some (demo_node i)"
    "unix_ok (demo_node i)" "unix_view (demo_node i) = boot2 i" "config (demo_node i) = demo_cfg i"
    using nd start_node_config by auto
qed

lemma demo_room [simp]: "has_room (boot2 i)"
  by (simp add: boot2_def a_boot_def has_room_def log_capacity_def)

lemma sole_packet:
  assumes "a_out (unix_view nd) = [m]"
  obtains pkt where "outbox nd = [pkt]" and "decode_pkt pkt = m"
  using assms by (auto simp: unix_view_out)

lemma view_up: "up nd \<longleftrightarrow> a_running (unix_view nd) \<noteq> 0 \<and> a_halted (unix_view nd) = None"
  by (simp add: up_def unix_view_def view_def)

lemma view_role: "role nd = a_role (unix_view nd)"
  by (simp add: unix_view_def view_def)

end
