(* ===== verification/Log_Order.thy ===== *)
theory Log_Order
  imports Raft_Spec
begin

text \<open>
  The order of logs by which nodes vote: by the term of the last entry, then by the length. It is
  a linear order (an instance of the class \<open>linorder\<close>), and \<open>log_is_up_to_date\<close> computes it.
\<close>

datatype log_pos = Log_Pos (lp_term: u32) (lp_length: nat)

instantiation log_pos :: linorder
begin

definition less_eq_log_pos :: "log_pos \<Rightarrow> log_pos \<Rightarrow> bool" where
  "p \<le> q \<longleftrightarrow> lp_term p < lp_term q \<or> lp_term p = lp_term q \<and> lp_length p \<le> lp_length q"

definition less_log_pos :: "log_pos \<Rightarrow> log_pos \<Rightarrow> bool" where
  "p < q \<longleftrightarrow> lp_term p < lp_term q \<or> lp_term p = lp_term q \<and> lp_length p < lp_length q"

instance
proof
  fix p q r :: log_pos
  show "p < q \<longleftrightarrow> p \<le> q \<and> \<not> q \<le> p" by (auto simp: less_eq_log_pos_def less_log_pos_def)
  show "p \<le> p" by (simp add: less_eq_log_pos_def)
  show "p \<le> q \<Longrightarrow> q \<le> r \<Longrightarrow> p \<le> r" by (auto simp: less_eq_log_pos_def)
  show "p \<le> q \<Longrightarrow> q \<le> p \<Longrightarrow> p = q"
    by (cases p; cases q) (auto simp: less_eq_log_pos_def)
  show "p \<le> q \<or> q \<le> p" by (auto simp: less_eq_log_pos_def)
qed

end

definition log_end :: "log_entry_t list \<Rightarrow> log_pos" where
  "log_end es = Log_Pos (log_term es (int (length es) - 1)) (length es)"

text \<open>A log of terms a cluster can have: every term counts from 1.\<close>

definition real_terms :: "log_entry_t list \<Rightarrow> bool" where
  "real_terms es \<longleftrightarrow> list_all (\<lambda>e. le_term e \<noteq> 0) es"

lemma log_term_last: "es \<noteq> [] \<Longrightarrow> log_term es (int (length es) - 1) = le_term (last es)"
  by (cases "length es") (auto simp: log_term_def last_conv_nth)

lemma log_term_empty: "log_term [] i = 0"
  unfolding log_term_def by auto

lemma last_index_le:
  fixes es fs :: "log_entry_t list"
  assumes "es \<noteq> []" and "fs \<noteq> []" and "length es \<le> log_capacity" and "length fs \<le> log_capacity"
  shows "u32_of_int (int (length es) - 1) \<le> u32_of_int (int (length fs) - 1) \<longleftrightarrow>
    length es \<le> length fs"
proof -
  have "uint (u32_of_int (int (length xs) - 1)) = int (length xs) - 1"
    if "xs \<noteq> []" "length xs \<le> log_capacity" for xs :: "log_entry_t list"
    by (rule uint_u32_of_int) (use that in \<open>cases xs; simp add: log_capacity_def\<close>)+
  note u = this [OF assms(1,3)] this [OF assms(2,4)]
  show ?thesis unfolding word_le_def u by linarith
qed

lemma up_to_date_iff:
  assumes "real_terms es" and "real_terms fs"
    and "length es \<le> log_capacity" and "length fs \<le> log_capacity"
  shows "up_to_date es (u32_of_int (int (length fs) - 1)) (log_term fs (int (length fs) - 1)) \<longleftrightarrow>
    log_end es \<le> log_end fs"
proof -
  have pos: "le_term (last xs) \<noteq> 0" if "xs \<noteq> []" "real_terms xs" for xs
    using that by (simp add: real_terms_def list_all_iff)
  show ?thesis
  proof (cases "es = []")
    case True
    then show ?thesis
      using pos [of fs] assms(2)
      by (cases "fs = []")
        (auto simp: up_to_date_def log_end_def less_eq_log_pos_def log_term_empty log_term_last
          word_gt_0 Let_def)
  next
    case es: False
    show ?thesis
    proof (cases "fs = []")
      case True
      then show ?thesis
        using pos [OF es assms(1)] es
        by (simp add: up_to_date_def log_end_def less_eq_log_pos_def log_term_empty log_term_last)
    next
      case False
      then show ?thesis
        using es last_index_le [OF es False assms(3,4)]
        by (simp add: up_to_date_def log_end_def less_eq_log_pos_def log_term_last Let_def)
    qed
  qed
qed

end
