(* ===== verification/Write_Ahead.thy ===== *)
theory Write_Ahead
  imports Raft_Files
begin

text \<open>
  The order of writing and sending inside an iteration of the event loop: when a node hands a
  packet to the transport, its files have the contents they have at the end of the iteration. So
  what a packet tells others is in the files before the packet can leave, and a process that stops
  in the middle of an iteration has sent nothing that its files do not back.

  \<open>quiet\<close> relates a node to a later state of the same iteration before anything was sent, \<open>ahead\<close>
  to one after which nothing is written; \<open>sent_on\<close> of \<open>Raft_State\<close> says what the files were at
  every send.
\<close>

section \<open>The files at a send\<close>

text \<open>What the files show, and what \<open>fsync\<close> put on the devices.\<close>

definition disk_image :: "log_context_t \<times> pf_context_t \<Rightarrow> (u8 list \<times> u8 list) list" where
  "disk_image = (\<lambda>(lc, pc). map (\<lambda>f. (f_content f, f_durable f)) [log_fd lc, meta_fd lc, pf_fd pc])"

definition node_disk :: "unix_node \<Rightarrow> (u8 list \<times> u8 list) list" where
  "node_disk nd = disk_image (log_context (node_log nd), pf_context (hard_state nd))"

text \<open>The functions the core calls are those on files.\<close>

definition linked :: "unix_node \<Rightarrow> bool" where
  "linked nd \<longleftrightarrow> log_read (node_log nd) = f_log_read \<and> log_write (node_log nd) = f_log_write \<and>
     log_remove_last_n (node_log nd) = f_log_remove_last_n \<and>
     pf_get_fn (hard_state nd) = pf_get \<and> pf_set_fn (hard_state nd) = pf_set"

lemma unix_linked: "unix_ok nd \<Longrightarrow> linked nd"
  unfolding unix_ok_def linked_def file_log_ops_def file_fields_ops_def
  by (metis log_t.select_convs(1,2,7) persistent_fields_t.select_convs(1,2))

definition quiet :: "unix_node \<Rightarrow> unix_node \<Rightarrow> bool" where
  "quiet a b \<longleftrightarrow> linked b \<and> sent_on b = sent_on a \<and> outbox b = outbox a"

definition ahead :: "unix_node \<Rightarrow> unix_node \<Rightarrow> bool" where
  "ahead a b \<longleftrightarrow> linked b \<and> (\<exists>ds ps. sent_on b = sent_on a @ ds \<and> outbox b = outbox a @ ps \<and>
     length ds = length ps \<and> (\<forall>d \<in> set ds. disk_image d = node_disk b))"

named_theorems order_rules \<open>what keeps the order of writing and sending\<close>

lemma quiet_refl: "linked a \<Longrightarrow> quiet a a"
  by (simp add: quiet_def)

lemma quiet_ahead: "quiet a b \<Longrightarrow> ahead a b"
  by (auto simp: quiet_def ahead_def)

lemma linked_update [simp]:
  "linked (nd\<lparr>role := r\<rparr>) = linked nd" "linked (nd\<lparr>outbox := ps\<rparr>) = linked nd"
  "linked (nd\<lparr>heartbeat_count := k\<rparr>) = linked nd" "linked (nd\<lparr>commit_index := i\<rparr>) = linked nd"
  "linked (nd\<lparr>last_applied := i\<rparr>) = linked nd" "linked (nd\<lparr>leader_id := l\<rparr>) = linked nd"
  "linked (nd\<lparr>heartbeat_telemetry := t\<rparr>) = linked nd" "linked (nd\<lparr>votes_received := v\<rparr>) = linked nd"
  "linked (nd\<lparr>next_index := ns\<rparr>) = linked nd" "linked (nd\<lparr>match_index := ms\<rparr>) = linked nd"
  "linked (nd\<lparr>outstanding_reqs := rs\<rparr>) = linked nd" "linked (nd\<lparr>running := u\<rparr>) = linked nd"
  "linked (nd\<lparr>timer := tm\<rparr>) = linked nd" "linked (nd\<lparr>node_os := os\<rparr>) = linked nd"
  "linked (nd\<lparr>csv := ls\<rparr>) = linked nd" "linked (nd\<lparr>halted := h\<rparr>) = linked nd"
  "linked (nd\<lparr>sent_on := ds\<rparr>) = linked nd"
  by (simp_all add: linked_def)

lemma order_update [simp]:
  "quiet a (nd\<lparr>role := r\<rparr>) = quiet a nd" "ahead a (nd\<lparr>role := r\<rparr>) = ahead a nd"
  "quiet a (nd\<lparr>heartbeat_count := k\<rparr>) = quiet a nd" "ahead a (nd\<lparr>heartbeat_count := k\<rparr>) = ahead a nd"
  "quiet a (nd\<lparr>commit_index := i\<rparr>) = quiet a nd" "ahead a (nd\<lparr>commit_index := i\<rparr>) = ahead a nd"
  "quiet a (nd\<lparr>last_applied := i\<rparr>) = quiet a nd" "ahead a (nd\<lparr>last_applied := i\<rparr>) = ahead a nd"
  "quiet a (nd\<lparr>leader_id := l\<rparr>) = quiet a nd" "ahead a (nd\<lparr>leader_id := l\<rparr>) = ahead a nd"
  "quiet a (nd\<lparr>heartbeat_telemetry := t\<rparr>) = quiet a nd"
  "ahead a (nd\<lparr>heartbeat_telemetry := t\<rparr>) = ahead a nd"
  "quiet a (nd\<lparr>votes_received := v\<rparr>) = quiet a nd" "ahead a (nd\<lparr>votes_received := v\<rparr>) = ahead a nd"
  "quiet a (nd\<lparr>next_index := ns\<rparr>) = quiet a nd" "ahead a (nd\<lparr>next_index := ns\<rparr>) = ahead a nd"
  "quiet a (nd\<lparr>match_index := ms\<rparr>) = quiet a nd" "ahead a (nd\<lparr>match_index := ms\<rparr>) = ahead a nd"
  "quiet a (nd\<lparr>outstanding_reqs := rs\<rparr>) = quiet a nd"
  "ahead a (nd\<lparr>outstanding_reqs := rs\<rparr>) = ahead a nd"
  "quiet a (nd\<lparr>running := u\<rparr>) = quiet a nd" "ahead a (nd\<lparr>running := u\<rparr>) = ahead a nd"
  "quiet a (nd\<lparr>timer := tm\<rparr>) = quiet a nd" "ahead a (nd\<lparr>timer := tm\<rparr>) = ahead a nd"
  "quiet a (nd\<lparr>node_os := os\<rparr>) = quiet a nd" "ahead a (nd\<lparr>node_os := os\<rparr>) = ahead a nd"
  "quiet a (nd\<lparr>csv := ls\<rparr>) = quiet a nd" "ahead a (nd\<lparr>csv := ls\<rparr>) = ahead a nd"
  "quiet a (nd\<lparr>halted := h\<rparr>) = quiet a nd" "ahead a (nd\<lparr>halted := h\<rparr>) = ahead a nd"
  by (simp_all add: quiet_def ahead_def node_disk_def)

section \<open>Reading, writing and sending\<close>

lemma pf_get_frame:
  "f_content (pf_fd (snd (pf_get f c))) = f_content (pf_fd c)"
  "f_durable (pf_fd (snd (pf_get f c))) = f_durable (pf_fd c)"
  by (simp_all add: pf_get_def sys_defs Let_def split_beta split: io_res.split)

lemma f_log_read_durable:
  "f_durable (log_fd (snd (f_log_read i n c))) = f_durable (log_fd c)"
  by (simp add: f_log_read_def sys_defs Let_def split_beta split: io_res.split)

text \<open>A read changes neither the functions of the node, nor its files, nor what was sent.\<close>

lemma reads:
  assumes "linked nd"
  shows "linked (snd (call_pf_get f nd))" "node_disk (snd (call_pf_get f nd)) = node_disk nd"
    "linked (snd (call_log_read i nd))" "node_disk (snd (call_log_read i nd)) = node_disk nd"
  using assms
  by (simp_all add: linked_def call_pf_get_def call_log_read_def split_beta Let_def node_disk_def
      disk_image_def pf_get_frame f_log_read_frame f_log_read_durable)

lemma read_frame:
  "sent_on (snd (call_pf_get f nd)) = sent_on nd" "outbox (snd (call_pf_get f nd)) = outbox nd"
  "sent_on (snd (call_log_read i nd)) = sent_on nd" "outbox (snd (call_log_read i nd)) = outbox nd"
  by (simp_all add: call_pf_get_def call_log_read_def split_beta Let_def)

lemma order_reads [order_rules]:
  "quiet a b \<Longrightarrow> quiet a (snd (call_pf_get f b))" "ahead a b \<Longrightarrow> ahead a (snd (call_pf_get f b))"
  "quiet a b \<Longrightarrow> quiet a (snd (call_log_read i b))" "ahead a b \<Longrightarrow> ahead a (snd (call_log_read i b))"
  by (auto simp: quiet_def ahead_def reads read_frame)

lemma order_writes [order_rules]:
  "quiet a b \<Longrightarrow> quiet a (call_pf_set f v b)" "quiet a b \<Longrightarrow> quiet a (call_log_write i e b)"
  "quiet a b \<Longrightarrow> quiet a (call_log_remove i b)"
  by (auto simp: quiet_def linked_def call_pf_set_def call_log_write_def call_log_remove_def)

lemma order_send [order_rules]: "ahead a b \<Longrightarrow> ahead a (send_with pack b)"
proof -
  assume "ahead a b"
  then obtain ds ps where b: "linked b" "sent_on b = sent_on a @ ds" "outbox b = outbox a @ ps"
    "length ds = length ps" "\<forall>d \<in> set ds. disk_image d = node_disk b"
    by (auto simp: ahead_def)
  let ?c = "send_with pack b" and ?d = "(log_context (node_log b), pf_context (hard_state b))"
  have "linked ?c" "node_disk ?c = node_disk b" "sent_on ?c = sent_on b @ [?d]"
    using b(1) by (simp_all add: send_with_def transport_send_def split_beta linked_def node_disk_def)
  moreover obtain p where "outbox ?c = outbox b @ [p]"
    by (simp add: send_with_def transport_send_def split_beta)
  moreover have "disk_image ?d = node_disk b" by (simp add: node_disk_def)
  ultimately show ?thesis
    using b unfolding ahead_def by (intro conjI exI [of _ "ds @ [?d]"] exI [of _ "ps @ [p]"]) auto
qed

section \<open>The functions of the core\<close>

lemma order_helpers [order_rules]:
  "quiet a b \<Longrightarrow> quiet a (telemetry_log ev t v b)" "ahead a b \<Longrightarrow> ahead a (telemetry_log ev t v b)"
  "quiet a b \<Longrightarrow> quiet a (snd (raft_get_log_term i b))"
  "ahead a b \<Longrightarrow> ahead a (snd (raft_get_log_term i b))"
  "quiet a b \<Longrightarrow> quiet a (append_log_entry e b)"
  "quiet a b \<Longrightarrow> quiet a (reset_timer d os b)" "ahead a b \<Longrightarrow> ahead a (reset_timer d os b)"
  "quiet a b \<Longrightarrow> quiet a (snd (raft_get_timeout_ms b))"
  by (simp_all add: telemetry_log_def raft_get_log_term_def append_log_entry_def reset_timer_def
      raft_get_timeout_ms_def split_beta Let_def order_rules split: option.split)

lemma order_timers [order_rules]:
  "quiet a b \<Longrightarrow> quiet a (set_fault_detect_timer b)" "ahead a b \<Longrightarrow> ahead a (set_fault_detect_timer b)"
  "quiet a b \<Longrightarrow> quiet a (set_election_timer b)" "ahead a b \<Longrightarrow> ahead a (set_election_timer b)"
  "quiet a b \<Longrightarrow> quiet a (set_heartbeat_timer b)" "ahead a b \<Longrightarrow> ahead a (set_heartbeat_timer b)"
  by (simp_all add: set_fault_detect_timer_def set_election_timer_def set_heartbeat_timer_def
      split_beta Let_def order_rules)

lemma order_up_to_date [order_rules]:
  "quiet a b \<Longrightarrow> quiet a (snd (log_is_up_to_date i t b))"
  by (simp add: log_is_up_to_date_def split_beta Let_def order_rules)

lemma order_read_entries [order_rules]: "ahead a b \<Longrightarrow> ahead a (snd (read_entries k i b))"
  by (induction k arbitrary: i b) (simp_all add: split_beta Let_def order_rules)

lemma order_peers:
  assumes "ahead a b" and "\<And>i x. ahead a x \<Longrightarrow> ahead a (body i x)"
  shows "ahead a (for_each_peer body b)"
proof -
  have "ahead a (fold (\<lambda>i x. if i = k then x else body i x) is b)" for k "is"
    using assms by (induction "is" arbitrary: b) simp_all
  then show ?thesis by (simp add: for_each_peer_def)
qed

lemma order_sends [order_rules]:
  "ahead a b \<Longrightarrow> ahead a (send_append_entries_request dst req b)"
  "ahead a b \<Longrightarrow> ahead a (send_append_entries_response dst t m ok b)"
  "ahead a b \<Longrightarrow> ahead a (send_request_vote_request dst rv b)"
  "ahead a b \<Longrightarrow> ahead a (send_request_vote_response dst t g b)"
  "ahead a b \<Longrightarrow> ahead a (send_proc_response dst resp b)"
  by (simp_all add: send_append_entries_request_def send_append_entries_response_def
      send_request_vote_request_def send_request_vote_response_def send_proc_response_def order_rules)

lemma order_broadcasts [order_rules]:
  "ahead a b \<Longrightarrow> ahead a (broadcast_request_vote b)"
  "ahead a b \<Longrightarrow> ahead a (broadcast_append_entries b)"
  "ahead a b \<Longrightarrow> ahead a (send_heartbeats b)"
  by (simp_all add: broadcast_request_vote_def broadcast_append_entries_def send_heartbeats_def
      split_beta Let_def order_rules order_peers)

lemma order_roles [order_rules]:
  "quiet a b \<Longrightarrow> quiet a (become_follower t l b)" "quiet a b \<Longrightarrow> ahead a (start_election b)"
  "quiet a b \<Longrightarrow> ahead a (become_candidate b)" "quiet a b \<Longrightarrow> ahead a (become_leader b)"
  by (simp_all add: become_follower_def start_election_def become_candidate_def become_leader_def
      split_beta Let_def order_rules quiet_ahead)

lemma order_answer [order_rules]: "ahead a b \<Longrightarrow> ahead a (apply_one b)"
  by (simp add: apply_one_def answer_client_def split_beta Let_def order_rules split: option.split)

lemma order_apply [order_rules]: "ahead a b \<Longrightarrow> ahead a (apply_to_state_machine b)"
proof (induction b rule: apply_to_state_machine.induct)
  case (1 b)
  then show ?case by (simp add: apply_to_state_machine.simps [of b] order_rules)
qed

lemma order_append_loop [order_rules]: "quiet a b \<Longrightarrow> quiet a (append_loop es i len b)"
  by (induction es arbitrary: i len b) (simp_all add: split_beta Let_def order_rules)

lemma order_heartbeat: "quiet a b \<Longrightarrow> record_heartbeat req t b = Some c \<Longrightarrow> quiet a c"
  by (auto simp: record_heartbeat_def split_beta Let_def order_rules split: if_splits option.splits)

lemma order_update_commit [order_rules]: "ahead a b \<Longrightarrow> ahead a (update_commit req b)"
  by (simp add: update_commit_def Let_def order_rules)

lemma order_advance [order_rules]: "quiet a b \<Longrightarrow> quiet a (advance_commit t len b)"
proof -
  assume q: "quiet a b"
  have "quiet a (fold (commit_step t) ns b)" for ns
    using q by (induction ns arbitrary: b) (simp_all add: commit_step_def split_beta Let_def order_rules)
  then show ?thesis by (simp add: advance_commit_def)
qed

lemma order_decide_vote [order_rules]: "quiet a b \<Longrightarrow> ahead a (decide_vote req t b)"
  by (simp add: decide_vote_def split_beta Let_def order_rules quiet_ahead)

lemma order_append_to_log [order_rules]: "quiet a b \<Longrightarrow> ahead a (append_entries_to_log req t b)"
  by (simp add: append_entries_to_log_def split_beta Let_def order_rules quiet_ahead)

lemma order_handlers [order_rules]:
  "quiet a b \<Longrightarrow> ahead a (handle_append_entries_request req b)"
  "quiet a b \<Longrightarrow> ahead a (handle_append_entries_response src resp b)"
  "quiet a b \<Longrightarrow> ahead a (handle_request_vote_request src rv b)"
  "quiet a b \<Longrightarrow> ahead a (handle_request_vote_response src vr b)"
  "quiet a b \<Longrightarrow> ahead a (handle_proc_request pr src b)"
  "quiet a b \<Longrightarrow> ahead a (handle_proc_response ps b)"
proof -
  assume q: "quiet a b"
  show "ahead a (handle_append_entries_request req b)"
  proof -
    have "ahead a (case record_heartbeat req t c of
        None \<Rightarrow> c\<lparr>halted := Some (Undefined ''division by zero'')\<rparr>
      | Some nd \<Rightarrow> append_entries_to_log req t (set_fault_detect_timer nd))" if "quiet a c" for c t
      using order_heartbeat [OF that] that by (auto simp: order_rules quiet_ahead split: option.split)
    then show ?thesis
      using q by (simp add: handle_append_entries_request_def split_beta Let_def order_rules quiet_ahead)
  qed
  show "ahead a (handle_append_entries_response src resp b)"
    "ahead a (handle_request_vote_request src rv b)" "ahead a (handle_request_vote_response src vr b)"
    "ahead a (handle_proc_request pr src b)" "ahead a (handle_proc_response ps b)"
    using q by (simp_all add: handle_append_entries_response_def handle_request_vote_request_def
        handle_request_vote_response_def handle_proc_request_def handle_proc_response_def split_beta
        Let_def order_rules quiet_ahead split: option.split)
qed

lemma order_timeout [order_rules]: "quiet a b \<Longrightarrow> ahead a (raft_handle_timeout b)"
  by (simp add: raft_handle_timeout_def split_beta Let_def order_rules quiet_ahead split: raft_role_t.split)

section \<open>An iteration of the event loop\<close>

lemma order_dispatch:
  "ahead a x \<Longrightarrow> ahead a y \<Longrightarrow> ahead a (if c then x else y)"
  "ahead a x \<Longrightarrow> (\<And>v. ahead a (f v)) \<Longrightarrow> ahead a (case m of None \<Rightarrow> x | Some v \<Rightarrow> f v)"
  by (simp_all split: option.split)

lemma order_rpc [order_rules]: "quiet a b \<Longrightarrow> ahead a (raft_handle_rpc pkt b)"
  unfolding raft_handle_rpc_def Let_def
  by (rule order_dispatch order_handlers quiet_ahead | assumption)+

lemma iteration_ahead:
  assumes "linked nd"
  shows "ahead nd (raft_run_step (rc, pkt) nd)"
proof -
  have "quiet nd (snd (raft_get_timeout_ms nd))"
    using quiet_refl [OF assms] by (rule order_rules)
  then show ?thesis
    by (simp add: raft_run_step_def split_beta Let_def order_rules quiet_ahead)
qed

text \<open>
  Nothing is written after something was sent: at each send of an iteration the files had, as the
  system shows them and on the device, the contents they have at its end.
\<close>

theorem writes_before_sends:
  assumes "unix_ok nd"
  shows "let nd' = raft_run_step (rc, pkt) nd in
    \<exists>ds ps. sent_on nd' = sent_on nd @ ds \<and> outbox nd' = outbox nd @ ps \<and> length ds = length ps \<and>
      (\<forall>d \<in> set ds. disk_image d = node_disk nd')"
  using iteration_ahead [OF unix_linked [OF assms], of rc pkt] by (simp add: ahead_def Let_def)

section \<open>A vote on the device\<close>

definition pf_synced :: "unix_node \<Rightarrow> bool" where
  "pf_synced nd \<longleftrightarrow> f_durable (pf_fd (pf_context (hard_state nd))) =
     f_content (pf_fd (pf_context (hard_state nd)))"

lemma pf_set_synced:
  assumes "unix_ok nd"
  shows "pf_synced (call_pf_set f v nd)"
proof -
  have "io_ok (pf_fd (pf_context (hard_state nd)))" using assms by (simp add: unix_ok_def pf_good_def)
  moreover have "pf_set_fn (hard_state nd) = pf_set" using unix_linked [OF assms] by (simp add: linked_def)
  ultimately show ?thesis
    by (simp add: pf_synced_def call_pf_set_def pf_set_def sys_ok Let_def)
qed

text \<open>Operations of the core on a node over its files, by the simulation.\<close>

lemma unix_sims:
  assumes "unix_ok nd"
  shows "unix_ok (snd (call_pf_get f nd))" "unix_view (snd (call_pf_get f nd)) = unix_view nd"
    "unix_ok (snd (log_is_up_to_date i t nd))" "unix_view (snd (log_is_up_to_date i t nd)) = unix_view nd"
    "unix_ok (snd (raft_get_timeout_ms nd))" "unix_view (snd (raft_get_timeout_ms nd)) = unix_view nd"
    "unix_ok (become_follower t l nd)" "unix_view (become_follower t l nd) = a_become_follower t l (unix_view nd)"
    "unix_view (send_request_vote_response d t g nd) = a_vote_response d t g (unix_view nd)"
  using assms file_env.pf_get_sim(3,4) [of undefined undefined nd f]
    file_env.up_to_date_sim(1,2) [of undefined undefined nd i t]
    file_env.become_follower_sim [of undefined undefined nd t l]
    file_env.send_sim(6) [of undefined undefined nd d t g]
  unfolding unix_ok_node_ok [of _ undefined undefined] unix_view_def by (simp_all add: view_simps)

lemma outbox_view: "map decode_pkt (outbox nd) = a_out (unix_view nd)"
  by (simp add: unix_view_def view_def)

definition grants :: "pkt_t \<Rightarrow> bool" where
  "grants ans \<longleftrightarrow> (\<exists>r. m_body (decode_pkt ans) = VoteRes r \<and> rvr_vote_granted r \<noteq> 0)"

lemma refusal_no_grant:
  assumes "unix_ok nd" and "outbox nd = []" and "grants ans"
  shows "ans \<notin> set (outbox (send_request_vote_response d t 0 nd))"
proof
  assume "ans \<in> set (outbox (send_request_vote_response d t 0 nd))"
  then have "decode_pkt ans \<in> set (a_out (unix_view (send_request_vote_response d t 0 nd)))"
    unfolding outbox_view [symmetric] by simp
  moreover have "a_out (unix_view nd) = []" using assms(2) by (simp flip: outbox_view)
  ultimately show False
    using assms(3) unix_sims(9) [OF assms(1), of d t 0]
    by (auto simp: grants_def a_vote_response_def a_send_def)
qed

lemma granted_vote_synced:
  assumes ok: "unix_ok b" and none: "outbox b = []"
    and ans: "ans \<in> set (outbox (decide_vote q t b))" "grants ans"
  shows "pf_synced (decide_vote q t b)"
proof -
  define c1 where "c1 = snd (call_pf_get PF_VOTED_FOR b)"
  define c2 where "c2 = snd (log_is_up_to_date (rv_last_log_idx q) (rv_last_log_term q) c1)"
  define c3 where "c3 = set_election_timer (call_pf_set PF_VOTED_FOR (rv_candidate_id q) c2)"
  have oks: "unix_ok c1" "unix_ok c2" and views: "unix_view c1 = unix_view b" "unix_view c2 = unix_view b"
    using ok by (simp_all add: c1_def c2_def unix_sims)
  then have "outbox c1 = []" "outbox c2 = []"
    using none outbox_view [of b] outbox_view [of c1] outbox_view [of c2] by simp_all
  then have run: "decide_vote q t b = send_request_vote_response (rv_candidate_id q) t 1 c3"
    using ans refusal_no_grant [OF oks(1) _ ans(2)] refusal_no_grant [OF oks(2) _ ans(2)]
    by (auto simp: decide_vote_def split_beta Let_def c3_def c2_def c1_def split: if_splits)
  have "pf_synced (call_pf_set PF_VOTED_FOR (rv_candidate_id q) c2)" using pf_set_synced [OF oks(2)] .
  then show ?thesis
    by (simp add: run c3_def pf_synced_def send_request_vote_response_def send_with_def transport_send_def
        set_election_timer_def reset_timer_def split_beta Let_def)
qed

lemma vote_answer_synced:
  assumes ok: "unix_ok nd" and none: "outbox nd = []" and pkt: "decode_body pkt = VoteReq q"
    and ans: "ans \<in> set (outbox (raft_run_step (1, pkt) nd))" "grants ans"
  shows "pf_synced (raft_run_step (1, pkt) nd)"
proof -
  define n1 where "n1 = snd (raft_get_timeout_ms nd)"
  define n2 where "n2 = snd (call_pf_get PF_CURRENT_TERM n1)"
  define n3 where "n3 = become_follower (rv_term q) (h_src (pkt_header pkt)) n2"
  have oks: "unix_ok n2" "unix_ok n3"
    using ok by (simp_all add: n1_def n2_def n3_def unix_sims)
  have outs: "outbox n1 = []" "outbox n2 = []" "outbox n3 = []"
    using ok none outbox_view [of nd] outbox_view [of n1] outbox_view [of n2] outbox_view [of n3]
    by (simp_all add: n1_def n2_def n3_def unix_sims a_become_follower_def)
  have code: "h_code (pkt_header pkt) = RPC_CALL_REQ_VOTE" and u: "rpc_unpack_request_vote_req pkt = Some q"
    using pkt by (auto simp: decode_body_def Let_def split: if_splits option.splits)
  have "raft_run_step (1, pkt) nd = n1 \<or>
      raft_run_step (1, pkt) nd = handle_request_vote_request (h_src (pkt_header pkt)) q n1"
    using code u by (simp add: raft_run_step_def raft_handle_rpc_def split_beta Let_def rpc_codes n1_def)
  then obtain t x where "raft_run_step (1, pkt) nd = decide_vote q t x" "unix_ok x" "outbox x = []"
    using ans outs oks refusal_no_grant [OF oks(1) outs(2) ans(2)]
    by (auto simp: handle_request_vote_request_def split_beta Let_def n2_def n3_def split: if_splits)
  then show ?thesis using granted_vote_synced ans by metis
qed

text \<open>The files at the one send of an iteration that grants a vote: the device has the fields.\<close>

lemma vote_answer_on_disk:
  assumes ok: "unix_ok nd" and none: "outbox nd = []" and pkt: "decode_body pkt = VoteReq q"
    and one: "outbox (raft_run_step (1, pkt) nd) = [ans]" and yes: "grants ans"
  shows "\<exists>lc pc. sent_on (raft_run_step (1, pkt) nd) = sent_on nd @ [(lc, pc)] \<and>
    disk_field (f_durable (pf_fd pc)) = pf_field (pf_context (hard_state (raft_run_step (1, pkt) nd)))"
proof -
  let ?nd = "raft_run_step (1, pkt) nd"
  obtain ds where ds: "sent_on ?nd = sent_on nd @ ds" "length ds = 1" "\<forall>d \<in> set ds. disk_image d = node_disk ?nd"
    using writes_before_sends [OF ok, of 1 pkt] one none by (auto simp: Let_def)
  then obtain lc pc where d: "ds = [(lc, pc)]" by (cases ds) (auto simp: length_Suc_conv)
  have "pf_synced ?nd" using vote_answer_synced [OF ok none pkt _ yes] one by simp
  then have "f_durable (pf_fd pc) = f_content (pf_fd (pf_context (hard_state ?nd)))"
    using ds(3) by (simp add: d disk_image_def node_disk_def pf_synced_def)
  then have "disk_field (f_durable (pf_fd pc)) = pf_field (pf_context (hard_state ?nd))"
    by (simp add: pf_field_def fun_eq_iff)
  then show ?thesis using ds(1) d by blast
qed

end
