(* ===== verification/Node_Props.thy ===== *)
theory Node_Props
  imports Unix_Cluster Log_Order Write_Ahead
begin

text \<open>
  Properties of one node over its files: what its handlers do to the term, the vote, the log and
  the indexes, on every branch, by the simulation of \<open>Raft_Files\<close> and the effects of
  \<open>Raft_Effect\<close>.
\<close>

lemma view_fields:
  "a_log (unix_view nd) = log_entries (log_context (node_log nd))"
  "a_term (unix_view nd) = node_term nd"
  "a_vote (unix_view nd) = pf_field (pf_context (hard_state nd)) PF_VOTED_FOR"
  "a_id (unix_view nd) = node_id nd" "a_out (unix_view nd) = map decode_pkt (outbox nd)"
  "a_commit (unix_view nd) = commit_index nd" "a_match (unix_view nd) = match_index nd"
  "a_role (unix_view nd) = role nd" "a_num (unix_view nd) = cfg_num_nodes (config nd)"
  by (simp_all add: unix_view_def view_def node_term_def)

text \<open>The log and the vote on disk.\<close>

definition node_entries :: "unix_node \<Rightarrow> log_entry_t list" where
  "node_entries nd = log_entries (log_context (node_log nd))"

definition node_vote :: "unix_node \<Rightarrow> u32" where
  "node_vote nd = pf_field (pf_context (hard_state nd)) PF_VOTED_FOR"

lemma demo_fields [simp]:
  "node_entries (demo_node i) = []" "node_term (demo_node i) = 0"
  "node_vote (demo_node i) = PF_NO_VOTE_V" "node_id (demo_node i) = i" "outbox (demo_node i) = []"
  "role (demo_node i) = FOLLOWER"
  using demo_node(3) [of i] view_fields [of "demo_node i"]
  by (simp_all add: boot2_def a_boot_def node_entries_def node_vote_def)

section \<open>The event loop\<close>

text \<open>
  C12: one iteration of the event loop on a packet does to the persisted state, the role, the
  indexes and the packets sent what the specification does on the decoded packet, and keeps the
  invariant of the node.
\<close>

theorem receive_refines_spec:
  assumes "unix_ok nd" and "has_room (unix_view nd)"
  shows "unix_ok (raft_run_step (1, pkt) nd) \<and>
    unix_view (raft_run_step (1, pkt) nd) = a_receive (decode_pkt pkt) (unix_view nd)"
  using unix_receive [OF assms] by blast

theorem receive_refines_spec_witness:
  "unix_view (raft_run_step (1, zero_pkt) (demo_node 1)) =
     a_receive (decode_pkt zero_pkt) (boot2 1)"
  using receive_refines_spec [OF demo_node(2) [of 1], of zero_pkt] demo_node(3) [of 1] by simp

text \<open>
  The verdict of the failure detector when the loop comes to ask it: the mean interval between
  heartbeats is positive, and phi of the time since the last one is beyond the threshold.
\<close>

definition suspects :: "unix_node \<Rightarrow> bool" where
  "suspects nd \<longleftrightarrow>
     (let ht = heartbeat_telemetry nd; mean = compute_mean_interval ht;
          now = fst (get_usec (node_os (snd (raft_get_timeout_ms nd))))
      in 0 < mean \<and> ht_threshold ht < compute_phi mean (now - ht_last_heartbeat_usec ht))"

lemma suspects_check:
  "suspects nd = fst (heartbeat_telemetry_check_leader_failure (heartbeat_telemetry nd)
     (node_os (snd (raft_get_timeout_ms nd))))"
  by (simp add: suspects_def heartbeat_telemetry_check_leader_failure_def split_beta Let_def)

text \<open>
  C13: a timeout makes a follower a candidate exactly when it waits a random timeout (always, or
  until the detector has its samples) or its detector suspects the leader, and changes nothing of
  its state otherwise; a candidate starts another election; a leader sends heartbeats, and ends the
  process with code 42 exactly when it was told to crash and this timeout completes the count.
\<close>

theorem timeout_refines_spec:
  assumes "unix_ok nd"
  shows "unix_ok (raft_run_step (0, pkt) nd) \<and>
    unix_view (raft_run_step (0, pkt) nd) = (case role nd of
      FOLLOWER \<Rightarrow>
        if uses_random_timeout nd \<or> cfg_timeout_scheme (config nd) = TS_ACCRUAL \<and> suspects nd
        then a_become_candidate (unix_view nd) else unix_view nd
    | CANDIDATE \<Rightarrow> a_start_election (unix_view nd)
    | LEADER \<Rightarrow>
        if 0 \<le> cfg_crash_after_h (config nd) \<and> cfg_crash_after_h (config nd) \<le> heartbeat_count nd + 1
        then (a_send_heartbeats (unix_view nd))\<lparr>a_halted := Some (Exit 42)\<rparr>
        else a_send_heartbeats (unix_view nd))"
  using unix_timeout(1) [OF assms] unix_timeout_exact [OF assms, of pkt] unfolding suspects_check by blast

theorem timeout_refines_spec_witness:
  "role (raft_run_step (0, zero_pkt) (demo_node 0)) = CANDIDATE \<and>
   node_term (raft_run_step (0, zero_pkt) (demo_node 0)) = 1 \<and>
   node_vote (raft_run_step (0, zero_pkt) (demo_node 0)) = 0"
proof -
  have "uses_random_timeout (demo_node 0)"
    using start_node_config [OF demo_node(1) [of 0]] by (simp add: uses_random_timeout_def demo_cfg_def)
  then have "unix_view (raft_run_step (0, zero_pkt) (demo_node 0)) = a_become_candidate (boot2 0)"
    using timeout_refines_spec [OF demo_node(2) [of 0], of zero_pkt] by (simp add: demo_node(3))
  then show ?thesis
    using view_fields(2,3,8) [of "raft_run_step (0, zero_pkt) (demo_node 0)"]
    by (simp add: a_become_candidate_def a_start_election_def boot2_def a_boot_def a_broadcast_def
        node_vote_def Let_def)
qed

text \<open>C16: the persisted term of a node never decreases, whatever \<open>receive\<close> returns.\<close>

theorem term_never_decreases:
  assumes "unix_ok nd" and "has_room (unix_view nd)"
  shows "node_term nd \<le> node_term (raft_run_step (rc, pkt) nd)"
proof -
  let ?a = "unix_view nd" and ?b = "unix_view (raft_run_step (rc, pkt) nd)"
  have mono: "effects mo a b \<Longrightarrow> a_term a \<le> a_term b" for mo a b
    using effect_term by (auto simp: effects_def)
  have elect: "a_term ?a \<le> a_term (a_elect ?a)" by (rule mono [OF elect_effects])
  consider "rc = 1" | "rc = 0" | "rc \<noteq> 0" "rc \<noteq> 1" by blast
  then have "a_term ?a \<le> a_term ?b"
  proof cases
    case 1
    then show ?thesis using unix_receive(2) [OF assms] mono [OF receive_effects] by simp
  next
    case 2
    then show ?thesis using unix_timeout(2) [OF assms(1), of pkt] elect by auto
  next
    case 3
    then show ?thesis using unix_error(2) [OF assms(1) 3, of pkt] elect by auto
  qed
  then show ?thesis by (simp add: view_fields)
qed

theorem term_never_decreases_witness:
  "node_term (demo_node 1) \<le> node_term (raft_run_step (1, zero_pkt) (demo_node 1))"
  using term_never_decreases [OF demo_node(2) [of 1]] demo_node(3) [of 1] by simp

text \<open>
  A packet for another node changes nothing of the state, unless it is the shutdown message,
  which every node obeys: the loop ends there, whatever was still to be received.
\<close>

theorem foreign_and_shutdown:
  assumes "unix_ok nd" and "has_room (unix_view nd)" and "h_dst (pkt_header pkt) \<noteq> node_id nd"
  shows "if h_code (pkt_header pkt) = RPC_SHUTDOWN
    then raft_run ((1, pkt) # rest) nd = nd \<or> running (raft_run ((1, pkt) # rest) nd) = 0 \<and>
      raft_run ((1, pkt) # rest) nd = raft_run_step (1, pkt) nd
    else unix_view (raft_run_step (1, pkt) nd) = unix_view nd"
proof (cases "h_code (pkt_header pkt) = RPC_SHUTDOWN")
  case True
  then have r: "running (raft_run_step (1, pkt) nd) = 0"
    by (simp add: raft_run_step_def split_beta Let_def)
  then have "raft_run rest (raft_run_step (1, pkt) nd) = raft_run_step (1, pkt) nd"
    by (cases rest) simp_all
  then show ?thesis using r True by simp
next
  case False
  then have "decode_body pkt \<noteq> Shutdown"
    by (auto simp: decode_body_def Let_def rpc_codes split: option.splits)
  then have "a_receive (decode_pkt pkt) (unix_view nd) = unix_view nd"
    using assms(3) by (simp add: a_receive_def decode_pkt_def view_fields)
  then show ?thesis using False unix_receive(2) [OF assms(1,2)] by simp
qed

theorem foreign_and_shutdown_witness:
  "unix_view (raft_run_step (1, zero_pkt) (demo_node 1)) = unix_view (demo_node 1)"
proof -
  have "has_room (unix_view (demo_node 1))" by (simp add: demo_node)
  moreover have "h_dst (pkt_header zero_pkt) \<noteq> node_id (demo_node 1)" by (simp add: zero_pkt_def)
  moreover have "h_code (pkt_header zero_pkt) \<noteq> RPC_SHUTDOWN"
    by (simp add: zero_pkt_def RPC_SHUTDOWN_def)
  ultimately show ?thesis
    using foreign_and_shutdown [OF demo_node(2) [of 1], of zero_pkt] by simp
qed

section \<open>A leader that is told to crash\<close>







section \<open>Votes\<close>

text \<open>
  C14: when a node grants a vote, it answers the candidate that asked, in the term of the request,
  which is now its own term; in that term it had voted for no one else; and the candidate's log is
  at least as good as its own. The answer is the one packet of the iteration, and when it was handed
  to the transport (\<open>sent_on\<close>) the term and the vote had been written and \<open>fsync\<close> had put them on
  the device.
\<close>

theorem vote_granted_conditions:
  assumes "unix_ok nd" and "has_room (unix_view nd)" and "outbox nd = []"
    and "h_dst (pkt_header pkt) = node_id nd" and "h_code (pkt_header pkt) \<noteq> RPC_SHUTDOWN"
    and "ans \<in> set (outbox (raft_run_step (1, pkt) nd))"
    and "m_body (decode_pkt ans) = VoteRes r" and "rvr_vote_granted r \<noteq> 0"
  shows "\<exists>req lc pc. rpc_unpack_request_vote_req pkt = Some req \<and>
    outbox (raft_run_step (1, pkt) nd) = [ans] \<and>
    sent_on (raft_run_step (1, pkt) nd) = sent_on nd @ [(lc, pc)] \<and>
    disk_field (f_durable (pf_fd pc)) PF_VOTED_FOR = rv_candidate_id req \<and>
    disk_field (f_durable (pf_fd pc)) PF_CURRENT_TERM = rv_term req \<and>
    h_dst (pkt_header ans) = rv_candidate_id req \<and> rvr_term r = rv_term req \<and>
    node_term (raft_run_step (1, pkt) nd) = rv_term req \<and>
    node_vote (raft_run_step (1, pkt) nd) = rv_candidate_id req \<and>
    (node_term nd < rv_term req \<or> node_term nd = rv_term req \<and>
      (node_vote nd = PF_NO_VOTE_V \<or> node_vote nd = rv_candidate_id req)) \<and>
    up_to_date (node_entries nd) (rv_last_log_idx req) (rv_last_log_term req)"
proof -
  let ?nd = "raft_run_step (1, pkt) nd" and ?a = "unix_view nd"
  have v: "unix_view ?nd = a_receive (decode_pkt pkt) ?a" by (rule unix_receive(2) [OF assms(1,2)])
  have no: "a_out ?a = []" using assms(3) by (simp add: view_fields)
  have "effects (Some (decode_pkt pkt)) ?a (unix_view ?nd)"
    unfolding v by (rule receive_effects)
  then have e: "effect (Some (decode_pkt pkt)) ?a (unix_view ?nd) (map decode_pkt (outbox ?nd))"
    using no by (auto simp: effects_def view_fields)
  have ans: "decode_pkt ans \<in> set (map decode_pkt (outbox ?nd))" using assms(6) by simp
  have quiet: "\<not> quiet_out b (map decode_pkt (outbox ?nd))" for b
    using ans assms(7,8) by (force simp: quiet_out_def list_all_iff quiet_msg_def)
  from e show ?thesis
  proof (cases rule: effect.cases)
    case (grant m q)
    have body: "decode_body pkt = VoteReq q" using grant(1,3) by (auto simp: decode_pkt_def)
    then have u: "rpc_unpack_request_vote_req pkt = Some q"
      by (auto simp: decode_body_def Let_def split: if_splits option.splits)
    have "decode_pkt ans = \<lparr>m_dst = rv_candidate_id q, m_src = a_id ?a,
        m_body = VoteRes \<lparr>rvr_term = rv_term q, rvr_vote_granted = 1\<rparr>\<rparr>"
      using ans grant by simp
    then have "h_dst (pkt_header ans) = rv_candidate_id q" "rvr_term r = rv_term q"
      using assms(7) by (auto simp: decode_pkt_def)
    moreover have "node_term ?nd = rv_term q" "node_vote ?nd = rv_candidate_id q"
      using grant by (simp_all add: view_fields node_vote_def)
    moreover have "node_term nd < rv_term q \<or> node_term nd = rv_term q \<and>
        (node_vote nd = PF_NO_VOTE_V \<or> node_vote nd = rv_candidate_id q)"
      using grant by (auto simp: view_fields node_vote_def)
    moreover have "up_to_date (node_entries nd) (rv_last_log_idx q) (rv_last_log_term q)"
      using grant by (simp add: view_fields node_entries_def)
    moreover obtain lc pc where "outbox ?nd = [ans]" "sent_on ?nd = sent_on nd @ [(lc, pc)]"
      "disk_field (f_durable (pf_fd pc)) = pf_field (pf_context (hard_state ?nd))"
    proof -
      obtain p where "outbox ?nd = [p]" using grant sole_packet [of ?nd] by (auto simp: view_fields)
      then have one: "outbox ?nd = [ans]" using assms(6) by simp
      have "grants ans" using assms(7,8) by (auto simp: grants_def)
      from vote_answer_on_disk [OF assms(1,3) body one this] show thesis using that one by blast
    qed
    ultimately show ?thesis using u by (simp add: node_vote_def node_term_def)
  qed (use quiet ans assms(7) in \<open>auto simp: keeps_def\<close>)
qed

definition demo_ask :: pkt_t where
  "demo_ask = snd (rpc_pack_request_vote_req zero_pkt 1 0
     \<lparr>rv_term = 1, rv_candidate_id = 0, rv_last_log_idx = -1, rv_last_log_term = 0\<rparr>)"

lemma demo_ask [simp]:
  "decode_pkt demo_ask = ask2" "h_dst (pkt_header demo_ask) = 1"
  "h_code (pkt_header demo_ask) = RPC_CALL_REQ_VOTE"
  unfolding demo_ask_def decode_packed(2) [OF wf_zero_pkt] by (simp_all add: ask2_def)

theorem vote_granted_conditions_witness:
  "node_vote (raft_run_step (1, demo_ask) (demo_node 1)) = 0 \<and>
   node_term (raft_run_step (1, demo_ask) (demo_node 1)) = 1 \<and>
   (\<exists>lc pc. sent_on (raft_run_step (1, demo_ask) (demo_node 1)) = sent_on (demo_node 1) @ [(lc, pc)] \<and>
      disk_field (f_durable (pf_fd pc)) PF_VOTED_FOR = 0)"
proof -
  let ?nd = "raft_run_step (1, demo_ask) (demo_node 1)"
  have room: "has_room (unix_view (demo_node 1))" by (simp add: demo_node)
  have "a_out (unix_view ?nd) = [yes2]"
    using unix_receive(2) [OF demo_node(2) room, of demo_ask] demo_vote demo_node(3) [of 1] by simp
  then obtain ans where ans: "outbox ?nd = [ans]" "decode_pkt ans = yes2" by (rule sole_packet)
  have "outbox (demo_node 1) = []" "h_dst (pkt_header demo_ask) = node_id (demo_node 1)"
    "h_code (pkt_header demo_ask) \<noteq> RPC_SHUTDOWN" "ans \<in> set (outbox ?nd)"
    "m_body (decode_pkt ans) = VoteRes \<lparr>rvr_term = 1, rvr_vote_granted = 1\<rparr>"
    "rvr_vote_granted \<lparr>rvr_term = 1, rvr_vote_granted = 1\<rparr> \<noteq> 0"
    using ans by (simp_all add: rpc_codes yes2_def)
  note vote_granted_conditions [OF demo_node(2) room this]
  then show ?thesis
    using ans(2) by (auto simp: decode_pkt_def yes2_def)
qed

text \<open>
  C17: \<open>log_is_up_to_date\<close> is the linear order of the logs by last term and length: a node grants
  its vote on the position a candidate sends exactly when its own log is not beyond the
  candidate's.
\<close>

theorem up_to_date_is_log_order:
  assumes "unix_ok nd" and "real_terms (node_entries nd)" and "real_terms fs"
    and "length fs \<le> log_capacity"
  shows "fst (log_is_up_to_date (u32_of_int (int (length fs) - 1))
      (log_term fs (int (length fs) - 1)) nd) \<longleftrightarrow> log_end (node_entries nd) \<le> log_end fs"
proof -
  have ok: "node_ok (file_log_ops undefined) log_good (file_fields_ops undefined) pf_good nd"
    using assms(1) unfolding unix_ok_node_ok [of nd undefined undefined] .
  have a: "a_log (view log_entries pf_field nd) = node_entries nd"
    by (simp add: view_def node_entries_def)
  have "length (node_entries nd) \<le> log_capacity"
    using file_env.log_capacity_sim [OF ok] by (simp add: a)
  then show ?thesis
    unfolding file_env.up_to_date_sim(3) [OF ok] a
    by (intro up_to_date_iff assms)
qed

theorem up_to_date_is_log_order_witness:
  "fst (log_is_up_to_date 0 1 (demo_node 1)) \<longleftrightarrow> log_end [] \<le> log_end [some_entry]"
  using up_to_date_is_log_order [OF demo_node(2) [of 1], of "[some_entry]"]
  by (simp add: real_terms_def log_capacity_def log_term_def some_entry_def)

section \<open>The log of a follower\<close>

lemma append_loop_merges:
  assumes "unix_ok nd" and "i \<le> length (node_entries nd)"
    and "length (node_entries nd) + length new \<le> log_capacity"
  shows "unix_ok (append_loop new (of_nat i) (int (length (node_entries nd))) nd)"
    and "node_entries (append_loop new (of_nat i) (int (length (node_entries nd))) nd) =
      merge_entries new i (node_entries nd)"
proof -
  have ok: "node_ok (file_log_ops undefined) log_good (file_fields_ops undefined) pf_good nd"
    using assms(1) unfolding unix_ok_node_ok [of nd undefined undefined] .
  have a: "a_log (view log_entries pf_field x) = node_entries x" for x :: unix_node
    by (simp add: view_def node_entries_def)
  have "int (length (node_entries nd)) + int (length new) \<le> int log_capacity"
    using assms(3) by (simp flip: of_nat_add)
  note sim = file_env.append_loop_sim [OF ok, of "int (length (node_entries nd))" new "of_nat i",
      unfolded a, OF of_nat_0_le_iff this assms(3)]
  show "unix_ok (append_loop new (of_nat i) (int (length (node_entries nd))) nd)"
    using sim(1) by (simp add: unix_ok_node_ok [of _ undefined undefined])
  have "node_entries (append_loop new (of_nat i) (int (length (node_entries nd))) nd) =
      a_append_loop new (of_nat i) (int (length (node_entries nd))) (node_entries nd)"
    using arg_cong [OF sim(2), of a_log] by (simp add: a)
  then show "node_entries (append_loop new (of_nat i) (int (length (node_entries nd))) nd) =
      merge_entries new i (node_entries nd)"
    using append_loop_merge [OF assms(2,3)] by simp
qed

text \<open>
  C15: the loop of the AppendEntries handler, on \<open>u32\<close> indexes and a local copy of the length,
  leaves in the files the merge of the request into the log.
\<close>

theorem append_loop_is_merge:
  assumes "unix_ok nd" and "i \<le> length (node_entries nd)"
    and "length (node_entries nd) + length new \<le> log_capacity"
  shows "node_entries (append_loop new (of_nat i) (int (length (node_entries nd))) nd) =
    merge_entries new i (node_entries nd)"
  using append_loop_merges(2) [OF assms] .

theorem append_loop_is_merge_witness:
  "node_entries (append_loop [some_entry, some_entry] 0 0 (demo_node 1)) = [some_entry, some_entry]"
  using append_loop_is_merge [OF demo_node(2) [of 1], of 0 "[some_entry, some_entry]"]
  by (simp add: log_capacity_def)

text \<open>
  After the loop the log agrees with its old value up to the point the request was checked
  at, and with the request from there on, entry by entry, as far as the request goes.
\<close>

theorem follower_log_matches_request:
  assumes "unix_ok nd" and "i \<le> length (node_entries nd)"
    and "length (node_entries nd) + length new \<le> log_capacity"
  shows "let es = node_entries (append_loop new (of_nat i) (int (length (node_entries nd))) nd)
    in take i es = take i (node_entries nd) \<and>
       map le_term (take (length new) (drop i es)) = map le_term new"
proof -
  let ?es = "merge_entries new i (node_entries nd)"
  have "i + length new \<le> length ?es" by (rule merge_length [OF assms(2)])
  then have "map le_term (take (length new) (drop i ?es)) = map le_term new"
    using merge_terms [OF assms(2), of _ new] by (intro nth_equalityI) simp_all
  then show ?thesis
    using append_loop_merges(2) [OF assms] merge_take [OF assms(2) order_refl, of new]
    by (simp add: Let_def)
qed

theorem follower_log_matches_request_witness:
  "map le_term (take 1 (node_entries (append_loop [some_entry] 0 0 (demo_node 1)))) = [1]"
  using follower_log_matches_request [OF demo_node(2) [of 1], of 0 "[some_entry]"]
  by (simp add: log_capacity_def some_entry_def Let_def)

text \<open>
  A request without a conflict never removes an entry, also when it is an old one that the
  log has already gone beyond; and a request that arrives a second time changes nothing.
\<close>

theorem follower_log_stable:
  assumes "unix_ok nd" and "i \<le> length (node_entries nd)"
    and "length (node_entries nd) + length new \<le> log_capacity"
    and "agrees new i (node_entries nd)"
  shows "let es = node_entries (append_loop new (of_nat i) (int (length (node_entries nd))) nd)
    in es = node_entries nd @ drop (length (node_entries nd) - i) new \<and>
       merge_entries new i es = es"
  unfolding Let_def append_loop_merges(2) [OF assms(1-3)]
  using merge_agrees [OF assms(2,4)] merge_again [OF assms(2)] by (intro conjI)

theorem follower_log_stable_witness:
  "node_entries (append_loop [some_entry] 0 0 (demo_node 1)) = [some_entry]"
  using follower_log_stable [OF demo_node(2) [of 1], of 0 "[some_entry]"]
  by (simp add: log_capacity_def agrees_def Let_def)

end
