(* ===== verification/Node_Commit.thy ===== *)
theory Node_Commit
  imports Node_Props Raft_Commit
begin

text \<open>
  Committing and applying, on one node: which index a leader commits, how far a node applies, and
  which clients are told that their request succeeded.
\<close>

section \<open>Answers to clients\<close>

text \<open>An answer that reports success is for an entry of the log at or before the commit index.\<close>

definition proper_answer :: "anode \<Rightarrow> amsg \<Rightarrow> bool" where
  "proper_answer a m \<longleftrightarrow> (case m_body m of
     ProcRes r \<Rightarrow> ps_success r = 0 \<or>
       a_role a = LEADER \<and> m_dst m = ps_client_id r \<and> ps_term r = a_term a \<and> (\<exists>i. int i \<le> a_commit a \<and>
         i < length (a_log a) \<and> le_client_id (a_log a ! i) = ps_client_id r \<and>
         le_cmd_seqno (a_log a ! i) = ps_cmd_seqno r)
   | _ \<Rightarrow> True)"

definition answers :: "anode \<Rightarrow> anode \<Rightarrow> anode \<Rightarrow> bool" where
  "answers b a a' \<longleftrightarrow> (\<exists>out. a_out a' = a_out a @ out \<and> list_all (proper_answer b) out)"

lemma answers_refl [simp]: "a_out a' = a_out a \<Longrightarrow> answers b a a'"
  by (simp add: answers_def)

lemma answers_trans: "answers b a1 a2 \<Longrightarrow> answers b a2 a3 \<Longrightarrow> answers b a1 a3"
  by (fastforce simp: answers_def)

lemma answers_send [simp]:
  "proper_answer b \<lparr>m_dst = dst, m_src = a_id a, m_body = body\<rparr> \<Longrightarrow> answers b a (a_send dst body a)"
  by (simp add: answers_def a_send_def)

lemma answers_broadcast [simp]:
  "(\<And>i. proper_answer b \<lparr>m_dst = i, m_src = a_id a, m_body = body i\<rparr>) \<Longrightarrow>
     answers b a (a_broadcast body a)"
  by (auto simp: answers_def a_broadcast_def list_all_iff)

lemma proper_answer_cong:
  "a_role b = a_role a \<Longrightarrow> a_term b = a_term a \<Longrightarrow> a_commit b = a_commit a \<Longrightarrow> a_log b = a_log a \<Longrightarrow>
     proper_answer b = proper_answer a"
  by (simp add: proper_answer_def fun_eq_iff cong: rpc_msg.case_cong)

lemma answers_cong:
  "a_role b = a_role c \<Longrightarrow> a_term b = a_term c \<Longrightarrow> a_commit b = a_commit c \<Longrightarrow> a_log b = a_log c \<Longrightarrow>
     answers b = answers c"
  using proper_answer_cong [of b c] by (simp add: answers_def [abs_def])

lemma apply_one_answers:
  assumes "a_applied a < a_commit a"
  shows "answers a a (a_apply_one a)"
proof -
  let ?i = "a_applied a + 1" and ?b = "a\<lparr>a_applied := a_applied a + 1\<rparr>"
  show ?thesis
  proof (cases "0 \<le> ?i \<and> ?i < int (length (a_log a)) \<and> a_role a = LEADER")
    case True
    then have "a_apply_one a = a_answer (a_log a ! nat ?i) ?b"
      by (simp add: a_apply_one_def Let_def)
    moreover have "int (nat ?i) \<le> a_commit a \<and> nat ?i < length (a_log a)" using True assms by auto
    ultimately show ?thesis
      using True unfolding a_answer_def
      by (auto simp: answers_def a_send_def proper_answer_def
          intro!: exI [of _ "nat (a_applied a + 1)"] split: option.split)
  next
    case False
    then have "a_apply_one a = ?b" by (auto simp: a_apply_one_def Let_def)
    then show ?thesis by simp
  qed
qed

lemma apply_answers [simp]: "answers (a_apply a) a (a_apply a)"
proof -
  have "answers a a (a_apply_n k a)" if "a_applied a + int k \<le> a_commit a" for k a
    using that
  proof (induction k arbitrary: a)
    case (Suc k)
    have "answers a a (a_apply_one a)" using Suc.prems by (intro apply_one_answers) simp
    moreover have "answers (a_apply_one a) (a_apply_one a) (a_apply_n k (a_apply_one a))"
      using Suc.prems by (intro Suc.IH) simp
    then have "answers a (a_apply_one a) (a_apply_n k (a_apply_one a))"
      using answers_cong [of "a_apply_one a" a] by simp
    ultimately show ?case using answers_trans by simp
  qed simp
  from this [of a "nat (a_commit a - a_applied a)"]
  have "answers a a (a_apply a)"
    by (cases "a_applied a \<le> a_commit a") (simp_all add: a_apply_def)
  then show ?thesis using answers_cong [of "a_apply a" a] by simp
qed

lemma not_an_answer [simp]:
  "proper_answer b \<lparr>m_dst = d, m_src = s, m_body = AppendReq q\<rparr>"
  "proper_answer b \<lparr>m_dst = d, m_src = s, m_body = AppendRes ar\<rparr>"
  "proper_answer b \<lparr>m_dst = d, m_src = s, m_body = VoteReq vq\<rparr>"
  "proper_answer b \<lparr>m_dst = d, m_src = s, m_body = VoteRes vr\<rparr>"
  "ps_success pr = 0 \<Longrightarrow> proper_answer b \<lparr>m_dst = d, m_src = s, m_body = ProcRes pr\<rparr>"
  by (simp_all add: proper_answer_def)

lemma answers_after: "answers b a2 a3 \<Longrightarrow> a_out a2 = a_out a1 \<Longrightarrow> answers b a1 a3"
  by (simp add: answers_def)

lemma update_commit_answers: "answers (a_update_commit req a) a (a_update_commit req a)"
  by (auto simp: a_update_commit_def intro: answers_after [OF apply_answers])

lemma append_to_log_answers: "answers (a_append_to_log req t a) a (a_append_to_log req t a)"
proof (cases "int (length (a_log a)) \<le> int_of_u32 (ae_prev_log_idx req) \<or>
    log_term (a_log a) (int_of_u32 (ae_prev_log_idx req)) \<noteq> ae_prev_log_term req")
  case True
  then show ?thesis by (auto simp: a_append_to_log_def a_append_response_def Let_def)
next
  case False
  define b where "b = a_update_commit req (a\<lparr>a_log := a_append_loop
    (take (unat (ae_n_entries req)) (ae_entries req)) (ae_prev_log_idx req + 1)
    (int (length (a_log a))) (a_log a)\<rparr>)"
  have run: "a_append_to_log req t a =
      a_append_response (ae_leader_id req) t (ae_prev_log_idx req + ae_n_entries req) 1 b"
    using False by (simp add: a_append_to_log_def b_def Let_def)
  have "answers b a b"
    unfolding b_def by (rule answers_after [OF update_commit_answers]) simp
  moreover have "answers b b (a_append_response dst t m ok b)" for dst m ok
    by (simp add: a_append_response_def)
  moreover have "answers (a_append_response dst t m ok b) = answers b" for dst m ok
    by (rule answers_cong) (simp_all add: a_append_response_def a_send_def)
  ultimately show ?thesis unfolding run using answers_trans by metis
qed

lemma handle_answers: "answers (a_handle m a) a (a_handle m a)"
proof (cases "m_body m")
  case (AppendReq req)
  then show ?thesis
    by (auto simp: a_handle_def a_append_request_handler_def a_become_follower_def
        a_append_response_def intro: answers_after [OF append_to_log_answers])
next
  case (AppendRes resp)
  have "answers (a_apply (a_advance_commit b)) a (a_apply (a_advance_commit b))"
    if "a_out b = a_out a" for b
    using that by (cases rule: advance_commit_cases [of b])
      (auto intro: answers_after [OF apply_answers])
  then show ?thesis
    using AppendRes
    by (auto simp: a_handle_def a_append_response_handler_def a_become_follower_def)
next
  case (VoteReq req)
  then show ?thesis
    by (auto simp: a_handle_def a_vote_request_handler_def a_decide_vote_def a_become_follower_def
        a_vote_response_def Let_def intro: answers_after [OF answers_send])
next
  case (VoteRes resp)
  have "answers c b (a_send_heartbeats b)" for b c by (simp add: a_send_heartbeats_def)
  then have "a_out b = a_out a \<Longrightarrow> answers c a (a_send_heartbeats b)" for b c
    using answers_after by blast
  then show ?thesis
    using VoteRes
    by (auto simp: a_handle_def a_vote_response_handler_def a_become_follower_def a_become_leader_def
        Let_def)
next
  case (ProcReq req)
  have "answers c b (a_broadcast_entries b)" for b c by (simp add: a_broadcast_entries_def)
  then have "a_out b = a_out a \<Longrightarrow> answers c a (a_broadcast_entries b)" for b c
    using answers_after by blast
  then show ?thesis
    using ProcReq
    by (auto simp: a_handle_def a_proc_request_handler_def Let_def split: option.split)
qed (simp_all add: a_handle_def)

lemma receive_answers: "answers (a_receive m a) a (a_receive m a)"
  by (simp add: a_receive_def handle_answers)

section \<open>Properties\<close>

text \<open>An index the leader may commit, on the state of the program.\<close>

definition majority_has :: "unix_node \<Rightarrow> int \<Rightarrow> bool" where
  "majority_has nd n \<longleftrightarrow> 0 \<le> n \<and> n < int (length (node_entries nd)) \<and>
     le_term (node_entries nd ! nat n) = node_term nd \<and>
     cfg_num_nodes (config nd) div 2 < match_count n nd"

lemma majority_has_view:
  "0 \<le> n \<Longrightarrow> n < int (length (node_entries nd)) \<Longrightarrow>
     majority_has nd n = committable (unix_view nd) n"
  by (simp add: majority_has_def committable_def view_fields node_entries_def log_term_def
      match_count_def a_match_count_def a_peers_def node_ids_def conj_commute)

text \<open>
  The answers a leader counts: those of a node of the cluster, of its own term, that report success.
\<close>

definition acknowledges :: "pkt_t \<Rightarrow> append_entries_res_t \<Rightarrow> unix_node \<Rightarrow> bool" where
  "acknowledges pkt resp nd \<longleftrightarrow> rpc_unpack_append_entries_res pkt = Some resp \<and> role nd = LEADER \<and>
     aer_term resp = node_term nd \<and> aer_success resp \<noteq> 0 \<and>
     unat (h_src (pkt_header pkt)) < length (match_index nd) \<and>
     unat (h_src (pkt_header pkt)) < length (next_index nd)"

text \<open>The handler of the specification on an answer that counts, and on any other one.\<close>

lemma counted_answer:
  assumes "a_role a = LEADER" and "aer_term resp = a_term a" and "aer_success resp \<noteq> 0"
    and "unat src < length (a_match a)" and "unat src < length (a_next a)"
  defines "b \<equiv> a_append_response_handler src resp a"
  shows "a_match b = (a_match a)[unat src := int_of_u32 (aer_new_match_index resp)]"
    and "a_log b = a_log a" and "a_applied b = max (a_applied a) (a_commit b)"
    and "a_commit a < n \<Longrightarrow> n < int (length (a_log b)) \<Longrightarrow> committable b n \<Longrightarrow> n \<le> a_commit b"
    and "a_commit b = a_commit a \<or> a_commit a < a_commit b \<and> a_commit b < int (length (a_log b)) \<and>
      committable b (a_commit b)"
proof -
  define c where "c = a\<lparr>a_match := (a_match a)[unat src := int_of_u32 (aer_new_match_index resp)],
      a_next := (a_next a)[unat src := u32_of_int (int (length (a_log a)))]\<rparr>"
  have c: "a_commit c = a_commit a" "a_log c = a_log a" "a_applied c = a_applied a"
    "a_match c = (a_match a)[unat src := int_of_u32 (aer_new_match_index resp)]"
    by (simp_all add: c_def)
  have b: "b = a_apply (a_advance_commit c)"
    using assms(1-5) by (simp add: b_def a_append_response_handler_def c_def)
  have "(\<forall>n. a_commit a < n \<and> n < int (length (a_log b)) \<and> committable b n \<longrightarrow> n \<le> a_commit b) \<and>
      (a_commit b = a_commit a \<or> a_commit a < a_commit b \<and> a_commit b < int (length (a_log b)) \<and>
        committable b (a_commit b)) \<and> a_match b = a_match c \<and> a_log b = a_log c \<and>
      a_applied b = max (a_applied c) (a_commit b)"
  proof (cases rule: advance_commit_cases [of c])
    case none
    then show ?thesis by (auto simp: b c(1))
  next
    case (some m)
    have "n \<le> m" if "n < int (length (a_log c))" "committable c n" for n
      using some(5) [of n] that by (cases "m < n") simp_all
    then show ?thesis using some(1-4) by (simp add: b c(1))
  qed
  then show "a_match b = (a_match a)[unat src := int_of_u32 (aer_new_match_index resp)]"
    and "a_log b = a_log a" and "a_applied b = max (a_applied a) (a_commit b)"
    and "a_commit a < n \<Longrightarrow> n < int (length (a_log b)) \<Longrightarrow> committable b n \<Longrightarrow> n \<le> a_commit b"
    and "a_commit b = a_commit a \<or> a_commit a < a_commit b \<and> a_commit b < int (length (a_log b)) \<and>
      committable b (a_commit b)"
    unfolding c by blast+
qed

lemma uncounted_answer:
  assumes "\<not> (a_role a = LEADER \<and> aer_term resp = a_term a \<and> aer_success resp \<noteq> 0 \<and>
    unat src < length (a_match a) \<and> unat src < length (a_next a))"
  shows "a_commit (a_append_response_handler src resp a) = a_commit a"
  using assms by (auto simp: a_append_response_handler_def a_become_follower_def not_less)

text \<open>
  C18: on an answer to AppendEntries that counts, a leader takes the index that the follower
  reports, and its commit index becomes the largest index that holds an entry of its term and that
  a majority has, if one is beyond the old commit index, and else stays; it applies up to there. On
  any other answer, and on any other node, the commit index stays as it is.
\<close>

theorem commit_rule:
  assumes "unix_ok nd" and "has_room (unix_view nd)" and "h_dst (pkt_header pkt) = node_id nd"
    and "h_code (pkt_header pkt) = RPC_RESP_APPEND_ENT" and "-1 \<le> commit_index nd"
  shows "let nd' = raft_run_step (1, pkt) nd in
    (\<forall>resp. acknowledges pkt resp nd \<longrightarrow>
      match_index nd' = (match_index nd)
        [unat (h_src (pkt_header pkt)) := int_of_u32 (aer_new_match_index resp)] \<and>
      (\<forall>n. commit_index nd < n \<and> majority_has nd' n \<longrightarrow> n \<le> commit_index nd') \<and>
      (commit_index nd' = commit_index nd \<or>
        commit_index nd < commit_index nd' \<and> majority_has nd' (commit_index nd')) \<and>
      last_applied nd' = max (last_applied nd) (commit_index nd')) \<and>
    ((\<nexists>resp. acknowledges pkt resp nd) \<longrightarrow> commit_index nd' = commit_index nd)"
proof -
  let ?nd = "raft_run_step (1, pkt) nd" and ?a = "unix_view nd" and ?src = "h_src (pkt_header pkt)"
  have more: "a_applied (unix_view x) = last_applied x" "a_log (unix_view x) = node_entries x"
    "a_next (unix_view x) = next_index x" for x
    by (simp_all add: node_entries_def unix_view_def view_def)
  note fields = view_fields(2,6-8) more
  have v: "unix_view ?nd = (case rpc_unpack_append_entries_res pkt of None \<Rightarrow> ?a
      | Some resp \<Rightarrow> a_append_response_handler ?src resp ?a)"
    using unix_receive(2) [OF assms(1,2), of pkt] assms(3,4)
    by (simp add: a_receive_def a_handle_def decode_pkt_def decode_body_def Let_def rpc_codes view_fields
        split: option.split)
  have counts: "match_index ?nd = (match_index nd)[unat ?src := int_of_u32 (aer_new_match_index resp)] \<and>
      (\<forall>n. commit_index nd < n \<and> majority_has ?nd n \<longrightarrow> n \<le> commit_index ?nd) \<and>
      (commit_index ?nd = commit_index nd \<or>
        commit_index nd < commit_index ?nd \<and> majority_has ?nd (commit_index ?nd)) \<and>
      last_applied ?nd = max (last_applied nd) (commit_index ?nd)"
    if ack: "acknowledges pkt resp nd" for resp
  proof -
    have w: "unix_view ?nd = a_append_response_handler ?src resp ?a"
      using v ack by (simp add: acknowledges_def)
    have pre: "a_role ?a = LEADER" "aer_term resp = a_term ?a" "aer_success resp \<noteq> 0"
      "unat ?src < length (a_match ?a)" "unat ?src < length (a_next ?a)"
      using ack by (simp_all add: acknowledges_def fields)
    note c = counted_answer [OF pre, folded w, unfolded fields]
    have "n \<le> commit_index ?nd" if "commit_index nd < n" "majority_has ?nd n" for n
      using c(4) [of n] that majority_has_view [of n ?nd] assms(5) by (auto simp: majority_has_def)
    moreover have "majority_has ?nd (commit_index ?nd)"
      if "commit_index nd < commit_index ?nd" using c(5) that majority_has_view [of "commit_index ?nd" ?nd] assms(5) by auto
    ultimately show ?thesis using c(1,3,5) by blast
  qed
  have "commit_index ?nd = commit_index nd" if "\<nexists>resp. acknowledges pkt resp nd"
  proof (cases "rpc_unpack_append_entries_res pkt")
    case None
    then have "unix_view ?nd = ?a" using v by simp
    then show ?thesis using fields(2) by (metis (no_types))
  next
    case (Some resp)
    then have w: "unix_view ?nd = a_append_response_handler ?src resp ?a" using v by simp
    have "\<not> acknowledges pkt resp nd" using that by blast
    then have "a_commit (unix_view ?nd) = a_commit ?a"
      unfolding w using Some by (intro uncounted_answer) (simp add: acknowledges_def fields)
    then show ?thesis by (simp add: fields)
  qed
  then show ?thesis unfolding Let_def using counts by blast
qed

text \<open>
  C19: a client is told that its request succeeded only by a leader, and only when the entry of the
  request is in the leader's log at or before the commit index.
\<close>

theorem answered_requests_are_committed:
  assumes "unix_ok nd" and "has_room (unix_view nd)" and "outbox nd = []"
    and "ans \<in> set (outbox (raft_run_step (1, pkt) nd))"
    and "m_body (decode_pkt ans) = ProcRes r" and "ps_success r \<noteq> 0"
  shows "let nd' = raft_run_step (1, pkt) nd in
    role nd' = LEADER \<and> h_dst (pkt_header ans) = ps_client_id r \<and>
    (\<exists>i. int i \<le> commit_index nd' \<and> i < length (node_entries nd') \<and>
      le_client_id (node_entries nd' ! i) = ps_client_id r \<and>
      le_cmd_seqno (node_entries nd' ! i) = ps_cmd_seqno r)"
proof -
  let ?nd = "raft_run_step (1, pkt) nd"
  have "answers (unix_view ?nd) (unix_view nd) (unix_view ?nd)"
    unfolding unix_receive(2) [OF assms(1,2)] by (rule receive_answers)
  then have "list_all (proper_answer (unix_view ?nd)) (map decode_pkt (outbox ?nd))"
    using assms(3) by (auto simp: answers_def view_fields)
  then have "proper_answer (unix_view ?nd) (decode_pkt ans)"
    using assms(4) by (simp add: list_all_iff)
  then show ?thesis
    using assms(5,6)
    by (simp add: proper_answer_def view_fields node_entries_def Let_def) (simp add: decode_pkt_def)
qed

section \<open>A leader that commits a request\<close>

text \<open>
  Node 0 of the two nodes as a leader with an empty log; a request of client 9; the answer of
  node 1 that it has the entry.
\<close>

definition demo_leader :: unix_node where
  "demo_leader = (demo_node 0)\<lparr>role := LEADER, match_index := [-1, -1], next_index := [0, 0]\<rparr>"

definition demo_request :: pkt_t where
  "demo_request = snd (rpc_pack_proc_req zero_pkt 0 9
     \<lparr>pr_client_id = 9, pr_cmd_seqno = 1, pr_cmd = 7\<rparr>)"

definition demo_stored :: pkt_t where
  "demo_stored = snd (rpc_pack_append_entries_res zero_pkt 0 1
     \<lparr>aer_term = 0, aer_new_match_index = 0, aer_success = 1\<rparr>)"

definition demo_asked :: unix_node where
  "demo_asked = (raft_run_step (1, demo_request) demo_leader)\<lparr>outbox := []\<rparr>"

lemma first_slot:
  "0 < n \<Longrightarrow> or_active r = 0 \<Longrightarrow> find_inactive (replicate n r) = Some 0"
  "0 < n \<Longrightarrow> or_active x \<noteq> 0 \<Longrightarrow>
     find_outstanding ((replicate n r)[0 := x]) (or_client_id x) (or_cmd_seqno x) = Some 0"
  by (cases n; simp)+

definition demo_entry :: log_entry_t where
  "demo_entry = \<lparr>le_term = 0, le_client_id = 9, le_cmd_seqno = 1, le_cmd = 7\<rparr>"

definition demo_waiting :: anode where
  "demo_waiting = (boot2 0)\<lparr>a_role := LEADER, a_match := [-1, -1], a_next := [0, 0],
     a_log := [demo_entry],
     a_reqs := (replicate MAX_OUTSTANDING_REQUESTS zero_outstanding)
       [0 := \<lparr>or_client_id = 9, or_cmd_seqno = 1, or_log_idx = 0, or_active = 1\<rparr>]\<rparr>"

lemma demo_leader:
  "unix_ok demo_leader"
  "unix_view demo_leader = (boot2 0)\<lparr>a_role := LEADER, a_match := [-1, -1], a_next := [0, 0]\<rparr>"
  using demo_node(2) [of 0] unfolding demo_node(3) [of 0, symmetric]
  by (simp_all add: demo_leader_def unix_ok_def unix_view_def view_def node_id_def)

lemma demo_asked:
  "unix_ok demo_asked" "unix_view demo_asked = demo_waiting"
proof -
  have room: "has_room (unix_view demo_leader)"
    by (simp add: demo_leader boot2_def a_boot_def has_room_def log_capacity_def)
  note step = unix_receive [OF demo_leader(1) room, of demo_request]
  show "unix_ok demo_asked" using step(1) by (simp add: demo_asked_def)
  show "unix_view demo_asked = demo_waiting"
    unfolding demo_asked_def unix_view_update step(2) demo_leader(2)
    by (simp add: demo_request_def decode_packed(4) [OF wf_zero_pkt] a_receive_def a_handle_def
        a_proc_request_handler_def boot2_def a_boot_def first_slot MAX_OUTSTANDING_REQUESTS_def
        zero_outstanding_def a_broadcast_entries_def a_broadcast_def demo_waiting_def
        demo_entry_def Let_def)
qed

lemma demo_stored:
  "decode_pkt demo_stored = \<lparr>m_dst = 0, m_src = 1,
     m_body = AppendRes \<lparr>aer_term = 0, aer_new_match_index = 0, aer_success = 1\<rparr>\<rparr>"
  "h_dst (pkt_header demo_stored) = 0" "h_code (pkt_header demo_stored) = RPC_RESP_APPEND_ENT"
  unfolding demo_stored_def decode_packed(1) [OF wf_zero_pkt]
  by (simp_all add: rpc_pack_append_entries_res_def finish_pack_def set_header_def Let_def)

lemma demo_committed:
  "a_commit (a_receive (decode_pkt demo_stored) demo_waiting) = 0"
  "a_out (a_receive (decode_pkt demo_stored) demo_waiting) = [\<lparr>m_dst = 9, m_src = 0,
     m_body = ProcRes \<lparr>ps_client_id = 9, ps_cmd_seqno = 1, ps_success = 1, ps_leader_hint = 0,
       ps_term = 0\<rparr>\<rparr>]"
proof -
  let ?b = "demo_waiting\<lparr>a_match := [-1, 0], a_next := [0, 1]\<rparr>"
  have run: "a_receive (decode_pkt demo_stored) demo_waiting = a_apply (a_advance_commit ?b)"
    by (simp add: demo_stored(1) a_receive_def a_handle_def a_append_response_handler_def
        demo_waiting_def boot2_def a_boot_def)
  have "a_advance_commit ?b = ?b\<lparr>a_commit := 0\<rparr>"
    by (simp add: a_advance_commit_def a_commit_step_def demo_waiting_def boot2_def a_boot_def
        log_term_def demo_entry_def a_match_count_def a_peers_def demo_peers)
  note run = run [unfolded this]
  show "a_commit (a_receive (decode_pkt demo_stored) demo_waiting) = 0"
    "a_out (a_receive (decode_pkt demo_stored) demo_waiting) = [\<lparr>m_dst = 9, m_src = 0,
     m_body = ProcRes \<lparr>ps_client_id = 9, ps_cmd_seqno = 1, ps_success = 1, ps_leader_hint = 0,
       ps_term = 0\<rparr>\<rparr>]"
    using first_slot(2) [of MAX_OUTSTANDING_REQUESTS
        "\<lparr>or_client_id = 9, or_cmd_seqno = 1, or_log_idx = 0, or_active = 1\<rparr>" zero_outstanding]
    unfolding run by (simp_all add: a_apply_def a_apply_one_def demo_waiting_def boot2_def a_boot_def
        demo_entry_def a_answer_def a_send_def MAX_OUTSTANDING_REQUESTS_def)
qed

lemma demo_ready:
  "has_room (unix_view demo_asked)" "node_id demo_asked = 0" "commit_index demo_asked = -1"
  "outbox demo_asked = []"
proof -
  show "has_room (unix_view demo_asked)"
    by (simp add: demo_asked demo_waiting_def has_room_def log_capacity_def)
  show "node_id demo_asked = 0" "commit_index demo_asked = -1"
    using demo_asked(2) view_fields(4,6) [of demo_asked]
    by (simp_all add: demo_waiting_def boot2_def a_boot_def)
  show "outbox demo_asked = []" by (simp add: demo_asked_def)
qed

theorem commit_rule_witness:
  "commit_index demo_asked = -1 \<and> commit_index (raft_run_step (1, demo_stored) demo_asked) = 0 \<and>
   match_index (raft_run_step (1, demo_stored) demo_asked) = [-1, 0] \<and>
   majority_has (raft_run_step (1, demo_stored) demo_asked) 0"
proof -
  let ?resp = "\<lparr>aer_term = 0, aer_new_match_index = 0, aer_success = 1\<rparr>"
  have fields: "role demo_asked = LEADER" "node_term demo_asked = 0" "match_index demo_asked = [-1, -1]"
    "next_index demo_asked = [0, 0]"
    using demo_asked(2) view_fields(2,7,8) [of demo_asked]
    by (simp_all add: demo_waiting_def boot2_def a_boot_def) (simp add: unix_view_def view_def)
  have "commit_index (raft_run_step (1, demo_stored) demo_asked) = 0"
    using demo_committed(1) unix_receive(2) [OF demo_asked(1) demo_ready(1), of demo_stored]
    by (simp add: demo_asked(2) flip: view_fields)
  moreover have src: "h_src (pkt_header demo_stored) = 1" "rpc_unpack_append_entries_res demo_stored = Some ?resp"
    using demo_stored(1,3)
    by (auto simp: decode_pkt_def decode_body_def Let_def rpc_codes split: option.splits)
  then have "acknowledges demo_stored ?resp demo_asked"
    by (simp add: acknowledges_def fields)
  ultimately show ?thesis
    using commit_rule [OF demo_asked(1) demo_ready(1), of demo_stored] demo_ready demo_stored src(1) fields(3)
    by (auto simp: Let_def)
qed

theorem answered_requests_are_committed_witness:
  "role (raft_run_step (1, demo_stored) demo_asked) = LEADER \<and>
   (\<exists>ans. outbox (raft_run_step (1, demo_stored) demo_asked) = [ans] \<and> h_dst (pkt_header ans) = 9)"
proof -
  let ?r = "\<lparr>ps_client_id = 9, ps_cmd_seqno = 1, ps_success = 1, ps_leader_hint = 0, ps_term = 0\<rparr>"
  have "a_out (unix_view (raft_run_step (1, demo_stored) demo_asked)) =
      [\<lparr>m_dst = 9, m_src = 0, m_body = ProcRes ?r\<rparr>]"
    unfolding unix_receive(2) [OF demo_asked(1) demo_ready(1)] demo_asked(2) demo_committed(2) ..
  then obtain ans where ans: "outbox (raft_run_step (1, demo_stored) demo_asked) = [ans]"
    "m_body (decode_pkt ans) = ProcRes ?r"
    by (metis amsg.select_convs(3) sole_packet)
  then show ?thesis
    using answered_requests_are_committed [OF demo_asked(1) demo_ready(1,4), of ans demo_stored]
    by (simp add: Let_def)
qed

end
