(* ===== verification/Node_Start.thy ===== *)
theory Node_Start
  imports Node_Commit
begin

text \<open>
  Properties of the start of a node: the command line, the state a new process finds on disk, and
  its first timer. The last section shows that a heartbeat can move a commit index backwards.
\<close>

section \<open>The list of peers\<close>


definition token :: "char \<Rightarrow> string \<Rightarrow> bool" where
  "token d t \<longleftrightarrow> t \<noteq> [] \<and> d \<notin> set t"



lemma split_at_tokens:
  "d \<notin> set tok \<Longrightarrow> list_all (token d) (split_at d cs tok)"
  by (induction cs arbitrary: tok) (auto simp: token_def)

section \<open>The command line\<close>

text \<open>
  C37: a command line that is accepted gives a configuration the core can work with: between 1 and
  128 peers, each a non-empty address without a comma, an identifier below their number, and
  bounds of the timeout in order.
\<close>

theorem accepted_configuration:
  assumes "node_config args = Inr (cfg, peers)"
  shows "cfg_id cfg < cfg_num_nodes cfg \<and> cfg_num_nodes cfg \<le> 128 \<and>
    unat (cfg_num_nodes cfg) = length peers \<and> list_all (token (CHR '','')) peers \<and>
    cfg_timeout_lb_ms cfg \<le> cfg_timeout_ub_ms cfg"
proof -
  obtain s where "peers = take 128 (strtok_all (CHR '','') s)"
    and "cfg_timeout_lb_ms cfg \<le> cfg_timeout_ub_ms cfg"
    using assms by (auto simp: node_config_def Let_def split: option.splits if_splits)
  moreover have "list_all (token (CHR '','')) (strtok_all (CHR '','') s)" for s
    unfolding strtok_all_def by (rule split_at_tokens) simp
  ultimately show ?thesis
    using node_config_bounds [OF assms] by (auto simp: list_all_iff dest: in_set_takeD)
qed

lemma two_peers:
  "\<exists>cfg. node_config [''--id'', ''1'', ''--peers'', ''127.0.0.1:8000,127.0.0.1:8001''] =
     Inr (cfg, [''127.0.0.1:8000'', ''127.0.0.1:8001''])"
  by (simp add: node_config_def default_opts_def strtok_all_def atoi_def take_sign_def is_space_def
      is_digit_def digits_value_def of_char_def Let_def word_le_nat_alt)

theorem accepted_configuration_witness:
  "\<exists>cfg. node_config [''--id'', ''1'', ''--peers'', ''127.0.0.1:8000,127.0.0.1:8001''] =
     Inr (cfg, [''127.0.0.1:8000'', ''127.0.0.1:8001'']) \<and> unat (cfg_num_nodes cfg) = 2"
proof -
  obtain cfg where "node_config [''--id'', ''1'', ''--peers'', ''127.0.0.1:8000,127.0.0.1:8001''] =
      Inr (cfg, [''127.0.0.1:8000'', ''127.0.0.1:8001''])"
    using two_peers by blast
  then show ?thesis using accepted_configuration by fastforce
qed



section \<open>Starting again\<close>

text \<open>
  C26: a node started on the files another process left, wherever its loop ended, has the term, the
  vote and the log that process had, and is a follower that has committed nothing.
\<close>

theorem restart_restores_state:
  assumes "unix_ok nd" and "wf_os os" and "cfg_accrual_window_size cfg \<noteq> 0"
  shows "\<exists>nd'. start_node cfg (disk (f_content (log_fd (log_context (node_log nd)))))
      (disk (f_content (meta_fd (log_context (node_log nd)))))
      (disk (f_content (pf_fd (pf_context (hard_state nd))))) heap ns ms lines os = Some nd' \<and>
    unix_ok nd' \<and> node_term nd' = node_term nd \<and> node_vote nd' = node_vote nd \<and>
    node_entries nd' = node_entries nd \<and> role nd' = FOLLOWER \<and> commit_index nd' = -1"
proof -
  obtain nd' where nd': "start_node cfg (disk (f_content (log_fd (log_context (node_log nd)))))
      (disk (f_content (meta_fd (log_context (node_log nd)))))
      (disk (f_content (pf_fd (pf_context (hard_state nd))))) heap ns ms lines os = Some nd'"
    "unix_ok nd'" "unix_view nd' = a_boot (cfg_id cfg) (cfg_num_nodes cfg)
      (a_log (unix_view nd)) (a_term (unix_view nd)) (a_vote (unix_view nd)) ns ms"
    using start_node_again [OF assms] by blast
  then show ?thesis
    using view_fields [of nd'] by (auto simp: a_boot_def view_fields node_entries_def node_vote_def)
qed

theorem restart_restores_state_witness:
  "\<exists>nd. unix_ok nd \<and> node_vote nd = 0 \<and> node_term nd = 1 \<and> role nd = FOLLOWER"
proof -
  let ?nd = "raft_run_step (1, demo_ask) (demo_node 1)"
  have room: "has_room (unix_view (demo_node 1))" by (simp add: demo_node)
  note v = unix_receive [OF demo_node(2) room, of demo_ask]
  have "a_vote (unix_view ?nd) = 0 \<and> a_term (unix_view ?nd) = 1"
    unfolding v(2)
    by (simp add: demo_node(3) a_receive_def a_handle_def ask2_def boot2_def a_boot_def
      a_vote_request_handler_def a_decide_vote_def a_become_follower_def up_to_date_def log_term_def
      a_vote_response_def a_send_def PF_NO_VOTE_V_def)
  then have "node_vote ?nd = 0" "node_term ?nd = 1" by (simp_all add: view_fields node_vote_def)
  then show ?thesis
    using restart_restores_state [OF v(1) demo_wf(1), of "demo_cfg 1" "(0, 0)" "[]" "[]" "[]"]
    by (auto simp: demo_cfg_def)
qed

text \<open>
  The first timer of a node has the bounds of the configuration, in milliseconds, as a number
  of microseconds: with the default options it ends within two milliseconds and not two seconds.
\<close>

theorem first_timeout:
  assumes "start_node cfg lf mf sf heap ns ms lines os = Some nd"
    and "cfg_timeout_lb_ms cfg < cfg_timeout_ub_ms cfg"
  shows "ucast (cfg_timeout_lb_ms cfg) \<le> duration_usec (timer nd) \<and>
    duration_usec (timer nd) < ucast (cfg_timeout_ub_ms cfg)"
  using assms random_timeout_range [OF assms(2)]
  by (auto simp: start_node_def timer_reset_def split_beta Let_def split: option.splits)

theorem first_timeout_witness: "duration_usec (timer (demo_node 0)) < 2000"
  using first_timeout [OF demo_node(1) [of 0]] by (simp add: demo_cfg_def)

section \<open>A commit index that moves backwards\<close>

definition demo_append :: pkt_t where
  "demo_append = snd (rpc_pack_append_entries_req zero_pkt 1 0
     \<lparr>ae_term = 0, ae_leader_id = 0, ae_prev_log_idx = -1, ae_prev_log_term = 0,
      ae_leader_commit = 0, ae_n_entries = 1, ae_entries = [demo_entry]\<rparr>)"

definition demo_heartbeat :: pkt_t where
  "demo_heartbeat = snd (rpc_pack_append_entries_req zero_pkt 1 0
     \<lparr>ae_term = 0, ae_leader_id = 0, ae_prev_log_idx = -1, ae_prev_log_term = 0,
      ae_leader_commit = 1, ae_n_entries = 0, ae_entries = []\<rparr>)"

lemma view_applied: "a_applied (unix_view nd) = last_applied nd"
  by (simp add: unix_view_def view_def)

lemma demo_appends:
  "decode_pkt demo_append = \<lparr>m_dst = 1, m_src = 0, m_body = AppendReq
     \<lparr>ae_term = 0, ae_leader_id = 0, ae_prev_log_idx = -1, ae_prev_log_term = 0,
      ae_leader_commit = 0, ae_n_entries = 1, ae_entries = [demo_entry]\<rparr>\<rparr>"
  "decode_pkt demo_heartbeat = \<lparr>m_dst = 1, m_src = 0, m_body = AppendReq
     \<lparr>ae_term = 0, ae_leader_id = 0, ae_prev_log_idx = -1, ae_prev_log_term = 0,
      ae_leader_commit = 1, ae_n_entries = 0, ae_entries = []\<rparr>\<rparr>"
  by (simp_all add: demo_append_def demo_heartbeat_def decode_packed(6) [OF wf_zero_pkt] wf_ae_def
      MAX_APPEND_ENTRIES_N_def)

text \<open>
  C38: a heartbeat of the leader of its term, for an index of the follower's log that is before the
  follower's commit index, and that announces a commit index beyond the follower's, takes the commit
  index of the follower back to the index of the heartbeat. The log and what was applied stay.
\<close>

theorem heartbeat_lowers_commit_index:
  assumes "unix_ok nd" and "has_room (unix_view nd)" and "role nd = FOLLOWER"
    and "h_dst (pkt_header pkt) = node_id nd" and "decode_body pkt = AppendReq req"
    and "0 \<le> int_of_u32 (node_term nd)" and "ae_term req = node_term nd" and "ae_n_entries req = 0"
    and "int_of_u32 (ae_prev_log_idx req) < int (length (node_entries nd))"
    and "ae_prev_log_term req = log_term (node_entries nd) (int_of_u32 (ae_prev_log_idx req))"
    and "int_of_u32 (ae_prev_log_idx req) < commit_index nd"
    and "commit_index nd < ae_leader_commit req"
  shows "let nd' = raft_run_step (1, pkt) nd in
    commit_index nd' = int_of_u32 (ae_prev_log_idx req) \<and> commit_index nd' < commit_index nd \<and>
    node_entries nd' = node_entries nd \<and>
    last_applied nd' = max (last_applied nd) (commit_index nd')"
proof -
  let ?nd = "raft_run_step (1, pkt) nd" and ?a = "unix_view nd"
  have fields: "a_log (unix_view x) = node_entries x" "a_applied (unix_view x) = last_applied x"
    "a_term (unix_view x) = node_term x" "a_role (unix_view x) = role x"
    "a_commit (unix_view x) = commit_index x" for x
    by (simp_all add: view_fields view_applied node_entries_def)
  have "unix_view ?nd = a_append_request_handler req ?a"
    using unix_receive(2) [OF assms(1,2), of pkt] assms(4,5)
    by (simp add: a_receive_def a_handle_def decode_pkt_def view_fields)
  also have "\<dots> = a_append_response (ae_leader_id req) (node_term nd) (ae_prev_log_idx req) 1
      (a_apply (?a\<lparr>a_leader := ae_leader_id req, a_log := node_entries nd, a_commit := int_of_u32 (ae_prev_log_idx req)\<rparr>))"
    using assms by (simp add: a_append_request_handler_def a_append_to_log_def a_update_commit_def
        fields Let_def min_def)
  finally have "commit_index ?nd = int_of_u32 (ae_prev_log_idx req) \<and> node_entries ?nd = node_entries nd \<and>
      last_applied ?nd = max (last_applied nd) (int_of_u32 (ae_prev_log_idx req))"
    by (simp add: a_append_response_def a_send_def flip: fields)
  then show ?thesis using assms(11) by (simp add: Let_def)
qed

text \<open>A follower that took an entry and its commit index, and then hears of the beginning of the log.\<close>

definition demo_follower :: unix_node where
  "demo_follower = raft_run_step (1, demo_append) (demo_node 1)"

lemma demo_follower:
  "unix_ok demo_follower" "unix_view demo_follower = (boot2 1)\<lparr>a_log := [demo_entry], a_leader := 0,
      a_commit := 0, a_applied := 0, a_out := [\<lparr>m_dst = 0, m_src = 1, m_body = AppendRes
        \<lparr>aer_term = 0, aer_new_match_index = 0, aer_success = 1\<rparr>\<rparr>]\<rparr>"
proof -
  have room: "has_room (unix_view (demo_node 1))" by (simp add: demo_node)
  note v = unix_receive [OF demo_node(2) room, of demo_append]
  show "unix_ok demo_follower" unfolding demo_follower_def by (rule v(1))
  show "unix_view demo_follower = (boot2 1)\<lparr>a_log := [demo_entry], a_leader := 0,
      a_commit := 0, a_applied := 0, a_out := [\<lparr>m_dst = 0, m_src = 1, m_body = AppendRes
        \<lparr>aer_term = 0, aer_new_match_index = 0, aer_success = 1\<rparr>\<rparr>]\<rparr>"
    unfolding demo_follower_def v(2) demo_node(3) demo_appends
    by (simp add: a_receive_def a_handle_def a_append_request_handler_def a_append_to_log_def
        log_term_def list_write_def a_update_commit_def a_apply_def a_apply_one_def a_append_response_def
        a_send_def boot2_def a_boot_def Let_def)
qed

theorem heartbeat_lowers_commit_index_witness:
  "commit_index demo_follower = 0 \<and> commit_index (raft_run_step (1, demo_heartbeat) demo_follower) = -1 \<and>
   last_applied (raft_run_step (1, demo_heartbeat) demo_follower) = 0"
proof -
  let ?req = "\<lparr>ae_term = 0, ae_leader_id = 0, ae_prev_log_idx = -1, ae_prev_log_term = 0,
      ae_leader_commit = 1, ae_n_entries = 0, ae_entries = []\<rparr>"
  have fields: "commit_index demo_follower = 0" "role demo_follower = FOLLOWER" "node_term demo_follower = 0"
    "node_entries demo_follower = [demo_entry]" "node_id demo_follower = 1" "last_applied demo_follower = 0"
    using demo_follower(2) view_fields(1,2,4,6,8) [of demo_follower] view_applied [of demo_follower]
    by (simp_all add: boot2_def a_boot_def node_entries_def)
  have room: "has_room (unix_view demo_follower)"
    by (simp add: demo_follower(2) has_room_def log_capacity_def)
  have pkt: "h_dst (pkt_header demo_heartbeat) = 1" "decode_body demo_heartbeat = AppendReq ?req"
    using demo_appends(2) by (simp_all add: decode_pkt_def)
  show ?thesis
    using heartbeat_lowers_commit_index [OF demo_follower(1) room fields(2) _ pkt(2)] pkt(1) fields
    by (simp add: log_term_def Let_def)
qed

end
