(* ===== verification/Log_Matching.thy ===== *)
theory Log_Matching
  imports Election Log_Merge "HOL-Library.Sublist"
begin

text \<open>
  Log matching. The history keeps for each term the log its leader had last; the invariant
  \<open>matching\<close> says that a log agrees, up to each of its entries, with the log of the leader of the
  term of the entry. Requests are pieces of the logs of leaders. The proof is by cases on
  \<open>log_effect\<close>, over the reachable states of a cluster.
\<close>

section \<open>Steps and the log\<close>

definition log_step :: "u32 \<Rightarrow> amsg option \<Rightarrow> u32 \<Rightarrow> anode \<Rightarrow> cluster \<Rightarrow> cluster \<Rightarrow> bool" where
  "log_step n mo i a s s' \<longleftrightarrow> node_step n mo i a s s' \<and> log_effect mo (cl_node s i) a (a_out a) \<and>
     (case mo of None \<Rightarrow> a_log a = a_log (cl_node s i) | Some m \<Rightarrow> has_room (cl_node s i))"

lemma elect_log [simp]: "a_log (a_elect a) = a_log a"
  by (simp add: a_elect_def a_become_candidate_def a_start_election_def a_send_heartbeats_def Let_def
      split: raft_role_t.split)

lemma cstep_log_cases:
  assumes "cstep n s s'" and inv: "cast_inv n s"
  obtains (node) mo i a where "log_step n mo i a s s'"
  | (lose) m where "m \<in># cl_net s" "s' = s\<lparr>cl_net := cl_net s - {#m#}\<rparr>"
  | (client) m where "from_client m" "s' = s\<lparr>cl_net := add_mset m (cl_net s)\<rparr>"
  | (restart) i ns ms where "i < n" "length ns = unat n" "length ms = unat n"
      "s' = after_step i (a_boot i n (a_log (cl_node s i)) (a_term (cl_node s i))
        (a_vote (cl_node s i)) ns ms) s"
proof -
  have none: "log_step n None i a s (after_step i a s)"
    if "i < n" "effects None (cl_node s i) a" "log_effects None (cl_node s i) a"
      "a_log a = a_log (cl_node s i)" for i a
    using that inv
    by (auto simp: log_step_def node_step_def taken_def log_effects_def cast_inv_def node_inv_def Let_def)
  from assms(1) show ?thesis
  proof (cases rule: cstep.cases)
    case (receive i m)
    have "log_step n (Some m) i (a_receive m (cl_node s i)) s s'"
      using receive receive_effects [of m "cl_node s i"] receive_log_effects [of m "cl_node s i"] inv
      by (auto simp: log_step_def node_step_def taken_def log_effects_def cast_inv_def node_inv_def Let_def)
    then show ?thesis by (rule node)
  next
    case (elect i)
    have "log_step n None i (a_elect (cl_node s i)) s s'"
      unfolding elect(1) by (rule none [OF elect(2) elect_effects elect_log_effects elect_log])
    then show ?thesis by (rule node)
  next
    case (stop i)
    have "log_step n None i ((cl_node s i)\<lparr>a_running := 0\<rparr>) s s'"
      unfolding stop(1)
      by (rule none [OF stop(2)])
        (auto intro!: effects_quiet idle_effects [where out = "[]"] simp: same_indexes_def)
    then show ?thesis by (rule node)
  next
    case (exit i h)
    have "log_step n None i ((cl_node s i)\<lparr>a_halted := h\<rparr>) s s'"
      unfolding exit(1)
      by (rule none [OF exit(2)])
        (auto intro!: effects_quiet idle_effects [where out = "[]"] simp: same_indexes_def)
    then show ?thesis by (rule node)
  qed (use lose client restart in blast)+
qed

section \<open>Logs that match\<close>

definition matching :: "cluster \<Rightarrow> log_entry_t list \<Rightarrow> bool" where
  "matching s es \<longleftrightarrow> (\<forall>k. k < length es \<longrightarrow> led s (le_term (es ! k)) \<and>
     take (Suc k) es = take (Suc k) (cl_logs s (le_term (es ! k))))"

definition terms_to :: "u32 \<Rightarrow> log_entry_t list \<Rightarrow> bool" where
  "terms_to t es \<longleftrightarrow> sorted (map le_term es) \<and> (\<forall>e \<in> set es. le_term e \<le> t)"

text \<open>The history of the leaders only grows.\<close>

definition extends :: "cluster \<Rightarrow> cluster \<Rightarrow> bool" where
  "extends s s' \<longleftrightarrow> (\<forall>t. led s t \<longrightarrow> led s' t \<and> prefix (cl_logs s t) (cl_logs s' t))"

lemma extends_refl: "cl_leaders s' = cl_leaders s \<Longrightarrow> cl_logs s' = cl_logs s \<Longrightarrow> extends s s'"
  by (simp add: extends_def led_def)

lemma prefix_take: "prefix xs ys \<Longrightarrow> k \<le> length xs \<Longrightarrow> take k ys = take k xs"
  by (auto simp: prefix_def)

lemma matching_extends:
  assumes "matching s es" and "extends s s'"
  shows "matching s' es"
proof -
  have "led s' t \<and> take (Suc k) es = take (Suc k) (cl_logs s' t)"
    if "k < length es" and t: "t = le_term (es ! k)" for k t
  proof -
    have m: "led s t" "take (Suc k) es = take (Suc k) (cl_logs s t)"
      using assms(1) that by (simp_all add: matching_def)
    moreover have "Suc k \<le> length (cl_logs s t)"
      using arg_cong [OF m(2), of length] that(1) by simp
    ultimately show ?thesis
      using assms(2) prefix_take [of "cl_logs s t" "cl_logs s' t" "Suc k"] by (simp add: extends_def)
  qed
  then show ?thesis by (simp add: matching_def)
qed

lemma matching_take: "matching s es \<Longrightarrow> matching s (take k es)"
  by (auto simp: matching_def)

lemma terms_to_take: "terms_to t es \<Longrightarrow> terms_to t (take k es)"
  by (auto simp: terms_to_def simp flip: take_map dest: in_set_takeD)

lemma terms_to_mono: "terms_to t es \<Longrightarrow> t \<le> u \<Longrightarrow> terms_to u es"
  by (auto simp: terms_to_def)

lemma matching_agree:
  assumes "matching s es" and "matching s fs" and "k < length es" and "k < length fs"
    and "le_term (es ! k) = le_term (fs ! k)"
  shows "take (Suc k) es = take (Suc k) fs"
  using assms by (simp add: matching_def)

lemma agree_at:
  assumes "matching s es" and "matching s fs" and "-1 \<le> p" and "p < int (length es)"
    and "p < int (length fs)" and "log_term es p = log_term fs p"
  shows "take (nat (p + 1)) es = take (nat (p + 1)) fs"
proof (cases "p = -1")
  case False
  then have p: "0 \<le> p" "nat (p + 1) = Suc (nat p)" "nat p < length es" "nat p < length fs"
    using assms(3-5) by auto
  then show ?thesis
    using matching_agree [OF assms(1,2) p(3,4)] assms(4-6) by (simp add: log_term_def)
qed simp

section \<open>Merging a piece of a matching log\<close>

lemma merge_prefix:
  assumes "i \<le> length es" and "take i es = take i M" and "i + k \<le> length M"
    and "\<And>j. j < length es \<Longrightarrow> j < length M \<Longrightarrow> le_term (es ! j) = le_term (M ! j) \<Longrightarrow>
      take (Suc j) es = take (Suc j) M"
  shows "merge_entries (take k (drop i M)) i es = es \<and> i + k \<le> length es \<and>
      take (i + k) es = take (i + k) M \<or>
    merge_entries (take k (drop i M)) i es = take (i + k) M"
  using assms
proof (induction k arbitrary: i es)
  case 0
  then show ?case by simp
next
  case (Suc k)
  have i: "i < length M" using Suc.prems(3) by simp
  then have new: "take (Suc k) (drop i M) = M ! i # take k (drop (Suc i) M)"
    by (metis Cons_nth_drop_Suc take_Suc_Cons)
  have step: "merge_entries (take k (drop (Suc i) M)) (Suc i) (take (Suc i) M) = take (Suc i + k) M"
  proof -
    have len: "length (take (Suc i) M) = Suc i" using i by simp
    have "merge_entries (take k (drop (Suc i) M)) (Suc i) (take (Suc i) M) = take (Suc i) M \<and>
        Suc i + k \<le> length (take (Suc i) M) \<and>
        take (Suc i + k) (take (Suc i) M) = take (Suc i + k) M \<or>
      merge_entries (take k (drop (Suc i) M)) (Suc i) (take (Suc i) M) = take (Suc i + k) M"
    proof (rule Suc.IH)
      show "Suc i \<le> length (take (Suc i) M)" by (simp only: len)
      show "take (Suc i) (take (Suc i) M) = take (Suc i) M" by simp
      show "Suc i + k \<le> length M" using Suc.prems(3) by simp
      show "take (Suc j) (take (Suc i) M) = take (Suc j) M" if "j < length (take (Suc i) M)" for j
        using that unfolding len by (simp add: min_def)
    qed
    then show ?thesis unfolding len by (cases k) simp_all
  qed
  show ?case
  proof (cases "i < length es")
    case False
    then have "es = take i M" using Suc.prems(1,2) by simp
    then have "es @ [M ! i] = take (Suc i) M" using i by (simp add: take_Suc_conv_app_nth)
    then show ?thesis using False step new by simp
  next
    case True
    show ?thesis
    proof (cases "le_term (es ! i) = le_term (M ! i)")
      case same: True
      then have "take (Suc i) es = take (Suc i) M" using Suc.prems(4) True i by blast
      then show ?thesis
        using Suc.IH [of "Suc i" es] Suc.prems(3,4) True same new by auto
    next
      case False
      have "take i es @ [M ! i] = take (Suc i) M"
        using Suc.prems(2) i by (simp add: take_Suc_conv_app_nth)
      then show ?thesis using False True step new by simp
    qed
  qed
qed

section \<open>Requests\<close>

text \<open>A request in the network is a piece of the log of the leader of its term.\<close>

definition request_ok :: "cluster \<Rightarrow> amsg \<Rightarrow> bool" where
  "request_ok s m \<longleftrightarrow> (case m_body m of
     AppendReq r \<Rightarrow> (\<exists>p k. ae_prev_log_idx r = u32_of_int p \<and> ae_n_entries r = of_nat k \<and>
       -1 \<le> p \<and> k \<le> 32 \<and> nat (p + 1) + k \<le> length (cl_logs s (ae_term r)) \<and>
       ae_entries r = take k (drop (nat (p + 1)) (cl_logs s (ae_term r))) \<and>
       ae_prev_log_term r = log_term (cl_logs s (ae_term r)) p \<and> ae_leader_id r = m_src m)
   | _ \<Rightarrow> True)"

definition next_ok :: "u32 \<Rightarrow> anode \<Rightarrow> bool" where
  "next_ok n a \<longleftrightarrow> length (a_next a) = unat n \<and> length (a_match a) = unat n \<and>
     (\<forall>k. k < unat n \<longrightarrow> unat (a_next a ! k) \<le> length (a_log a))"

lemma nth_take_drop_map:
  "j + k \<le> length xs \<Longrightarrow> map (\<lambda>l. xs ! (j + l)) [0..<k] = take k (drop j xs)"
  by (intro nth_equalityI) simp_all

lemma append_request_piece:
  assumes "next_ok n a" and "unat i < unat n" and "length (a_log a) \<le> log_capacity"
    and "0 \<le> limit" and "limit \<le> 32"
  shows "\<exists>p k. ae_prev_log_idx (a_append_request limit a i) = u32_of_int p \<and>
    ae_n_entries (a_append_request limit a i) = of_nat k \<and> -1 \<le> p \<and> k \<le> 32 \<and>
    nat (p + 1) + k \<le> length (a_log a) \<and>
    ae_entries (a_append_request limit a i) = take k (drop (nat (p + 1)) (a_log a)) \<and>
    ae_prev_log_term (a_append_request limit a i) = log_term (a_log a) p"
proof -
  let ?next = "a_next a ! unat i" and ?len = "length (a_log a)"
  define j where "j = unat ?next"
  have j: "j \<le> ?len" using assms(1,2) by (simp add: next_ok_def j_def)
  have "unat ?next < 2 ^ 31" using j assms(3) by (simp add: j_def log_capacity_def)
  then have nx: "int_of_u32 ?next = int j" by (simp add: j_def sint_eq_small)
  define k where "k = nat (max 0 (min limit (int ?len - int j)))"
  have k: "k \<le> 32" "j + k \<le> ?len" "int k = max 0 (min limit (int ?len - int j))"
    using assms(4,5) j by (auto simp: k_def)
  have "map (\<lambda>l. log_entry_at (a_log a) (int j + int l)) [0..<k] = map (\<lambda>l. a_log a ! (j + l)) [0..<k]"
    using k(2) by (intro map_cong) (auto simp: log_entry_at_def nat_add_distrib)
  also have "\<dots> = take k (drop j (a_log a))" using k(2) by (rule nth_take_drop_map)
  finally have entries: "map (\<lambda>l. log_entry_at (a_log a) (int j + int l)) [0..<k] =
      take k (drop j (a_log a))" .
  define r where "r = a_append_request limit a i"
  have "?next = of_nat j" by (simp add: j_def)
  then have "ae_prev_log_idx r = u32_of_int (int j - 1)"
    by (simp add: r_def a_append_request_def Let_def)
  moreover have "ae_n_entries r = of_nat k"
    unfolding r_def a_append_request_def Let_def nx k(3) [symmetric] by simp
  moreover have "ae_entries r = take k (drop j (a_log a))"
    unfolding r_def a_append_request_def Let_def nx k(3) [symmetric] using entries by simp
  moreover have "ae_prev_log_term r = log_term (a_log a) (int j - 1)"
    unfolding r_def a_append_request_def Let_def nx by simp
  moreover have "nat (int j - 1 + 1) = j" by simp
  ultimately show ?thesis
    using k(1,2) unfolding r_def [symmetric] by (intro exI [of _ "int j - 1"] exI [of _ k]) simp
qed

section \<open>The invariant\<close>

definition node_log_inv :: "u32 \<Rightarrow> cluster \<Rightarrow> u32 \<Rightarrow> bool" where
  "node_log_inv n s i \<longleftrightarrow>
     (let a = cl_node s i
      in length (a_log a) \<le> log_capacity \<and> matching s (a_log a) \<and> terms_to (a_term a) (a_log a) \<and>
         (a_role a \<noteq> FOLLOWER \<longrightarrow> a_term a \<noteq> 0) \<and> (a_role a = LEADER \<longrightarrow> next_ok n a))"

definition leader_log_inv :: "cluster \<Rightarrow> u32 \<Rightarrow> u32 \<Rightarrow> bool" where
  "leader_log_inv s t l \<longleftrightarrow> t \<noteq> 0 \<and> t \<le> a_term (cl_node s l) \<and> matching s (cl_logs s t) \<and>
     terms_to t (cl_logs s t) \<and> length (cl_logs s t) \<le> log_capacity \<and>
     (a_term (cl_node s l) = t \<longrightarrow> a_log (cl_node s l) = cl_logs s t)"

definition log_inv :: "u32 \<Rightarrow> cluster \<Rightarrow> bool" where
  "log_inv n s \<longleftrightarrow> (\<forall>i. i < n \<longrightarrow> node_log_inv n s i) \<and>
     (\<forall>t l. (t, l) \<in> cl_leaders s \<longrightarrow> leader_log_inv s t l) \<and>
     (\<forall>m. m \<in># cl_net s \<longrightarrow> request_ok s m)"

lemma request_ok_extends:
  assumes "request_ok s m" and "extends s s'" and "m_body m = AppendReq r" and "led s (ae_term r)"
  shows "request_ok s' m"
proof -
  let ?M = "cl_logs s (ae_term r)" and ?M' = "cl_logs s' (ae_term r)"
  obtain p k where pk: "ae_prev_log_idx r = u32_of_int p" "ae_n_entries r = of_nat k" "-1 \<le> p"
    "k \<le> 32" "nat (p + 1) + k \<le> length ?M" "ae_entries r = take k (drop (nat (p + 1)) ?M)"
    "ae_prev_log_term r = log_term ?M p" "ae_leader_id r = m_src m"
    using assms(1,3) by (auto simp: request_ok_def)
  obtain zs where zs: "?M' = ?M @ zs" using assms(2,4) by (auto simp: extends_def prefix_def)
  have "log_term ?M' p = log_term ?M p"
    using pk(3,5) by (cases "p = -1") (auto simp: log_term_def zs nth_append)
  moreover have "take k (drop (nat (p + 1)) ?M') = take k (drop (nat (p + 1)) ?M)"
    using pk(5) by (simp add: zs)
  moreover have "nat (p + 1) + k \<le> length ?M'" using pk(5) by (simp add: zs)
  ultimately have "ae_prev_log_idx r = u32_of_int p \<and> ae_n_entries r = of_nat k \<and> -1 \<le> p \<and>
      k \<le> 32 \<and> nat (p + 1) + k \<le> length ?M' \<and> ae_entries r = take k (drop (nat (p + 1)) ?M') \<and>
      ae_prev_log_term r = log_term ?M' p \<and> ae_leader_id r = m_src m"
    using pk by simp
  then show ?thesis using assms(3) unfolding request_ok_def by (simp only: rpc_msg.case) blast
qed

text \<open>What the handler of a request does to a matching log.\<close>

lemma merge_request:
  assumes "matching s es" and "length es + 32 \<le> log_capacity" and "request_ok s m"
    and "m_body m = AppendReq r" and M: "M = cl_logs s (ae_term r)" and "matching s M"
    and "length M \<le> log_capacity"
    and "int_of_u32 (ae_prev_log_idx r) < int (length es)"
    and "log_term es (int_of_u32 (ae_prev_log_idx r)) = ae_prev_log_term r"
  obtains p k where "int_of_u32 (ae_prev_log_idx r) = p" and "-1 \<le> p" and "p < int (length es)"
    and "int_of_u32 (ae_prev_log_idx r + ae_n_entries r) = p + int k"
    and "nat (p + 1) + k \<le> length M" and "take (nat (p + 1)) es = take (nat (p + 1)) M"
    and "a_append_loop (take (unat (ae_n_entries r)) (ae_entries r)) (ae_prev_log_idx r + 1)
      (int (length es)) es = merge_entries (take k (drop (nat (p + 1)) M)) (nat (p + 1)) es"
    and "k \<le> 32"
proof -
  obtain p k where pk: "ae_prev_log_idx r = u32_of_int p" "ae_n_entries r = of_nat k" "-1 \<le> p"
    "k \<le> 32" "nat (p + 1) + k \<le> length M" "ae_entries r = take k (drop (nat (p + 1)) M)"
    "ae_prev_log_term r = log_term M p"
    using assms(3,4) M by (auto simp: request_ok_def)
  have len: "length M < 2 ^ 31" using assms(7) by (simp add: log_capacity_def)
  then have pb: "p + int k < 2 ^ 31" "p < 2 ^ 31" using pk(3,5) by auto
  have p: "int_of_u32 (ae_prev_log_idx r) = p" using pk(1,3) pb by (simp add: sint_u32_of_int)
  have "u32_of_int p + of_nat k = u32_of_int (p + int k)" by simp
  then have sum: "int_of_u32 (ae_prev_log_idx r + ae_n_entries r) = p + int k"
    using pk(1-3) pb sint_u32_of_int [of "p + int k"] by simp
  have "of_nat (nat (p + 1)) = u32_of_int (p + 1)" by (rule of_nat_nat) (use pk(3) in simp)
  then have nx: "ae_prev_log_idx r + 1 = of_nat (nat (p + 1))" unfolding pk(1) by simp
  have count: "unat (ae_n_entries r) = k"
    using pk(2,4) by (simp add: unat_of_nat take_bit_nat_eq_self)
  have agree: "take (nat (p + 1)) es = take (nat (p + 1)) M"
    using agree_at [OF assms(1,6) pk(3)] assms(8,9) pk(3,5,7) p by fastforce
  let ?new = "take k (drop (nat (p + 1)) M)"
  have "a_append_loop ?new (of_nat (nat (p + 1))) (int (length es)) es =
      merge_entries ?new (nat (p + 1)) es"
    by (rule append_loop_merge) (use assms(2,8) p pk(4) in auto)
  then have "a_append_loop (take (unat (ae_n_entries r)) (ae_entries r)) (ae_prev_log_idx r + 1)
      (int (length es)) es = merge_entries ?new (nat (p + 1)) es"
    by (simp add: count pk(6) nx)
  then show ?thesis using that p pk(3-5) assms(8) sum agree by blast
qed

section \<open>What a step does to the logs\<close>

text \<open>A step of a node between states that satisfy the invariants of elections.\<close>

definition log_move :: "u32 \<Rightarrow> amsg option \<Rightarrow> u32 \<Rightarrow> anode \<Rightarrow> cluster \<Rightarrow> cluster \<Rightarrow> bool" where
  "log_move n mo i a s s' \<longleftrightarrow> log_step n mo i a s s' \<and> election_inv n s \<and> election_inv n s' \<and>
     log_inv n s"

lemma log_moveD:
  assumes "log_move n mo i a s s'"
  shows "i < n" and "taken mo \<subseteq># cl_net s" and "log_effect mo (cl_node s i) a (a_out a)"
    and "s' = after_step i a (s\<lparr>cl_net := cl_net s - taken mo\<rparr>)" and "node_inv n s i"
    and "mo = None \<Longrightarrow> a_log a = a_log (cl_node s i)" and "mo = Some m \<Longrightarrow> has_room (cl_node s i)"
    and "cast_inv n s"
    and "a_id a = i" and "a_num a = n" and "a_term (cl_node s i) \<le> a_term a"
    and "node_log_inv n s i" and "grows n s s'"
proof -
  show step: "i < n" "taken mo \<subseteq># cl_net s" "log_effect mo (cl_node s i) a (a_out a)"
    "s' = after_step i a (s\<lparr>cl_net := cl_net s - taken mo\<rparr>)"
    "mo = None \<Longrightarrow> a_log a = a_log (cl_node s i)" "mo = Some m \<Longrightarrow> has_room (cl_node s i)"
    "cast_inv n s"
    using assms by (simp_all add: log_move_def log_step_def node_step_def election_inv_def)
  then show "node_inv n s i" by (simp add: cast_inv_def)
  then have id: "a_id (cl_node s i) = i \<and> a_num (cl_node s i) = n" by (simp add: node_inv_def Let_def)
  obtain out where "effect mo (cl_node s i) a out"
    using assms by (auto simp: log_move_def log_step_def node_step_def effects_def)
  then show "a_id a = i" "a_num a = n" "a_term (cl_node s i) \<le> a_term a"
    using effect_shape effect_term id by auto
  show "node_log_inv n s i" using assms step(1) by (simp add: log_move_def log_inv_def)
  show "grows n s s'" using assms node_step_grows by (auto simp: log_move_def log_step_def)
qed

lemma leader_is_one:
  "election_inv n s \<Longrightarrow> (t, l) \<in> cl_leaders s \<Longrightarrow> (t, l') \<in> cl_leaders s \<Longrightarrow> l = l'"
  using one_leader by (auto simp: election_inv_def)

lemma log_move_leader_log:
  "log_move n mo i a s s' \<Longrightarrow> (t, l) \<in> cl_leaders s \<Longrightarrow> leader_log_inv s t l"
  by (simp add: log_move_def log_inv_def)

text \<open>A request comes from another node, which is the leader of its term.\<close>

lemma log_move_request:
  assumes "log_move n (Some m) i a s s'" and "m_body m = AppendReq r" and "m_dst m = i"
  shows "(ae_term r, m_src m) \<in> cl_leaders s" and "m_src m \<noteq> i" and "request_ok s m"
    and "(ae_term r, i) \<notin> cl_leaders s"
proof -
  have m: "m \<in># cl_net s" using log_moveD(2) [OF assms(1)] by (simp add: mset_subset_taken)
  then have "msg_ok n s m" using log_moveD(8) [OF assms(1)] by (rule cast_net [rotated])
  then show l: "(ae_term r, m_src m) \<in> cl_leaders s" and d: "m_src m \<noteq> i"
    using assms(2,3) by (auto simp: msg_ok_def)
  show "request_ok s m" using m assms(1) by (simp add: log_move_def log_inv_def)
  show "(ae_term r, i) \<notin> cl_leaders s"
    using l d leader_is_one assms(1) by (auto simp: log_move_def)
qed

text \<open>A node that takes entries is not the leader of its term.\<close>

lemma log_move_taker:
  assumes "log_move n (Some m) i a s s'" and "m_body m = AppendReq r" and "m_dst m = i"
    and "a_term a = ae_term r"
    and "a_role a = FOLLOWER \<or> a_role a = a_role (cl_node s i) \<and> a_term a = a_term (cl_node s i)"
  shows "a_role a \<noteq> LEADER"
proof
  assume "a_role a = LEADER"
  then have "(ae_term r, i) \<in> cl_leaders s"
    using log_moveD(5) [OF assms(1)] assms(4,5) by (auto simp: node_inv_def Let_def)
  then show False using log_move_request(4) [OF assms(1-3)] by blast
qed

lemma log_move_leader:
  assumes "log_move n mo i a s s'" and "a_role a = LEADER"
  shows "a_term a = a_term (cl_node s i)" and "prefix (a_log (cl_node s i)) (a_log a)"
    and "led s (a_term a) \<Longrightarrow> (a_term a, i) \<in> cl_leaders s \<and> a_log (cl_node s i) = cl_logs s (a_term a)"
    and "a_role (cl_node s i) = LEADER \<or> a_role (cl_node s i) = CANDIDATE"
proof -
  note move = log_moveD [OF assms(1)]
  have id: "a_id (cl_node s i) = i" using move(5) by (simp add: node_inv_def Let_def)
  show t: "a_term a = a_term (cl_node s i)"
    using move(3) assms(2) by (cases rule: log_effect.cases) auto
  show "prefix (a_log (cl_node s i)) (a_log a)"
    using move(3) assms(2)
  proof (cases rule: log_effect.cases)
    case (merge m r out1)
    then show ?thesis using log_move_taker [of n m i a s s' r] assms id by simp
  qed simp_all
  show "a_role (cl_node s i) = LEADER \<or> a_role (cl_node s i) = CANDIDATE"
    using move(3) assms(2)
  proof (cases rule: log_effect.cases)
    case (merge m r out1)
    then show ?thesis using log_move_taker [of n m i a s s' r] assms id by simp
  qed simp_all
  assume "led s (a_term a)"
  then obtain l where l: "(a_term a, l) \<in> cl_leaders s" by (auto simp: led_def)
  have "(a_term a, l) \<in> cl_leaders s'" "(a_term a, i) \<in> cl_leaders s'"
    using l move(4) assms(2) by (simp_all add: history_leader_def)
  then have "l = i" using leader_is_one assms(1) by (auto simp: log_move_def)
  then show "(a_term a, i) \<in> cl_leaders s \<and> a_log (cl_node s i) = cl_logs s (a_term a)"
    using l log_move_leader_log [OF assms(1)] t by (auto simp: leader_log_inv_def)
qed

lemma log_move_led:
  assumes "log_move n mo i a s s'"
  shows "led s' t \<longleftrightarrow> led s t \<or> a_role a = LEADER \<and> a_term a = t"
    and "cl_logs s' t = (if a_role a = LEADER \<and> a_term a = t then a_log a else cl_logs s t)"
    and "extends s s'"
proof -
  note move = log_moveD [OF assms]
  show led: "led s' t \<longleftrightarrow> led s t \<or> a_role a = LEADER \<and> a_term a = t" for t
    using move(4) by (auto simp: led_def history_leader_def)
  show logs: "cl_logs s' t = (if a_role a = LEADER \<and> a_term a = t then a_log a else cl_logs s t)" for t
    using move(4) by auto
  show "extends s s'"
    unfolding extends_def
  proof (intro allI impI conjI)
    fix t assume t: "led s t"
    then show "led s' t" by (simp add: led)
    show "prefix (cl_logs s t) (cl_logs s' t)"
      using t log_move_leader(2,3) [OF assms] by (auto simp: logs)
  qed
qed

text \<open>
  The log \<open>es'\<close> is \<open>es\<close> merged with \<open>k\<close> entries of the log of the leader of the request, from
  the index after \<open>p\<close> on; up to there the two logs agree.
\<close>

definition merged ::
  "cluster \<Rightarrow> append_entries_req_t \<Rightarrow> log_entry_t list \<Rightarrow> log_entry_t list \<Rightarrow> int \<Rightarrow> nat \<Rightarrow> bool" where
  "merged s r es es' p k \<longleftrightarrow>
     (let M = cl_logs s (ae_term r); i = nat (p + 1)
      in -1 \<le> p \<and> p < int (length es) \<and>
         int_of_u32 (ae_prev_log_idx r + ae_n_entries r) = p + int k \<and> i + k \<le> length M \<and>
         take i es = take i M \<and> es' = merge_entries (take k (drop i M)) i es)"

lemma log_move_merged:
  assumes "log_move n (Some m) i a s s'" and "m_body m = AppendReq r" and "m_dst m = i"
    and "int_of_u32 (ae_prev_log_idx r) < int (length (a_log (cl_node s i)))"
    and "log_term (a_log (cl_node s i)) (int_of_u32 (ae_prev_log_idx r)) = ae_prev_log_term r"
    and "a_log a = a_append_loop (take (unat (ae_n_entries r)) (ae_entries r))
      (ae_prev_log_idx r + 1) (int (length (a_log (cl_node s i)))) (a_log (cl_node s i))"
  obtains p k where "merged s r (a_log (cl_node s i)) (a_log a) p k"
proof -
  note move = log_moveD [OF assms(1)]
  have node: "matching s (a_log (cl_node s i))"
    using move(12) by (simp add: node_log_inv_def Let_def)
  have room: "length (a_log (cl_node s i)) + 32 \<le> log_capacity"
    using move(7) [OF refl] by (simp add: has_room_def)
  note req = log_move_request [OF assms(1-3)]
  note lead = log_move_leader_log [OF assms(1) req(1)]
  show ?thesis
  proof (rule merge_request [OF node room req(3) assms(2) refl _ _ assms(4,5)])
    fix p k
    assume "-1 \<le> p" "p < int (length (a_log (cl_node s i)))"
      "int_of_u32 (ae_prev_log_idx r + ae_n_entries r) = p + int k"
      "nat (p + 1) + k \<le> length (cl_logs s (ae_term r))"
      "take (nat (p + 1)) (a_log (cl_node s i)) = take (nat (p + 1)) (cl_logs s (ae_term r))"
      "a_append_loop (take (unat (ae_n_entries r)) (ae_entries r)) (ae_prev_log_idx r + 1)
        (int (length (a_log (cl_node s i)))) (a_log (cl_node s i)) =
        merge_entries (take k (drop (nat (p + 1)) (cl_logs s (ae_term r)))) (nat (p + 1))
          (a_log (cl_node s i))"
    then show ?thesis by (intro that [of p k]) (simp add: merged_def assms(6) Let_def)
  qed (use lead in \<open>simp_all add: leader_log_inv_def\<close>)
qed

text \<open>Where the log of a node comes from.\<close>

lemma log_move_sources:
  assumes "log_move n mo i a s s'"
  obtains (same) "a_log a = a_log (cl_node s i)"
  | (append) e where "a_log a = a_log (cl_node s i) @ [e]" "le_term e = a_term a"
      "a_role (cl_node s i) = LEADER" "a_role a = LEADER" "a_term a = a_term (cl_node s i)"
  | (merge) m r p k where "mo = Some m" "m_body m = AppendReq r" "m_dst m = i"
      "a_term a = ae_term r" "a_role a \<noteq> LEADER"
      "merged s r (a_log (cl_node s i)) (a_log a) p k"
proof -
  note move = log_moveD [OF assms]
  from move(3) show ?thesis
  proof (cases rule: log_effect.cases)
    case (append e)
    then show ?thesis using that(2) by simp
  next
    case (merge m r out1)
    have id: "m_dst m = i" using merge(2) move(5) by (simp add: node_inv_def Let_def)
    obtain p k where "merged s r (a_log (cl_node s i)) (a_log a) p k"
      using log_move_merged [OF assms [unfolded merge(1)] merge(3) id merge(8-10)] by blast
    then show ?thesis
      using that(3) merge(1,3,6) id log_move_taker [OF assms [unfolded merge(1)] merge(3) id merge(6,7)]
      by blast
  qed (use that(1) in simp_all)
qed

section \<open>The invariant is kept\<close>

lemma merged_result:
  assumes "merged s r es es' p k" and "matching s es" and "matching s (cl_logs s (ae_term r))"
  shows "es' = es \<and> nat (p + 1) + k \<le> length es \<and>
      take (nat (p + 1) + k) es = take (nat (p + 1) + k) (cl_logs s (ae_term r)) \<or>
    es' = take (nat (p + 1) + k) (cl_logs s (ae_term r))"
proof -
  let ?M = "cl_logs s (ae_term r)"
  have m: "-1 \<le> p" "p < int (length es)" "nat (p + 1) + k \<le> length ?M"
    "take (nat (p + 1)) es = take (nat (p + 1)) ?M"
    "es' = merge_entries (take k (drop (nat (p + 1)) ?M)) (nat (p + 1)) es"
    using assms(1) by (simp_all add: merged_def Let_def)
  have "nat (p + 1) \<le> length es" using m(2) by simp
  from merge_prefix [OF this m(4,3)] show ?thesis
    unfolding m(5) using matching_agree [OF assms(2,3)] by blast
qed

lemma effect_nonzero:
  assumes "effect mo a a' out" and "a_role a \<noteq> FOLLOWER \<Longrightarrow> a_term a \<noteq> 0"
    and "a_role a' \<noteq> FOLLOWER"
  shows "a_term a' \<noteq> 0"
  using assms
proof (cases rule: effect.cases)
  case campaign
  then have "unat (a_term a + 1) = unat (a_term a) + 1"
    by (intro unat_suc_below) (simp add: sint_nonneg_unat)
  then show ?thesis using campaign by (metis add_is_0 one_neq_zero unat_0)
qed (auto simp: keeps_def)

lemma log_move_matching:
  assumes "log_move n mo i a s s'"
  shows "matching s' (a_log a)" and "terms_to (a_term a) (a_log a)"
    and "length (a_log a) \<le> log_capacity"
proof -
  note move = log_moveD [OF assms]
  let ?b = "cl_node s i"
  have b: "matching s (a_log ?b)" "terms_to (a_term ?b) (a_log ?b)" "length (a_log ?b) \<le> log_capacity"
    using move(12) by (simp_all add: node_log_inv_def Let_def)
  note ext = log_move_led(3) [OF assms]
  have "matching s' (a_log a) \<and> terms_to (a_term a) (a_log a) \<and> length (a_log a) \<le> log_capacity"
  proof (cases rule: log_move_sources [OF assms])
    case 1
    then show ?thesis
      using matching_extends [OF b(1) ext] terms_to_mono [OF b(2) move(11)] b(3) by simp
  next
    case (2 e)
    have led: "led s' (a_term a)" "cl_logs s' (a_term a) = a_log a"
      using log_move_led(1,2) [OF assms] 2(4) by simp_all
    have "led s' (le_term (a_log a ! k)) \<and>
        take (Suc k) (a_log a) = take (Suc k) (cl_logs s' (le_term (a_log a ! k)))"
      if "k < length (a_log a)" for k
    proof (cases "k = length (a_log ?b)")
      case True
      then show ?thesis using led 2 by (simp add: nth_append)
    next
      case False
      then have k: "k < length (a_log ?b)" using that 2(1) by simp
      then have "take (Suc k) (a_log a) = take (Suc k) (a_log ?b)" "a_log a ! k = a_log ?b ! k"
        by (simp_all add: 2(1) nth_append)
      then show ?thesis using matching_extends [OF b(1) ext] k by (simp add: matching_def)
    qed
    moreover have "terms_to (a_term a) (a_log a)"
      using b(2) 2(1,2,5) by (auto simp: terms_to_def sorted_append)
    moreover have "mo \<noteq> None" using move(6) 2(1) by auto
    then have "length (a_log a) \<le> log_capacity"
      using move(7) 2(1) by (auto simp: has_room_def)
    ultimately show ?thesis by (simp add: matching_def)
  next
    case (3 m r p k)
    let ?M = "cl_logs s (ae_term r)" and ?i = "nat (p + 1)"
    have M: "matching s ?M" "terms_to (ae_term r) ?M" "length ?M \<le> log_capacity"
      using log_move_leader_log [OF assms]
        log_move_request(1) [OF assms [unfolded 3(1)] 3(2,3)] by (auto simp: leader_log_inv_def)
    from merged_result [OF 3(6) b(1) M(1)] show ?thesis
    proof (elim disjE conjE)
      assume "a_log a = a_log ?b"
      then show ?thesis
        using matching_extends [OF b(1) ext] terms_to_mono [OF b(2) move(11)] b(3) by simp
    next
      assume "a_log a = take (?i + k) ?M"
      then show ?thesis
        using matching_extends [OF matching_take [OF M(1)] ext] terms_to_take [OF M(2)] M(3) 3(4)
        by simp
    qed
  qed
  then show "matching s' (a_log a)" "terms_to (a_term a) (a_log a)"
    "length (a_log a) \<le> log_capacity"
    by simp_all
qed

lemma log_move_next_ok:
  assumes "log_move n mo i a s s'" and "a_role a = LEADER"
  shows "next_ok n a"
proof -
  note move = log_moveD [OF assms(1)]
  let ?b = "cl_node s i"
  have id: "a_id ?b = i" "a_num ?b = n" using move(5) by (simp_all add: node_inv_def Let_def)
  have cap: "length (a_log ?b) \<le> log_capacity" and nx: "a_role ?b = LEADER \<Longrightarrow> next_ok n ?b"
    using move(12) by (simp_all add: node_log_inv_def Let_def)
  have len: "unat (of_nat (length (a_log ?b)) :: u32) = length (a_log ?b)"
    using cap by (simp add: log_capacity_def unat_of_nat take_bit_nat_eq_self)
  from move(3) assms(2) show ?thesis
  proof (cases rule: log_effect.cases)
    case idle
    then show ?thesis using nx assms(2) by (simp add: next_ok_def same_indexes_def)
  next
    case win
    then show ?thesis using len id by (simp add: next_ok_def)
  next
    case (append e)
    then show ?thesis using nx by (auto simp: next_ok_def same_indexes_def intro: le_SucI)
  next
    case (merge m r out1)
    then show ?thesis
      using log_move_taker [of n m i a s s' r] assms id by auto
  next
    case (stored m r)
    then show ?thesis using nx len by (auto simp: next_ok_def nth_list_update)
  next
    case (refused k)
    have "unat (a_next ?b ! k - 1) \<le> unat (a_next ?b ! k)"
      using refused(8) unat_minus_one [of "a_next ?b ! k"] by (simp add: word_gt_0)
    then show ?thesis using refused nx by (auto simp: next_ok_def nth_list_update intro: order_trans)
  qed
qed

lemma log_move_node_inv:
  assumes "log_move n mo i a s s'" and "j < n"
  shows "node_log_inv n s' j"
proof (cases "j = i")
  case False
  have "node_log_inv n s j" using assms by (simp add: log_move_def log_inv_def)
  moreover have "cl_node s' j = cl_node s j"
    unfolding log_moveD(4) [OF assms(1)] using False by simp
  ultimately show ?thesis
    using matching_extends [OF _ log_move_led(3) [OF assms(1)]]
    by (simp add: node_log_inv_def Let_def)
next
  case True
  note move = log_moveD [OF assms(1)]
  obtain out where e: "effect mo (cl_node s i) a out"
    using assms(1) by (auto simp: log_move_def log_step_def node_step_def effects_def)
  have "a_role (cl_node s i) \<noteq> FOLLOWER \<Longrightarrow> a_term (cl_node s i) \<noteq> 0"
    using move(12) by (simp add: node_log_inv_def Let_def)
  then have "a_role a \<noteq> FOLLOWER \<longrightarrow> a_term a \<noteq> 0" using effect_nonzero [OF e] by blast
  moreover have "next_ok n (a\<lparr>a_out := []\<rparr>) = next_ok n a" by (simp add: next_ok_def)
  moreover have "cl_node s' j = a\<lparr>a_out := []\<rparr>" unfolding move(4) True by simp
  ultimately show ?thesis
    using log_move_matching [OF assms(1)] log_move_next_ok [OF assms(1)]
    by (simp add: node_log_inv_def Let_def)
qed

lemma log_move_leader_inv:
  assumes "log_move n mo i a s s'" and tl: "(t, l) \<in> cl_leaders s'"
  shows "leader_log_inv s' t l"
proof -
  note move = log_moveD [OF assms(1)]
  let ?b = "cl_node s i"
  have logs: "cl_logs s' t = (if a_role a = LEADER \<and> a_term a = t then a_log a else cl_logs s t)"
    by (rule log_move_led(2) [OF assms(1)])
  have new: "matching s' (a_log a)" "terms_to (a_term a) (a_log a)" "length (a_log a) \<le> log_capacity"
    by (rule log_move_matching [OF assms(1)])+
  have node: "cl_node s' j = (if j = i then a\<lparr>a_out := []\<rparr> else cl_node s j)" for j
    unfolding move(4) by simp
  show ?thesis
  proof (cases "a_role a = LEADER \<and> a_term a = t")
    case True
    then have "(t, i) \<in> cl_leaders s'" unfolding move(4) by (simp add: history_leader_def)
    then have "l = i" using leader_is_one tl assms(1) by (auto simp: log_move_def)
    moreover have "node_log_inv n s' i" by (rule log_move_node_inv [OF assms(1) move(1)])
    then have "t \<noteq> 0" using True by (simp add: node_log_inv_def Let_def node)
    ultimately show ?thesis
      using True new by (simp add: leader_log_inv_def logs node)
  next
    case False
    then have old: "(t, l) \<in> cl_leaders s"
      using tl unfolding move(4) by (auto simp: history_leader_def split: if_splits)
    then have inv: "leader_log_inv s t l" by (rule log_move_leader_log [OF assms(1)])
    have same: "cl_logs s' t = cl_logs s t" using False by (auto simp: logs)
    have "a_log a = cl_logs s t" if "l = i" "a_term a = t"
    proof -
      have t: "a_term ?b = t" using inv that move(11) by (auto simp: leader_log_inv_def)
      then have "a_log ?b = cl_logs s t" using inv that(1) by (simp add: leader_log_inv_def)
      moreover have "a_log a = a_log ?b"
      proof (cases rule: log_move_sources [OF assms(1)])
        case (2 e)
        then show ?thesis using False that(2) by simp
      next
        case (3 m r p k)
        then show ?thesis
          using log_move_request(4) [OF assms(1) [unfolded 3(1)] 3(2,3)] old that by simp
      qed
      ultimately show ?thesis by simp
    qed
    moreover have "t \<le> a_term (cl_node s' l)"
      using inv move(11) by (auto simp: leader_log_inv_def node)
    ultimately show ?thesis
      using inv matching_extends [OF _ log_move_led(3) [OF assms(1)]]
      by (auto simp: leader_log_inv_def same node)
  qed
qed

text \<open>The messages a step sends: only a node that took entries acknowledges any.\<close>

lemma log_move_messages:
  assumes "log_move n mo i a s s'" and "m \<in> set (a_out a)"
  obtains (plain) "plain m" | (request) "leader_request a m"
  | (ack) m' r p k where "mo = Some m'" "m_dst m' = i" "m_body m' = AppendReq r"
      "a_term a = ae_term r" "a_role a \<noteq> LEADER" "merged s r (a_log (cl_node s i)) (a_log a) p k"
      "m = \<lparr>m_dst = ae_leader_id r, m_src = i, m_body = AppendRes \<lparr>aer_term = a_term (cl_node s i),
        aer_new_match_index = ae_prev_log_idx r + ae_n_entries r, aer_success = 1\<rparr>\<rparr>"
proof -
  note move = log_moveD [OF assms(1)]
  have id: "a_id (cl_node s i) = i" using move(5) by (simp add: node_inv_def Let_def)
  from move(3) show ?thesis
  proof (cases rule: log_effect.cases)
    case (merge m' r out1)
    have dst: "m_dst m' = i" using merge(2) id by simp
    obtain p k where "merged s r (a_log (cl_node s i)) (a_log a) p k"
      using log_move_merged [OF assms(1) [unfolded merge(1)] merge(3) dst merge(8-10)] by blast
    moreover have "a_role a \<noteq> LEADER"
      by (rule log_move_taker [OF assms(1) [unfolded merge(1)] merge(3) dst merge(6,7)])
    ultimately show ?thesis
      using assms(2) merge plain ack [OF merge(1) dst merge(3,6)] id by (auto simp: list_all_iff)
  next
    case (stored m' r)
    then show ?thesis using assms(2) plain by (auto simp: list_all_iff)
  next
    case (refused k)
    then show ?thesis using assms(2) by simp
  qed (use assms(2) plain request in \<open>auto simp: plain_or_request_def\<close>)
qed

lemma log_move_request_ok:
  assumes "log_move n mo i a s s'" and "m \<in># cl_net s'"
  shows "request_ok s' m"
proof (cases "\<exists>r. m_body m = AppendReq r")
  case False
  then show ?thesis by (auto simp: request_ok_def split: rpc_msg.split)
next
  case True
  then obtain r where r: "m_body m = AppendReq r" by blast
  note move = log_moveD [OF assms(1)]
  show ?thesis
  proof (cases "m \<in># cl_net s")
    case True
    then have "msg_ok n s m" "request_ok s m"
      using move(8) cast_net assms(1) by (auto simp: log_move_def log_inv_def)
    then show ?thesis
      using request_ok_extends [OF _ log_move_led(3) [OF assms(1)] r] r
      by (auto simp: msg_ok_def led_def)
  next
    case False
    then have "m \<in> set (a_out a)"
      using assms(2) unfolding move(4) by (auto dest: in_diffD)
    from assms(1) this have "leader_request a m"
      by (cases rule: log_move_messages) (use r in \<open>auto simp: plain_def\<close>)
    then obtain limit where lead: "a_role a = LEADER" "m_src m = i" "m_dst m \<in> set (a_peers a)"
      and lim: "0 \<le> limit" "limit \<le> 32" "r = a_append_request limit a (m_dst m)"
      using r move(9) by (auto simp: leader_request_def)
    have dst: "unat (m_dst m) < unat n"
      using lead(3) move(10) peers_member [of "m_dst m" a] by (simp add: word_less_nat_alt)
    have "cl_logs s' (ae_term r) = a_log a"
      using log_move_led(2) [OF assms(1)] lead(1)
      by (simp add: lim(3) a_append_request_def Let_def)
    moreover have "ae_leader_id r = m_src m"
      using lead(2) move(9) by (simp add: lim(3) a_append_request_def Let_def)
    ultimately show ?thesis
      using append_request_piece [OF log_move_next_ok [OF assms(1) lead(1)] dst
          log_move_matching(3) [OF assms(1)] lim(1,2)] r lim(3)
      by (simp add: request_ok_def)
  qed
qed

lemma log_move_inv: "log_move n mo i a s s' \<Longrightarrow> log_inv n s'"
  unfolding log_inv_def
  by (blast intro: log_move_node_inv log_move_leader_inv log_move_request_ok)

lemma log_inv_cong:
  assumes "log_inv n s" and "cl_leaders s' = cl_leaders s" and "cl_logs s' = cl_logs s"
    and "\<And>i. a_log (cl_node s' i) = a_log (cl_node s i) \<and> a_term (cl_node s' i) = a_term (cl_node s i) \<and>
      (cl_node s' i = cl_node s i \<or> a_role (cl_node s' i) = FOLLOWER)"
    and "\<And>m. m \<in># cl_net s' \<Longrightarrow> m \<in># cl_net s \<or> from_client m"
  shows "log_inv n s'"
proof -
  have ext: "extends s s'" by (rule extends_refl [OF assms(2,3)])
  have m: "matching s es \<Longrightarrow> matching s' es" for es using ext by (rule matching_extends [rotated])
  have "node_log_inv n s' i" if "i < n" for i
    using that assms(1) assms(4) [of i] m by (auto simp: log_inv_def node_log_inv_def Let_def)
  moreover have "leader_log_inv s' t l" if "(t, l) \<in> cl_leaders s'" for t l
  proof -
    have "leader_log_inv s t l" using that assms(1,2) by (simp add: log_inv_def)
    then show ?thesis using m assms(3,4) by (simp add: leader_log_inv_def)
  qed
  moreover have "request_ok s' m" if "m \<in># cl_net s'" for m
  proof (cases "m \<in># cl_net s")
    case True
    then have "request_ok s m" using assms(1) by (simp add: log_inv_def)
    then show ?thesis by (simp only: request_ok_def assms(3))
  next
    case False
    then show ?thesis
      using assms(5) [OF that] by (auto simp: from_client_def request_ok_def split: rpc_msg.splits)
  qed
  ultimately show ?thesis by (simp add: log_inv_def)
qed

lemma cstep_log_move:
  assumes "cstep n s s'" and "election_inv n s" and "election_inv n s'" and "log_inv n s"
  obtains (move) mo i a where "log_move n mo i a s s'"
  | (lose) m where "m \<in># cl_net s" "s' = s\<lparr>cl_net := cl_net s - {#m#}\<rparr>"
  | (client) m where "from_client m" "s' = s\<lparr>cl_net := add_mset m (cl_net s)\<rparr>"
  | (restart) i ns ms where "i < n" "length ns = unat n" "length ms = unat n"
      "s' = after_step i (a_boot i n (a_log (cl_node s i)) (a_term (cl_node s i))
        (a_vote (cl_node s i)) ns ms) s"
proof -
  have "cast_inv n s" using assms(2) by (simp add: election_inv_def)
  from assms(1) this show ?thesis
  proof (cases rule: cstep_log_cases)
    case (node mo i a)
    then have "log_move n mo i a s s'" using assms(2-4) by (simp add: log_move_def)
    then show ?thesis by (rule move)
  qed (use lose client restart in blast)+
qed

lemma boot_log [simp]:
  "a_log (a_boot i n es t v ns ms) = es" "a_commit (a_boot i n es t v ns ms) = -1"
  by (simp_all add: a_boot_def)

lemma cstep_log_inv:
  assumes "cstep n s s'" and "election_inv n s" and "election_inv n s'" and "log_inv n s"
  shows "log_inv n s'"
  using assms
proof (cases rule: cstep_log_move)
  case (lose m)
  then show ?thesis by (intro log_inv_cong [OF assms(4)]) (auto dest: in_diffD)
next
  case (client m)
  then show ?thesis by (intro log_inv_cong [OF assms(4)]) auto
next
  case (restart i ns ms)
  then show ?thesis by (intro log_inv_cong [OF assms(4)]) (auto simp: history_leader_def)
qed (rule log_move_inv)

lemma creach_log_inv: "creach n s \<Longrightarrow> n \<le> PF_NO_VOTE_V \<Longrightarrow> log_inv n s"
proof (induction rule: creach.induct)
  case (start s)
  then show ?case
    by (force simp: cstart_def log_inv_def node_log_inv_def matching_def terms_to_def Let_def)
next
  case (step s s')
  have "creach n s'" using step.hyps by (rule creach.step)
  then show ?case
    using cstep_log_inv [OF step.hyps(2)] step.IH step.prems creach_inv step.hyps(1) by blast
qed

section \<open>Log matching\<close>

text \<open>Two logs with entries of the same term at an index agree up to it.\<close>

theorem creach_log_matching:
  assumes "creach n s" and "n \<le> PF_NO_VOTE_V" and "i < n" and "j < n"
    and "k < length (a_log (cl_node s i))" and "k < length (a_log (cl_node s j))"
    and "le_term (a_log (cl_node s i) ! k) = le_term (a_log (cl_node s j) ! k)"
  shows "take (Suc k) (a_log (cl_node s i)) = take (Suc k) (a_log (cl_node s j))"
proof -
  have "log_inv n s" by (rule creach_log_inv [OF assms(1,2)])
  then have "matching s (a_log (cl_node s i))" "matching s (a_log (cl_node s j))"
    using assms(3,4) by (simp_all add: log_inv_def node_log_inv_def Let_def)
  then show ?thesis using assms(5-7) by (rule matching_agree)
qed

text \<open>A leader only appends to its log while it leads.\<close>

theorem cstep_leader_append_only:
  assumes "cstep n s s'" and "creach n s" and "n \<le> PF_NO_VOTE_V" and "i < n"
    and "a_role (cl_node s i) = LEADER" and "a_role (cl_node s' i) = LEADER"
  shows "prefix (a_log (cl_node s i)) (a_log (cl_node s' i))"
proof -
  have "creach n s'" using assms(2,1) by (rule creach.step)
  note inv = creach_inv [OF assms(2,3)] creach_inv [OF this assms(3)] creach_log_inv [OF assms(2,3)]
  from assms(1) inv show ?thesis
  proof (cases rule: cstep_log_move)
    case (move mo j a)
    note node = log_moveD(4) [OF move]
    show ?thesis
    proof (cases "i = j")
      case True
      then show ?thesis using log_move_leader(2) [OF move] assms(6) by (simp add: node)
    next
      case False
      then show ?thesis by (simp add: node)
    qed
  next
    case (restart j ns ms)
    then show ?thesis by (cases "i = j") simp_all
  qed simp_all
qed

end
