(* ===== verification/Ballots.thy ===== *)
theory Ballots
  imports Log_Matching Log_Order
begin

text \<open>
  The logs of the voters. The history keeps the log of every voter when it voted
  (\<open>cl_ballots\<close>), as long as the term had no leader; the invariants say that a candidate has a
  log at least as far as those of its voters, in the order of \<open>Log_Order\<close>, and that the winner of
  a term starts from the log it had as a candidate.
\<close>

section \<open>The invariants\<close>

lemma led_leader: "log_inv n s \<Longrightarrow> led s t \<Longrightarrow> \<exists>l. (t, l) \<in> cl_leaders s \<and> leader_log_inv s t l"
  by (auto simp: log_inv_def led_def)

definition terms_below :: "u32 \<Rightarrow> log_entry_t list \<Rightarrow> bool" where
  "terms_below u es \<longleftrightarrow> sorted (map le_term es) \<and> (\<forall>e \<in> set es. le_term e < u)"

definition ballots_inv :: "u32 \<Rightarrow> cluster \<Rightarrow> bool" where
  "ballots_inv n s \<longleftrightarrow>
     (\<forall>t v x. (t, v, x) \<in> cl_votes s \<longrightarrow> led s t \<or> (\<exists>L. (t, v, x, L) \<in> cl_ballots s)) \<and>
     (\<forall>u v x L. (u, v, x, L) \<in> cl_ballots s \<longrightarrow> (u, v, x) \<in> cl_votes s \<and> matching s L \<and>
        terms_below u L \<and> length L \<le> log_capacity \<and>
        (\<exists>Lx. (u, x, x, Lx) \<in> cl_ballots s \<and> log_end L \<le> log_end Lx) \<and>
        (a_term (cl_node s v) = u \<longrightarrow> led s u \<or> a_log (cl_node s v) = L))"

definition winners_inv :: "u32 \<Rightarrow> cluster \<Rightarrow> bool" where
  "winners_inv n s \<longleftrightarrow> (\<forall>u l. (u, l) \<in> cl_leaders s \<longrightarrow>
     (\<forall>L. (u, l, l, L) \<in> cl_ballots s \<longrightarrow> prefix L (cl_logs s u)) \<and>
     (\<exists>Q. unat n < 2 * card Q \<and> Q \<subseteq> {v. v < n} \<and> (\<forall>v. v \<in> Q \<longrightarrow> (\<exists>L. (u, v, l, L) \<in> cl_ballots s))))"

definition ask_ok :: "cluster \<Rightarrow> amsg \<Rightarrow> bool" where
  "ask_ok s m \<longleftrightarrow> (case m_body m of
     VoteReq r \<Rightarrow> led s (rv_term r) \<or> (\<exists>L. (rv_term r, m_src m, m_src m, L) \<in> cl_ballots s \<and>
       rv_last_log_idx r = u32_of_int (int (length L) - 1) \<and>
       rv_last_log_term r = log_term L (int (length L) - 1))
   | _ \<Rightarrow> True)"

definition asks_inv :: "cluster \<Rightarrow> bool" where
  "asks_inv s \<longleftrightarrow> (\<forall>m. m \<in># cl_net s \<longrightarrow> ask_ok s m)"

section \<open>Ballots\<close>

text \<open>In a term without a leader a node does not change its log.\<close>

lemma unled_same_log:
  assumes "log_move n mo i a s s'" and "\<not> led s (a_term a)"
  shows "a_log a = a_log (cl_node s i)"
  using assms(1)
proof (cases rule: log_move_sources)
  case (append e)
  then have "(a_term a, i) \<in> cl_leaders s"
    using log_moveD(5) [OF assms(1)] by (simp add: node_inv_def Let_def)
  then show ?thesis using assms(2) by (auto simp: led_def)
next
  case (merge m r p k)
  then show ?thesis
    using log_move_request(1) [OF assms(1) [unfolded merge(1)] merge(2,3)] assms(2)
    by (auto simp: led_def)
qed

lemma matching_real_terms:
  assumes "log_inv n s" and "matching s es"
  shows "real_terms es"
  unfolding real_terms_def list_all_length
  using assms led_leader [OF assms(1)] by (fastforce simp: matching_def leader_log_inv_def)

lemma ballots_old:
  assumes "ballots_inv n s" and "(u, v, x, L) \<in> cl_ballots s"
  shows "(u, v, x) \<in> cl_votes s" and "matching s L" and "terms_below u L"
    and "length L \<le> log_capacity" and "\<exists>Lx. (u, x, x, Lx) \<in> cl_ballots s \<and> log_end L \<le> log_end Lx"
    and "a_term (cl_node s v) = u \<Longrightarrow> led s u \<or> a_log (cl_node s v) = L"
  using assms unfolding ballots_inv_def by blast+

text \<open>A ballot a step adds: of the node that steps, in a term without a leader.\<close>

lemma new_ballot:
  assumes "log_move n mo i a s s'" and "(u, v, x, L) \<in> cl_ballots s'"
    and "(u, v, x, L) \<notin> cl_ballots s"
  shows "u = a_term a" and "v = i" and "x = a_vote a" and "L = a_log a" and "\<not> led s u"
    and "a_vote a \<noteq> PF_NO_VOTE_V" and "a_log a = a_log (cl_node s i)"
proof -
  show new: "u = a_term a" "v = i" "x = a_vote a" "L = a_log a" "\<not> led s u"
    "a_vote a \<noteq> PF_NO_VOTE_V"
    using assms(2,3) unfolding log_moveD(4) [OF assms(1)]
    by (auto simp: history_ballot_def led_def split: if_splits)
  then show "a_log a = a_log (cl_node s i)" using unled_same_log [OF assms(1)] by simp
qed

lemma new_ballot_candidate:
  assumes move: "log_move n mo i a s s'" and inv: "ballots_inv n s" "asks_inv s"
    and new: "(a_term a, i, a_vote a, a_log a) \<in> cl_ballots s'"
      "(a_term a, i, a_vote a, a_log a) \<notin> cl_ballots s"
  shows "\<exists>Lx. (a_term a, a_vote a, a_vote a, Lx) \<in> cl_ballots s' \<and> log_end (a_log a) \<le> log_end Lx"
proof -
  note m = log_moveD [OF move] and nb = new_ballot [OF move new]
  let ?b = "cl_node s i"
  have mono: "cl_ballots s \<subseteq> cl_ballots s'" unfolding m(4) by auto
  obtain out where e: "effect mo ?b a out"
    using move by (auto simp: log_move_def log_step_def node_step_def effects_def)
  have same: ?thesis if "a_term a = a_term ?b" "a_vote a = a_vote ?b"
  proof -
    have "(a_term a, i, a_vote a) \<in> cl_votes s"
      using m(5) nb(6) that by (simp add: node_inv_def Let_def)
    then obtain L where L: "(a_term a, i, a_vote a, L) \<in> cl_ballots s"
      using inv(1) nb(5) unfolding ballots_inv_def by blast
    then have "a_log a = L" using ballots_old(6) [OF inv(1) L] nb(5,7) that(1) by simp
    then show ?thesis using L new(2) by simp
  qed
  from e show ?thesis
  proof (cases rule: effect.cases)
    case (grant q r)
    have q: "q \<in># cl_net s" using m(2) grant(1) by (simp add: mset_subset_taken)
    have "msg_ok n s q" using m(8) q by (rule cast_net)
    then have src: "m_src q = a_vote a" using grant by (simp add: msg_ok_def)
    have "ask_ok s q" using inv(2) q by (simp add: asks_inv_def)
    then obtain Lx where Lx: "(a_term a, a_vote a, a_vote a, Lx) \<in> cl_ballots s"
      "rv_last_log_idx r = u32_of_int (int (length Lx) - 1)"
      "rv_last_log_term r = log_term Lx (int (length Lx) - 1)"
      using grant src nb(5) by (auto simp: ask_ok_def)
    have linv: "log_inv n s" using move by (simp add: log_move_def)
    have b: "matching s (a_log ?b)" "length (a_log ?b) \<le> log_capacity"
      using m(12) by (simp_all add: node_log_inv_def Let_def)
    have "log_end (a_log ?b) \<le> log_end Lx"
      using up_to_date_iff [OF matching_real_terms [OF linv b(1)]
          matching_real_terms [OF linv ballots_old(2) [OF inv(1) Lx(1)]] b(2)
          ballots_old(4) [OF inv(1) Lx(1)]] grant(6) Lx(2,3) by simp
    then show ?thesis using Lx(1) mono nb(7) by auto
  next
    case campaign
    then have "a_vote a = i" using m(5) by (simp add: node_inv_def Let_def)
    then show ?thesis using new(1) by auto
  qed (use same nb(6) in \<open>auto simp: keeps_def\<close>)
qed

lemma log_move_mono:
  assumes "log_move n mo i a s s'"
  shows "cl_ballots s \<subseteq> cl_ballots s'" and "cl_acks s \<subseteq> cl_acks s'" and "cl_votes s \<subseteq> cl_votes s'"
    and "cl_leaders s \<subseteq> cl_leaders s'" and "led s t \<Longrightarrow> led s' t"
    and "cl_node s' j = (if j = i then a\<lparr>a_out := []\<rparr> else cl_node s j)"
  unfolding log_moveD(4) [OF assms] by (auto simp: led_def)

lemma log_move_ballots_inv:
  assumes move: "log_move n mo i a s s'" and inv: "ballots_inv n s" "asks_inv s"
  shows "ballots_inv n s'"
proof -
  note m = log_moveD [OF move] and mono = log_move_mono [OF move]
  note ext = log_move_led(3) [OF move] and new = new_ballot [OF move]
  have "led s' t \<or> (\<exists>L. (t, v, x, L) \<in> cl_ballots s')" if "(t, v, x) \<in> cl_votes s'" for t v x
  proof (cases "(t, v, x) \<in> cl_votes s")
    case True
    then show ?thesis using inv(1) mono(1,5) unfolding ballots_inv_def by blast
  next
    case False
    then have "t = a_term a" "v = i" "x = a_vote a" "a_vote a \<noteq> PF_NO_VOTE_V"
      using that unfolding m(4) by (auto simp: history_vote_def split: if_splits)
    then show ?thesis
      using mono(5) unfolding m(4) by (auto simp: history_ballot_def led_def split: if_splits)
  qed
  moreover have "(u, v, x) \<in> cl_votes s' \<and> matching s' L \<and> terms_below u L \<and>
      length L \<le> log_capacity \<and> (\<exists>Lx. (u, x, x, Lx) \<in> cl_ballots s' \<and> log_end L \<le> log_end Lx) \<and>
      (a_term (cl_node s' v) = u \<longrightarrow> led s' u \<or> a_log (cl_node s' v) = L)"
    if ballot: "(u, v, x, L) \<in> cl_ballots s'" for u v x L
  proof (cases "(u, v, x, L) \<in> cl_ballots s")
    case True
    note old = ballots_old [OF inv(1) True]
    have "led s' u \<or> a_log (cl_node s' v) = L" if t: "a_term (cl_node s' v) = u"
    proof (cases "v = i")
      case v: True
      have "u \<le> a_term (cl_node s i)" using vote_term [OF m(8) old(1)] v by simp
      then have "a_term a = u" "a_term (cl_node s i) = u" using t v m(11) by (simp_all add: mono(6))
      then show ?thesis
        using old(6) v unled_same_log [OF move] mono(5) by (auto simp: mono(6))
    qed (use t old(6) mono(5) in \<open>auto simp: mono(6)\<close>)
    then show ?thesis
      using old mono(1,3) matching_extends [OF old(2) ext] by blast
  next
    case False
    note nb = new [OF ballot False]
    have "le_term e < u" if "e \<in> set L" for e
    proof -
      obtain k where "k < length L" "L ! k = e" using \<open>e \<in> set L\<close> unfolding in_set_conv_nth by blast
      then have "led s (le_term e)"
        using m(12) nb(4,7) by (auto simp: node_log_inv_def Let_def matching_def)
      moreover have "le_term e \<le> u"
        using log_move_matching(2) [OF move] that nb(1,4) by (simp add: terms_to_def)
      ultimately show ?thesis using nb(5) by (metis order_le_imp_less_or_eq)
    qed
    then have "terms_below u L"
      using log_move_matching(2) [OF move] nb(4) by (simp add: terms_below_def terms_to_def)
    moreover have "(u, v, x) \<in> cl_votes s'"
      using nb unfolding m(4) by (simp add: history_vote_def)
    moreover have "\<exists>Lx. (u, x, x, Lx) \<in> cl_ballots s' \<and> log_end L \<le> log_end Lx"
      using new_ballot_candidate [OF move inv] ballot False nb(1-4) by blast
    ultimately show ?thesis
      using log_move_matching [OF move] nb by (simp add: mono(6))
  qed
  ultimately show ?thesis unfolding ballots_inv_def by blast
qed

text \<open>A node that becomes the leader of a term for the first time.\<close>

lemma new_leader:
  assumes move: "log_move n mo i a s s'" and "(u, l) \<in> cl_leaders s'" and "(u, l) \<notin> cl_leaders s"
  shows "l = i" and "u = a_term a" and "a_role a = LEADER" and "\<not> led s u"
    and "cl_logs s' u = a_log a" and "a_log a = a_log (cl_node s i)" and "a_term (cl_node s i) = u"
proof -
  show new: "l = i" "u = a_term a" and role: "a_role a = LEADER"
    using assms(2,3) unfolding log_moveD(4) [OF move] by (auto simp: history_leader_def split: if_splits)
  show unled: "\<not> led s u" using log_move_leader(3) [OF move role] assms(3) new by auto
  show "cl_logs s' u = a_log a" using log_move_led(2) [OF move] role new by simp
  show "a_log a = a_log (cl_node s i)" using unled_same_log [OF move] unled new by simp
  show "a_term (cl_node s i) = u" using log_move_leader(1) [OF move role] new by simp
qed

lemma log_move_winners_inv:
  assumes move: "log_move n mo i a s s'" and inv: "ballots_inv n s" "winners_inv n s"
  shows "winners_inv n s'"
proof -
  note m = log_moveD [OF move] and mono = log_move_mono [OF move]
  note ext = log_move_led(3) [OF move] and new = new_ballot [OF move]
  have "(\<forall>L. (u, l, l, L) \<in> cl_ballots s' \<longrightarrow> prefix L (cl_logs s' u)) \<and>
      (\<exists>Q. unat n < 2 * card Q \<and> Q \<subseteq> {v. v < n} \<and> (\<forall>v. v \<in> Q \<longrightarrow> (\<exists>L. (u, v, l, L) \<in> cl_ballots s')))"
    if ul: "(u, l) \<in> cl_leaders s'" for u l
  proof (cases "(u, l) \<in> cl_leaders s")
    case True
    then have led: "led s u" by (auto simp: led_def)
    have "prefix L (cl_logs s' u)" if "(u, l, l, L) \<in> cl_ballots s'" for L
    proof -
      have "(u, l, l, L) \<in> cl_ballots s" using new(5) [OF that] led by blast
      then have "prefix L (cl_logs s u)" using inv(2) True by (simp add: winners_inv_def)
      then show ?thesis using ext led by (auto simp: extends_def intro: prefix_order.trans)
    qed
    moreover obtain Q where "unat n < 2 * card Q" "Q \<subseteq> {v. v < n}"
      "\<forall>v. v \<in> Q \<longrightarrow> (\<exists>L. (u, v, l, L) \<in> cl_ballots s)"
      using inv(2) True unfolding winners_inv_def by blast
    ultimately show ?thesis using mono(1) by blast
  next
    case False
    note nl = new_leader [OF move ul False]
    have "prefix L (cl_logs s' u)" if L: "(u, l, l, L) \<in> cl_ballots s'" for L
    proof (cases "(u, l, l, L) \<in> cl_ballots s")
      case True
      then show ?thesis using ballots_old(6) [OF inv(1) True] nl by simp
    next
      case False
      then show ?thesis using new(4) [OF L] nl by simp
    qed
    moreover have "unique_inv n s'" using move by (simp add: log_move_def election_inv_def)
    then obtain Q where Q: "unat n < 2 * card Q" "Q \<subseteq> {v. v < n}"
      "\<forall>v. v \<in> Q \<longrightarrow> (u, v, l) \<in> cl_votes s'"
      using ul unfolding unique_inv_def pledged_def by meson
    have "\<exists>L. (u, v, l, L) \<in> cl_ballots s'" if "v \<in> Q" for v
    proof (cases "(u, v, l) \<in> cl_votes s")
      case True
      then show ?thesis using inv(1) nl(4) mono(1) unfolding ballots_inv_def by blast
    next
      case False
      then show ?thesis
        using Q(3) that nl(4) unfolding m(4)
        by (auto simp: history_vote_def history_ballot_def led_def split: if_splits)
    qed
    ultimately show ?thesis using Q(1,2) by blast
  qed
  then show ?thesis unfolding winners_inv_def by blast
qed

lemma ask_ok_mono:
  "ask_ok s m \<Longrightarrow> (\<And>t. led s t \<Longrightarrow> led s' t) \<Longrightarrow> cl_ballots s \<subseteq> cl_ballots s' \<Longrightarrow> ask_ok s' m"
  unfolding ask_ok_def by (cases "m_body m") auto

lemma log_move_asks_inv:
  assumes move: "log_move n mo i a s s'" and "asks_inv s" and n: "n \<le> PF_NO_VOTE_V"
  shows "asks_inv s'"
proof -
  note m = log_moveD [OF move] and mono = log_move_mono [OF move]
  have "ask_ok s' q" if q: "q \<in># cl_net s'" for q
  proof (cases "q \<in># cl_net s")
    case True
    then show ?thesis using assms(2) mono(1,5) ask_ok_mono by (metis asks_inv_def)
  next
    case False
    then have new: "q \<in> set (a_out a)" using q unfolding m(4) by (auto dest: in_diffD)
    obtain out where e: "effect mo (cl_node s i) a out"
      and out: "a_out a = a_out (cl_node s i) @ out"
      using move by (auto simp: log_move_def log_step_def node_step_def effects_def)
    have "a_out a = out" using out m(5) by (simp add: node_inv_def Let_def)
    then have new: "q \<in> set out" using new by simp
    have quiet: "ask_ok s' q" if "quiet_out b out" for b
      using that new by (auto simp: quiet_out_def list_all_iff quiet_msg_def ask_ok_def
          split: rpc_msg.splits)
    from e show ?thesis
    proof (cases rule: effect.cases)
      case campaign
      obtain d where d: "q = \<lparr>m_dst = d, m_src = i, m_body = VoteReq (a_vote_request a)\<rparr>"
        using new campaign(8) m(5) by (auto simp: node_inv_def Let_def)
      have "a_vote a = i" using campaign(3) m(5) by (simp add: node_inv_def Let_def)
      moreover have "i \<noteq> PF_NO_VOTE_V" using m(1) n by auto
      ultimately have "led s (a_term a) \<or> (a_term a, i, i, a_log a) \<in> cl_ballots s'"
        unfolding m(4) by (auto simp: history_ballot_def led_def)
      then show ?thesis
        using mono(5) d by (auto simp: ask_ok_def a_vote_request_def)
    next
      case grant
      then show ?thesis using new by (simp add: ask_ok_def)
    qed (use quiet new in \<open>auto simp: keeps_def\<close>)
  qed
  then show ?thesis by (simp add: asks_inv_def)
qed

end
