(* ===== verification/Completeness.thy ===== *)
theory Completeness
  imports Ballots
begin

text \<open>
  Leader completeness: the log of a leader has every entry that was committed in an earlier term.
  The history keeps what was acknowledged (\<open>cl_acks\<close>). The invariant says what a node that
  acknowledged entries still has in its log, and had when it voted, as long as the leaders since
  then have it; an induction on the term of the leader then closes the circle.
\<close>

section \<open>Entries that later leaders keep\<close>

text \<open>The leaders of the terms in \<open>W\<close> after \<open>t\<close> have the first entries of the leader of \<open>t\<close>.\<close>

definition kept :: "cluster \<Rightarrow> u32 \<Rightarrow> nat \<Rightarrow> u32 set \<Rightarrow> bool" where
  "kept s t k W \<longleftrightarrow> (\<forall>w. w \<in> W \<longrightarrow> t < w \<longrightarrow> led s w \<longrightarrow>
     take (Suc k) (cl_logs s w) = take (Suc k) (cl_logs s t))"

lemma kept_mono: "kept s t k W \<Longrightarrow> V \<subseteq> W \<Longrightarrow> kept s t k V"
  by (auto simp: kept_def)

lemma take_prefix:
  "prefix xs ys \<Longrightarrow> k < length xs \<Longrightarrow> take (Suc k) ys = take (Suc k) xs"
  by (intro prefix_take) auto

lemma kept_back:
  assumes "log_move n mo i a s s'" and "kept s' t k W" and "led s t" and "k < length (cl_logs s t)"
  shows "kept s t k W"
proof -
  note ext = log_move_led(3) [OF assms(1)]
  have inv: "log_inv n s" using assms(1) by (simp add: log_move_def)
  have t: "take (Suc k) (cl_logs s' t) = take (Suc k) (cl_logs s t)"
    using ext assms(3,4) by (auto simp: extends_def intro: take_prefix)
  have "take (Suc k) (cl_logs s w) = take (Suc k) (cl_logs s t)"
    if w: "w \<in> W" "t < w" "led s w" for w
  proof -
    have w': "led s' w" "prefix (cl_logs s w) (cl_logs s' w)" using ext w(3) by (simp_all add: extends_def)
    have eq: "take (Suc k) (cl_logs s' w) = take (Suc k) (cl_logs s t)"
      using assms(2) w w'(1) t by (simp add: kept_def)
    show ?thesis
    proof (cases "k < length (cl_logs s w)")
      case True
      then show ?thesis using take_prefix [OF w'(2)] eq by simp
    next
      case False
      have long: "k < length (cl_logs s' w)"
        using arg_cong [OF eq, of length] assms(4) by simp
      then have lead: "a_role a = LEADER" "a_term a = w" "cl_logs s' w = a_log a"
        using False log_move_led(2) [OF assms(1), of w] by (auto split: if_splits)
      have old: "a_log (cl_node s i) = cl_logs s w"
        using log_move_leader(3) [OF assms(1) lead(1)] lead(2) w(3) by simp
      from assms(1) show ?thesis
      proof (cases rule: log_move_sources)
        case same
        then show ?thesis using long False lead(3) old by simp
      next
        case (append e)
        then have "length (cl_logs s w) = k" using long False lead(3) old by simp
        then have "cl_logs s' w ! k = e" using append(1) lead(3) old by (simp add: nth_append)
        then have "le_term (cl_logs s t ! k) = w"
          using arg_cong [OF eq, of "\<lambda>xs. xs ! k"] append(2) lead(2) by simp
        moreover have "le_term (cl_logs s t ! k) \<le> t"
          using led_leader [OF inv assms(3)] assms(4) by (auto simp: leader_log_inv_def terms_to_def)
        ultimately show ?thesis using w(2) by simp
      next
        case (merge m r p k)
        then show ?thesis using lead(1) by simp
      qed
    qed
  qed
  then show ?thesis by (simp add: kept_def)
qed

section \<open>Acknowledgements\<close>

definition acks_inv :: "u32 \<Rightarrow> cluster \<Rightarrow> bool" where
  "acks_inv n s \<longleftrightarrow> (\<forall>t v m. (t, v, m) \<in> cl_acks s \<longrightarrow>
     led s t \<and> v < n \<and> t \<le> a_term (cl_node s v) \<and> m < int (length (cl_logs s t)) \<and>
     (\<forall>k. int k \<le> m \<longrightarrow> kept s t k {..a_term (cl_node s v)} \<longrightarrow>
        take (Suc k) (a_log (cl_node s v)) = take (Suc k) (cl_logs s t)) \<and>
     (\<forall>u x L k. (u, v, x, L) \<in> cl_ballots s \<longrightarrow> t < u \<longrightarrow> int k \<le> m \<longrightarrow> kept s t k {..<u} \<longrightarrow>
        take (Suc k) L = take (Suc k) (cl_logs s t)))"


lemma merge_keeps:
  assumes "take c es = take c M" and "c \<le> length es" and "c \<le> length M" and "i \<le> length es"
  shows "take c (merge_entries (take k (drop i M)) i es) = take c es"
  using assms
proof (induction k arbitrary: i)
  case (Suc k)
  show ?case
  proof (cases "i < c")
    case True
    then have i: "i < length M" "i < length es" using Suc.prems by simp_all
    have "take (Suc k) (drop i M) = M ! i # take k (drop (Suc i) M)"
      using i by (metis Cons_nth_drop_Suc take_Suc_Cons)
    moreover have "es ! i = M ! i" using Suc.prems(1) True by (metis nth_take)
    ultimately show ?thesis using Suc.IH [of "Suc i"] Suc.prems i by simp
  next
    case False
    then show ?thesis using Suc.prems(4) by (intro merge_take) simp_all
  qed
qed simp

lemma acks_old:
  assumes "acks_inv n s" and "(t, v, m) \<in> cl_acks s"
  shows "led s t" and "v < n" and "t \<le> a_term (cl_node s v)" and "m < int (length (cl_logs s t))"
    and "int k \<le> m \<Longrightarrow> kept s t k {..a_term (cl_node s v)} \<Longrightarrow>
      take (Suc k) (a_log (cl_node s v)) = take (Suc k) (cl_logs s t)"
    and "int k \<le> m \<Longrightarrow> (u, v, x, L) \<in> cl_ballots s \<Longrightarrow> t < u \<Longrightarrow> kept s t k {..<u} \<Longrightarrow>
      take (Suc k) L = take (Suc k) (cl_logs s t)"
  using assms unfolding acks_inv_def by blast+

lemma log_move_old_ack:
  assumes move: "log_move n mo i a s s'" and inv: "acks_inv n s"
    and ack: "(t, v, m) \<in> cl_acks s" and k: "int k \<le> m"
    and kept: "kept s' t k {..a_term (cl_node s' v)}"
  shows "take (Suc k) (a_log (cl_node s' v)) = take (Suc k) (cl_logs s' t)"
proof -
  note mv = log_moveD [OF move] and mono = log_move_mono [OF move]
  have t: "led s t" "t \<le> a_term (cl_node s v)" "k < length (cl_logs s t)"
    using acks_old [OF inv ack] k by simp_all
  have logs: "take (Suc k) (cl_logs s' t) = take (Suc k) (cl_logs s t)"
    using log_move_led(3) [OF move] t by (auto simp: extends_def intro: take_prefix)
  have "a_term (cl_node s v) \<le> a_term (cl_node s' v)" using mv(11) by (simp add: mono(6))
  then have "kept s' t k {..a_term (cl_node s v)}" by (intro kept_mono [OF kept]) auto
  from kept_back [OF move this t(1,3)]
  have old: "take (Suc k) (a_log (cl_node s v)) = take (Suc k) (cl_logs s t)"
    using acks_old(5) [OF inv ack k] by simp
  show ?thesis
  proof (cases "v = i")
    case False
    then show ?thesis using old logs by (simp add: mono(6))
  next
    case True
    have len: "k < length (a_log (cl_node s i))"
      using arg_cong [OF old, of length] t(3) True by simp
    from move have "take (Suc k) (a_log a) = take (Suc k) (a_log (cl_node s i))"
    proof (cases rule: log_move_sources)
      case (append e)
      then show ?thesis using len by simp
    next
      case (merge q r p j)
      let ?M = "cl_logs s (ae_term r)"
      have led: "led s (ae_term r)"
        using log_move_request(1) [OF move [unfolded merge(1)] merge(2,3)] by (auto simp: led_def)
      have M: "take (Suc k) ?M = take (Suc k) (cl_logs s t)"
      proof (cases "t = ae_term r")
        case False
        then have "t < ae_term r" using t(2) mv(11) merge(4) True by simp
        moreover have "kept s t k {..a_term (cl_node s' v)}"
          by (rule kept_back [OF move kept t(1,3)])
        ultimately show ?thesis using led merge(4) True by (simp add: kept_def mono(6))
      qed simp
      have "Suc k \<le> length ?M" using arg_cong [OF M, of length] t(3) by simp
      moreover have "nat (p + 1) \<le> length (a_log (cl_node s i))"
        using merge(6) by (auto simp: merged_def Let_def)
      ultimately show ?thesis
        using merge(6) merge_keeps [of "Suc k" "a_log (cl_node s i)" ?M "nat (p + 1)" j] M old True len
        by (simp add: merged_def Let_def)
    qed simp
    then show ?thesis using old logs True by (simp add: mono(6))
  qed
qed

text \<open>An acknowledgement a step adds.\<close>

lemma new_ack:
  assumes move: "log_move n mo i a s s'" and "(t, v, m) \<in> cl_acks s'" and "(t, v, m) \<notin> cl_acks s"
  shows "v = i" and "t = a_term a" and "led s' t" and "m < int (length (cl_logs s' t))"
    and "int k \<le> m \<Longrightarrow> take (Suc k) (a_log a) = take (Suc k) (cl_logs s' t)"
proof -
  note mv = log_moveD [OF move] and led = log_move_led [OF move]
  have new: "(t, v, m) \<in> history_ack i a" using assms(2,3) unfolding mv(4) by auto
  then show vt: "v = i" "t = a_term a" by (auto simp: history_ack_def split: if_splits)
  have "led s' t \<and> m < int (length (cl_logs s' t)) \<and>
    (int k \<le> m \<longrightarrow> take (Suc k) (a_log a) = take (Suc k) (cl_logs s' t))" for k
  proof (cases "a_role a = LEADER \<and> m = int (length (a_log a)) - 1")
    case True
    then show ?thesis using led(1,2) vt by simp
  next
    case False
    then obtain q r where q: "q \<in> set (a_out a)" "m_body q = AppendRes r" "aer_success r \<noteq> 0"
      "aer_term r = a_term a" "m = int_of_u32 (aer_new_match_index r)"
      using new by (auto simp: history_ack_def split: if_splits)
    from move q(1) show ?thesis
    proof (cases rule: log_move_messages)
      case (ack m' r' p j)
      let ?M = "cl_logs s (ae_term r')"
      have r: "r = \<lparr>aer_term = a_term (cl_node s i),
        aer_new_match_index = ae_prev_log_idx r' + ae_n_entries r', aer_success = 1\<rparr>"
        using q(2) ack(7) by simp
      have t: "t = ae_term r'" using vt(2) ack(4) by simp
      have lead: "(ae_term r', m_src m') \<in> cl_leaders s"
        by (rule log_move_request(1) [OF move [unfolded ack(1)] ack(3,2)])
      have M: "cl_logs s' t = ?M" using led(2) ack(5) t by simp
      have len: "m = p + int j" "nat (p + 1) + j \<le> length ?M" "-1 \<le> p"
        using ack(6) q(5) r by (simp_all add: merged_def Let_def)
      have "matching s (a_log (cl_node s i))" "matching s ?M"
        using mv(12) log_move_leader_log [OF move lead]
        by (simp_all add: node_log_inv_def leader_log_inv_def Let_def)
      from merged_result [OF ack(6) this]
      have eq: "take (nat (p + 1) + j) (a_log a) = take (nat (p + 1) + j) ?M" by auto
      have "take (Suc k) (a_log a) = take (Suc k) ?M" if "int k \<le> m"
      proof -
        have "Suc k \<le> nat (p + 1) + j" using that len(1,3) by simp
        then show ?thesis using eq by (metis take_take min.absorb1)
      qed
      then show ?thesis using lead led(1) len M t by (auto simp: led_def)
    qed (use q in \<open>auto simp: plain_def leader_request_def\<close>)
  qed
  then show "led s' t" "m < int (length (cl_logs s' t))"
    "int k \<le> m \<Longrightarrow> take (Suc k) (a_log a) = take (Suc k) (cl_logs s' t)" by blast+
qed

lemma log_move_ack_ballot:
  assumes move: "log_move n mo i a s s'" and inv: "acks_inv n s" "ballots_inv n s" "ballots_inv n s'"
    and ack: "(t, v, m) \<in> cl_acks s'" and ballot: "(u, v, x, L) \<in> cl_ballots s'"
    and k: "t < u" "int k \<le> m" and kept: "kept s' t k {..<u}"
  shows "take (Suc k) L = take (Suc k) (cl_logs s' t)"
proof -
  note mv = log_moveD [OF move] and mono = log_move_mono [OF move]
  show ?thesis
  proof (cases "(t, v, m) \<in> cl_acks s")
    case False
    have "cast_inv n s'" using move by (simp add: log_move_def election_inv_def)
    then have "u \<le> a_term (cl_node s' v)" using ballots_old(1) [OF inv(3) ballot] by (rule vote_term)
    then show ?thesis using new_ack(1,2) [OF move ack False] k(1) by (simp add: mono(6))
  next
    case True
    note old = acks_old [OF inv(1) True]
    have len: "k < length (cl_logs s t)" using old(4) k(2) by simp
    have logs: "take (Suc k) (cl_logs s' t) = take (Suc k) (cl_logs s t)"
      using log_move_led(3) [OF move] old(1) len by (auto simp: extends_def intro: take_prefix)
    note prior = kept_back [OF move kept old(1) len]
    show ?thesis
    proof (cases "(u, v, x, L) \<in> cl_ballots s")
      case True
      then show ?thesis using old(6) [OF k(2) _ k(1) prior] logs by simp
    next
      case False
      note new = new_ballot [OF move ballot False]
      have "kept s t k {..a_term (cl_node s v)}"
        using prior new(1,2,5) mv(11) unfolding kept_def
        by (metis atMost_iff lessThan_iff order_le_imp_less_or_eq order_trans)
      then show ?thesis using old(5) [OF k(2)] new logs by simp
    qed
  qed
qed

lemma log_move_acks_inv:
  assumes move: "log_move n mo i a s s'" and inv: "acks_inv n s" "ballots_inv n s" "ballots_inv n s'"
  shows "acks_inv n s'"
proof -
  note mv = log_moveD [OF move] and mono = log_move_mono [OF move]
  have "led s' t \<and> v < n \<and> t \<le> a_term (cl_node s' v) \<and> m < int (length (cl_logs s' t)) \<and>
     (\<forall>k. int k \<le> m \<longrightarrow> kept s' t k {..a_term (cl_node s' v)} \<longrightarrow>
        take (Suc k) (a_log (cl_node s' v)) = take (Suc k) (cl_logs s' t))"
    if ack: "(t, v, m) \<in> cl_acks s'" for t v m
  proof (cases "(t, v, m) \<in> cl_acks s")
    case True
    note old = acks_old [OF inv(1) True]
    have "length (cl_logs s t) \<le> length (cl_logs s' t)"
      using log_move_led(3) [OF move] old(1) by (auto simp: extends_def dest: prefix_length_le)
    moreover have "t \<le> a_term (cl_node s' v)" using old(3) mv(11) by (auto simp: mono(6))
    ultimately show ?thesis
      using old(1,2,4) mono(5) log_move_old_ack [OF move inv(1) True] by simp
  next
    case False
    note new = new_ack [OF move ack False]
    then show ?thesis using mv(1) by (simp add: mono(6))
  qed
  then show ?thesis
    using log_move_ack_ballot [OF move inv] unfolding acks_inv_def by blast
qed

section \<open>Committed entries\<close>

text \<open>An entry of the leader of its term that a majority acknowledged in that term.\<close>

definition committed :: "u32 \<Rightarrow> cluster \<Rightarrow> u32 \<Rightarrow> nat \<Rightarrow> bool" where
  "committed n s t k \<longleftrightarrow> led s t \<and> k < length (cl_logs s t) \<and> le_term (cl_logs s t ! k) = t \<and>
     (\<exists>Q. unat n < 2 * card Q \<and> Q \<subseteq> {v. v < n} \<and>
        (\<forall>v. v \<in> Q \<longrightarrow> (\<exists>m. (t, v, m) \<in> cl_acks s \<and> int k \<le> m)))"

lemma last_in_term:
  assumes "matching s es" and "es \<noteq> []"
  shows "led s (le_term (last es))" and "prefix es (cl_logs s (le_term (last es)))"
proof -
  have k: "length es - 1 < length es" "last es = es ! (length es - 1)" "Suc (length es - 1) = length es"
    using assms(2) by (simp_all add: last_conv_nth)
  show "led s (le_term (last es))" using assms(1) k(1) unfolding k(2) matching_def by blast
  have "take (Suc (length es - 1)) es = take (Suc (length es - 1)) (cl_logs s (le_term (last es)))"
    using assms(1) k(1) unfolding k(2) matching_def by blast
  then have "es = take (length es) (cl_logs s (le_term (last es)))" unfolding k(3) by simp
  then show "prefix es (cl_logs s (le_term (last es)))" by (metis take_is_prefix)
qed

text \<open>
  The step of the induction: a log that a committed entry is in is behind the log of a
  candidate; then the entry is in the log of the candidate.
\<close>

lemma behind_has_entry:
  assumes inv: "log_inv n s" and L: "matching s L" "terms_below u L" "k < length L"
      "take (Suc k) L = take (Suc k) (cl_logs s t)"
    and Lx: "matching s Lx" "terms_below u Lx" and le: "log_end L \<le> log_end Lx"
    and t: "led s t" "k < length (cl_logs s t)" "le_term (cl_logs s t ! k) = t"
    and kept: "kept s t k {..<u}"
  shows "prefix (take (Suc k) (cl_logs s t)) Lx"
proof -
  have t0: "t \<noteq> 0" using led_leader [OF inv t(1)] by (auto simp: leader_log_inv_def)
  have nonempty: "L \<noteq> []" using L(3) by auto
  have "L ! k = cl_logs s t ! k" using L(4) by (metis nth_take lessI)
  then have tL: "t \<le> le_term (last L)"
    using L(2,3) t(3) nonempty sorted_nth_mono [of "map le_term L" k "length L - 1"]
    by (simp add: terms_below_def last_conv_nth)
  have fin: "le_term (last L) < log_term Lx (int (length Lx) - 1) \<or>
      le_term (last L) = log_term Lx (int (length Lx) - 1) \<and> length L \<le> length Lx"
    using le log_term_last [OF nonempty] by (simp add: log_end_def less_eq_log_pos_def)
  have x: "Lx \<noteq> []" using fin t0 tL nonempty by (auto simp: log_term_empty)
  note last = last_in_term [OF Lx(1) x]
  let ?w = "le_term (last Lx)"
  have w: "?w < u" using Lx(2) x by (simp add: terms_below_def)
  from fin consider "t < ?w" | "le_term (last L) = ?w" "length L \<le> length Lx"
    using tL log_term_last [OF x] by fastforce
  then show ?thesis
  proof cases
    case 1
    have M: "take (Suc k) (cl_logs s ?w) = take (Suc k) (cl_logs s t)"
      using kept last(1) w 1 by (simp add: kept_def)
    have "k < length Lx"
    proof (rule ccontr)
      assume "\<not> k < length Lx"
      then have "prefix Lx (take (Suc k) (cl_logs s ?w))"
        using last(2) by (auto simp: prefix_def)
      then have "last Lx \<in> set (cl_logs s t)"
        using M x by (metis in_set_takeD last_in_set set_mono_prefix subsetD)
      then have "?w \<le> t"
        using led_leader [OF inv t(1)] by (auto simp: leader_log_inv_def terms_to_def)
      then show False using 1 by simp
    qed
    then have "take (Suc k) Lx = take (Suc k) (cl_logs s t)" using take_prefix [OF last(2)] M by simp
    then show ?thesis by (metis take_is_prefix)
  next
    case 2
    then have "prefix L (cl_logs s ?w)" using last_in_term [OF L(1) nonempty] by simp
    then have "prefix L Lx" using last(2) 2(2) by (rule prefix_length_prefix)
    then show ?thesis using L(4) by (metis prefix_order.trans take_is_prefix)
  qed
qed

theorem leaders_are_complete:
  assumes inv: "log_inv n s" "ballots_inv n s" "winners_inv n s" "acks_inv n s"
    and com: "committed n s t k" and "t < u" and "led s u"
  shows "take (Suc k) (cl_logs s u) = take (Suc k) (cl_logs s t)"
  using assms(6,7)
proof (induction u rule: less_induct)
  case (less u)
  then have kept: "kept s t k {..<u}" by (simp add: kept_def)
  have t: "led s t" "k < length (cl_logs s t)" "le_term (cl_logs s t ! k) = t"
    using com by (simp_all add: committed_def)
  obtain Q where Q: "unat n < 2 * card Q" "Q \<subseteq> {v. v < n}"
    "\<forall>v. v \<in> Q \<longrightarrow> (\<exists>m. (t, v, m) \<in> cl_acks s \<and> int k \<le> m)"
    using com unfolding committed_def by blast
  obtain l where l: "(u, l) \<in> cl_leaders s" using less.prems(2) by (auto simp: led_def)
  obtain R where R: "unat n < 2 * card R" "R \<subseteq> {v. v < n}"
    "\<forall>v. v \<in> R \<longrightarrow> (\<exists>L. (u, v, l, L) \<in> cl_ballots s)"
    using inv(3) l unfolding winners_inv_def by blast
  obtain v where v: "v \<in> Q" "v \<in> R" using majorities_meet [OF Q(2) R(2) Q(1) R(1)] by blast
  obtain m L where m: "(t, v, m) \<in> cl_acks s" "int k \<le> m" and L: "(u, v, l, L) \<in> cl_ballots s"
    using Q(3) R(3) v by blast
  note old = ballots_old [OF inv(2) L]
  have eq: "take (Suc k) L = take (Suc k) (cl_logs s t)"
    by (rule acks_old(6) [OF inv(4) m L less.prems(1) kept])
  have len: "k < length L" using arg_cong [OF eq, of length] t(2) by simp
  obtain Lx where Lx: "(u, l, l, Lx) \<in> cl_ballots s" "log_end L \<le> log_end Lx" using old(5) by blast
  have "prefix (take (Suc k) (cl_logs s t)) Lx"
    using behind_has_entry [OF inv(1) old(2,3) len eq ballots_old(2,3) [OF inv(2) Lx(1)] Lx(2) t kept] .
  moreover have "prefix Lx (cl_logs s u)" using inv(3) l Lx(1) by (simp add: winners_inv_def)
  ultimately have "prefix (take (Suc k) (cl_logs s t)) (cl_logs s u)" by (rule prefix_order.trans)
  then show ?case using take_prefix [of "take (Suc k) (cl_logs s t)" "cl_logs s u" k] t(2) by simp
qed

end
