(* ===== verification/Commit_Safety.thy ===== *)
theory Commit_Safety
  imports Completeness
begin

text \<open>
  State machine safety: what a node commits is committed in the sense of \<open>Completeness\<close>, so two
  nodes never commit different entries at an index. The match indexes of a leader stand for
  acknowledgements of the history, and the commit index that requests carry is the one of their
  sender.
\<close>

section \<open>Match indexes are acknowledgements\<close>

definition answer_ok :: "cluster \<Rightarrow> amsg \<Rightarrow> bool" where
  "answer_ok s m \<longleftrightarrow> (case m_body m of
     AppendRes r \<Rightarrow> aer_success r \<noteq> 0 \<longrightarrow> aer_term r < a_term (cl_node s (m_dst m)) \<or>
       (aer_term r, m_src m, int_of_u32 (aer_new_match_index r)) \<in> cl_acks s
   | _ \<Rightarrow> True)"

definition match_ok :: "u32 \<Rightarrow> cluster \<Rightarrow> anode \<Rightarrow> bool" where
  "match_ok n s a \<longleftrightarrow> (a_role a = LEADER \<longrightarrow> (\<forall>v. v < n \<longrightarrow> a_match a ! unat v < 0 \<or>
     (a_term a, v, a_match a ! unat v) \<in> cl_acks s))"

definition match_inv :: "u32 \<Rightarrow> cluster \<Rightarrow> bool" where
  "match_inv n s \<longleftrightarrow> (\<forall>m. m \<in># cl_net s \<longrightarrow> answer_ok s m) \<and> (\<forall>i. i < n \<longrightarrow> match_ok n s (cl_node s i))"

lemma match_ok_mono: "match_ok n s a \<Longrightarrow> cl_acks s \<subseteq> cl_acks s' \<Longrightarrow> match_ok n s' a"
  by (auto simp: match_ok_def)

lemma log_move_answer_ok:
  assumes move: "log_move n mo i a s s'" and inv: "match_inv n s" and q: "q \<in># cl_net s'"
  shows "answer_ok s' q"
proof -
  note mv = log_moveD [OF move] and mono = log_move_mono [OF move]
  have terms: "a_term (cl_node s j) \<le> a_term (cl_node s' j)" for j
    using mv(11) by (simp add: mono(6))
  show ?thesis
  proof (cases "q \<in># cl_net s")
    case True
    then have "answer_ok s q" using inv by (simp add: match_inv_def)
    then show ?thesis
      using mono(2) terms [of "m_dst q"] unfolding answer_ok_def by (cases "m_body q") auto
  next
    case False
    then have "q \<in> set (a_out a)" using q unfolding mv(4) by (auto dest: in_diffD)
    with move show ?thesis
    proof (cases rule: log_move_messages)
      case plain
      then show ?thesis by (auto simp: plain_def answer_ok_def split: rpc_msg.splits)
    next
      case request
      then show ?thesis by (auto simp: leader_request_def answer_ok_def)
    next
      case (ack m' r p k)
      note req = log_move_request [OF move [unfolded ack(1)] ack(3,2)]
      let ?r = "\<lparr>aer_term = a_term (cl_node s i),
        aer_new_match_index = ae_prev_log_idx r + ae_n_entries r, aer_success = 1\<rparr>"
      have dst: "ae_leader_id r = m_src m'" using req(3) ack(3) by (auto simp: request_ok_def)
      have lead: "ae_term r \<le> a_term (cl_node s (m_src m'))"
        using log_move_leader_log [OF move req(1)] by (simp add: leader_log_inv_def)
      show ?thesis
      proof (cases "a_term (cl_node s i) = a_term a")
        case True
        have "(a_term a, i, int_of_u32 (aer_new_match_index ?r)) \<in> history_ack i a"
          using \<open>q \<in> set (a_out a)\<close> ack(7) True unfolding history_ack_def
          by (intro UnI1 CollectI exI [of _ q] exI [of _ ?r]) simp
        then show ?thesis
          unfolding mv(4) using ack(7) True by (simp add: answer_ok_def)
      next
        case False
        then have "a_term (cl_node s i) < a_term a" using mv(11) by simp
        then have "a_term (cl_node s i) < a_term (cl_node s' (m_src m'))"
          using ack(4) lead terms [of "m_src m'"] by simp
        then show ?thesis using ack(7) dst by (simp add: answer_ok_def)
      qed
    qed
  qed
qed

lemma log_move_match_ok:
  assumes move: "log_move n mo i a s s'" and inv: "match_inv n s"
  shows "match_ok n s' a"
proof (cases "a_role a = LEADER")
  case False
  then show ?thesis by (simp add: match_ok_def)
next
  case True
  note mv = log_moveD [OF move] and mono = log_move_mono [OF move]
  have old: "match_ok n s (cl_node s i)" using inv mv(1) by (simp add: match_inv_def)
  have keep: ?thesis
    if "a_role (cl_node s i) = LEADER" "a_match a = a_match (cl_node s i)" "a_term a = a_term (cl_node s i)"
    using old that mono(2) by (auto simp: match_ok_def)
  have id: "a_id (cl_node s i) = i" "a_num (cl_node s i) = n"
    using mv(5) by (simp_all add: node_inv_def Let_def)
  from mv(3) show ?thesis
  proof (cases rule: log_effect.cases)
    case idle
    then show ?thesis using keep True by (simp add: same_indexes_def)
  next
    case win
    then show ?thesis using id by (simp add: match_ok_def word_less_nat_alt)
  next
    case append
    then show ?thesis using keep by (simp add: same_indexes_def)
  next
    case (merge m r out)
    then show ?thesis using log_move_taker [of n m i a s s' r] move True id by auto
  next
    case (stored m r)
    have "m \<in># cl_net s" using mv(2) stored(1) by (simp add: mset_subset_taken)
    then have "answer_ok s m" using inv by (simp add: match_inv_def)
    then have "(a_term a, m_src m, int_of_u32 (aer_new_match_index r)) \<in> cl_acks s"
      using stored id by (simp add: answer_ok_def)
    moreover have "a_match a ! unat v = (if v = m_src m then int_of_u32 (aer_new_match_index r)
        else a_match (cl_node s i) ! unat v)" for v
      using stored by (auto simp: word_unat_eq_iff)
    ultimately show ?thesis
      using old stored(6,8) mono(2) by (auto simp: match_ok_def)
  next
    case (refused k)
    then show ?thesis using keep by simp
  qed
qed

lemma log_move_match_inv:
  assumes "log_move n mo i a s s'" and "match_inv n s"
  shows "match_inv n s'"
proof -
  note mono = log_move_mono [OF assms(1)]
  have "match_ok n s' (cl_node s' j)" if "j < n" for j
  proof (cases "j = i")
    case True
    then show ?thesis using log_move_match_ok [OF assms] by (simp add: mono(6) match_ok_def)
  next
    case False
    have "match_ok n s (cl_node s j)" using assms(2) that by (simp add: match_inv_def)
    then show ?thesis using match_ok_mono mono(2) False by (simp add: mono(6))
  qed
  then show ?thesis using log_move_answer_ok [OF assms] by (simp add: match_inv_def)
qed

text \<open>The entries a leader may commit are committed.\<close>

lemma match_count_majority:
  assumes "a_num a div 2 < a_match_count c a" and "a_id a < a_num a"
  shows "unat (a_num a) < 2 * card (insert (a_id a) {v \<in> set (a_peers a). c \<le> a_match a ! unat v})"
proof -
  let ?ps = "filter (\<lambda>v. c \<le> a_match a ! unat v) (a_peers a)"
  have set: "set ?ps = {v \<in> set (a_peers a). c \<le> a_match a ! unat v}" by auto
  have new: "a_id a \<notin> set ?ps" using peers_member [of "a_id a" a] by auto
  have len: "card (insert (a_id a) (set ?ps)) = Suc (length ?ps)"
    using new distinct_card [of ?ps] distinct_peers [of a] by simp
  have "insert (a_id a) (set ?ps) \<subseteq> {v. v < a_num a}"
    using assms(2) peers_member [of _ a] by auto
  then have "Suc (length ?ps) \<le> unat (a_num a)"
    using card_mono [of "{v. v < a_num a}" "insert (a_id a) (set ?ps)"] card_members [of "a_num a"] len
    by (simp add: finite_subset [OF subset_UNIV])
  moreover have "unat (a_num a) < 2 ^ 32" by (rule order_less_le_trans [OF unsigned_less]) simp
  ultimately have "Suc (length ?ps) < 2 ^ 32" by simp
  then have "unat (1 + of_nat (length ?ps) :: u32) = Suc (length ?ps)"
    using unat_of_nat [of "Suc (length ?ps)", where 'a = 32] by (simp add: take_bit_nat_eq_self)
  moreover have "unat (a_num a div 2) = unat (a_num a) div 2" by (simp add: unat_div)
  ultimately have "unat (a_num a) div 2 < Suc (length ?ps)"
    using assms(1) by (simp add: a_match_count_def word_less_nat_alt)
  moreover have "x div 2 < y \<Longrightarrow> x < 2 * y" for x y :: nat by arith
  ultimately show ?thesis unfolding set [symmetric] len by blast
qed

lemma committable_committed:
  assumes move: "log_move n mo i a s s'" and "match_ok n s' a" and lead: "a_role a = LEADER"
    and c: "committable a (int k)" "k < length (a_log a)"
  shows "committed n s' (a_term a) k"
proof -
  note mv = log_moveD [OF move] and led = log_move_led [OF move]
  let ?Q = "insert i {v \<in> set (a_peers a). int k \<le> a_match a ! unat v}"
  have "unat n < 2 * card ?Q"
    using match_count_majority [of a "int k"] c(1) mv(1,9,10) by (simp add: committable_def)
  moreover have "?Q \<subseteq> {v. v < n}" using mv(1,10) peers_member [of _ a] by auto
  moreover have "\<exists>m. (a_term a, v, m) \<in> cl_acks s' \<and> int k \<le> m" if "v \<in> ?Q" for v
  proof (cases "v = i")
    case True
    have "(a_term a, i, int (length (a_log a)) - 1) \<in> cl_acks s'"
      using lead unfolding mv(4) by (simp add: history_ack_def)
    then show ?thesis using c(2) True by (intro exI [of _ "int (length (a_log a)) - 1"]) simp
  next
    case False
    then have v: "v < n" "int k \<le> a_match a ! unat v"
      using that mv(10) peers_member [of v a] by auto
    then have "(a_term a, v, a_match a ! unat v) \<in> cl_acks s'"
      using assms(2) lead by (fastforce simp: match_ok_def)
    then show ?thesis using v(2) by blast
  qed
  moreover have "le_term (a_log a ! k) = a_term a"
    using c by (simp add: committable_def log_term_def)
  moreover have "led s' (a_term a)" "cl_logs s' (a_term a) = a_log a"
    using led(1,2) lead by simp_all
  ultimately show ?thesis
    unfolding committed_def using c(2) by (intro conjI exI [of _ ?Q]) (simp_all only:, blast)
qed

section \<open>Commit indexes\<close>

text \<open>The entries up to \<open>c\<close> of the log \<open>es\<close> are committed, in a term up to \<open>T\<close>.\<close>

definition safe_upto :: "u32 \<Rightarrow> cluster \<Rightarrow> u32 \<Rightarrow> log_entry_t list \<Rightarrow> int \<Rightarrow> bool" where
  "safe_upto n s T es c \<longleftrightarrow> -1 \<le> c \<and> (0 \<le> c \<longrightarrow> (\<exists>t k. committed n s t k \<and> c \<le> int k \<and> t \<le> T \<and>
     take (Suc (nat c)) es = take (Suc (nat c)) (cl_logs s t)))"

definition commit_inv :: "u32 \<Rightarrow> cluster \<Rightarrow> bool" where
  "commit_inv n s \<longleftrightarrow>
     (\<forall>i. i < n \<longrightarrow> safe_upto n s (a_term (cl_node s i)) (a_log (cl_node s i)) (a_commit (cl_node s i))) \<and>
     (\<forall>m r. m \<in># cl_net s \<longrightarrow> m_body m = AppendReq r \<longrightarrow>
        safe_upto n s (ae_term r) (cl_logs s (ae_term r)) (ae_leader_commit r))"

lemma safe_none: "safe_upto n s T es (-1)"
  by (simp add: safe_upto_def)

lemma committed_grows:
  assumes "committed n s t k" and "extends s s'" and "cl_acks s \<subseteq> cl_acks s'"
  shows "committed n s' t k" and "take (Suc k) (cl_logs s' t) = take (Suc k) (cl_logs s t)"
proof -
  have t: "led s t" "k < length (cl_logs s t)" "le_term (cl_logs s t ! k) = t"
    using assms(1) by (simp_all add: committed_def)
  then have p: "led s' t" "prefix (cl_logs s t) (cl_logs s' t)" using assms(2) by (simp_all add: extends_def)
  show eq: "take (Suc k) (cl_logs s' t) = take (Suc k) (cl_logs s t)" using p(2) t(2) by (rule take_prefix)
  have "k < length (cl_logs s' t)" using prefix_length_le [OF p(2)] t(2) by simp
  moreover have "cl_logs s' t ! k = cl_logs s t ! k" using eq by (metis nth_take lessI)
  ultimately show "committed n s' t k"
    using assms(1,3) p(1) t(3) by (simp add: committed_def) (meson subsetD)
qed

lemma take_shorter: "take (Suc k) xs = take (Suc k) ys \<Longrightarrow> j \<le> k \<Longrightarrow> take (Suc j) xs = take (Suc j) ys"
  by (metis Suc_le_mono min.absorb1 take_take)

lemma safe_grows:
  assumes "safe_upto n s T es c" and "extends s s'" and "cl_acks s \<subseteq> cl_acks s'" and "T \<le> T'"
    and "0 \<le> c \<Longrightarrow> nat c < length es \<Longrightarrow> take (Suc (nat c)) es' = take (Suc (nat c)) es"
  shows "safe_upto n s' T' es' c"
proof (cases "0 \<le> c")
  case False
  then show ?thesis using assms(1) by (simp add: safe_upto_def)
next
  case True
  then obtain t k where t: "committed n s t k" "c \<le> int k" "t \<le> T"
    "take (Suc (nat c)) es = take (Suc (nat c)) (cl_logs s t)"
    using assms(1) unfolding safe_upto_def by blast
  have "nat c \<le> k" using True t(2) by simp
  then have logs: "take (Suc (nat c)) (cl_logs s' t) = take (Suc (nat c)) (cl_logs s t)"
    using take_shorter [OF committed_grows(2) [OF t(1) assms(2,3)]] by simp
  have "k < length (cl_logs s t)" using t(1) by (simp add: committed_def)
  then have "nat c < length es" using arg_cong [OF t(4), of length] \<open>nat c \<le> k\<close> by simp
  then have "take (Suc (nat c)) es' = take (Suc (nat c)) (cl_logs s' t)" using True t(4) assms(5) logs by simp
  moreover have "t \<le> T'" using t(3) assms(4) by simp
  ultimately show ?thesis
    using True t(2) committed_grows(1) [OF t(1) assms(2,3)] unfolding safe_upto_def by force
qed

lemma safe_length:
  assumes "safe_upto n s T es c" and "0 \<le> c"
  shows "nat c < length es"
proof -
  obtain t k where "committed n s t k" "c \<le> int k" "take (Suc (nat c)) es = take (Suc (nat c)) (cl_logs s t)"
    using assms unfolding safe_upto_def by blast
  then have "length (take (Suc (nat c)) es) = Suc (nat c)" using assms(2) by (auto simp: committed_def)
  then show ?thesis by simp
qed

definition complete_inv :: "u32 \<Rightarrow> cluster \<Rightarrow> bool" where
  "complete_inv n s \<longleftrightarrow> ballots_inv n s \<and> winners_inv n s \<and> asks_inv s \<and> acks_inv n s \<and>
     match_inv n s \<and> commit_inv n s"

text \<open>Two logs agree as far as both are committed.\<close>

lemma complete_between:
  assumes "log_inv n s" and "complete_inv n s" and "committed n s t k" and "t \<le> u" and "led s u"
  shows "take (Suc k) (cl_logs s u) = take (Suc k) (cl_logs s t)"
  using leaders_are_complete [OF assms(1) _ _ _ assms(3) _ assms(5)] assms(2,4)
  by (cases "t = u") (simp_all add: complete_inv_def)

lemma safe_agree:
  assumes inv: "log_inv n s" "complete_inv n s" and "safe_upto n s T es c" and "safe_upto n s U fs d"
    and "int j \<le> c" and "int j \<le> d"
  shows "take (Suc j) es = take (Suc j) fs"
proof -
  obtain t k where t: "committed n s t k" "c \<le> int k"
    "take (Suc (nat c)) es = take (Suc (nat c)) (cl_logs s t)"
    using assms(3,5) unfolding safe_upto_def by (metis of_nat_0_le_iff order_trans)
  obtain u l where u: "committed n s u l" "d \<le> int l"
    "take (Suc (nat d)) fs = take (Suc (nat d)) (cl_logs s u)"
    using assms(4,6) unfolding safe_upto_def by (metis of_nat_0_le_iff order_trans)
  have led: "led s t" "led s u" using t(1) u(1) by (simp_all add: committed_def)
  have j: "j \<le> k" "j \<le> l" "j \<le> nat c" "j \<le> nat d" using assms(5,6) t(2) u(2) by simp_all
  have "take (Suc j) (cl_logs s t) = take (Suc j) (cl_logs s u)"
  proof (cases "t \<le> u")
    case True
    then show ?thesis using take_shorter [OF complete_between [OF inv t(1) _ led(2)] j(1)] by simp
  next
    case False
    then show ?thesis using take_shorter [OF complete_between [OF inv u(1) _ led(1)] j(2)] by simp
  qed
  then show ?thesis using take_shorter [OF t(3) j(3)] take_shorter [OF u(3) j(4)] by simp
qed

section \<open>The commit index stays safe\<close>

lemma log_move_merge_safe:
  assumes move: "log_move n mo i a s s'" and inv: "complete_inv n s"
    and m: "mo = Some m" "m_body m = AppendReq r" "m_dst m = i" "a_term a = ae_term r"
    and mg: "merged s r (a_log (cl_node s i)) (a_log a) p k"
    and c: "c = (if a_commit (cl_node s i) < ae_leader_commit r
      then min (ae_leader_commit r) (int_of_u32 (ae_prev_log_idx r + ae_n_entries r))
      else a_commit (cl_node s i))"
  shows "safe_upto n s (a_term a) (a_log a) c"
proof -
  note mv = log_moveD [OF move]
  let ?b = "cl_node s i" and ?M = "cl_logs s (ae_term r)"
  note req = log_move_request [OF move [unfolded m(1)] m(2,3)]
  have M: "led s (ae_term r)" "matching s ?M"
    using req(1) log_move_leader_log [OF move req(1)] by (auto simp: led_def leader_log_inv_def)
  have b: "matching s (a_log ?b)" using mv(12) by (simp add: node_log_inv_def Let_def)
  have linv: "log_inv n s" using move by (simp add: log_move_def)
  have old: "safe_upto n s (a_term ?b) (a_log ?b) (a_commit ?b)"
    using inv mv(1) by (simp add: complete_inv_def commit_inv_def)
  have net: "m \<in># cl_net s" using mv(2) m(1) by (simp add: mset_subset_taken)
  then have new: "safe_upto n s (ae_term r) ?M (ae_leader_commit r)"
    using inv m(2) by (auto simp: complete_inv_def commit_inv_def)
  have p: "-1 \<le> p" "nat (p + 1) \<le> length (a_log ?b)" "nat (p + 1) + k \<le> length ?M"
    "int_of_u32 (ae_prev_log_idx r + ae_n_entries r) = p + int k"
    "a_log a = merge_entries (take k (drop (nat (p + 1)) ?M)) (nat (p + 1)) (a_log ?b)"
    using mg by (auto simp: merged_def Let_def)
  show ?thesis
  proof (cases "a_commit ?b < ae_leader_commit r")
    case False
    then have c': "c = a_commit ?b" using c by simp
    show ?thesis
    proof (cases "0 \<le> a_commit ?b")
      case True
      obtain t j where t: "committed n s t j" "a_commit ?b \<le> int j" "t \<le> a_term ?b"
        "take (Suc (nat (a_commit ?b))) (a_log ?b) = take (Suc (nat (a_commit ?b))) (cl_logs s t)"
        using old True unfolding safe_upto_def by blast
      have "t \<le> ae_term r" using t(3) mv(11) m(4) by simp
      then have eq: "take (Suc (nat (a_commit ?b))) ?M = take (Suc (nat (a_commit ?b))) (cl_logs s t)"
        using take_shorter [OF complete_between [OF linv inv t(1) _ M(1)]] t(2) by simp
      have len: "nat (a_commit ?b) < length (a_log ?b)" using safe_length [OF old True] .
      then have "Suc (nat (a_commit ?b)) \<le> length ?M"
        using arg_cong [OF trans [OF t(4) eq [symmetric]], of length] by simp
      then have "take (Suc (nat (a_commit ?b))) (a_log a) = take (Suc (nat (a_commit ?b))) (a_log ?b)"
        unfolding p(5) using len t(4) eq p(2) by (intro merge_keeps) simp_all
      then show ?thesis
        unfolding c' using safe_grows [OF old extends_refl [OF refl refl] subset_refl mv(11)] by simp
    qed (use old c' in \<open>simp add: safe_upto_def\<close>)
  next
    case True
    then have c': "c = min (ae_leader_commit r) (p + int k)" using c p(4) by simp
    show ?thesis
    proof (cases "0 \<le> c")
      case c0: True
      obtain t j where t: "committed n s t j" "ae_leader_commit r \<le> int j" "t \<le> ae_term r"
        "take (Suc (nat (ae_leader_commit r))) ?M = take (Suc (nat (ae_leader_commit r))) (cl_logs s t)"
        using new c0 c' unfolding safe_upto_def by (metis min.bounded_iff)
      have eq: "take (nat (p + 1) + k) (a_log a) = take (nat (p + 1) + k) ?M"
        using merged_result [OF mg b M(2)] by auto
      have "Suc (nat c) \<le> nat (p + 1) + k" "nat c \<le> nat (ae_leader_commit r)" using c' c0 p(1) by auto
      then have "take (Suc (nat c)) (a_log a) = take (Suc (nat c)) (cl_logs s t)"
        using eq take_shorter [OF t(4), of "nat c"] by (metis min.absorb1 take_take)
      moreover have "c \<le> int j" using c' t(2) by simp
      ultimately show ?thesis using t(1,3) c0 m(4) unfolding safe_upto_def by force
    next
      case False
      then show ?thesis using old True p(1) unfolding safe_upto_def c' by auto
    qed
  qed
qed

lemma log_move_node_safe:
  assumes move: "log_move n mo i a s s'" and inv: "complete_inv n s" and match: "match_ok n s' a"
  shows "safe_upto n s' (a_term a) (a_log a) (a_commit a)"
proof -
  note mv = log_moveD [OF move] and mono = log_move_mono [OF move]
  note ext = log_move_led(3) [OF move]
  let ?b = "cl_node s i"
  have old: "safe_upto n s (a_term ?b) (a_log ?b) (a_commit ?b)"
    using inv mv(1) by (simp add: complete_inv_def commit_inv_def)
  have keep: ?thesis if "a_commit a = a_commit ?b" "prefix (a_log ?b) (a_log a)"
    unfolding that(1)
    by (rule safe_grows [OF old ext mono(2) mv(11)]) (use that(2) take_prefix in blast)
  have id: "a_id ?b = i" using mv(5) by (simp add: node_inv_def Let_def)
  from mv(3) show ?thesis
  proof (cases rule: log_effect.cases)
    case (merge m r out)
    have dst: "m_dst m = i" using merge(2) id by simp
    obtain p k where mg: "merged s r (a_log ?b) (a_log a) p k"
      using log_move_merged [OF move [unfolded merge(1)] merge(3) dst merge(8-10)] by blast
    have "safe_upto n s (a_term a) (a_log a) (a_commit a)"
      by (rule log_move_merge_safe [OF move inv merge(1,3) dst merge(6) mg merge(11)])
    then show ?thesis by (rule safe_grows [OF _ ext mono(2)]) simp_all
  next
    case (stored m r)
    from stored(14) show ?thesis
    proof (elim disjE conjE)
      assume c: "a_commit ?b < a_commit a" "a_commit a < int (length (a_log ?b))"
        "committable a (a_commit a)"
      have c0: "0 \<le> a_commit a" using old c(1) by (simp add: safe_upto_def)
      have "committed n s' (a_term a) (nat (a_commit a))"
        by (rule committable_committed [OF move match stored(7)]) (use c c0 stored(9) in simp_all)
      moreover have "cl_logs s' (a_term a) = a_log a" using log_move_led(2) [OF move] stored(7) by simp
      ultimately show ?thesis using c0 unfolding safe_upto_def by force
    qed (use stored keep in simp)
  qed (use keep in simp_all)
qed

lemma log_move_commit_inv:
  assumes move: "log_move n mo i a s s'" and inv: "complete_inv n s" and match: "match_ok n s' a"
  shows "commit_inv n s'"
proof -
  note mv = log_moveD [OF move] and mono = log_move_mono [OF move]
  note ext = log_move_led(3) [OF move]
  note new = log_move_node_safe [OF assms]
  have "safe_upto n s' (a_term (cl_node s' j)) (a_log (cl_node s' j)) (a_commit (cl_node s' j))"
    if j: "j < n" for j
  proof (cases "j = i")
    case False
    have "safe_upto n s (a_term (cl_node s j)) (a_log (cl_node s j)) (a_commit (cl_node s j))"
      using inv j by (simp add: complete_inv_def commit_inv_def)
    then show ?thesis using False safe_grows [OF _ ext mono(2)] by (simp add: mono(6))
  qed (use new in \<open>simp add: mono(6)\<close>)
  moreover have "safe_upto n s' (ae_term r) (cl_logs s' (ae_term r)) (ae_leader_commit r)"
    if q: "q \<in># cl_net s'" "m_body q = AppendReq r" for q r
  proof (cases "q \<in># cl_net s")
    case True
    have "safe_upto n s (ae_term r) (cl_logs s (ae_term r)) (ae_leader_commit r)"
      using inv True q(2) by (auto simp: complete_inv_def commit_inv_def)
    moreover have "msg_ok n s q" using mv(8) True by (rule cast_net)
    then have "prefix (cl_logs s (ae_term r)) (cl_logs s' (ae_term r))"
      using ext q(2) by (auto simp: msg_ok_def extends_def led_def)
    ultimately show ?thesis using safe_grows [OF _ ext mono(2)] take_prefix by blast
  next
    case False
    then have "q \<in> set (a_out a)" using q unfolding mv(4) by (auto dest: in_diffD)
    from move this have "leader_request a q"
      by (cases rule: log_move_messages) (use q in \<open>auto simp: plain_def\<close>)
    then have "a_role a = LEADER" "ae_term r = a_term a" "ae_leader_commit r = a_commit a"
      using q(2) by (auto simp: leader_request_def a_append_request_def Let_def)
    then show ?thesis using new log_move_led(2) [OF move] by simp
  qed
  ultimately show ?thesis unfolding commit_inv_def by blast
qed

lemma log_move_complete_inv:
  assumes move: "log_move n mo i a s s'" and inv: "complete_inv n s" and n: "n \<le> PF_NO_VOTE_V"
  shows "complete_inv n s'"
proof -
  note old = inv [unfolded complete_inv_def]
  have b: "ballots_inv n s'" using log_move_ballots_inv [OF move] old by blast
  have m: "match_inv n s'" using log_move_match_inv [OF move] old by blast
  have "match_ok n s' a" using log_move_match_ok [OF move] old by blast
  then have "commit_inv n s'" by (rule log_move_commit_inv [OF move inv])
  moreover have "winners_inv n s'" using log_move_winners_inv [OF move] old by blast
  moreover have "asks_inv s'" using log_move_asks_inv [OF move] old n by blast
  moreover have "acks_inv n s'" using log_move_acks_inv [OF move _ _ b] old by blast
  ultimately show ?thesis using b m by (simp add: complete_inv_def)
qed

end
