(* ===== verification/Safety.thy ===== *)
theory Safety
  imports Commit_Safety
begin

text \<open>
  The theorems of the consensus over the reachable states of a cluster: leader completeness and
  state machine safety. Steps of the network and restarts keep the histories, so they keep the
  invariants.
\<close>

section \<open>Steps that keep the histories\<close>

definition same_history :: "cluster \<Rightarrow> cluster \<Rightarrow> bool" where
  "same_history s s' \<longleftrightarrow> cl_votes s' = cl_votes s \<and> cl_leaders s' = cl_leaders s \<and>
     cl_logs s' = cl_logs s \<and> cl_ballots s' = cl_ballots s \<and> cl_acks s' = cl_acks s \<and>
     (\<forall>j. a_log (cl_node s' j) = a_log (cl_node s j) \<and> a_term (cl_node s' j) = a_term (cl_node s j) \<and>
        (cl_node s' j = cl_node s j \<or>
         a_role (cl_node s' j) = FOLLOWER \<and> a_commit (cl_node s' j) = -1)) \<and>
     (\<forall>m. m \<in># cl_net s' \<longrightarrow> m \<in># cl_net s \<or> from_client m)"

lemma same_historyD:
  assumes "same_history s s'"
  shows "cl_votes s' = cl_votes s" and "cl_leaders s' = cl_leaders s" and "cl_logs s' = cl_logs s"
    and "cl_ballots s' = cl_ballots s" and "cl_acks s' = cl_acks s"
    and "a_log (cl_node s' j) = a_log (cl_node s j)" and "a_term (cl_node s' j) = a_term (cl_node s j)"
    and "cl_node s' j = cl_node s j \<or> a_role (cl_node s' j) = FOLLOWER \<and> a_commit (cl_node s' j) = -1"
    and "m \<in># cl_net s' \<Longrightarrow> m \<in># cl_net s \<or> from_client m"
  using assms unfolding same_history_def by blast+

lemma same_history_preds:
  assumes "same_history s s'"
  shows "led s' = led s" and "matching s' = matching s" and "kept s' = kept s"
    and "committed n s' = committed n s" and "safe_upto n s' = safe_upto n s"
    and "ask_ok s' = ask_ok s" and "answer_ok s' = answer_ok s"
proof -
  note h = same_historyD(1-5,7) [OF assms]
  show led: "led s' = led s" by (simp add: led_def h fun_eq_iff)
  show "matching s' = matching s" by (simp add: matching_def led h fun_eq_iff)
  show "kept s' = kept s" by (simp add: kept_def led h fun_eq_iff)
  show com: "committed n s' = committed n s" by (simp add: committed_def led h fun_eq_iff)
  show "safe_upto n s' = safe_upto n s" by (simp add: safe_upto_def com h fun_eq_iff)
  show "ask_ok s' = ask_ok s" unfolding ask_ok_def fun_eq_iff led h by blast
  show "answer_ok s' = answer_ok s" unfolding answer_ok_def fun_eq_iff h by blast
qed

lemma same_history_complete_inv:
  assumes same: "same_history s s'" and inv: "complete_inv n s"
  shows "complete_inv n s'"
proof -
  note h = same_historyD [OF same] and p = same_history_preds [OF same]
  have i: "ballots_inv n s" "winners_inv n s" "asks_inv s" "acks_inv n s" "match_inv n s" "commit_inv n s"
    using inv by (simp_all add: complete_inv_def)
  have client: "ask_ok s m \<and> answer_ok s m \<and> (\<forall>r. m_body m \<noteq> AppendReq r)" if "from_client m" for m
    using that by (auto simp: from_client_def ask_ok_def answer_ok_def split: rpc_msg.splits)
  have "ballots_inv n s'" using i(1) by (simp add: ballots_inv_def h p)
  moreover have "winners_inv n s'" using i(2) by (simp add: winners_inv_def h p)
  moreover have "asks_inv s'" using i(3) h(9) client by (auto simp: asks_inv_def p)
  moreover have "acks_inv n s'" using i(4) by (simp add: acks_inv_def h p)
  moreover have "match_ok n s' (cl_node s' j)" if "j < n" for j
    using h(8) [of j]
  proof
    assume "cl_node s' j = cl_node s j"
    then show ?thesis using i(5) that by (simp add: match_inv_def match_ok_def h(5))
  qed (simp add: match_ok_def)
  then have "match_inv n s'" using i(5) h(9) client by (auto simp: match_inv_def p)
  moreover have "commit_inv n s'"
  proof -
    have "safe_upto n s (a_term (cl_node s j)) (a_log (cl_node s j)) (a_commit (cl_node s' j))"
      if "j < n" for j
      using h(8) [of j] i(6) that by (auto simp: commit_inv_def safe_none)
    moreover have "safe_upto n s (ae_term r) (cl_logs s (ae_term r)) (ae_leader_commit r)"
      if "m \<in># cl_net s'" "m_body m = AppendReq r" for m r
      using i(6) h(9) [OF that(1)] client that(2) by (auto simp: commit_inv_def)
    ultimately show ?thesis by (simp add: commit_inv_def p h(3,6,7))
  qed
  ultimately show ?thesis by (simp add: complete_inv_def)
qed

lemma restart_same_history:
  assumes inv: "cast_inv n s" "ballots_inv n s" and i: "i < n"
    and s': "s' = after_step i (a_boot i n (a_log (cl_node s i)) (a_term (cl_node s i))
        (a_vote (cl_node s i)) ns ms) s"
  shows "same_history s s'"
proof -
  let ?b = "cl_node s i"
  let ?a = "a_boot i n (a_log ?b) (a_term ?b) (a_vote ?b) ns ms"
  have boot: "a_role ?a = FOLLOWER" "a_out ?a = []" "a_vote ?a = a_vote ?b" "a_term ?a = a_term ?b"
    by (simp_all add: a_boot_def)
  have vote: "(a_term ?b, i, a_vote ?b) \<in> cl_votes s" if "a_vote ?b \<noteq> PF_NO_VOTE_V"
    using inv(1) i that by (simp add: cast_inv_def node_inv_def Let_def)
  have "history_ballot i ?a s \<subseteq> cl_ballots s"
  proof (cases "a_vote ?b = PF_NO_VOTE_V \<or> led s (a_term ?b)")
    case False
    then obtain L where L: "(a_term ?b, i, a_vote ?b, L) \<in> cl_ballots s"
      using inv(2) vote unfolding ballots_inv_def by blast
    then show ?thesis
      using ballots_old(6) [OF inv(2) L] False boot by (simp add: history_ballot_def)
  qed (use boot in \<open>auto simp: history_ballot_def\<close>)
  moreover have "history_vote i ?a \<subseteq> cl_votes s" using vote boot by (simp add: history_vote_def)
  moreover have "history_leader i ?a = {}" "history_ack i ?a = {}"
    using boot by (simp_all add: history_leader_def history_ack_def)
  ultimately show ?thesis
    unfolding s' same_history_def using boot by (auto simp: a_boot_def)
qed

lemma cstep_complete_inv:
  assumes step: "cstep n s s'" and inv: "election_inv n s" "election_inv n s'" "log_inv n s"
    "complete_inv n s" and n: "n \<le> PF_NO_VOTE_V"
  shows "complete_inv n s'"
  using step inv(1-3)
proof (cases rule: cstep_log_move)
  case (move mo i a)
  then show ?thesis using inv(4) n by (rule log_move_complete_inv)
next
  case (lose m)
  then have "same_history s s'" by (auto simp: same_history_def dest: in_diffD)
  then show ?thesis using inv(4) by (rule same_history_complete_inv)
next
  case (client m)
  then have "same_history s s'" by (auto simp: same_history_def)
  then show ?thesis using inv(4) by (rule same_history_complete_inv)
next
  case (restart i ns ms)
  have "same_history s s'"
    using inv(1,4) restart(1,4)
    by (intro restart_same_history) (simp_all add: election_inv_def complete_inv_def)
  then show ?thesis using inv(4) by (rule same_history_complete_inv)
qed

lemma cstart_complete_inv: "cstart n s \<Longrightarrow> complete_inv n s"
  by (force simp: cstart_def complete_inv_def ballots_inv_def winners_inv_def asks_inv_def acks_inv_def
      match_inv_def match_ok_def commit_inv_def safe_upto_def a_boot_def)

lemma creach_complete_inv: "creach n s \<Longrightarrow> n \<le> PF_NO_VOTE_V \<Longrightarrow> complete_inv n s"
proof (induction rule: creach.induct)
  case (step s s')
  have "creach n s'" using step.hyps by (rule creach.step)
  then show ?case
    using cstep_complete_inv [OF step.hyps(2)] step.IH step.prems creach_inv creach_log_inv step.hyps(1)
    by blast
qed (rule cstart_complete_inv)

section \<open>Executions\<close>

text \<open>What the histories keep along an execution.\<close>

lemma cstep_keeps:
  assumes step: "cstep n s s'" and reach: "creach n s" and n: "n \<le> PF_NO_VOTE_V"
  shows "extends s s' \<and> cl_acks s \<subseteq> cl_acks s'"
proof -
  have "creach n s'" using reach step by (rule creach.step)
  note inv = creach_inv [OF reach n] creach_inv [OF this n] creach_log_inv [OF reach n]
  from step inv show ?thesis
  proof (cases rule: cstep_log_move)
    case (move mo i a)
    then show ?thesis using log_move_led(3) log_move_mono(2) by blast
  next
    case (restart i ns ms)
    then show ?thesis by (auto simp: extends_def led_def history_leader_def)
  qed (simp_all add: extends_def led_def)
qed

lemma extends_trans: "extends s s1 \<Longrightarrow> extends s1 s2 \<Longrightarrow> extends s s2"
  by (auto simp: extends_def intro: prefix_order.trans)

lemma csteps_keep:
  assumes "(cstep n)\<^sup>*\<^sup>* s s'" and "creach n s" and "n \<le> PF_NO_VOTE_V"
  shows "creach n s' \<and> extends s s' \<and> cl_acks s \<subseteq> cl_acks s'"
  using assms(1)
proof (induction rule: rtranclp_induct)
  case base
  then show ?case using assms(2) by (simp add: extends_def)
next
  case (step s1 s2)
  then show ?case
    using cstep_keeps [OF step.hyps(2) _ assms(3)] creach.step extends_trans by blast
qed

lemma node_safe:
  assumes "creach n s" and "n \<le> PF_NO_VOTE_V" and "i < n"
  shows "safe_upto n s (a_term (cl_node s i)) (a_log (cl_node s i)) (a_commit (cl_node s i))"
  using creach_complete_inv [OF assms(1,2)] assms(3) by (simp add: complete_inv_def commit_inv_def)

text \<open>State machine safety, also between the states of an execution.\<close>

theorem csteps_state_machine_safety:
  assumes "creach n s" and "(cstep n)\<^sup>*\<^sup>* s s'" and n: "n \<le> PF_NO_VOTE_V" and i: "i < n" and j: "j < n"
    and "int k \<le> a_commit (cl_node s i)" and "int k \<le> a_commit (cl_node s' j)"
  shows "k < length (a_log (cl_node s i))" and "k < length (a_log (cl_node s' j))"
    and "take (Suc k) (a_log (cl_node s i)) = take (Suc k) (a_log (cl_node s' j))"
proof -
  have later: "creach n s'" "extends s s'" "cl_acks s \<subseteq> cl_acks s'"
    using csteps_keep [OF assms(2,1) n] by blast+
  note si = node_safe [OF assms(1) n i] and sj = node_safe [OF later(1) n j]
  show "k < length (a_log (cl_node s i))" "k < length (a_log (cl_node s' j))"
    using safe_length [OF si] safe_length [OF sj] assms(6,7) by simp_all
  have "safe_upto n s' (a_term (cl_node s i)) (a_log (cl_node s i)) (a_commit (cl_node s i))"
    using si by (rule safe_grows [OF _ later(2,3)]) simp_all
  then show "take (Suc k) (a_log (cl_node s i)) = take (Suc k) (a_log (cl_node s' j))"
    using safe_agree [OF creach_log_inv [OF later(1) n] creach_complete_inv [OF later(1) n] _ sj]
      assms(6,7) by blast
qed

text \<open>Leader completeness: what a node committed is in the log of every leader of a later term.\<close>

theorem csteps_leader_completeness:
  assumes "creach n s" and "(cstep n)\<^sup>*\<^sup>* s s'" and n: "n \<le> PF_NO_VOTE_V" and i: "i < n" and l: "l < n"
    and k: "int k \<le> a_commit (cl_node s i)" and lead: "a_role (cl_node s' l) = LEADER"
    and le: "a_term (cl_node s i) \<le> a_term (cl_node s' l)"
  shows "k < length (a_log (cl_node s i))"
    and "take (Suc k) (a_log (cl_node s' l)) = take (Suc k) (a_log (cl_node s i))"
proof -
  have later: "creach n s'" "extends s s'" "cl_acks s \<subseteq> cl_acks s'"
    using csteps_keep [OF assms(2,1) n] by blast+
  note si = node_safe [OF assms(1) n i]
  show "k < length (a_log (cl_node s i))" using safe_length [OF si] k by simp
  have "safe_upto n s' (a_term (cl_node s i)) (a_log (cl_node s i)) (a_commit (cl_node s i))"
    using si by (rule safe_grows [OF _ later(2,3)]) simp_all
  then obtain t m where t: "committed n s' t m" "a_commit (cl_node s i) \<le> int m"
    "t \<le> a_term (cl_node s i)"
    "take (Suc (nat (a_commit (cl_node s i)))) (a_log (cl_node s i)) =
     take (Suc (nat (a_commit (cl_node s i)))) (cl_logs s' t)"
    using k unfolding safe_upto_def by (metis of_nat_0_le_iff order_trans)
  let ?u = "a_term (cl_node s' l)"
  have "cast_inv n s'" using creach_inv [OF later(1) n] by (simp add: election_inv_def)
  then have u: "(?u, l) \<in> cl_leaders s'"
    using l lead by (simp add: cast_inv_def node_inv_def Let_def)
  then have log: "cl_logs s' ?u = a_log (cl_node s' l)"
    using creach_log_inv [OF later(1) n] by (simp add: log_inv_def leader_log_inv_def)
  have "take (Suc m) (cl_logs s' ?u) = take (Suc m) (cl_logs s' t)"
    using u t(3) le
    by (intro complete_between [OF creach_log_inv [OF later(1) n] creach_complete_inv [OF later(1) n] t(1)])
      (auto simp: led_def)
  moreover have "k \<le> m" "k \<le> nat (a_commit (cl_node s i))" using t(2) k by simp_all
  ultimately show "take (Suc k) (a_log (cl_node s' l)) = take (Suc k) (a_log (cl_node s i))"
    using take_shorter [of m "cl_logs s' ?u" _ k] take_shorter [OF t(4), of k] unfolding log by simp
qed

end
