(* ===== verification/Unix_Safety.thy ===== *)
theory Unix_Safety
  imports Node_Commit Safety
begin

text \<open>
  The theorems of \<open>Log_Matching\<close> and \<open>Safety\<close> for runs of the programs, through the simulation
  of \<open>Unix_Cluster\<close>, and a run in which two nodes elect a leader and commit an entry.
\<close>

section \<open>Runs of the programs\<close>

text \<open>A state that a run reaches, with the state of the specification that it is related to.\<close>

lemma run_sim:
  assumes "ustart n s" and "(ustep n)\<^sup>*\<^sup>* s t" and "n \<le> PF_NO_VOTE_V"
  obtains a where "creach n a" and "sim n t a"
proof -
  obtain b where "sim n s b" "cstart n b" using assms(1) by (rule ustart_sim)
  then show ?thesis using usteps_sim [OF assms(2) _ creach.start assms(3)] that by blast
qed

lemma runs_sim:
  assumes "ustart n s" and "(ustep n)\<^sup>*\<^sup>* s s1" and "(ustep n)\<^sup>*\<^sup>* s1 s2" and "n \<le> PF_NO_VOTE_V"
  obtains a1 a2 where "creach n a1" and "sim n s1 a1" and "(cstep n)\<^sup>*\<^sup>* a1 a2" and "creach n a2"
    and "sim n s2 a2"
proof -
  obtain a1 where a1: "creach n a1" "sim n s1 a1" using run_sim [OF assms(1,2,4)] .
  then show ?thesis using usteps_sim [OF assms(3) a1(2,1) assms(4)] that by blast
qed

lemma sim_node:
  assumes "sim n s a" and "i < n"
  shows "a_log (cl_node a i) = node_entries (u_node s i)" and "a_term (cl_node a i) = node_term (u_node s i)"
    and "a_commit (cl_node a i) = commit_index (u_node s i)" and "a_role (cl_node a i) = role (u_node s i)"
proof -
  have "cl_node a i = unix_view (u_node s i)" using assms by (simp add: sim_def)
  then show "a_log (cl_node a i) = node_entries (u_node s i)" "a_term (cl_node a i) = node_term (u_node s i)"
    "a_commit (cl_node a i) = commit_index (u_node s i)" "a_role (cl_node a i) = role (u_node s i)"
    by (simp_all add: view_fields node_entries_def)
qed

lemma run_log_matching:
  assumes "ustart n s" and "(ustep n)\<^sup>*\<^sup>* s t" and "n \<le> PF_NO_VOTE_V" and "i < n" and "j < n"
    and "k < length (node_entries (u_node t i))" and "k < length (node_entries (u_node t j))"
    and "le_term (node_entries (u_node t i) ! k) = le_term (node_entries (u_node t j) ! k)"
  shows "take (Suc k) (node_entries (u_node t i)) = take (Suc k) (node_entries (u_node t j))"
proof -
  obtain a where a: "creach n a" "sim n t a" using run_sim [OF assms(1-3)] .
  show ?thesis
    using creach_log_matching [OF a(1) assms(3-5), of k] assms(6-8)
    by (simp add: sim_node [OF a(2) assms(4)] sim_node [OF a(2) assms(5)])
qed

lemma leader_log_history:
  assumes "creach n a" and "n \<le> PF_NO_VOTE_V" and "i < n" and "a_role (cl_node a i) = LEADER"
  shows "led a (a_term (cl_node a i))" and "cl_logs a (a_term (cl_node a i)) = a_log (cl_node a i)"
proof -
  have "cast_inv n a" using creach_inv [OF assms(1,2)] by (simp add: election_inv_def)
  then have "(a_term (cl_node a i), i) \<in> cl_leaders a"
    using assms(3,4) by (simp add: cast_inv_def node_inv_def Let_def)
  then show "led a (a_term (cl_node a i))" "cl_logs a (a_term (cl_node a i)) = a_log (cl_node a i)"
    using creach_log_inv [OF assms(1,2)] by (auto simp: led_def log_inv_def leader_log_inv_def)
qed

lemma run_append_only:
  assumes "ustart n s" and "(ustep n)\<^sup>*\<^sup>* s s1" and "(ustep n)\<^sup>*\<^sup>* s1 s2" and n: "n \<le> PF_NO_VOTE_V"
    and i: "i < n" and "role (u_node s1 i) = LEADER" and "role (u_node s2 i) = LEADER"
    and "node_term (u_node s1 i) = node_term (u_node s2 i)"
  shows "prefix (node_entries (u_node s1 i)) (node_entries (u_node s2 i))"
proof -
  obtain a1 a2 where a: "creach n a1" "sim n s1 a1" "(cstep n)\<^sup>*\<^sup>* a1 a2" "creach n a2" "sim n s2 a2"
    using runs_sim [OF assms(1-4)] .
  note s1 = sim_node [OF a(2) i] and s2 = sim_node [OF a(5) i]
  have "extends a1 a2" using csteps_keep [OF a(3,1) n] by blast
  then show ?thesis
    using leader_log_history [OF a(1) n i] leader_log_history [OF a(4) n i] assms(6-8)
    by (auto simp: extends_def s1 s2)
qed

lemma run_leader_completeness:
  assumes "ustart n s" and "(ustep n)\<^sup>*\<^sup>* s s1" and "(ustep n)\<^sup>*\<^sup>* s1 s2" and n: "n \<le> PF_NO_VOTE_V"
    and i: "i < n" and "int k \<le> commit_index (u_node s1 i)"
    and l: "l < n" and "role (u_node s2 l) = LEADER"
    and "node_term (u_node s1 i) \<le> node_term (u_node s2 l)"
  shows "k < length (node_entries (u_node s1 i)) \<and>
    take (Suc k) (node_entries (u_node s2 l)) = take (Suc k) (node_entries (u_node s1 i))"
proof -
  obtain a1 a2 where a: "creach n a1" "sim n s1 a1" "(cstep n)\<^sup>*\<^sup>* a1 a2" "creach n a2" "sim n s2 a2"
    using runs_sim [OF assms(1-4)] .
  show ?thesis
    using csteps_leader_completeness [OF a(1,3) n i l, of k] assms(6,8,9)
    by (simp add: sim_node [OF a(2) i] sim_node [OF a(5) l])
qed

lemma run_state_machine_safety:
  assumes "ustart n s" and "(ustep n)\<^sup>*\<^sup>* s s1" and "(ustep n)\<^sup>*\<^sup>* s1 s2" and n: "n \<le> PF_NO_VOTE_V"
    and i: "i < n" and "int k \<le> commit_index (u_node s1 i)"
    and j: "j < n" and "int k \<le> commit_index (u_node s2 j)"
  shows "k < length (node_entries (u_node s1 i)) \<and> k < length (node_entries (u_node s2 j)) \<and>
    take (Suc k) (node_entries (u_node s1 i)) = take (Suc k) (node_entries (u_node s2 j))"
proof -
  obtain a1 a2 where a: "creach n a1" "sim n s1 a1" "(cstep n)\<^sup>*\<^sup>* a1 a2" "creach n a2" "sim n s2 a2"
    using runs_sim [OF assms(1-4)] .
  show ?thesis
    using csteps_state_machine_safety [OF a(1,3) n i j, of k] assms(6,8)
    by (simp add: sim_node [OF a(2) i] sim_node [OF a(5) j])
qed

section \<open>A run that commits an entry\<close>

text \<open>The programs can take the steps of the specification on packets.\<close>

lemma sim_receive:
  assumes s: "sim n s a" and i: "i < n" and room: "has_room (cl_node a i)"
    and up: "a_running (cl_node a i) \<noteq> 0" "a_halted (cl_node a i) = None" and m: "m \<in># cl_net a"
  obtains s' where "ustep n s s'"
    and "sim n s' (after_step i (a_receive m (cl_node a i)) (a\<lparr>cl_net := cl_net a - {#m#}\<rparr>))"
proof -
  have node: "unix_ok (u_node s i)" "unix_view (u_node s i) = cl_node a i"
    using s i by (simp_all add: sim_def)
  obtain pkt where pkt: "pkt \<in># u_net s" "m = decode_pkt pkt" using s m by (auto simp: sim_def)
  let ?t = "u_after i (raft_run_step (1, pkt) (u_node s i)) (s\<lparr>u_net := u_net s - {#pkt#}\<rparr>)"
  have "ustep n s ?t"
    using i up room pkt(1) node(2) by (intro ustep.receive) (simp_all add: view_up)
  moreover have "has_room (unix_view (u_node s i))" using room node(2) by simp
  note u = unix_receive [OF node(1) this, of pkt, unfolded node(2)]
  have "sim n ?t (after_step i (a_receive m (cl_node a i)) (a\<lparr>cl_net := cl_net a - {#m#}\<rparr>))"
    unfolding pkt(2) by (rule sim_after [OF sim_take(1) [OF s pkt(1)] u])
  ultimately show ?thesis by (rule that)
qed

lemma sim_client:
  assumes "sim n s a"
  obtains s' where "ustep n s s'" and "sim n s'
    (a\<lparr>cl_net := add_mset \<lparr>m_dst = d, m_src = c, m_body = ProcReq r\<rparr> (cl_net a)\<rparr>)"
proof -
  let ?p = "snd (rpc_pack_proc_req zero_pkt d c r)"
  have "decode_pkt ?p = \<lparr>m_dst = d, m_src = c, m_body = ProcReq r\<rparr>"
    by (rule decode_packed(4) [OF wf_zero_pkt])
  moreover have "client_pkt ?p"
    by (simp add: client_pkt_def rpc_pack_proc_req_def finish_pack_def set_header_def Let_def)
  ultimately show ?thesis
    using that [OF ustep.client [of ?p n s]] assms by (simp add: sim_def)
qed

text \<open>
  A run of two nodes from \<open>s\<close> reaches the states \<open>A\<close> and \<open>B\<close>, with the message \<open>mo\<close> under
  way.
\<close>

definition demo_at :: "ucluster \<Rightarrow> anode \<Rightarrow> anode \<Rightarrow> amsg option \<Rightarrow> bool" where
  "demo_at s A B mo \<longleftrightarrow> (\<exists>t a. (ustep 2)\<^sup>*\<^sup>* s t \<and> sim 2 t a \<and>
     cl_node a 0 = A \<and> cl_node a 1 = B \<and> (\<forall>m. mo = Some m \<longrightarrow> m \<in># cl_net a))"

definition answers_to :: "amsg \<Rightarrow> anode \<Rightarrow> anode \<Rightarrow> amsg option \<Rightarrow> bool" where
  "answers_to m A A' mo \<longleftrightarrow> has_room A \<and> a_running A \<noteq> 0 \<and> a_halted A = None \<and>
     (a_receive m A)\<lparr>a_out := []\<rparr> = A' \<and> set_option mo \<subseteq> set (a_out (a_receive m A))"

definition replies :: "amsg \<Rightarrow> anode \<Rightarrow> anode \<Rightarrow> amsg list \<Rightarrow> bool" where
  "replies m A A' out \<longleftrightarrow> has_room A \<and> a_running A \<noteq> 0 \<and> a_halted A = None \<and>
     a_receive m A = A'\<lparr>a_out := out\<rparr> \<and> a_out A' = []"

lemma replies_answers: "replies m A A' out \<Longrightarrow> set_option mo \<subseteq> set out \<Longrightarrow> answers_to m A A' mo"
  by (simp add: replies_def answers_to_def)

lemma demo_at_client: "demo_at s A B mo \<Longrightarrow> demo_at s A B (Some \<lparr>m_dst = d, m_src = c, m_body = ProcReq r\<rparr>)"
proof -
  assume "demo_at s A B mo"
  then obtain t a where run: "(ustep 2)\<^sup>*\<^sup>* s t" "sim 2 t a" "cl_node a 0 = A" "cl_node a 1 = B"
    unfolding demo_at_def by blast
  obtain t' where "ustep 2 t t'"
    "sim 2 t' (a\<lparr>cl_net := add_mset \<lparr>m_dst = d, m_src = c, m_body = ProcReq r\<rparr> (cl_net a)\<rparr>)"
    by (rule sim_client [OF run(2)])
  then show ?thesis
    using run unfolding demo_at_def
    by (intro exI [of _ t']
        exI [of _ "a\<lparr>cl_net := add_mset \<lparr>m_dst = d, m_src = c, m_body = ProcReq r\<rparr> (cl_net a)\<rparr>"])
      (simp add: rtranclp.rtrancl_into_rtrancl)
qed

lemma demo_at_step:
  assumes "demo_at s A B (Some m)"
  shows "answers_to m A A' mo \<Longrightarrow> demo_at s A' B mo" and "answers_to m B B' mo \<Longrightarrow> demo_at s A B' mo"
proof -
  obtain t a where run: "(ustep 2)\<^sup>*\<^sup>* s t" "sim 2 t a" "cl_node a 0 = A" "cl_node a 1 = B"
    "m \<in># cl_net a"
    using assms unfolding demo_at_def by blast
  have step: "\<exists>t'. (ustep 2)\<^sup>*\<^sup>* s t' \<and>
      sim 2 t' (after_step i (a_receive m (cl_node a i)) (a\<lparr>cl_net := cl_net a - {#m#}\<rparr>))"
    if ans: "answers_to m (cl_node a i) C mo" and i: "i < 2" for i C
  proof -
    obtain t' where "ustep 2 t t'"
      "sim 2 t' (after_step i (a_receive m (cl_node a i)) (a\<lparr>cl_net := cl_net a - {#m#}\<rparr>))"
      using sim_receive [OF run(2) i _ _ _ run(5)] ans unfolding answers_to_def by blast
    then show ?thesis using run(1) by (meson rtranclp.rtrancl_into_rtrancl)
  qed
  show "demo_at s A' B mo" if ans: "answers_to m A A' mo"
  proof -
    obtain t' where t': "(ustep 2)\<^sup>*\<^sup>* s t'"
      "sim 2 t' (after_step 0 (a_receive m (cl_node a 0)) (a\<lparr>cl_net := cl_net a - {#m#}\<rparr>))"
      using step [of 0 A'] ans run(3) by auto
    show ?thesis
      unfolding demo_at_def
      by (intro exI [of _ t'] exI conjI, rule t'(1), rule t'(2))
        (use ans run(3,4) in \<open>auto simp: answers_to_def\<close>)
  qed
  show "demo_at s A B' mo" if ans: "answers_to m B B' mo"
  proof -
    obtain t' where t': "(ustep 2)\<^sup>*\<^sup>* s t'"
      "sim 2 t' (after_step 1 (a_receive m (cl_node a 1)) (a\<lparr>cl_net := cl_net a - {#m#}\<rparr>))"
      using step [of 1 B'] ans run(4) by auto
    show ?thesis
      unfolding demo_at_def
      by (intro exI [of _ t'] exI conjI, rule t'(1), rule t'(2))
        (use ans run(3,4) in \<open>auto simp: answers_to_def\<close>)
  qed
qed

lemma demo_at_node:
  assumes "demo_at s A B mo"
  obtains t where "(ustep 2)\<^sup>*\<^sup>* s t" and "demo_at t A B None"
    and "role (u_node t 0) = a_role A" and "node_term (u_node t 0) = a_term A"
    and "commit_index (u_node t 0) = a_commit A" and "node_entries (u_node t 0) = a_log A"
    and "role (u_node t 1) = a_role B" and "node_term (u_node t 1) = a_term B"
    and "commit_index (u_node t 1) = a_commit B" and "node_entries (u_node t 1) = a_log B"
proof -
  obtain t a where run: "(ustep 2)\<^sup>*\<^sup>* s t" "sim 2 t a" "cl_node a 0 = A" "cl_node a 1 = B"
    using assms unfolding demo_at_def by blast
  then have "demo_at t A B None" unfolding demo_at_def by blast
  then show ?thesis
    using that [of t] run(1) sim_node [OF run(2), of 0] sim_node [OF run(2), of 1] run(3,4) by simp
qed

lemma demo_at_start:
  obtains s where "ustart 2 s" and "demo_at s ((a_elect (boot2 0))\<lparr>a_out := []\<rparr>) (boot2 1) (Some ask2)"
proof -
  define s0 where "s0 = \<lparr>u_node = \<lambda>i. if i = 0 then demo_node 0 else demo_node 1, u_net = {#}\<rparr>"
  note n0 = demo_node [of 0] and n1 = demo_node [of 1]
  have two: "i = 0 \<or> i = 1" if "i < (2 :: u32)" for i
    using that by (auto simp: word_less_nat_alt less_2_cases_iff word_unat_eq_iff)
  have "\<exists>cfg heap ns ms lines os. node_cfg 2 i cfg \<and> wf_os os \<and>
      length ns = unat (2 :: u32) \<and> length ms = unat (2 :: u32) \<and>
      start_node cfg (disk []) (disk []) (disk []) heap ns ms lines os = Some (u_node s0 i)"
    if "i < 2" for i
  proof (intro exI conjI)
    show "start_node (demo_cfg i) (disk []) (disk []) (disk []) (0, 0) [0, 0] [0, 0] [] demo_os =
        Some (u_node s0 i)"
      using two [OF that] n0(1) n1(1) by (auto simp: s0_def)
  qed simp_all
  then have start: "ustart 2 s0" unfolding ustart_def by (simp add: s0_def)
  obtain a0 where a0: "sim 2 s0 a0" using start by (rule ustart_sim)
  have "unix_view (u_node s0 i) = cl_node a0 i" if "i < 2" for i using a0 that by (simp add: sim_def)
  from this [of 0] this [of 1] have view: "cl_node a0 0 = boot2 0" "cl_node a0 1 = boot2 1"
    using n0(3) n1(3) by (simp_all add: s0_def)
  have boot: "up (demo_node 0)" "role (demo_node 0) = FOLLOWER"
    using n0(3) by (simp_all add: view_up view_role boot2_def a_boot_def)
  define c where "c = raft_run_step (0, zero_pkt) (demo_node 0)"
  have "uses_random_timeout (demo_node 0)" using n0(4) by (simp add: uses_random_timeout_def demo_cfg_def)
  then have c: "unix_ok c" "unix_view c = a_elect (boot2 0)"
    using unix_timeout(1) [OF n0(2)] unix_timeout_random [OF n0(2) boot(2)] n0(3) by (simp_all add: c_def)
  have "ustep 2 s0 (u_after 0 c s0)"
    using ustep.timeout [of 0 2 s0 zero_pkt] boot(1) by (simp add: c_def s0_def)
  moreover note sim_after [OF a0 c, of 0]
  ultimately have "demo_at s0 ((a_elect (boot2 0))\<lparr>a_out := []\<rparr>) (boot2 1) (Some ask2)"
    using view demo_elect(1) unfolding demo_at_def
    by (intro exI [of _ "u_after 0 c s0"] exI [of _ "after_step 0 (a_elect (boot2 0)) a0"]) auto
  then show ?thesis using start that by blast
qed

text \<open>The two states before a request, and the requests of a client.\<close>

definition demo_lead :: anode where
  "demo_lead = (boot2 0)\<lparr>a_role := LEADER, a_term := 1, a_vote := 0, a_votes := 2,
     a_next := [0, 0], a_match := [-1, -1]\<rparr>"

definition demo_follow :: anode where
  "demo_follow = (boot2 1)\<lparr>a_term := 1, a_vote := 0, a_leader := 0\<rparr>"

definition demo_cmd :: "u32 \<Rightarrow> amsg" where
  "demo_cmd k = \<lparr>m_dst = 0, m_src = 9, m_body = ProcReq \<lparr>pr_client_id = 9, pr_cmd_seqno = k, pr_cmd = 7\<rparr>\<rparr>"

definition demo_written :: "u32 \<Rightarrow> log_entry_t" where
  "demo_written k = \<lparr>le_term = 1, le_client_id = 9, le_cmd_seqno = k, le_cmd = 7\<rparr>"

definition demo_slot :: "u32 \<Rightarrow> u32 \<Rightarrow> u8 \<Rightarrow> outstanding_req_t list" where
  "demo_slot k j b = (replicate MAX_OUTSTANDING_REQUESTS zero_outstanding)
     [0 := \<lparr>or_client_id = 9, or_cmd_seqno = k, or_log_idx = j, or_active = b\<rparr>]"

lemma demo_slot:
  "find_inactive (replicate MAX_OUTSTANDING_REQUESTS zero_outstanding) = Some 0"
  "find_inactive (demo_slot k j 0) = Some 0" "find_outstanding (demo_slot k j 1) 9 k = Some 0"
  "(demo_slot k j b)[0 := x] = (replicate MAX_OUTSTANDING_REQUESTS zero_outstanding)[0 := x]"
  "demo_slot k j b ! 0 = \<lparr>or_client_id = 9, or_cmd_seqno = k, or_log_idx = j, or_active = b\<rparr>"
proof -
  have n: "MAX_OUTSTANDING_REQUESTS = Suc 127" by (simp add: MAX_OUTSTANDING_REQUESTS_def)
  show "find_inactive (replicate MAX_OUTSTANDING_REQUESTS zero_outstanding) = Some 0"
    "find_inactive (demo_slot k j 0) = Some 0" "find_outstanding (demo_slot k j 1) 9 k = Some 0"
    "(demo_slot k j b)[0 := x] = (replicate MAX_OUTSTANDING_REQUESTS zero_outstanding)[0 := x]"
    "demo_slot k j b ! 0 = \<lparr>or_client_id = 9, or_cmd_seqno = k, or_log_idx = j, or_active = b\<rparr>"
    unfolding demo_slot_def n replicate_Suc by (simp_all add: zero_outstanding_def)
qed

lemma replicate_two: "replicate 2 x = [x, x]"
  by (simp add: numeral_2_eq_2)

definition demo_append :: "log_entry_t \<Rightarrow> u32 \<Rightarrow> u32 \<Rightarrow> int \<Rightarrow> amsg" where
  "demo_append e p pt c = \<lparr>m_dst = 1, m_src = 0, m_body = AppendReq \<lparr>ae_term = 1, ae_leader_id = 0,
     ae_prev_log_idx = p, ae_prev_log_term = pt, ae_leader_commit = c, ae_n_entries = 1,
     ae_entries = [e]\<rparr>\<rparr>"

definition demo_stores :: "u32 \<Rightarrow> amsg" where
  "demo_stores k = \<lparr>m_dst = 0, m_src = 1, m_body = AppendRes \<lparr>aer_term = 1, aer_new_match_index = k,
     aer_success = 1\<rparr>\<rparr>"

definition demo_one :: anode where
  "demo_one = demo_lead\<lparr>a_log := [demo_written 1], a_reqs := demo_slot 1 0 1\<rparr>"

definition demo_two :: anode where
  "demo_two = demo_lead\<lparr>a_log := [demo_written 1], a_reqs := demo_slot 1 0 0, a_next := [0, 1],
     a_match := [-1, 0], a_commit := 0, a_applied := 0\<rparr>"

definition demo_three :: anode where
  "demo_three = demo_lead\<lparr>a_log := [demo_written 1, demo_written 2], a_reqs := demo_slot 2 1 1,
     a_next := [0, 1], a_match := [-1, 0], a_commit := 0, a_applied := 0\<rparr>"

lemmas demo_defs = demo_lead_def demo_follow_def demo_cmd_def boot2_def a_boot_def has_room_def
  log_capacity_def a_receive_def a_handle_def replies_def demo_append_def demo_stores_def
  demo_one_def demo_two_def demo_three_def demo_written_def

definition demo_beat :: amsg where
  "demo_beat = \<lparr>m_dst = 1, m_src = 0, m_body = AppendReq \<lparr>ae_term = 1, ae_leader_id = 0,
     ae_prev_log_idx = -1, ae_prev_log_term = 0, ae_leader_commit = -1, ae_n_entries = 0, ae_entries = []\<rparr>\<rparr>"

definition demo_yes :: "u32 \<Rightarrow> amsg" where
  "demo_yes k = \<lparr>m_dst = 9, m_src = 0, m_body = ProcRes \<lparr>ps_client_id = 9, ps_cmd_seqno = k,
     ps_success = 1, ps_leader_hint = 0, ps_term = 1\<rparr>\<rparr>"

lemma demo_reply1: "replies ask2 (boot2 1) demo_follow [yes2]"
  using demo_vote
  by (simp add: demo_defs ask2_def a_vote_request_handler_def a_decide_vote_def a_become_follower_def
      up_to_date_def log_term_def a_vote_response_def a_send_def PF_NO_VOTE_V_def)

lemma demo_reply2: "replies yes2 ((a_elect (boot2 0))\<lparr>a_out := []\<rparr>) demo_lead [demo_beat]"
  by (simp add: demo_defs yes2_def a_elect_def a_become_candidate_def a_start_election_def
      a_broadcast_def a_vote_response_handler_def Let_def a_become_leader_def a_send_heartbeats_def
      replicate_two demo_beat_def a_peers_def demo_peers a_append_request_def log_term_def)

lemma demo_reply3: "replies (demo_cmd 1) demo_lead demo_one [demo_append (demo_written 1) (-1) 0 (-1)]"
  by (simp add: demo_defs a_proc_request_handler_def demo_slot(1) a_broadcast_entries_def a_broadcast_def
      Let_def demo_slot_def a_peers_def demo_peers a_append_request_def log_term_def log_entry_at_def)

lemma demo_reply4: "replies (demo_append (demo_written 1) (-1) 0 (-1)) demo_follow
    (demo_follow\<lparr>a_log := [demo_written 1]\<rparr>) [demo_stores 0]"
  by (simp add: demo_defs a_append_request_handler_def a_append_to_log_def Let_def log_term_def
      list_write_def a_update_commit_def a_append_response_def a_send_def)

lemma demo_reply5: "replies (demo_stores 0) demo_one demo_two [demo_yes 1]"
proof -
  let ?b = "demo_one\<lparr>a_match := [-1, 0], a_next := [0, 1]\<rparr>"
  have "a_advance_commit ?b = ?b\<lparr>a_commit := 0\<rparr>"
    by (simp add: a_advance_commit_def a_commit_step_def demo_defs log_term_def a_match_count_def
        a_peers_def demo_peers)
  then have "a_receive (demo_stores 0) demo_one = a_apply (?b\<lparr>a_commit := 0\<rparr>)"
    by (simp add: demo_defs a_append_response_handler_def)
  moreover have "(demo_slot 1 0 1)[0 := \<lparr>or_client_id = 9, or_cmd_seqno = 1, or_log_idx = 0, or_active = 0\<rparr>] =
      demo_slot 1 0 0"
    by (simp add: demo_slot(4)) (simp add: demo_slot_def)
  ultimately show ?thesis
    by (simp add: replies_def) (simp add: demo_defs a_apply_def a_apply_one_def a_answer_def
      a_send_def demo_slot(3,5) demo_yes_def)
qed

lemma demo_reply6: "replies (demo_cmd 2) demo_two demo_three [demo_append (demo_written 2) 0 1 0]"
  by (simp add: demo_defs a_proc_request_handler_def demo_slot(2,4) a_broadcast_entries_def a_broadcast_def
      Let_def a_peers_def demo_peers a_append_request_def log_term_def log_entry_at_def)
    (simp add: demo_slot_def)

lemma demo_reply7: "replies (demo_append (demo_written 2) 0 1 0) (demo_follow\<lparr>a_log := [demo_written 1]\<rparr>)
    (demo_follow\<lparr>a_log := [demo_written 1, demo_written 2], a_commit := 0, a_applied := 0\<rparr>) [demo_stores 1]"
  by (simp add: demo_defs a_append_request_handler_def a_append_to_log_def Let_def log_term_def
      list_write_def a_update_commit_def a_append_response_def a_send_def a_apply_def a_apply_one_def)

text \<open>The run of the two nodes: each message with what it brings about.\<close>

lemma demo_step1: "answers_to ask2 (boot2 1) demo_follow (Some yes2)"
  and demo_step2: "answers_to yes2 ((a_elect (boot2 0))\<lparr>a_out := []\<rparr>) demo_lead None"
  and demo_step3: "answers_to (demo_cmd 1) demo_lead demo_one (Some (demo_append (demo_written 1) (-1) 0 (-1)))"
  and demo_step4: "answers_to (demo_append (demo_written 1) (-1) 0 (-1)) demo_follow
    (demo_follow\<lparr>a_log := [demo_written 1]\<rparr>) (Some (demo_stores 0))"
  and demo_step5: "answers_to (demo_stores 0) demo_one demo_two (Some (demo_yes 1))"
  and demo_step6: "answers_to (demo_cmd 2) demo_two demo_three (Some (demo_append (demo_written 2) 0 1 0))"
  and demo_step7: "answers_to (demo_append (demo_written 2) 0 1 0) (demo_follow\<lparr>a_log := [demo_written 1]\<rparr>)
    (demo_follow\<lparr>a_log := [demo_written 1, demo_written 2], a_commit := 0, a_applied := 0\<rparr>) None"
  using demo_reply1 demo_reply2 demo_reply3 demo_reply4 demo_reply5 demo_reply6 demo_reply7
  by (auto intro: replies_answers)

text \<open>A message under way is a packet.\<close>

lemma demo_at_packet:
  assumes "demo_at s A B (Some m)"
  obtains t pkt where "(ustep 2)\<^sup>*\<^sup>* s t" and "demo_at t A B None" and "pkt \<in># u_net t" and "decode_pkt pkt = m"
proof -
  obtain t a where run: "(ustep 2)\<^sup>*\<^sup>* s t" "sim 2 t a" "cl_node a 0 = A" "cl_node a 1 = B" "m \<in># cl_net a"
    using assms unfolding demo_at_def by blast
  then have "demo_at t A B None" unfolding demo_at_def by blast
  moreover obtain pkt where "pkt \<in># u_net t" "m = decode_pkt pkt" using run(2,5) by (auto simp: sim_def)
  ultimately show thesis using that run(1) by blast
qed

lemma demo_at_cmd: "demo_at s A B mo \<Longrightarrow> demo_at s A B (Some (demo_cmd k))"
  unfolding demo_cmd_def by (rule demo_at_client)

text \<open>
  The run: node 0 is elected, at \<open>s1\<close>; then a client sends two requests, and at \<open>s2\<close> both nodes
  have committed the first.
\<close>

lemma commit_run:
  obtains s s1 s2 where "ustart 2 s" and "(ustep 2)\<^sup>*\<^sup>* s s1" and "(ustep 2)\<^sup>*\<^sup>* s1 s2"
    and "role (u_node s1 0) = LEADER" and "node_term (u_node s1 0) = 1" and "node_entries (u_node s1 0) = []"
    and "role (u_node s2 0) = LEADER" and "node_term (u_node s2 0) = 1" and "node_term (u_node s2 1) = 1"
    and "commit_index (u_node s2 0) = 0" and "commit_index (u_node s2 1) = 0"
    and "node_entries (u_node s2 0) = [demo_written 1, demo_written 2]"
    and "node_entries (u_node s2 1) = [demo_written 1, demo_written 2]"
proof -
  obtain s where start: "ustart 2 s"
    "demo_at s ((a_elect (boot2 0))\<lparr>a_out := []\<rparr>) (boot2 1) (Some ask2)" by (rule demo_at_start)
  obtain s1 where s1: "(ustep 2)\<^sup>*\<^sup>* s s1" "demo_at s1 demo_lead demo_follow None"
    "role (u_node s1 0) = LEADER" "node_term (u_node s1 0) = 1" "node_entries (u_node s1 0) = []"
    using demo_at_node [OF demo_at_step(1) [OF demo_at_step(2) [OF start(2) demo_step1] demo_step2]]
    by (auto simp: demo_lead_def boot2_def a_boot_def)
  note s4 = demo_at_step(2) [OF demo_at_step(1) [OF demo_at_cmd [OF s1(2)] demo_step3] demo_step4]
  note s6 = demo_at_step(1) [OF demo_at_cmd [OF demo_at_step(1) [OF s4 demo_step5]] demo_step6]
  obtain s2 where s2: "(ustep 2)\<^sup>*\<^sup>* s1 s2" "role (u_node s2 0) = LEADER" "node_term (u_node s2 0) = 1"
    "node_term (u_node s2 1) = 1" "commit_index (u_node s2 0) = 0" "commit_index (u_node s2 1) = 0"
    "node_entries (u_node s2 0) = [demo_written 1, demo_written 2]"
    "node_entries (u_node s2 1) = [demo_written 1, demo_written 2]"
    using demo_at_node [OF demo_at_step(2) [OF s6 demo_step7]]
    by (auto simp: demo_three_def demo_lead_def demo_follow_def)
  show ?thesis by (rule that [OF start(1) s1(1) s2(1) s1(3-5) s2(2-8)])
qed

text \<open>
  The same run with the answer to the first request: it is under way at \<open>s1\<close>, with its request
  before it, and at \<open>s2\<close> both nodes have committed the entry.
\<close>

lemma answer_run:
  obtains s s1 s2 ans where "ustart 2 s" and "(ustep 2)\<^sup>*\<^sup>* s s1" and "(ustep 2)\<^sup>*\<^sup>* s1 s2"
    and "ans \<in># u_net s1" and "decode_pkt ans = demo_yes 1" and "node_term (u_node s2 0) = 1"
    and "role (u_node s2 0) = LEADER" and "commit_index (u_node s2 1) = 0"
    and "node_entries (u_node s2 0) = [demo_written 1, demo_written 2]"
    and "node_entries (u_node s2 1) = [demo_written 1, demo_written 2]"
proof -
  obtain s where start: "ustart 2 s"
    "demo_at s ((a_elect (boot2 0))\<lparr>a_out := []\<rparr>) (boot2 1) (Some ask2)" by (rule demo_at_start)
  note lead = demo_at_step(1) [OF demo_at_step(2) [OF start(2) demo_step1] demo_step2]
  note s4 = demo_at_step(2) [OF demo_at_step(1) [OF demo_at_cmd [OF lead] demo_step3] demo_step4]
  obtain s1 ans where s1: "(ustep 2)\<^sup>*\<^sup>* s s1" "demo_at s1 demo_two (demo_follow\<lparr>a_log := [demo_written 1]\<rparr>) None"
    "ans \<in># u_net s1" "decode_pkt ans = demo_yes 1"
    by (rule demo_at_packet [OF demo_at_step(1) [OF s4 demo_step5]])
  obtain s2 where s2: "(ustep 2)\<^sup>*\<^sup>* s1 s2" "node_term (u_node s2 0) = 1" "role (u_node s2 0) = LEADER"
    "commit_index (u_node s2 1) = 0"
    "node_entries (u_node s2 0) = [demo_written 1, demo_written 2]"
    "node_entries (u_node s2 1) = [demo_written 1, demo_written 2]"
    using demo_at_node [OF demo_at_step(2) [OF demo_at_step(1) [OF demo_at_cmd [OF s1(2)] demo_step6] demo_step7]]
    by (auto simp: demo_three_def demo_lead_def demo_follow_def)
  show ?thesis by (rule that [OF start(1) s1(1) s2(1) s1(3,4) s2(2-6)])
qed

end
