(* ===== verification/Transport.thy ===== *)
theory Transport
  imports Packet Posix_File
begin

text \<open>
  \<open>src/transport.h\<close>: the interface of the transports. A transport moves the memory of a packet,
  \<open>sizeof_pkt\<close> bytes: \<open>mem_pkt\<close> reads the fields from them as the compiler lays them out (fields
  at multiples of four in the byte order of the host, three bytes of padding after the code).

  The contract that the clients rely on is the locale \<open>transport\<close>. \<open>written\<close> and \<open>delivered\<close> are
  the packets that crossed the two ends so far, by the system calls the transport made.
\<close>

section \<open>Results of functions that wait\<close>

text \<open>
  \<open>Waiting\<close>: the function still waits for an answer of the system. \<open>Undef\<close>: the behaviour of the
  program is not defined from here on.
\<close>

datatype 'a outcome = Done 'a | Waiting | Undef string

primrec on_done :: "'a outcome \<Rightarrow> ('a \<Rightarrow> 'b outcome) \<Rightarrow> 'b outcome" where
  "on_done (Done x) f = f x"
| "on_done Waiting f = Waiting"
| "on_done (Undef why) f = Undef why"

lemma on_done_cong [fundef_cong]:
  "m = m' \<Longrightarrow> (\<And>x. m' = Done x \<Longrightarrow> f x = g x) \<Longrightarrow> on_done m f = on_done m' g"
  by (cases m') simp_all

lemma on_done_eq_Done: "on_done m f = Done y \<longleftrightarrow> (\<exists>x. m = Done x \<and> f x = Done y)"
  by (cases m) simp_all

lemma on_done_eq_Undef:
  "on_done m f = Undef why \<longleftrightarrow> m = Undef why \<or> (\<exists>x. m = Done x \<and> f x = Undef why)"
  by (cases m) simp_all

section \<open>The memory of a packet\<close>

definition sizeof_pkt :: nat where
  "sizeof_pkt = 1040"

definition mem_pkt :: "u8 list \<Rightarrow> pkt_t" where
  "mem_pkt bs = \<lparr>pkt_header = \<lparr>h_dst = host_value bs, h_src = host_value (drop 4 bs),
     h_payload_n = host_value (drop 8 bs), h_code = bs ! 12\<rparr>, pkt_payload = drop 16 bs\<rparr>"

text \<open>The padding may hold anything.\<close>

definition pkt_mem :: "u8 list \<Rightarrow> pkt_t \<Rightarrow> u8 list" where
  "pkt_mem pad p = host_bytes (h_dst (pkt_header p)) @ host_bytes (h_src (pkt_header p)) @
     host_bytes (h_payload_n (pkt_header p)) @ [h_code (pkt_header p)] @ pad @ pkt_payload p"

lemma host_value_append: "4 \<le> length bs \<Longrightarrow> host_value (bs @ cs) = host_value bs"
  by (auto simp: host_value_def nth_append)

lemma host_bytes_value: "length bs = 4 \<Longrightarrow> host_bytes (host_value bs) = bs"
proof -
  assume "length bs = 4"
  then obtain a b c d where bs: "bs = [a, b, c, d]"
    by (auto simp: length_Suc_conv numeral_eq_Suc)
  have "ucast (drop_bit k (host_value [a, b, c, d])) =
      (if k = 0 then a else if k = 8 then b else if k = 16 then c else d)" if "k \<in> {0, 8, 16, 24}" for k
    using that unfolding host_value_def
    by (intro bit_word_eqI) (auto simp: bit_simps dest: bit_imp_le_length)
  from this [of 0] this [of 8] this [of 16] this [of 24] show ?thesis
    by (simp add: bs host_bytes_def)
qed

lemma mem_pkt_mem:
  assumes "wf_pkt p" and "length pad = 3"
  shows "mem_pkt (pkt_mem pad p) = p" and "length (pkt_mem pad p) = sizeof_pkt"
proof -
  show "length (pkt_mem pad p) = sizeof_pkt"
    using assms by (simp add: pkt_mem_def wf_pkt_def MAX_PAYLOAD_def sizeof_pkt_def)
  have "pkt_mem pad p ! 12 = h_code (pkt_header p)" by (simp add: pkt_mem_def nth_append)
  moreover have "drop 16 (pkt_mem pad p) = pkt_payload p" using assms(2) by (simp add: pkt_mem_def)
  ultimately show "mem_pkt (pkt_mem pad p) = p"
    unfolding mem_pkt_def by (simp add: pkt_mem_def host_value_append)
qed

lemma wf_mem_pkt: "length bs = sizeof_pkt \<Longrightarrow> wf_pkt (mem_pkt bs)"
  by (simp add: wf_pkt_def mem_pkt_def sizeof_pkt_def MAX_PAYLOAD_def)

section \<open>The table of functions\<close>

text \<open>\<open>tx_fn_t\<close>, \<open>rx_fn_t\<close> and \<open>transport_t\<close>, on the memory of the packets.\<close>

type_synonym 'c tx_fn_t = "u8 list \<Rightarrow> 'c \<Rightarrow> (int \<times> 'c) outcome"
type_synonym 'c rx_fn_t = "u32 \<Rightarrow> 'c \<Rightarrow> (int \<times> u8 list \<times> 'c) outcome"

record 'c transport_t =
  t_send :: "'c tx_fn_t"
  t_receive :: "'c rx_fn_t"
  t_context :: 'c

section \<open>The contract\<close>

locale transport =
  fixes send :: "'c tx_fn_t" and receive :: "'c rx_fn_t" and ok :: "'c \<Rightarrow> bool"
    and written :: "'c \<Rightarrow> u8 list list" and delivered :: "'c \<Rightarrow> u8 list list"
  assumes send_law: "ok c \<Longrightarrow> length pkt = sizeof_pkt \<Longrightarrow> send pkt c = Done (r, c') \<Longrightarrow>
      (r = 0 \<or> r = -1) \<and> (r = 0 \<longrightarrow> ok c') \<and> delivered c' = delivered c \<and>
      written c' = written c @ (if r = 0 then [pkt] else [])"
    and receive_law: "ok c \<Longrightarrow> receive timeout c = Done (r, pkt, c') \<Longrightarrow>
      (r = 0 \<or> r = 1 \<or> r = -1) \<and> (r \<noteq> -1 \<longrightarrow> ok c') \<and> written c' = written c \<and>
      delivered c' = delivered c @ (if r = 1 then [pkt] else []) \<and> (r = 1 \<longrightarrow> length pkt = sizeof_pkt)"

text \<open>A transport that can be used on after an error.\<close>

locale lasting_transport = transport send receive ok written delivered
  for send :: "'c tx_fn_t" and receive :: "'c rx_fn_t" and ok :: "'c \<Rightarrow> bool"
    and written :: "'c \<Rightarrow> u8 list list" and delivered :: "'c \<Rightarrow> u8 list list" +
  assumes send_keeps: "ok c \<Longrightarrow> length pkt = sizeof_pkt \<Longrightarrow> send pkt c = Done (r, c') \<Longrightarrow> ok c'"
    and receive_keeps: "ok c \<Longrightarrow> receive timeout c = Done (r, pkt, c') \<Longrightarrow> ok c'"

section \<open>Framing\<close>

text \<open>The packets in a stream of bytes: its complete pieces.\<close>

function chunk :: "u8 list \<Rightarrow> u8 list list" where
  "chunk bs = (if length bs < sizeof_pkt then [] else take sizeof_pkt bs # chunk (drop sizeof_pkt bs))"
  by pat_completeness auto
termination by (relation "measure length") (auto simp: sizeof_pkt_def)

declare chunk.simps [simp del]

lemma chunk_short: "length bs < sizeof_pkt \<Longrightarrow> chunk bs = []"
  by (simp add: chunk.simps)

lemma chunk_Nil [simp]: "chunk [] = []"
  by (simp add: chunk_short sizeof_pkt_def)

lemma chunk_one: "length bs = sizeof_pkt \<Longrightarrow> chunk bs = [bs]"
  by (subst chunk.simps) (simp add: chunk_short sizeof_pkt_def)

lemma chunk_append: "sizeof_pkt dvd length bs \<Longrightarrow> chunk (bs @ cs) = chunk bs @ chunk cs"
proof (induction bs rule: chunk.induct)
  case (1 bs)
  show ?case
  proof (cases "length bs < sizeof_pkt")
    case True
    then have "bs = []" using "1.prems" by (auto dest: dvd_imp_le)
    then show ?thesis by (simp add: chunk_short sizeof_pkt_def)
  next
    case False
    then have "sizeof_pkt dvd length (drop sizeof_pkt bs)"
      using "1.prems" by (simp add: dvd_minus_self)
    then have "chunk (drop sizeof_pkt bs @ cs) = chunk (drop sizeof_pkt bs) @ chunk cs"
      using "1.IH" False by blast
    then show ?thesis
      using False by (subst (1 2) chunk.simps) simp
  qed
qed

lemma chunk_packets: "list_all (\<lambda>p. length p = sizeof_pkt) ps \<Longrightarrow> chunk (concat ps) = ps"
proof (induction ps)
  case Nil
  then show ?case by (simp add: chunk_short sizeof_pkt_def)
next
  case (Cons p ps)
  then show ?case using chunk_append [of p "concat ps"] by (simp add: chunk_one)
qed

lemma chunk_prefix:
  assumes "length ms \<le> length bs" and "ms = take (length ms) bs"
  shows "take (length (chunk ms)) (chunk bs) = chunk ms"
  using assms
proof (induction ms arbitrary: bs rule: chunk.induct)
  case (1 ms)
  show ?case
  proof (cases "length ms < sizeof_pkt")
    case False
    then have head: "take sizeof_pkt ms = take sizeof_pkt bs"
      using "1.prems" by (metis min.absorb1 not_less take_take)
    have "drop sizeof_pkt ms = take (length (drop sizeof_pkt ms)) (drop sizeof_pkt bs)"
      using "1.prems"(2) by (metis drop_take length_drop)
    then have "take (length (chunk (drop sizeof_pkt ms))) (chunk (drop sizeof_pkt bs)) =
        chunk (drop sizeof_pkt ms)"
      using "1.IH" False "1.prems"(1) by simp
    then show ?thesis
      using False "1.prems"(1) head by (subst (1 3) chunk.simps, subst (2) chunk.simps) simp
  qed (simp add: chunk_short)
qed

end
