(* ===== verification/Sys_Calls.thy ===== *)
theory Sys_Calls
  imports Transport
begin

text \<open>
  The system calls of the transports. What the system answers is a script, one answer for each
  call; a function whose script is used up still waits (\<open>Waiting\<close>). The calls a transport made are
  its trace, the newest first: which descriptors it opened and closed, which bytes it read from
  and wrote to each, and how long it was ready to wait. From the trace follow the bytes of a
  connection, since its descriptor was opened, and the packets that went through all connections.

  Of POSIX the model has what the code relies on: a new descriptor is not one that is open, a
  read gives at most the bytes asked for, a send takes at most the bytes given, both fail on a
  descriptor that is not open (\<open>EBADF\<close>, an \<open>EOTHER\<close> here), and \<open>select\<close> reports only descriptors of
  its sets. \<open>fcntl\<close>, \<open>setsockopt\<close> and \<open>listen\<close> change nothing of the
  state of the program and their results are not looked at.
\<close>

section \<open>Answers and events\<close>

datatype errno_t = EINTR | EAGAIN | EINPROGRESS | EOTHER

record sys_answer =
  sa_ret :: int
  sa_errno :: errno_t
  sa_fd :: int
  sa_data :: "u8 list"
  sa_rfds :: "int list"
  sa_wfds :: "int list"
  sa_usec :: u64

datatype event =
    Opened int
  | Closed int
  | Sent int "u8 list"
  | Got int "u8 list"
  | Waited u64

record sys_t =
  sy_script :: "sys_answer list"
  sy_trace :: "event list"

primrec is_open :: "int \<Rightarrow> event list \<Rightarrow> bool" where
  "is_open fd [] = False"
| "is_open fd (e # tr) =
     (case e of Opened f \<Rightarrow> f = fd \<or> is_open fd tr | Closed f \<Rightarrow> f \<noteq> fd \<and> is_open fd tr | _ \<Rightarrow> is_open fd tr)"

text \<open>The bytes read from, or written to, the connection that has the descriptor now.\<close>

primrec bytes_in :: "int \<Rightarrow> event list \<Rightarrow> u8 list" where
  "bytes_in fd [] = []"
| "bytes_in fd (e # tr) =
     (case e of Opened f \<Rightarrow> if f = fd then [] else bytes_in fd tr
      | Got f bs \<Rightarrow> bytes_in fd tr @ (if f = fd then bs else []) | _ \<Rightarrow> bytes_in fd tr)"

primrec bytes_out :: "int \<Rightarrow> event list \<Rightarrow> u8 list" where
  "bytes_out fd [] = []"
| "bytes_out fd (e # tr) =
     (case e of Opened f \<Rightarrow> if f = fd then [] else bytes_out fd tr
      | Sent f bs \<Rightarrow> bytes_out fd tr @ (if f = fd then bs else []) | _ \<Rightarrow> bytes_out fd tr)"

text \<open>The packets that were completed, on any connection, in the order of their last bytes.\<close>

primrec packets_in :: "event list \<Rightarrow> u8 list list" where
  "packets_in [] = []"
| "packets_in (e # tr) = packets_in tr @
     (case e of Got f bs \<Rightarrow> drop (length (chunk (bytes_in f tr))) (chunk (bytes_in f tr @ bs)) | _ \<Rightarrow> [])"

primrec packets_out :: "event list \<Rightarrow> u8 list list" where
  "packets_out [] = []"
| "packets_out (e # tr) = packets_out tr @
     (case e of Sent f bs \<Rightarrow> drop (length (chunk (bytes_out f tr))) (chunk (bytes_out f tr @ bs)) | _ \<Rightarrow> [])"

section \<open>The calls\<close>

definition next_answer :: "'a sys_t_scheme \<Rightarrow> (sys_answer \<times> 'a sys_t_scheme) outcome" where
  "next_answer s = (case sy_script s of [] \<Rightarrow> Waiting | a # as \<Rightarrow> Done (a, s\<lparr>sy_script := as\<rparr>))"

definition note_event :: "event \<Rightarrow> 'a sys_t_scheme \<Rightarrow> 'a sys_t_scheme" where
  "note_event e s = s\<lparr>sy_trace := e # sy_trace s\<rparr>"

definition usec_call :: "'a sys_t_scheme \<Rightarrow> (u64 \<times> 'a sys_t_scheme) outcome" where
  "usec_call s = on_done (next_answer s) (\<lambda>(a, s). Done (sa_usec a, s))"

text \<open>\<open>socket\<close> and \<open>accept\<close>.\<close>

definition open_call :: "'a sys_t_scheme \<Rightarrow> (int \<times> 'a sys_t_scheme) outcome" where
  "open_call s = on_done (next_answer s) (\<lambda>(a, s).
     if sa_fd a < 0 \<or> is_open (sa_fd a) (sy_trace s) then Done (-1, s)
     else Done (sa_fd a, note_event (Opened (sa_fd a)) s))"

definition close_call :: "int \<Rightarrow> 'a sys_t_scheme \<Rightarrow> 'a sys_t_scheme" where
  "close_call fd s = note_event (Closed fd) s"

text \<open>\<open>connect\<close>, \<open>bind\<close> and \<open>getsockopt\<close>: a result and an error.\<close>

definition status_call :: "'a sys_t_scheme \<Rightarrow> (int \<times> errno_t \<times> 'a sys_t_scheme) outcome" where
  "status_call s = on_done (next_answer s) (\<lambda>(a, s). Done (sa_ret a, sa_errno a, s))"

definition read_call :: "int \<Rightarrow> nat \<Rightarrow> 'a sys_t_scheme \<Rightarrow> (int \<times> errno_t \<times> u8 list \<times> 'a sys_t_scheme) outcome"
  where
  "read_call fd count s = on_done (next_answer s) (\<lambda>(a, s).
     if sa_ret a < 0 then Done (-1, sa_errno a, [], s)
     else if \<not> is_open fd (sy_trace s) then Done (-1, EOTHER, [], s)
     else let bs = take count (sa_data a)
          in Done (int (length bs), sa_errno a, bs, note_event (Got fd bs) s))"

text \<open>\<open>send\<close> and \<open>write\<close>.\<close>

definition send_call :: "int \<Rightarrow> u8 list \<Rightarrow> 'a sys_t_scheme \<Rightarrow> (int \<times> errno_t \<times> 'a sys_t_scheme) outcome" where
  "send_call fd bs s = on_done (next_answer s) (\<lambda>(a, s).
     if sa_ret a < 0 then Done (-1, sa_errno a, s)
     else if \<not> is_open fd (sy_trace s) then Done (-1, EOTHER, s)
     else let n = min (nat (sa_ret a)) (length bs)
          in Done (int n, sa_errno a, note_event (Sent fd (take n bs)) s))"

text \<open>
  A set of descriptors has room for the numbers below \<open>FD_SETSIZE\<close>; \<open>FD_SET\<close> on another one
  writes outside of it.
\<close>

definition FD_SETSIZE :: int where
  "FD_SETSIZE = 1024"

definition fd_ok :: "int \<Rightarrow> bool" where
  "fd_ok fd \<longleftrightarrow> 0 \<le> fd \<and> fd < FD_SETSIZE"

definition select_call :: "int list \<Rightarrow> int list \<Rightarrow> u64 \<Rightarrow> 'a sys_t_scheme \<Rightarrow>
    (int \<times> errno_t \<times> int list \<times> int list \<times> 'a sys_t_scheme) outcome" where
  "select_call rfds wfds usec s =
     (if \<not> list_all fd_ok rfds \<or> \<not> list_all fd_ok wfds then Undef ''FD_SET''
      else on_done (next_answer s) (\<lambda>(a, s).
        Done (sa_ret a, sa_errno a, filter (\<lambda>f. f \<in> set (sa_rfds a)) rfds,
          filter (\<lambda>f. f \<in> set (sa_wfds a)) wfds, note_event (Waited usec) s)))"

lemmas call_defs = usec_call_def open_call_def status_call_def read_call_def send_call_def select_call_def
  next_answer_def

section \<open>Each call uses up an answer\<close>

lemma note_event_script [simp]:
  "sy_script (note_event e s) = sy_script s" "sy_trace (note_event e s) = e # sy_trace s"
  by (simp_all add: note_event_def)

lemma close_call_script [simp]:
  "sy_script (close_call fd s) = sy_script s" "sy_trace (close_call fd s) = Closed fd # sy_trace s"
  by (simp_all add: close_call_def)

abbreviation answers_left :: "'a sys_t_scheme \<Rightarrow> nat" where
  "answers_left s \<equiv> length (sy_script s)"

lemma calls_shorten:
  "usec_call s = Done (u, s') \<Longrightarrow> answers_left s' < answers_left s"
  "open_call s = Done (fd, s') \<Longrightarrow> answers_left s' < answers_left s"
  "status_call s = Done (r, e, s') \<Longrightarrow> answers_left s' < answers_left s"
  "read_call fd n s = Done (r, e, bs, s') \<Longrightarrow> answers_left s' < answers_left s"
  "send_call fd bs s = Done (r, e, s') \<Longrightarrow> answers_left s' < answers_left s"
  "select_call rs ws d s = Done (r, e, rs', ws', s') \<Longrightarrow> answers_left s' < answers_left s"
  by (auto simp: call_defs Let_def split: list.splits if_splits)

end
