(* ===== verification/Socket_Transport.thy ===== *)
theory Socket_Transport
  imports Sys_Calls C_Library
begin

text \<open>
  \<open>src/transport-socket/transport-socket.c\<close>: the transport over TCP. \<open>socket_context_t\<close> is the
  record \<open>sock_t\<close>, with the script and the trace of \<open>Sys_Calls\<close>; \<open>active_fds[0..num_active)\<close> is
  the list \<open>so_active\<close>. Each loop of the code is a recursive function, which uses up answers of
  the system. \<open>so_pton\<close> is \<open>inet_pton\<close>, for the addresses it is asked for.
\<close>

definition MAX_CONNECTIONS :: nat where
  "MAX_CONNECTIONS = 1024"

record sock_t = sys_t +
  so_my_id :: u32
  so_num_nodes :: u32
  so_peer_addrs :: "string list"
  so_listen_fd :: int
  so_connect_timeout_ms :: u32
  so_peer_fds :: "int list"
  so_client_fds :: "int list"
  so_active :: "int list"
  so_pton :: "string \<Rightarrow> u32 option"

section \<open>The table of active descriptors\<close>

primrec find_fd :: "int \<Rightarrow> int list \<Rightarrow> nat option" where
  "find_fd fd [] = None"
| "find_fd fd (f # fs) = (if f = fd then Some 0 else map_option Suc (find_fd fd fs))"

text \<open>The last descriptor moves to the place of the one that goes.\<close>

definition remove_fd :: "int \<Rightarrow> int list \<Rightarrow> int list" where
  "remove_fd fd fs =
     (case find_fd fd fs of None \<Rightarrow> fs | Some i \<Rightarrow> butlast (fs[i := fs ! (length fs - 1)]))"

definition remove_active_fd :: "int \<Rightarrow> sock_t \<Rightarrow> sock_t" where
  "remove_active_fd fd s = s\<lparr>so_active := remove_fd fd (so_active s)\<rparr>"

definition add_active_fd :: "int \<Rightarrow> sock_t \<Rightarrow> sock_t" where
  "add_active_fd fd s =
     (if length (so_active s) < MAX_CONNECTIONS then s\<lparr>so_active := so_active s @ [fd]\<rparr> else s)"

section \<open>Connecting\<close>

text \<open>
  A string of 256 characters or more fills \<open>buf\<close> without its end, and \<open>strchr\<close> and \<open>atoi\<close> may
  read beyond it.
\<close>

definition parse_addr :: "(string \<Rightarrow> u32 option) \<Rightarrow> string \<Rightarrow> (u32 \<times> 16 word) option outcome" where
  "parse_addr pton addr_str =
     (if 256 \<le> length addr_str then Undef ''strncpy''
      else if CHR '':'' \<notin> set addr_str then Done None
      else let port = atoi (tl (dropWhile (\<lambda>c. c \<noteq> CHR '':'') addr_str))
           in case pton (takeWhile (\<lambda>c. c \<noteq> CHR '':'') addr_str) of
                None \<Rightarrow> Done None
              | Some ip \<Rightarrow> Done (Some (ip, word_of_int port)))"

definition connect_to_peer :: "u32 \<Rightarrow> sock_t \<Rightarrow> (int \<times> sock_t) outcome" where
  "connect_to_peer node_id s =
     (if so_num_nodes s \<le> node_id then Done (-1, s)
      else on_done (parse_addr (so_pton s) (so_peer_addrs s ! unat node_id)) (\<lambda>addr.
        if addr = None then Done (-1, s)
        else on_done (open_call s) (\<lambda>(fd, s).
          if fd < 0 then Done (-1, s)
          else on_done (status_call s) (\<lambda>(r, err, s).
            if r < 0 \<and> err \<noteq> EINPROGRESS then Done (-1, close_call fd s)
            else Done (fd, add_active_fd fd (s\<lparr>so_peer_fds := (so_peer_fds s)[unat node_id := fd]\<rparr>))))))"

text \<open>Accept until there is nothing to accept; a connection that has no place is closed.\<close>

definition accept_one :: "int \<Rightarrow> sock_t \<Rightarrow> sock_t" where
  "accept_one new_fd s =
     (if length (so_active s) < MAX_CONNECTIONS then add_active_fd new_fd s else close_call new_fd s)"

lemma accept_one_script [simp]: "sy_script (accept_one fd s) = sy_script s"
  by (simp add: accept_one_def add_active_fd_def)

function accept_all :: "sock_t \<Rightarrow> sock_t outcome" where
  "accept_all s = on_done (open_call s) (\<lambda>(new_fd, s).
     if new_fd < 0 then Done s else accept_all (accept_one new_fd s))"
  by pat_completeness auto
termination by (relation "measure answers_left") (auto dest: calls_shorten)

declare accept_all.simps [simp del]

lemma accept_all_shorten: "accept_all s = Done s' \<Longrightarrow> answers_left s' < answers_left s"
proof (induction s rule: accept_all.induct)
  case (1 s)
  obtain fd t where opened: "open_call s = Done (fd, t)"
    and rest: "(if fd < 0 then Done t else accept_all (accept_one fd t)) = Done s'"
    using "1.prems" unfolding accept_all.simps [of s] on_done_eq_Done by auto
  note t = opened calls_shorten(2) [OF opened]
  show ?case
  proof (cases "fd < 0")
    case True
    then show ?thesis using t(2) rest by simp
  next
    case False
    then show ?thesis using "1.IH" [OF t(1) refl False] t(2) rest by simp
  qed
qed

section \<open>Sending\<close>

text \<open>Lines 111 to 152: wait until \<open>fd\<close> can be written, and accept connections meanwhile.\<close>

function wait_writable :: "u64 \<Rightarrow> int \<Rightarrow> sock_t \<Rightarrow> (bool \<times> sock_t) outcome" where
  "wait_writable connect_start fd s =
     on_done (usec_call s) (\<lambda>(now, s).
       if ucast (so_connect_timeout_ms s) * 1000 \<le> now - connect_start then Done (False, s)
       else on_done (select_call [so_listen_fd s] [fd] 100000 s) (\<lambda>(ret, err, rfds, wfds, s).
         if 0 < ret
         then if so_listen_fd s \<in> set rfds
              then on_done (accept_all s) (\<lambda>s.
                     if fd \<in> set wfds then Done (True, s) else wait_writable connect_start fd s)
              else if fd \<in> set wfds then Done (True, s) else wait_writable connect_start fd s
         else if ret = 0 then wait_writable connect_start fd s
         else if err = EINTR then wait_writable connect_start fd s
         else Done (False, s)))"
  by pat_completeness auto
termination
  by (relation "measure (\<lambda>(t, fd, s). answers_left s)")
    (auto dest!: calls_shorten accept_all_shorten)

text \<open>Lines 164 to 188: send what is left of the packet.\<close>

function send_all :: "int \<Rightarrow> u8 list \<Rightarrow> nat \<Rightarrow> sock_t \<Rightarrow> (bool \<times> sock_t) outcome" where
  "send_all fd pkt total_sent s =
     (if sizeof_pkt \<le> total_sent then Done (True, s)
      else on_done (send_call fd (drop total_sent pkt) s) (\<lambda>(n, err, s).
        if 0 < n then send_all fd pkt (total_sent + nat n) s
        else if n < 0
        then if err = EINTR then send_all fd pkt total_sent s
             else if err = EAGAIN
             then on_done (select_call [] [fd] 10000 s) (\<lambda>(ret, err, rfds, wfds, s).
                    if ret \<le> 0 then Done (False, s) else send_all fd pkt total_sent s)
             else Done (False, s)
        else Done (False, s)))"
  by pat_completeness auto
termination
  by (relation "measure (\<lambda>(fd, pkt, n, s). answers_left s)") (auto dest!: calls_shorten)

declare wait_writable.simps [simp del] send_all.simps [simp del]

definition forget_dst :: "u32 \<Rightarrow> int \<Rightarrow> sock_t \<Rightarrow> sock_t" where
  "forget_dst dst fd s =
     (let s = remove_active_fd fd (close_call fd s)
      in if dst < so_num_nodes s then s\<lparr>so_peer_fds := (so_peer_fds s)[unat dst := -1]\<rparr>
         else s\<lparr>so_client_fds := (so_client_fds s)[unat dst mod MAX_CONNECTIONS := -1]\<rparr>)"

definition fd_of_dst :: "u32 \<Rightarrow> sock_t \<Rightarrow> (int \<times> sock_t) outcome" where
  "fd_of_dst dst s =
     (if dst < so_num_nodes s
      then let fd = so_peer_fds s ! unat dst
           in if fd = -1 then connect_to_peer dst s else Done (fd, s)
      else Done (so_client_fds s ! (unat dst mod MAX_CONNECTIONS), s))"

text \<open>The result of \<open>getsockopt\<close> stands for its own failure and for the error of the socket.\<close>

definition socket_send :: "u8 list \<Rightarrow> sock_t \<Rightarrow> (int \<times> sock_t) outcome" where
  "socket_send pkt s =
     (let dst = h_dst (pkt_header (mem_pkt pkt))
      in on_done (fd_of_dst dst s) (\<lambda>(fd, s).
        if fd = -1 then Done (-1, s)
        else on_done (usec_call s) (\<lambda>(connect_start, s).
          on_done (wait_writable connect_start fd s) (\<lambda>(ready, s).
            if \<not> ready then Done (-1, s)
            else on_done (status_call s) (\<lambda>(r, err, s).
              if r \<noteq> 0 then Done (-1, forget_dst dst fd s)
              else on_done (send_all fd pkt 0 s) (\<lambda>(sent, s).
                if sent then Done (0, s) else Done (-1, forget_dst dst fd s)))))))"

section \<open>Receiving\<close>

datatype read_res = Full "u8 list" | Short | Broken

text \<open>Lines 252 to 272: read a packet from \<open>fd\<close>; \<open>buf\<close> is what was read of it.\<close>

function read_pkt :: "u64 \<Rightarrow> int \<Rightarrow> u8 list \<Rightarrow> sock_t \<Rightarrow> (read_res \<times> sock_t) outcome" where
  "read_pkt deadline fd buf s =
     (if sizeof_pkt \<le> length buf then Done (Full buf, s)
      else on_done (read_call fd (sizeof_pkt - length buf) s) (\<lambda>(n, err, bs, s).
        if 0 < n then read_pkt deadline fd (buf @ bs) s
        else if n < 0
        then if err = EINTR then read_pkt deadline fd buf s
             else if err = EAGAIN
             then if buf \<noteq> []
                  then on_done (usec_call s) (\<lambda>(now, s).
                         if deadline < now then Done (Broken, s) else read_pkt deadline fd buf s)
                  else Done (Short, s)
             else Done (Broken, s)
        else Done (Broken, s)))"
  by pat_completeness auto
termination
  by (relation "measure (\<lambda>(t, fd, buf, s). answers_left s)") (auto dest!: calls_shorten)

declare read_pkt.simps [simp del]

text \<open>Lines 277 to 291: the connection becomes the one of the sender; an earlier one is closed.\<close>

definition replace_fd :: "int \<Rightarrow> int \<Rightarrow> sock_t \<Rightarrow> sock_t" where
  "replace_fd old_fd fd s =
     (if old_fd \<noteq> -1 \<and> old_fd \<noteq> fd then remove_active_fd old_fd (close_call old_fd s) else s)"

definition register_source :: "u32 \<Rightarrow> int \<Rightarrow> sock_t \<Rightarrow> sock_t" where
  "register_source src fd s =
     (if so_num_nodes s \<le> src
      then let i = unat src mod MAX_CONNECTIONS;
               s = replace_fd (so_client_fds s ! i) fd s
           in s\<lparr>so_client_fds := (so_client_fds s)[i := fd]\<rparr>
      else let i = unat src;
               s = replace_fd (so_peer_fds s ! i) fd s
           in s\<lparr>so_peer_fds := (so_peer_fds s)[i := fd]\<rparr>)"

text \<open>Lines 298 to 305: a broken connection is forgotten everywhere.\<close>

definition drop_fd :: "int \<Rightarrow> sock_t \<Rightarrow> sock_t" where
  "drop_fd fd s =
     (let s = remove_active_fd fd (close_call fd s); clear = map (\<lambda>f. if f = fd then -1 else f)
      in s\<lparr>so_peer_fds := clear (so_peer_fds s), so_client_fds := clear (so_client_fds s)\<rparr>)"

lemma read_pkt_shorten:
  "read_pkt t fd buf s = Done (r, s') \<Longrightarrow> answers_left s' \<le> answers_left s \<and>
     (length buf < sizeof_pkt \<longrightarrow> answers_left s' < answers_left s)"
proof (induction t fd buf s rule: read_pkt.induct)
  case (1 t fd buf s)
  show ?case
  proof (cases "sizeof_pkt \<le> length buf")
    case True
    then show ?thesis using "1.prems" by (simp add: read_pkt.simps [of t fd buf s])
  next
    case False
    obtain n err bs u where read: "read_call fd (sizeof_pkt - length buf) s = Done (n, err, bs, u)"
      using "1.prems" False by (auto simp: read_pkt.simps [of t fd buf s] on_done_eq_Done)
    note u = read calls_shorten(4) [OF read]
    note ih = "1.IH"(1) [OF False u(1) refl refl refl] "1.IH"(2) [OF False u(1) refl refl refl]
      "1.IH"(3) [OF False u(1) refl refl refl]
    have clock: "answers_left b < answers_left u" if "usec_call u = Done (a, b)" for a b
      using that by (rule calls_shorten(1))
    show ?thesis
      using "1.prems" False u ih
      by (fastforce simp: read_pkt.simps [of t fd buf s] on_done_eq_Done split: if_splits dest: clock)
  qed
qed

lemma sock_updates_script [simp]:
  "sy_script (drop_fd fd s) = sy_script s" "sy_script (remove_active_fd fd s) = sy_script s"
  "sy_script (replace_fd old fd s) = sy_script s"
  by (simp_all add: drop_fd_def remove_active_fd_def replace_fd_def Let_def)

text \<open>
  The loop over the active descriptors. \<open>Inl s\<close>: the scan is over and \<open>select\<close> comes next;
  \<open>Inr\<close>: a packet, and the function returns 1. After a connection broke, its place has another
  one, which is looked at next.
\<close>

function scan_active :: "u64 \<Rightarrow> int list \<Rightarrow> nat \<Rightarrow> sock_t \<Rightarrow> (sock_t + u8 list \<times> sock_t) outcome" where
  "scan_active deadline ready i s =
     (if length (so_active s) \<le> i then Done (Inl s)
      else let fd = so_active s ! i
           in if fd \<notin> set ready then scan_active deadline ready (Suc i) s
              else on_done (read_pkt deadline fd [] s) (\<lambda>(r, s).
                case r of
                  Full pkt \<Rightarrow> Done (Inr (pkt, register_source (h_src (pkt_header (mem_pkt pkt))) fd s))
                | Short \<Rightarrow> scan_active deadline ready (Suc i) s
                | Broken \<Rightarrow> scan_active deadline ready i (drop_fd fd s)))"
  by pat_completeness auto
termination
  by (relation "measures [\<lambda>(t, ready, i, s). answers_left s, \<lambda>(t, ready, i, s). length (so_active s) - i]")
    (auto simp: sizeof_pkt_def dest!: read_pkt_shorten)

declare scan_active.simps [simp del]

text \<open>What \<open>select\<close> is told to wait for: the time that is left.\<close>

definition time_left :: "u64 \<Rightarrow> u64 \<Rightarrow> u64" where
  "time_left now deadline = (if now < deadline then deadline - now else 0)"

lemma scan_active_shorten:
  "scan_active t ready i s = Done (Inl s') \<Longrightarrow> answers_left s' \<le> answers_left s"
proof (induction t ready i s rule: scan_active.induct)
  case (1 t ready i s)
  show ?case
  proof (cases "length (so_active s) \<le> i \<or> so_active s ! i \<notin> set ready")
    case True
    then show ?thesis
      using "1.prems" "1.IH"(1) by (auto simp: scan_active.simps [of t ready i s] split: if_splits)
  next
    case False
    then obtain r u where r: "read_pkt t (so_active s ! i) [] s = Done (r, u)"
      using "1.prems" by (auto simp: scan_active.simps [of t ready i s] on_done_eq_Done Let_def)
    have "answers_left u \<le> answers_left s" using read_pkt_shorten [OF r] by simp
    then show ?thesis
      using "1.prems" False r "1.IH"(2,3) [OF _ refl _ r refl]
      by (fastforce simp: scan_active.simps [of t ready i s] Let_def on_done_eq_Done split: read_res.splits)
  qed
qed

function receive_loop :: "u64 \<Rightarrow> sock_t \<Rightarrow> (int \<times> u8 list \<times> sock_t) outcome" where
  "receive_loop deadline s =
     on_done (usec_call s) (\<lambda>(now, s).
       on_done (select_call (so_listen_fd s # so_active s) [] (time_left now deadline) s)
         (\<lambda>(ret, err, ready, wfds, s).
           if ret = 0 then Done (0, [], s)
           else if ret < 0
           then if err = EINTR then receive_loop deadline s else Done (-1, [], s)
           else if so_listen_fd s \<in> set ready
           then on_done (accept_all s) (receive_loop deadline)
           else on_done (scan_active deadline ready 0 s) (\<lambda>res.
             case res of Inl s \<Rightarrow> receive_loop deadline s | Inr (pkt, s) \<Rightarrow> Done (1, pkt, s))))"
  by pat_completeness auto
termination
  by (relation "measure (\<lambda>(t, s). answers_left s)")
    (auto dest!: calls_shorten accept_all_shorten scan_active_shorten)

declare receive_loop.simps [simp del]

definition socket_receive :: "u32 \<Rightarrow> sock_t \<Rightarrow> (int \<times> u8 list \<times> sock_t) outcome" where
  "socket_receive timeout_ms s =
     on_done (usec_call s) (\<lambda>(start_time, s).
       receive_loop (start_time + ucast timeout_ms * 1000) s)"

section \<open>Creating and freeing\<close>

text \<open>\<open>Inl\<close> is the exit code. The results of \<open>setsockopt\<close> and \<open>listen\<close> are not looked at.\<close>

definition transport_socket_init ::
  "u32 \<Rightarrow> string list \<Rightarrow> u32 \<Rightarrow> u32 \<Rightarrow> (string \<Rightarrow> u32 option) \<Rightarrow> sys_t \<Rightarrow>
   (int + sock_t transport_t) outcome" where
  "transport_socket_init id_no peers num_peers connect_timeout_ms pton sys =
     (let s = \<lparr>sy_script = sy_script sys, sy_trace = sy_trace sys, so_my_id = id_no, so_num_nodes = num_peers,
                so_peer_addrs = take (unat num_peers) peers, so_listen_fd = 0,
                so_connect_timeout_ms = connect_timeout_ms, so_peer_fds = replicate (unat num_peers) (-1),
                so_client_fds = replicate MAX_CONNECTIONS (-1), so_active = [], so_pton = pton\<rparr>
      in if length peers < unat num_peers \<or> length peers \<le> unat id_no then Undef ''peers''
      else on_done (parse_addr pton (peers ! unat id_no)) (\<lambda>addr.
        if addr = None then Done (Inl 1)
        else on_done (open_call s) (\<lambda>(fd, s).
          if fd < 0 then Done (Inl 1)
          else on_done (status_call (s\<lparr>so_listen_fd := fd\<rparr>)) (\<lambda>(r, err, s).
            if r < 0 then Done (Inl 1)
            else Done (Inr \<lparr>t_send = socket_send, t_receive = socket_receive, t_context = s\<rparr>)))))"

definition transport_free :: "sock_t \<Rightarrow> sock_t" where
  "transport_free s = close_call (so_listen_fd s) (fold close_call (so_active s) s)"

end
