(* ===== verification/Socket_Inv.thy ===== *)
theory Socket_Inv
  imports Socket_Transport "HOL-Library.Multiset"
begin

text \<open>
  The invariant of the socket transport (\<open>sock_ok\<close>): the tables have their sizes, the active
  descriptors are open, distinct and at most \<open>MAX_CONNECTIONS\<close>, and whole packets went through
  every open connection. \<open>kept\<close> says what every part of the two operations keeps.
\<close>

section \<open>Removing a descriptor\<close>

lemma find_fd_None: "find_fd fd fs = None \<longleftrightarrow> fd \<notin> set fs"
  by (induction fs) auto

lemma find_fd_Some: "find_fd fd fs = Some i \<Longrightarrow> i < length fs \<and> fs ! i = fd"
  by (induction fs arbitrary: i) (auto split: if_splits)

lemma mset_remove_at:
  assumes "i < length fs"
  shows "mset (butlast (fs[i := fs ! (length fs - 1)])) = mset fs - {#fs ! i#}"
proof -
  obtain xs x where fs: "fs = xs @ [x]" using assms by (cases fs rule: rev_cases) auto
  show ?thesis
  proof (cases "i < length xs")
    case True
    then have "mset (xs[i := x]) = add_mset x (mset xs - {#xs ! i#})" by (rule mset_update)
    then show ?thesis using True by (simp add: fs list_update_append nth_append)
  next
    case False
    then show ?thesis using assms by (simp add: fs list_update_append nth_append)
  qed
qed

lemma mset_remove_fd: "mset (remove_fd fd fs) = mset fs - {#fd#}"
proof (cases "find_fd fd fs")
  case None
  then have "fd \<notin> set fs" by (simp add: find_fd_None)
  then show ?thesis using None by (simp add: remove_fd_def diff_single_trivial)
next
  case (Some i)
  then show ?thesis
    using mset_remove_at [of i fs] find_fd_Some [OF Some] by (simp add: remove_fd_def)
qed

lemma remove_fd_distinct:
  assumes "distinct fs"
  shows "distinct (remove_fd fd fs)" and "set (remove_fd fd fs) = set fs - {fd}"
    and "length (remove_fd fd fs) \<le> length fs"
proof -
  have m: "mset (remove_fd fd fs) = mset fs - {#fd#}" by (rule mset_remove_fd)
  have "set_mset (mset fs - {#fd#}) = set fs - {fd}"
    using assms
    by (cases "fd \<in> set fs") (auto dest: in_diffD simp: distinct_count_atmost_1 in_diff_count split: if_splits)
  then show set: "set (remove_fd fd fs) = set fs - {fd}" by (metis m set_mset_mset)
  have len: "length (remove_fd fd fs) = (if fd \<in> set fs then length fs - 1 else length fs)"
    using arg_cong [OF m, of size] by (simp add: size_Diff_singleton_if)
  then show "length (remove_fd fd fs) \<le> length fs" by simp
  show "distinct (remove_fd fd fs)"
    using assms by (intro card_distinct) (simp add: set len distinct_card)
qed

section \<open>The invariant\<close>

definition entries :: "sock_t \<Rightarrow> int set" where
  "entries s = set (so_peer_fds s) \<union> set (so_client_fds s)"

definition tables_ok :: "sock_t \<Rightarrow> bool" where
  "tables_ok s \<longleftrightarrow> length (so_peer_fds s) = unat (so_num_nodes s) \<and>
     length (so_peer_addrs s) = unat (so_num_nodes s) \<and> length (so_client_fds s) = MAX_CONNECTIONS \<and>
     length (so_active s) \<le> MAX_CONNECTIONS \<and> distinct (so_active s) \<and>
     (\<forall>f \<in> set (so_active s). is_open f (sy_trace s)) \<and> is_open (so_listen_fd s) (sy_trace s) \<and>
     so_listen_fd s \<noteq> -1 \<and> so_listen_fd s \<notin> set (so_active s) \<and> so_listen_fd s \<notin> entries s"

definition aligned :: "event list \<Rightarrow> bool" where
  "aligned tr \<longleftrightarrow> (\<forall>f. is_open f tr \<longrightarrow>
     sizeof_pkt dvd length (bytes_in f tr) \<and> sizeof_pkt dvd length (bytes_out f tr))"

definition sock_ok :: "sock_t \<Rightarrow> bool" where
  "sock_ok s \<longleftrightarrow> tables_ok s \<and> aligned (sy_trace s)"

text \<open>The descriptors, and those the system will give, fit into the sets of \<open>select\<close>.\<close>

definition in_range :: "sock_t \<Rightarrow> bool" where
  "in_range s \<longleftrightarrow> (\<forall>f \<in> {so_listen_fd s} \<union> set (so_active s) \<union> (entries s - {-1}). fd_ok f) \<and>
     (\<forall>a \<in> set (sy_script s). sa_fd a < FD_SETSIZE)"

definition kept :: "sock_t \<Rightarrow> sock_t \<Rightarrow> bool" where
  "kept s s' \<longleftrightarrow> so_num_nodes s' = so_num_nodes s \<and> so_listen_fd s' = so_listen_fd s \<and>
     so_peer_addrs s' = so_peer_addrs s \<and> so_pton s' = so_pton s \<and>
     packets_in (sy_trace s') = packets_in (sy_trace s) \<and>
     packets_out (sy_trace s') = packets_out (sy_trace s) \<and>
     (sock_ok s \<longrightarrow> sock_ok s' \<and> (in_range s \<longrightarrow> in_range s'))"

lemma kept_refl [simp, intro]: "kept s s"
  by (simp add: kept_def)

lemma kept_trans [trans]: "kept s t \<Longrightarrow> kept t u \<Longrightarrow> kept s u"
  by (auto simp: kept_def)

lemma keptD:
  assumes "kept s s'"
  shows "so_num_nodes s' = so_num_nodes s" and "so_listen_fd s' = so_listen_fd s"
    and "packets_in (sy_trace s') = packets_in (sy_trace s)"
    and "packets_out (sy_trace s') = packets_out (sy_trace s)" and "sock_ok s \<Longrightarrow> sock_ok s'"
    and "sock_ok s \<Longrightarrow> in_range s \<Longrightarrow> in_range s'"
  using assms by (simp_all add: kept_def)

section \<open>Calls that keep the invariant\<close>

lemma script_kept:
  "set as \<subseteq> set (sy_script s) \<Longrightarrow> kept s (s\<lparr>sy_script := as\<rparr>)"
  by (auto simp: kept_def sock_ok_def tables_ok_def in_range_def entries_def)

lemma aligned_Waited [simp]: "aligned (Waited d # tr) = aligned tr"
  by (simp add: aligned_def)

lemma aligned_Closed: "aligned tr \<Longrightarrow> aligned (Closed fd # tr)"
  by (simp add: aligned_def)

lemma aligned_Opened: "aligned tr \<Longrightarrow> aligned (Opened fd # tr)"
  by (auto simp: aligned_def)

lemma waited_kept: "kept s (note_event (Waited d) s)"
  by (auto simp: kept_def sock_ok_def tables_ok_def in_range_def entries_def note_event_def)

lemma opened_kept:
  "0 \<le> fd \<Longrightarrow> \<not> is_open fd (sy_trace s) \<Longrightarrow> kept s (note_event (Opened fd) s)"
  by (auto simp: kept_def sock_ok_def tables_ok_def in_range_def entries_def note_event_def
      intro: aligned_Opened)

lemma next_answer_kept:
  assumes "next_answer s = Done (a, t)"
  shows "kept s t" and "a \<in> set (sy_script s)" and "sy_trace t = sy_trace s" and "so_active t = so_active s"
    and "so_peer_fds t = so_peer_fds s" and "so_client_fds t = so_client_fds s"
    and "so_connect_timeout_ms t = so_connect_timeout_ms s"
  using assms by (auto simp: next_answer_def intro!: script_kept split: list.splits)

text \<open>A new descriptor is used nowhere yet.\<close>

definition is_new :: "int \<Rightarrow> sock_t \<Rightarrow> bool" where
  "is_new fd s \<longleftrightarrow> fd \<noteq> so_listen_fd s \<and> fd \<notin> set (so_active s) \<and> is_open fd (sy_trace s) \<and> 0 \<le> fd"

lemma usec_kept: "usec_call s = Done (u, t) \<Longrightarrow> kept s t"
  using next_answer_kept(1) by (fastforce simp: usec_call_def on_done_eq_Done)

lemma status_kept: "status_call s = Done (r, e, t) \<Longrightarrow> kept s t"
  using next_answer_kept(1) by (fastforce simp: status_call_def on_done_eq_Done)

lemma select_kept:
  assumes "select_call rs ws d s = Done (r, e, rs', ws', t)"
  shows "kept s t" and "so_active t = so_active s" and "set rs' \<subseteq> set rs" and "set ws' \<subseteq> set ws"
proof -
  obtain a u where a: "next_answer s = Done (a, u)" and t: "t = note_event (Waited d) u"
    and sets: "rs' = filter (\<lambda>f. f \<in> set (sa_rfds a)) rs" "ws' = filter (\<lambda>f. f \<in> set (sa_wfds a)) ws"
    using assms by (auto simp: select_call_def on_done_eq_Done split: if_splits)
  note u = next_answer_kept [OF a]
  show "kept s t" using u(1) waited_kept unfolding t by (rule kept_trans)
  show "so_active t = so_active s" using u by (simp add: t note_event_def)
  show "set rs' \<subseteq> set rs" "set ws' \<subseteq> set ws" by (auto simp: sets)
qed

lemma open_kept:
  assumes "open_call s = Done (fd, t)"
  shows "kept s t" and "0 \<le> fd \<Longrightarrow> sock_ok s \<Longrightarrow> is_new fd t"
    and "0 \<le> fd \<Longrightarrow> in_range s \<Longrightarrow> fd_ok fd"
proof -
  obtain a u where a: "next_answer s = Done (a, u)"
    and t: "(if sa_fd a < 0 \<or> is_open (sa_fd a) (sy_trace u) then fd = -1 \<and> t = u
      else fd = sa_fd a \<and> t = note_event (Opened (sa_fd a)) u)"
    using assms by (auto simp: open_call_def on_done_eq_Done split: if_splits)
  note u = next_answer_kept [OF a]
  show "kept s t"
    using t kept_trans [OF u(1) opened_kept [of "sa_fd a" u]] u(1) by (auto split: if_splits)
  assume fd: "0 \<le> fd"
  then have new: "fd = sa_fd a" "t = note_event (Opened fd) u" "\<not> is_open fd (sy_trace s)"
    using t u(3) by (auto split: if_splits)
  show "fd_ok fd" if "in_range s" using that fd u(2) new(1) by (simp add: in_range_def fd_ok_def)
  show "is_new fd t" if "sock_ok s"
    using that fd u(4) keptD(2) [OF u(1)] new(2,3)
    by (auto simp: is_new_def sock_ok_def tables_ok_def note_event_def)
qed

lemma add_active_ok:
  "sock_ok s \<Longrightarrow> is_new fd s \<Longrightarrow> sock_ok (add_active_fd fd s)"
  by (auto simp: sock_ok_def tables_ok_def is_new_def add_active_fd_def entries_def)

lemma close_ok:
  assumes "sock_ok s" and "fd \<noteq> so_listen_fd s" and "fd \<notin> set (so_active s)"
  shows "sock_ok (close_call fd s)"
  using assms
  by (auto simp: sock_ok_def tables_ok_def close_call_def note_event_def entries_def intro: aligned_Closed)

lemma in_range_updates:
  "in_range s \<Longrightarrow> fd_ok fd \<Longrightarrow> in_range (add_active_fd fd s)"
  "in_range s \<Longrightarrow> in_range (close_call fd s)"
  by (auto simp: in_range_def add_active_fd_def entries_def close_call_def note_event_def)

lemma accept_kept:
  assumes "open_call s = Done (fd, t)" and "0 \<le> fd"
  shows "kept s (accept_one fd t)"
proof -
  note o = open_kept [OF assms(1)]
  have "sock_ok (accept_one fd t)" if ok: "sock_ok s"
    using add_active_ok close_ok keptD(5) [OF o(1) ok] o(2) [OF assms(2) ok]
    by (simp add: accept_one_def is_new_def)
  moreover have "in_range (accept_one fd t)" if "sock_ok s" "in_range s"
    using in_range_updates keptD(6) [OF o(1) that] o(3) [OF assms(2) that(2)] by (simp add: accept_one_def)
  ultimately show ?thesis
    using o(1)
    by (auto simp: kept_def accept_one_def add_active_fd_def close_call_def note_event_def)
qed

lemma accept_all_kept: "accept_all s = Done s' \<Longrightarrow> kept s s'"
proof (induction s rule: accept_all.induct)
  case (1 s)
  obtain fd t where t: "open_call s = Done (fd, t)"
    and rest: "(if fd < 0 then Done t else accept_all (accept_one fd t)) = Done s'"
    using "1.prems" unfolding accept_all.simps [of s] on_done_eq_Done by auto
  show ?case
  proof (cases "fd < 0")
    case True
    then show ?thesis using open_kept(1) [OF t] rest by simp
  next
    case False
    then show ?thesis
      using kept_trans [OF accept_kept [OF t] "1.IH" [OF t refl False]] rest by simp
  qed
qed

lemma wait_writable_kept: "wait_writable st fd s = Done (r, s') \<Longrightarrow> kept s s'"
proof (induction st fd s rule: wait_writable.induct)
  case (1 st fd s)
  obtain now t where t: "usec_call s = Done (now, t)"
    using "1.prems" by (auto simp: wait_writable.simps [of st fd s] on_done_eq_Done)
  note kt = usec_kept [OF t]
  show ?case
  proof (cases "ucast (so_connect_timeout_ms t) * 1000 \<le> now - st")
    case True
    then show ?thesis using "1.prems" t kt by (simp add: wait_writable.simps [of st fd s])
  next
    case False
    then obtain ret err rfds wfds u where u: "select_call [so_listen_fd t] [fd] 100000 t =
        Done (ret, err, rfds, wfds, u)"
      using "1.prems" t by (auto simp: wait_writable.simps [of st fd s] on_done_eq_Done)
    note ku = kept_trans [OF kt select_kept(1) [OF u]]
    note ih = "1.IH" [OF t refl False u refl refl refl refl]
    show ?thesis
    proof (cases "0 < ret \<and> so_listen_fd u \<in> set rfds")
      case True
      then obtain v where v: "accept_all u = Done v"
        using "1.prems" t False u by (auto simp: wait_writable.simps [of st fd s] on_done_eq_Done)
      note kv = kept_trans [OF ku accept_all_kept [OF v]]
      show ?thesis
        using "1.prems" t False u True v kv ih(1) kept_trans [OF kv]
        by (auto simp: wait_writable.simps [of st fd s] split: if_splits)
    next
      case no: False
      show ?thesis
        using "1.prems" t False u no ku ih(2-4) kept_trans [OF ku]
        by (auto simp: wait_writable.simps [of st fd s] split: if_splits)
    qed
  qed
qed

section \<open>Bytes on one connection\<close>

text \<open>From \<open>s\<close> to \<open>t\<close> the bytes \<open>ins\<close> were read from \<open>fd\<close> and \<open>outs\<close> written to it, nothing else.\<close>

definition moved :: "int \<Rightarrow> u8 list \<Rightarrow> u8 list \<Rightarrow> sock_t \<Rightarrow> sock_t \<Rightarrow> bool" where
  "moved fd ins outs s t \<longleftrightarrow> so_num_nodes t = so_num_nodes s \<and> so_listen_fd t = so_listen_fd s \<and>
     so_peer_addrs t = so_peer_addrs s \<and> so_pton t = so_pton s \<and> so_active t = so_active s \<and>
     so_peer_fds t = so_peer_fds s \<and> so_client_fds t = so_client_fds s \<and>
     set (sy_script t) \<subseteq> set (sy_script s) \<and>
     (\<forall>f. is_open f (sy_trace t) = is_open f (sy_trace s) \<and>
        bytes_in f (sy_trace t) = bytes_in f (sy_trace s) @ (if f = fd then ins else []) \<and>
        bytes_out f (sy_trace t) = bytes_out f (sy_trace s) @ (if f = fd then outs else [])) \<and>
     (ins @ outs = [] \<or> is_open fd (sy_trace s)) \<and>
     (aligned (sy_trace s) \<longrightarrow> packets_in (sy_trace t) = packets_in (sy_trace s) @ chunk ins \<and>
        packets_out (sy_trace t) = packets_out (sy_trace s) @ chunk outs)"

lemma moved_refl: "moved fd [] [] s s"
  by (simp add: moved_def)

lemma moved_call:
  assumes "moved fd ins outs s t" and "next_answer t = Done (a, u)"
  shows "moved fd ins outs s u" and "moved fd ins outs s (note_event (Waited d) u)"
  using assms by (auto simp: moved_def next_answer_def note_event_def split: list.splits)

lemma chunk_extend:
  assumes "sizeof_pkt dvd length bs" and "length cs < sizeof_pkt"
  shows "drop (length (chunk (bs @ cs))) (chunk ((bs @ cs) @ ds)) = chunk (cs @ ds)"
  using chunk_append [OF assms(1), of cs] chunk_append [OF assms(1), of "cs @ ds"] assms(2)
  by (simp add: chunk_short)

lemma moved_read:
  assumes m: "moved fd ins outs s t" and short: "length ins < sizeof_pkt"
    and r: "read_call fd k t = Done (r, e, bs, u)"
  shows "moved fd (ins @ bs) outs s u" and "length bs \<le> k" and "0 < r \<Longrightarrow> bs \<noteq> []"
    and "\<not> 0 < r \<Longrightarrow> bs = []"
proof -
  obtain a v where a: "next_answer t = Done (a, v)" using r by (auto simp: read_call_def on_done_eq_Done)
  note mv = moved_call(1) [OF m a]
  have cases: "r = -1 \<and> bs = [] \<and> u = v \<or> r = int (length bs) \<and> bs = take k (sa_data a) \<and>
      is_open fd (sy_trace v) \<and> u = note_event (Got fd bs) v"
    using r a by (auto simp: read_call_def Let_def split: if_splits)
  then show "length bs \<le> k" "0 < r \<Longrightarrow> bs \<noteq> []" "\<not> 0 < r \<Longrightarrow> bs = []" by auto
  show "moved fd (ins @ bs) outs s u"
    using cases
  proof (elim disjE conjE)
    assume u: "u = note_event (Got fd bs) v" and "is_open fd (sy_trace v)"
    then have "is_open fd (sy_trace s)" using mv by (simp add: moved_def)
    moreover have "drop (length (chunk (bytes_in fd (sy_trace v)))) (chunk (bytes_in fd (sy_trace v) @ bs)) =
        chunk (ins @ bs)" if "aligned (sy_trace s)"
      using chunk_extend [OF _ short, of "bytes_in fd (sy_trace s)" bs] that mv calculation
      by (simp add: moved_def aligned_def)
    ultimately show ?thesis using mv short by (auto simp: moved_def u note_event_def chunk_short)
  qed (use mv in simp)
qed

lemma moved_send:
  assumes m: "moved fd ins outs s t" and short: "length outs < sizeof_pkt"
    and r: "send_call fd bs t = Done (r, e, u)"
  shows "moved fd ins (outs @ (if 0 < r then take (nat r) bs else [])) s u" and "r \<le> int (length bs)"
proof -
  obtain a v where a: "next_answer t = Done (a, v)" using r by (auto simp: send_call_def on_done_eq_Done)
  note mv = moved_call(1) [OF m a]
  have cases: "r = -1 \<and> u = v \<or> 0 \<le> r \<and> r \<le> int (length bs) \<and> is_open fd (sy_trace v) \<and>
      u = note_event (Sent fd (take (nat r) bs)) v"
    using r a by (auto simp: send_call_def Let_def split: if_splits)
  then show "r \<le> int (length bs)" by auto
  show "moved fd ins (outs @ (if 0 < r then take (nat r) bs else [])) s u"
    using cases
  proof (elim disjE conjE)
    assume u: "u = note_event (Sent fd (take (nat r) bs)) v" and "is_open fd (sy_trace v)"
    then have "is_open fd (sy_trace s)" using mv by (simp add: moved_def)
    moreover have "drop (length (chunk (bytes_out fd (sy_trace v))))
        (chunk (bytes_out fd (sy_trace v) @ take (nat r) bs)) = chunk (outs @ take (nat r) bs)"
      if "aligned (sy_trace s)"
      using chunk_extend [OF _ short, of "bytes_out fd (sy_trace s)" "take (nat r) bs"] that mv calculation
      by (simp add: moved_def aligned_def)
    moreover have "(if 0 < r then take (nat r) bs else []) = take (nat r) bs" by simp
    ultimately show ?thesis using mv short by (auto simp: moved_def u note_event_def chunk_short)
  qed (use mv in simp)
qed

lemma read_pkt_moved:
  assumes "read_pkt dl fd buf t = Done (r, t')" and "moved fd buf [] s t" and "length buf \<le> sizeof_pkt"
  shows "\<exists>bs. moved fd bs [] s t' \<and> (\<forall>pkt. r = Full pkt \<longrightarrow> bs = pkt \<and> length pkt = sizeof_pkt) \<and>
    (r = Short \<longrightarrow> bs = []) \<and> (r = Broken \<longrightarrow> length bs < sizeof_pkt)"
  using assms
proof (induction dl fd buf t rule: read_pkt.induct)
  case (1 dl fd buf t)
  note run = "1.prems"(1) [unfolded read_pkt.simps [of dl fd buf t]]
  show ?case
  proof (cases "sizeof_pkt \<le> length buf")
    case True
    then show ?thesis using run "1.prems"(2,3) by auto
  next
    case False
    then have short: "length buf < sizeof_pkt" by simp
    obtain n err bs u where u: "read_call fd (sizeof_pkt - length buf) t = Done (n, err, bs, u)"
      using run False by (auto simp: on_done_eq_Done)
    note mv = moved_read [OF "1.prems"(2) short u]
    note ih = "1.IH" [OF False u refl refl refl]
    have clock: "moved fd buf [] s v" if "moved fd buf [] s u" "usec_call u = Done (now, v)" for now v
      using that moved_call(1) by (fastforce simp: usec_call_def on_done_eq_Done)
    show ?thesis
    proof (cases "0 < n")
      case True
      then show ?thesis using run False u ih(1) [OF True _ mv(1)] mv(2) by simp
    next
      case no: False
      then have same: "moved fd buf [] s u" using mv(1,4) by simp
      show ?thesis
      proof (cases "n < 0 \<and> err = EAGAIN \<and> buf \<noteq> []")
        case True
        then obtain now v where v: "usec_call u = Done (now, v)"
          using run False u no by (auto simp: on_done_eq_Done)
        show ?thesis
          using run False u no True v ih(3) [OF no _ _ _ _ v refl _ _ clock [OF same v]] clock [OF same v]
            short "1.prems"(3) by (auto split: if_splits)
      next
        case other: False
        then show ?thesis
          using run False u no same short ih(2) [OF no _ _ _ same] "1.prems"(3)
          by (auto split: if_splits)
      qed
    qed
  qed
qed

lemma send_all_moved:
  assumes "send_all fd pkt n t = Done (b, t')" and "moved fd [] (take n pkt) s t"
    and "length pkt = sizeof_pkt" and "n \<le> sizeof_pkt"
  shows "\<exists>k. moved fd [] (take k pkt) s t' \<and> (if b then k = sizeof_pkt else k < sizeof_pkt)"
  using assms
proof (induction fd pkt n t rule: send_all.induct)
  case (1 fd pkt n t)
  note run = "1.prems"(1) [unfolded send_all.simps [of fd pkt n t]]
  show ?case
  proof (cases "sizeof_pkt \<le> n")
    case True
    then show ?thesis using run "1.prems"(2,4) by (intro exI [of _ n]) auto
  next
    case False
    then have short: "length (take n pkt) < sizeof_pkt" using "1.prems"(3) by simp
    obtain r err u where u: "send_call fd (drop n pkt) t = Done (r, err, u)"
      using run False by (auto simp: on_done_eq_Done)
    note mv = moved_send [OF "1.prems"(2) short u]
    note ih = "1.IH" [OF False u refl refl]
    show ?thesis
    proof (cases "0 < r")
      case True
      have "take (n + nat r) pkt = take n pkt @ take (nat r) (drop n pkt)" by (rule take_add)
      moreover have "n + nat r \<le> sizeof_pkt" using mv(2) True "1.prems"(3) False by simp
      ultimately show ?thesis
        using run False u True ih(1) [OF True _ _ "1.prems"(3)] mv(1) by simp
    next
      case no: False
      then have same: "moved fd [] (take n pkt) s u" using mv(1) by simp
      show ?thesis
      proof (cases "r < 0 \<and> err = EAGAIN")
        case True
        then obtain ret e2 rs ws v where v: "select_call [] [fd] 10000 u = Done (ret, e2, rs, ws, v)"
          using run False u no by (auto simp: on_done_eq_Done)
        have "moved fd [] (take n pkt) s v"
          using v moved_call(2) [OF same] by (auto simp: select_call_def on_done_eq_Done split: if_splits)
        then show ?thesis
          using run False u no True v ih(3) [OF no _ _ _ v refl refl refl refl _ _ _ "1.prems"(3)]
          by (auto split: if_splits)
      next
        case other: False
        then show ?thesis
          using run False u no same ih(2) [OF no _ _ _ same "1.prems"(3)] by (auto split: if_splits)
      qed
    qed
  qed
qed

text \<open>After whole packets the invariant holds again; after a part of one, when the connection is closed.\<close>

lemma moved_whole:
  assumes m: "moved fd ins outs s t" and ok: "sock_ok s"
    and whole: "sizeof_pkt dvd length ins" "sizeof_pkt dvd length outs"
  shows "sock_ok t" and "in_range s \<Longrightarrow> in_range t"
proof -
  show "sock_ok t"
    using m ok whole
    by (auto simp: moved_def sock_ok_def tables_ok_def entries_def aligned_def)
  show "in_range s \<Longrightarrow> in_range t" using m by (auto simp: moved_def in_range_def entries_def)
qed

definition shut :: "int \<Rightarrow> sock_t \<Rightarrow> sock_t" where
  "shut fd s = remove_active_fd fd (close_call fd s)"

lemma shut_ok:
  assumes m: "moved fd ins outs s t" and ok: "sock_ok s" and fd: "fd \<noteq> so_listen_fd s"
  shows "sock_ok (shut fd t)" and "in_range s \<Longrightarrow> in_range (shut fd t)"
proof -
  have d: "distinct (so_active t)" using m ok by (simp add: moved_def sock_ok_def tables_ok_def)
  note rm = remove_fd_distinct [OF d, of fd]
  have "tables_ok (shut fd t)"
    using m ok fd rm
    by (auto simp: moved_def sock_ok_def tables_ok_def entries_def shut_def remove_active_fd_def
        close_call_def note_event_def)
  moreover have "aligned (sy_trace (shut fd t))"
    using m ok by (auto simp: moved_def sock_ok_def aligned_def shut_def remove_active_fd_def)
  ultimately show "sock_ok (shut fd t)" by (simp add: sock_ok_def)
  show "in_range s \<Longrightarrow> in_range (shut fd t)"
    using m rm by (auto simp: moved_def in_range_def entries_def shut_def remove_active_fd_def
        close_call_def note_event_def)
qed

lemma shut_frame [simp]:
  "so_num_nodes (shut fd s) = so_num_nodes s" "so_listen_fd (shut fd s) = so_listen_fd s"
  "so_peer_addrs (shut fd s) = so_peer_addrs s" "so_pton (shut fd s) = so_pton s"
  "packets_in (sy_trace (shut fd s)) = packets_in (sy_trace s)"
  "packets_out (sy_trace (shut fd s)) = packets_out (sy_trace s)"
  "so_peer_fds (shut fd s) = so_peer_fds s" "so_client_fds (shut fd s) = so_client_fds s"
  by (simp_all add: shut_def remove_active_fd_def close_call_def note_event_def)

text \<open>New entries in the tables of peers and clients.\<close>

definition entries_grow :: "sock_t \<Rightarrow> sock_t \<Rightarrow> int set \<Rightarrow> bool" where
  "entries_grow s t F \<longleftrightarrow> (\<exists>ps cs. t = s\<lparr>so_peer_fds := ps, so_client_fds := cs\<rparr> \<and>
     length ps = length (so_peer_fds s) \<and> length cs = length (so_client_fds s) \<and>
     set ps \<union> set cs \<subseteq> entries s \<union> F)"

lemma entries_grow_ok:
  assumes "entries_grow s t F" and "sock_ok s" and "so_listen_fd s \<notin> F"
  shows "sock_ok t" and "in_range s \<Longrightarrow> \<forall>f \<in> F - {-1}. fd_ok f \<Longrightarrow> in_range t"
proof -
  obtain ps cs where t: "t = s\<lparr>so_peer_fds := ps, so_client_fds := cs\<rparr>"
    "length ps = length (so_peer_fds s)" "length cs = length (so_client_fds s)"
    "set ps \<union> set cs \<subseteq> entries s \<union> F"
    using assms(1) unfolding entries_grow_def by blast
  have e: "entries t \<subseteq> entries s \<union> F" using t(4) by (simp add: t(1) entries_def)
  then have "so_listen_fd s \<notin> entries t" using assms(2,3) by (auto simp: sock_ok_def tables_ok_def)
  then show "sock_ok t" using assms(2) t(2,3) by (simp add: sock_ok_def tables_ok_def t(1))
  show "in_range t" if "in_range s" "\<forall>f \<in> F - {-1}. fd_ok f"
    using that e unfolding in_range_def by (auto simp: t(1))
qed

lemma entries_grow_frame:
  assumes "entries_grow s t F"
  shows "so_num_nodes t = so_num_nodes s" and "so_listen_fd t = so_listen_fd s"
    and "so_peer_addrs t = so_peer_addrs s" and "so_pton t = so_pton s" and "sy_trace t = sy_trace s"
  using assms by (auto simp: entries_grow_def)

lemma entries_grow_update:
  "entries_grow s (s\<lparr>so_peer_fds := (so_peer_fds s)[i := f]\<rparr>) {f}"
  "entries_grow s (s\<lparr>so_client_fds := (so_client_fds s)[i := f]\<rparr>) {f}"
  "entries_grow s (s\<lparr>so_peer_fds := map (\<lambda>x. if x = fd then -1 else x) (so_peer_fds s),
     so_client_fds := map (\<lambda>x. if x = fd then -1 else x) (so_client_fds s)\<rparr>) {-1}"
proof -
  note sub = set_update_subset_insert [of "so_peer_fds s" i f] set_update_subset_insert [of "so_client_fds s" i f]
  show "entries_grow s (s\<lparr>so_peer_fds := (so_peer_fds s)[i := f]\<rparr>) {f}"
    unfolding entries_grow_def
    by (intro exI [of _ "(so_peer_fds s)[i := f]"] exI [of _ "so_client_fds s"])
      (use sub in \<open>auto simp: entries_def\<close>)
  show "entries_grow s (s\<lparr>so_client_fds := (so_client_fds s)[i := f]\<rparr>) {f}"
    unfolding entries_grow_def
    by (intro exI [of _ "so_peer_fds s"] exI [of _ "(so_client_fds s)[i := f]"])
      (use sub in \<open>auto simp: entries_def\<close>)
  show "entries_grow s (s\<lparr>so_peer_fds := map (\<lambda>x. if x = fd then -1 else x) (so_peer_fds s),
     so_client_fds := map (\<lambda>x. if x = fd then -1 else x) (so_client_fds s)\<rparr>) {-1}"
    unfolding entries_grow_def
    by (intro exI [of _ "map (\<lambda>x. if x = fd then -1 else x) (so_peer_fds s)"]
        exI [of _ "map (\<lambda>x. if x = fd then -1 else x) (so_client_fds s)"])
      (auto simp: entries_def)
qed

end
