(* ===== verification/Socket_Laws.thy ===== *)
theory Socket_Laws
  imports Socket_Inv
begin

text \<open>
  What \<open>socket_send\<close> and \<open>socket_receive\<close> do, as a whole: they keep the invariant, send or deliver
  exactly the packets they report, and never leave what C defines. The two are an instance of
  the interface \<open>transport\<close>.
\<close>

section \<open>Packets that cross\<close>

definition crossed :: "u8 list list \<Rightarrow> u8 list list \<Rightarrow> sock_t \<Rightarrow> sock_t \<Rightarrow> bool" where
  "crossed ins outs s t \<longleftrightarrow> (sock_ok s \<longrightarrow> sock_ok t \<and> (in_range s \<longrightarrow> in_range t) \<and>
     packets_in (sy_trace t) = packets_in (sy_trace s) @ ins \<and>
     packets_out (sy_trace t) = packets_out (sy_trace s) @ outs \<and> so_num_nodes t = so_num_nodes s \<and>
     so_listen_fd t = so_listen_fd s \<and> so_peer_addrs t = so_peer_addrs s \<and> so_pton t = so_pton s)"

lemma kept_crossed: "kept s t \<Longrightarrow> crossed [] [] s t"
  by (simp add: crossed_def kept_def)

lemma crossed_trans: "crossed is os s t \<Longrightarrow> crossed is' os' t u \<Longrightarrow> crossed (is @ is') (os @ os') s u"
  by (auto simp: crossed_def)

lemma crossed_kept: "crossed is os s t \<Longrightarrow> kept t u \<Longrightarrow> crossed is os s u"
  using crossed_trans [of "is" os s t "[]" "[]" u] kept_crossed by simp

lemma kept_then: "kept s t \<Longrightarrow> crossed is os t u \<Longrightarrow> crossed is os s u"
  using crossed_trans [of "[]" "[]" s t "is" os u] kept_crossed by simp

lemma moved_crossed_whole:
  assumes "moved fd ins outs s t" and "sizeof_pkt dvd length ins" and "sizeof_pkt dvd length outs"
  shows "crossed (chunk ins) (chunk outs) s t"
  using moved_whole [OF assms(1) _ assms(2,3)] assms(1)
  by (auto simp: crossed_def moved_def sock_ok_def)

lemma moved_crossed_shut:
  assumes "moved fd ins outs s t" and "length ins < sizeof_pkt" and "length outs < sizeof_pkt"
    and "sock_ok s \<Longrightarrow> fd \<noteq> so_listen_fd s"
  shows "crossed [] [] s (shut fd t)"
  using shut_ok [OF assms(1)] assms
  by (auto simp: crossed_def moved_def sock_ok_def chunk_short)

lemma entries_crossed:
  assumes "entries_grow s t F" and "sock_ok s \<Longrightarrow> so_listen_fd s \<notin> F"
    and "sock_ok s \<Longrightarrow> in_range s \<Longrightarrow> \<forall>f \<in> F - {-1}. fd_ok f"
  shows "crossed [] [] s t"
  using entries_grow_ok [OF assms(1)] entries_grow_frame [OF assms(1)] assms(2,3)
  by (auto simp: crossed_def)

lemma clear_crossed: "entries_grow s t {-1} \<Longrightarrow> crossed [] [] s t"
  by (rule entries_crossed) (auto simp: sock_ok_def tables_ok_def)

lemma close_frame [simp]:
  "so_num_nodes (close_call fd s) = so_num_nodes s" "so_listen_fd (close_call fd s) = so_listen_fd s"
  "so_peer_addrs (close_call fd s) = so_peer_addrs s" "so_pton (close_call fd s) = so_pton s"
  "so_peer_fds (close_call fd s) = so_peer_fds s" "so_client_fds (close_call fd s) = so_client_fds s"
  by (simp_all add: close_call_def note_event_def)

section \<open>Sending\<close>

lemma connect_crossed:
  assumes "connect_to_peer node_id s = Done (fd, t)"
  shows "crossed [] [] s t" and "sock_ok s \<Longrightarrow> in_range s \<Longrightarrow> fd \<noteq> -1 \<Longrightarrow> fd_ok fd"
    and "sock_ok s \<Longrightarrow> fd \<noteq> -1 \<Longrightarrow> fd \<noteq> so_listen_fd s"
proof -
  have "crossed [] [] s t \<and> (sock_ok s \<longrightarrow> in_range s \<longrightarrow> fd \<noteq> -1 \<longrightarrow> fd_ok fd) \<and>
    (sock_ok s \<longrightarrow> fd \<noteq> -1 \<longrightarrow> fd \<noteq> so_listen_fd s)"
  proof (cases "fd = -1 \<and> kept s t")
    case True
    then show ?thesis using kept_crossed by blast
  next
    case False
    then obtain addr f u where u: "open_call s = Done (f, u)"
      and rest: "(if f < 0 then Done (-1, u) else on_done (status_call u) (\<lambda>(r, err, s).
            if r < 0 \<and> err \<noteq> EINPROGRESS then Done (-1, close_call f s)
            else Done (f, add_active_fd f (s\<lparr>so_peer_fds := (so_peer_fds s)[unat node_id := f]\<rparr>)))) =
        Done (fd, t)"
      using assms by (auto simp: connect_to_peer_def on_done_eq_Done split: if_splits)
    note o = open_kept [OF u]
    have f0: "0 \<le> f" using rest False o(1) by (auto split: if_splits)
    then obtain r e v where v: "status_call u = Done (r, e, v)"
      and rest: "(if r < 0 \<and> e \<noteq> EINPROGRESS then Done (-1, close_call f v)
            else Done (f, add_active_fd f (v\<lparr>so_peer_fds := (so_peer_fds v)[unat node_id := f]\<rparr>))) =
        Done (fd, t)"
      using rest by (auto simp: on_done_eq_Done)
    note kv = kept_trans [OF o(1) status_kept [OF v]]
    have same: "so_listen_fd v = so_listen_fd u" "so_active v = so_active u" "sy_trace v = sy_trace u"
      using v by (auto simp: status_call_def on_done_eq_Done next_answer_def split: list.splits)
    have new: "is_new f v" if "sock_ok s" using o(2) [OF f0 that] by (simp add: is_new_def same)
    have listen: "so_listen_fd v = so_listen_fd s" using kv by (simp add: kept_def)
    show ?thesis
    proof (cases "r < 0 \<and> e \<noteq> EINPROGRESS")
      case True
      then have t: "t = close_call f v" "fd = -1" using rest by auto
      have "crossed [] [] s t"
        using close_ok new keptD [OF kv] in_range_updates(2) kv
        by (auto simp: crossed_def t is_new_def kept_def)
      then show ?thesis using t(2) by simp
    next
      case False
      let ?w = "v\<lparr>so_peer_fds := (so_peer_fds v)[unat node_id := f]\<rparr>"
      have t: "t = add_active_fd f ?w" "fd = f" using rest False by auto
      note grow = entries_grow_update(1) [of v "unat node_id" f]
      have "crossed [] [] s ?w"
        using kept_then [OF kv] entries_grow_ok [OF grow] entries_grow_frame [OF grow] new keptD [OF kv] kv
          o(3) [OF f0]
        by (auto simp: crossed_def is_new_def kept_def)
      then have "crossed [] [] s t"
        using add_active_ok [of ?w f] in_range_updates(1) [of ?w f] new o(3) [OF f0]
        by (auto simp: crossed_def t is_new_def add_active_fd_def)
      then show ?thesis using t(2) new o(3) [OF f0] listen by (auto simp: is_new_def)
    qed
  qed
  then show "crossed [] [] s t" and "sock_ok s \<Longrightarrow> in_range s \<Longrightarrow> fd \<noteq> -1 \<Longrightarrow> fd_ok fd"
    and "sock_ok s \<Longrightarrow> fd \<noteq> -1 \<Longrightarrow> fd \<noteq> so_listen_fd s" by blast+
qed

lemma entry_usable:
  assumes "sock_ok s" and "fd \<in> entries s" and "fd \<noteq> -1"
  shows "fd \<noteq> so_listen_fd s" and "in_range s \<Longrightarrow> fd_ok fd"
  using assms by (auto simp: sock_ok_def tables_ok_def in_range_def)

lemma entry_nth:
  assumes "sock_ok s"
  shows "dst < so_num_nodes s \<Longrightarrow> so_peer_fds s ! unat dst \<in> entries s"
    and "so_client_fds s ! (k mod MAX_CONNECTIONS) \<in> entries s"
  using assms
  by (auto simp: sock_ok_def tables_ok_def entries_def word_less_nat_alt MAX_CONNECTIONS_def)

lemma fd_of_dst_crossed:
  assumes "fd_of_dst dst s = Done (fd, t)"
  shows "crossed [] [] s t" and "sock_ok s \<Longrightarrow> in_range s \<Longrightarrow> fd \<noteq> -1 \<Longrightarrow> fd_ok fd"
    and "sock_ok s \<Longrightarrow> fd \<noteq> -1 \<Longrightarrow> fd \<noteq> so_listen_fd s"
  using assms entry_nth(1) [where dst = dst] entry_nth(2) [where k = "unat dst"] entry_usable [of s fd] connect_crossed [of dst s fd t]
    kept_crossed [OF kept_refl, of s]
  by (auto simp: fd_of_dst_def Let_def split: if_splits)

lemma forget_dst_shut:
  "forget_dst dst fd s = (if dst < so_num_nodes s
     then (shut fd s)\<lparr>so_peer_fds := (so_peer_fds (shut fd s))[unat dst := -1]\<rparr>
     else (shut fd s)\<lparr>so_client_fds := (so_client_fds (shut fd s))[unat dst mod MAX_CONNECTIONS := -1]\<rparr>)"
  by (simp add: forget_dst_def shut_def Let_def remove_active_fd_def)

lemma forget_dst_crossed:
  assumes "crossed [] [] s (shut fd t)"
  shows "crossed [] [] s (forget_dst dst fd t)"
proof -
  have "crossed [] [] (shut fd t) (forget_dst dst fd t)"
    unfolding forget_dst_shut
    by (cases "dst < so_num_nodes t")
      (simp_all del: shut_frame(7,8) add: clear_crossed entries_grow_update)
  then show ?thesis using crossed_trans [OF assms, of "[]" "[]"] by simp
qed

lemma socket_send_crossed:
  assumes "socket_send pkt s = Done (r, t)" and len: "length pkt = sizeof_pkt"
  shows "(r = 0 \<or> r = -1) \<and> crossed [] (if r = 0 then [pkt] else []) s t"
proof -
  define dst where "dst = h_dst (pkt_header (mem_pkt pkt))"
  obtain fd u where u: "fd_of_dst dst s = Done (fd, u)"
    using assms(1) by (auto simp: socket_send_def Let_def on_done_eq_Done dst_def)
  note fu = fd_of_dst_crossed [OF u]
  show ?thesis
  proof (cases "fd = -1")
    case True
    then show ?thesis using assms(1) u fu(1) by (auto simp: socket_send_def Let_def dst_def)
  next
    case fd: False
    obtain st v ready w where v: "usec_call u = Done (st, v)" and w: "wait_writable st fd v = Done (ready, w)"
      using assms(1) u fd by (auto simp: socket_send_def Let_def on_done_eq_Done simp flip: dst_def)
    have cw: "crossed [] [] s w"
      using crossed_kept [OF fu(1) kept_trans [OF usec_kept [OF v] wait_writable_kept [OF w]]] .
    have listen: "fd \<noteq> so_listen_fd w" if "sock_ok s" using fu(3) [OF that fd] cw that by (simp add: crossed_def)
    show ?thesis
    proof (cases ready)
      case False
      then show ?thesis using assms(1) u fd v w cw by (auto simp: socket_send_def Let_def simp flip: dst_def)
    next
      case True
      then obtain q e x where x: "status_call w = Done (q, e, x)"
        using assms(1) u fd v w by (auto simp: socket_send_def Let_def on_done_eq_Done simp flip: dst_def)
      note cx = crossed_kept [OF cw status_kept [OF x]]
      have listen: "fd \<noteq> so_listen_fd x" if "sock_ok s"
        using fu(3) [OF that fd] cx that by (simp add: crossed_def)
      have shut: "crossed [] [] s (forget_dst dst fd y)"
        if m: "moved fd [] outs x y" and short: "length outs < sizeof_pkt" for outs y
      proof (cases "sock_ok s")
        case True
        then have "sock_ok x" using cx by (simp add: crossed_def)
        then have "crossed [] [] x (shut fd y)"
          using listen [OF True] by (intro moved_crossed_shut [OF m]) (use short in \<open>simp_all add: sizeof_pkt_def\<close>)
        then show ?thesis using crossed_trans [OF cx] by (intro forget_dst_crossed) fastforce
      qed (simp add: crossed_def)
      show ?thesis
      proof (cases "q = 0")
        case False
        then show ?thesis
          using assms(1) u fd v w True x shut [OF moved_refl]
          by (auto simp: socket_send_def Let_def sizeof_pkt_def simp flip: dst_def)
      next
        case q: True
        then obtain b y where y: "send_all fd pkt 0 x = Done (b, y)"
          using assms(1) u fd v w True x
          by (auto simp: socket_send_def Let_def on_done_eq_Done simp flip: dst_def)
        obtain k where k: "moved fd [] (take k pkt) x y" "if b then k = sizeof_pkt else k < sizeof_pkt"
          using send_all_moved [OF y, of x] moved_refl len by auto
        show ?thesis
        proof (cases b)
          case sent: True
          have "crossed [] [pkt] x y"
            using moved_crossed_whole [OF k(1)] k(2) sent len by (simp add: chunk_one)
          then have "crossed [] [pkt] s y" using crossed_trans [OF cx] by fastforce
          then show ?thesis
            using assms(1) u fd v w True x q y sent
            by (auto simp: socket_send_def Let_def simp flip: dst_def)
        next
          case False
          then show ?thesis
            using assms(1) u fd v w True x q y shut [OF k(1)] k(2) len
            by (auto simp: socket_send_def Let_def simp flip: dst_def)
        qed
      qed
    qed
  qed
qed

section \<open>Receiving\<close>

lemma drop_fd_shut:
  "drop_fd fd s = (shut fd s)\<lparr>so_peer_fds := map (\<lambda>f. if f = fd then -1 else f) (so_peer_fds (shut fd s)),
     so_client_fds := map (\<lambda>f. if f = fd then -1 else f) (so_client_fds (shut fd s))\<rparr>"
  by (simp add: drop_fd_def shut_def Let_def)

lemma drop_fd_crossed: "crossed [] [] s (shut fd t) \<Longrightarrow> crossed [] [] s (drop_fd fd t)"
  using crossed_trans [OF _ clear_crossed, of "[]" "[]" s "shut fd t"]
  unfolding drop_fd_shut by (simp del: shut_frame(7,8) add: entries_grow_update)

lemma register_crossed:
  assumes "sock_ok s" and fd: "fd \<noteq> so_listen_fd s" "in_range s \<Longrightarrow> fd_ok fd"
  shows "crossed [] [] s (register_source src fd s)"
proof -
  have replace: "crossed [] [] s (replace_fd old fd s)" if old: "old \<in> entries s" for old
  proof (cases "old \<noteq> -1 \<and> old \<noteq> fd")
    case True
    then have "crossed [] [] s (shut old s)"
      using entry_usable(1) [OF assms(1) old]
      by (intro moved_crossed_shut [OF moved_refl]) (simp_all add: sizeof_pkt_def)
    then show ?thesis using True by (simp add: replace_fd_def shut_def)
  qed (auto simp: replace_fd_def intro: kept_crossed)
  have grow: "crossed [] [] s u" if "crossed [] [] s t" "entries_grow t u {fd}" for t u
    using that(1) assms entries_grow_ok [OF that(2)] entries_grow_frame [OF that(2)]
    by (auto simp: crossed_def)
  show ?thesis
    using grow [OF replace [OF entry_nth(1) [OF assms(1)]] entries_grow_update(1)]
      grow [OF replace [OF entry_nth(2) [OF assms(1)]] entries_grow_update(2)]
    by (auto simp: register_source_def Let_def)
qed

lemma moved_frame:
  "moved fd ins outs s t \<Longrightarrow> so_active t = so_active s" "moved fd ins outs s t \<Longrightarrow> so_listen_fd t = so_listen_fd s"
  by (simp_all add: moved_def)

lemma scan_active_crossed:
  assumes "scan_active dl ready i s = Done res"
  shows "case res of Inl t \<Rightarrow> crossed [] [] s t
    | Inr (pkt, t) \<Rightarrow> crossed [pkt] [] s t \<and> length pkt = sizeof_pkt"
  using assms
proof (induction dl ready i s rule: scan_active.induct)
  case (1 dl ready i s)
  note run = "1.prems" [unfolded scan_active.simps [of dl ready i s] Let_def]
  show ?case
  proof (cases "length (so_active s) \<le> i")
    case True
    then have "res = Inl s" using run by simp
    then show ?thesis by (simp add: kept_crossed)
  next
    case False
    let ?fd = "so_active s ! i"
    show ?thesis
    proof (cases "?fd \<in> set ready")
      case no: False
      then show ?thesis using run False "1.IH"(1) [OF False refl] by simp
    next
      case True
      then obtain r u where u: "read_pkt dl ?fd [] s = Done (r, u)"
        using run False by (auto simp: on_done_eq_Done)
      obtain bs where m: "moved ?fd bs [] s u"
        and r: "\<forall>pkt. r = Full pkt \<longrightarrow> bs = pkt \<and> length pkt = sizeof_pkt" "r = Short \<longrightarrow> bs = []"
          "r = Broken \<longrightarrow> length bs < sizeof_pkt"
        using read_pkt_moved [OF u moved_refl] by auto
      have mem: "?fd \<in> set (so_active s)" using False by simp
      have active: "?fd \<noteq> so_listen_fd s" if "sock_ok s"
        using that mem by (auto simp: sock_ok_def tables_ok_def)
      note ih = "1.IH"(2,3) [OF False refl _ u refl]
      show ?thesis
      proof (cases r)
        case (Full pkt)
        then have len: "bs = pkt" "length pkt = sizeof_pkt" using r(1) by auto
        have whole: "crossed [pkt] [] s u"
          using moved_crossed_whole [OF m] len by (simp add: chunk_one)
        let ?t = "register_source (h_src (pkt_header (mem_pkt pkt))) ?fd u"
        have "crossed [pkt] [] s ?t"
        proof (cases "sock_ok s")
          case ok: True
          then have "sock_ok u" "so_listen_fd u = so_listen_fd s" using whole by (simp_all add: crossed_def)
          moreover have "in_range u \<Longrightarrow> fd_ok ?fd"
            using mem moved_frame(1) [OF m] by (auto simp: in_range_def)
          ultimately have "crossed [] [] u ?t" using active [OF ok] by (intro register_crossed) simp_all
          then show ?thesis using crossed_trans [OF whole] by fastforce
        qed (simp add: crossed_def)
        moreover have "res = Inr (pkt, ?t)" using run False True u Full by simp
        ultimately show ?thesis using len(2) by simp
      next
        case Short
        then have "crossed [] [] s u" using moved_crossed_whole [OF m] r(2) by simp
        moreover have "scan_active dl ready (Suc i) u = Done res" using run False True u Short by simp
        ultimately show ?thesis
          using ih(1) True Short crossed_trans [of "[]" "[]" s u]
          by (fastforce split: sum.splits)
      next
        case Broken
        then have "crossed [] [] s (shut ?fd u)"
          using r(3) active by (intro moved_crossed_shut [OF m]) (simp_all add: sizeof_pkt_def)
        then have "crossed [] [] s (drop_fd ?fd u)" by (rule drop_fd_crossed)
        moreover have "scan_active dl ready i (drop_fd ?fd u) = Done res" using run False True u Broken by simp
        ultimately show ?thesis
          using ih(2) True Broken crossed_trans [of "[]" "[]" s "drop_fd ?fd u"]
          by (fastforce split: sum.splits)
      qed
    qed
  qed
qed

lemma receive_loop_crossed:
  assumes "receive_loop dl s = Done (r, pkt, t)"
  shows "(r = 0 \<or> r = 1 \<or> r = -1) \<and> crossed (if r = 1 then [pkt] else []) [] s t \<and>
    (r = 1 \<longrightarrow> length pkt = sizeof_pkt)"
  using assms
proof (induction dl s rule: receive_loop.induct)
  case (1 dl s)
  note run = "1.prems" [unfolded receive_loop.simps [of dl s]]
  obtain now u where u: "usec_call s = Done (now, u)" using run by (auto simp: on_done_eq_Done)
  then obtain ret err ready ws v where v: "select_call (so_listen_fd u # so_active u) [] (time_left now dl) u =
      Done (ret, err, ready, ws, v)"
    using run by (auto simp: on_done_eq_Done)
  note kv = kept_trans [OF usec_kept [OF u] select_kept(1) [OF v]]
  note ih = "1.IH" [OF u refl v refl refl refl refl]
  have later: ?case if "kept s w" "(r = 0 \<or> r = 1 \<or> r = -1) \<and> crossed (if r = 1 then [pkt] else []) [] w t \<and>
    (r = 1 \<longrightarrow> length pkt = sizeof_pkt)" for w
    using that kept_then by blast
  show ?case
  proof (cases "ret \<le> 0")
    case True
    then show ?thesis
      using run u v ih(1) later [OF kv] kept_crossed [OF kv] by (auto split: if_splits)
  next
    case pos: False
    show ?thesis
    proof (cases "so_listen_fd v \<in> set ready")
      case True
      then obtain w where w: "accept_all v = Done w" and rest: "receive_loop dl w = Done (r, pkt, t)"
        using run u v pos by (auto simp: on_done_eq_Done)
      show ?thesis
        using later [OF kept_trans [OF kv accept_all_kept [OF w]]] ih(2) pos True w rest by auto
    next
      case False
      then obtain res where res: "scan_active dl ready 0 v = Done res"
        and rest: "(case res of Inl s \<Rightarrow> receive_loop dl s | Inr (pkt, s) \<Rightarrow> Done (1, pkt, s)) = Done (r, pkt, t)"
        using run u v pos by (auto simp: on_done_eq_Done)
      note sc = scan_active_crossed [OF res]
      show ?thesis
      proof (cases res)
        case (Inl w)
        then have "crossed [] [] s w" using sc kept_then [OF kv] by simp
        then show ?thesis
          using ih(3) pos False res Inl rest crossed_trans [of "[]" "[]" s w] by fastforce
      next
        case (Inr x)
        then show ?thesis using rest sc kept_then [OF kv] by (auto split: prod.splits)
      qed
    qed
  qed
qed

lemma socket_receive_crossed:
  assumes "socket_receive timeout s = Done (r, pkt, t)"
  shows "(r = 0 \<or> r = 1 \<or> r = -1) \<and> crossed (if r = 1 then [pkt] else []) [] s t \<and>
    (r = 1 \<longrightarrow> length pkt = sizeof_pkt)"
proof -
  obtain st u where "usec_call s = Done (st, u)" "receive_loop (st + ucast timeout * 1000) u = Done (r, pkt, t)"
    using assms by (auto simp: socket_receive_def on_done_eq_Done)
  then show ?thesis using receive_loop_crossed kept_then [OF usec_kept] by blast
qed

section \<open>An instance of the interface\<close>

definition sock_written :: "sock_t \<Rightarrow> u8 list list" where
  "sock_written s = packets_out (sy_trace s)"

definition sock_delivered :: "sock_t \<Rightarrow> u8 list list" where
  "sock_delivered s = packets_in (sy_trace s)"

interpretation sock: transport socket_send socket_receive sock_ok sock_written sock_delivered
proof unfold_locales
  show "(r = 0 \<or> r = -1) \<and> (r = 0 \<longrightarrow> sock_ok t) \<and> sock_delivered t = sock_delivered s \<and>
      sock_written t = sock_written s @ (if r = 0 then [pkt] else [])"
    if "sock_ok s" "length pkt = sizeof_pkt" "socket_send pkt s = Done (r, t)" for s t pkt r
    using socket_send_crossed [OF that(3,2)] that(1)
    by (simp add: crossed_def sock_written_def sock_delivered_def)
  show "(r = 0 \<or> r = 1 \<or> r = -1) \<and> (r \<noteq> -1 \<longrightarrow> sock_ok t) \<and> sock_written t = sock_written s \<and>
      sock_delivered t = sock_delivered s @ (if r = 1 then [pkt] else []) \<and> (r = 1 \<longrightarrow> length pkt = sizeof_pkt)"
    if "sock_ok s" "socket_receive timeout s = Done (r, pkt, t)" for s t pkt r timeout
    using socket_receive_crossed [OF that(2)] that(1)
    by (simp add: crossed_def sock_written_def sock_delivered_def)
qed

interpretation sockl: lasting_transport socket_send socket_receive sock_ok sock_written sock_delivered
proof unfold_locales
  show "sock_ok t" if "sock_ok s" "length pkt = sizeof_pkt" "socket_send pkt s = Done (r, t)" for s t pkt r
    using socket_send_crossed [OF that(3,2)] that(1) by (simp add: crossed_def)
  show "sock_ok t" if "sock_ok s" "socket_receive timeout s = Done (r, pkt, t)" for s t pkt r timeout
    using socket_receive_crossed [OF that(2)] that(1) by (simp add: crossed_def)
qed

end
