(* ===== verification/Streams.thy ===== *)
theory Streams
  imports Sys_Calls "HOL-Library.Multiset" "HOL-Library.Sublist"
begin

text \<open>
  The streams of bytes of the connections of a program, those that are closed included, and what
  TCP promises of them: what was read from a connection is a prefix of what was written to its far
  end (\<open>carried\<close>). The packets a program completed are the packets of its streams, so under
  \<open>carried\<close> no packet is forged and none is duplicated.
\<close>

section \<open>The streams of a trace\<close>

text \<open>The bytes go to the newest connection that has the descriptor.\<close>

primrec extend_stream :: "int \<Rightarrow> u8 list \<Rightarrow> (int \<times> u8 list) list \<Rightarrow> (int \<times> u8 list) list" where
  "extend_stream fd bs [] = [(fd, bs)]"
| "extend_stream fd bs (c # cs) =
     (if fst c = fd then (fd, snd c @ bs) # cs else c # extend_stream fd bs cs)"

primrec streams_in :: "event list \<Rightarrow> (int \<times> u8 list) list" where
  "streams_in [] = []"
| "streams_in (e # tr) =
     (case e of Opened fd \<Rightarrow> (fd, []) # streams_in tr
      | Got fd bs \<Rightarrow> extend_stream fd bs (streams_in tr) | _ \<Rightarrow> streams_in tr)"

primrec streams_out :: "event list \<Rightarrow> (int \<times> u8 list) list" where
  "streams_out [] = []"
| "streams_out (e # tr) =
     (case e of Opened fd \<Rightarrow> (fd, []) # streams_out tr
      | Sent fd bs \<Rightarrow> extend_stream fd bs (streams_out tr) | _ \<Rightarrow> streams_out tr)"

definition stream_of :: "int \<Rightarrow> (int \<times> u8 list) list \<Rightarrow> u8 list" where
  "stream_of fd cs = (case map_of cs fd of None \<Rightarrow> [] | Some bs \<Rightarrow> bs)"

lemma map_of_extend [simp]:
  "map_of (extend_stream fd bs cs) g =
     (if g = fd then Some (stream_of fd cs @ bs) else map_of cs g)"
  by (induction cs) (auto simp: stream_of_def)

lemma stream_of_simps [simp]:
  "stream_of g [] = []"
  "stream_of g ((fd, bs) # cs) = (if fd = g then bs else stream_of g cs)"
  "stream_of g (extend_stream fd bs cs) = stream_of g cs @ (if fd = g then bs else [])"
  by (simp_all add: stream_of_def)

lemma stream_of_trace:
  "stream_of g (streams_in tr) = bytes_in g tr" "stream_of g (streams_out tr) = bytes_out g tr"
  by (induction tr) (auto split: event.splits)

section \<open>The packets of the streams\<close>

abbreviation chunks :: "(int \<times> u8 list) list \<Rightarrow> u8 list multiset" where
  "chunks cs \<equiv> \<Sum>c \<in># mset cs. mset (chunk (snd c))"

lemma chunk_grows: "chunk (bs @ cs) = chunk bs @ drop (length (chunk bs)) (chunk (bs @ cs))"
  using chunk_prefix [of bs "bs @ cs"] by (metis append_eq_conv_conj append_take_drop_id length_append le_add1)

lemma chunks_extend:
  "chunks (extend_stream fd bs cs) =
     chunks cs + mset (drop (length (chunk (stream_of fd cs))) (chunk (stream_of fd cs @ bs)))"
proof (induction cs)
  case (Cons c cs)
  obtain g cs' where c: "c = (g, cs')" by fastforce
  have "mset (chunk (cs' @ bs)) =
      mset (chunk cs') + mset (drop (length (chunk cs')) (chunk (cs' @ bs)))"
    by (subst chunk_grows) (simp only: mset_append)
  then show ?case using Cons.IH by (simp add: c)
qed simp

lemma packets_of_streams:
  "mset (packets_in tr) = chunks (streams_in tr)" "mset (packets_out tr) = chunks (streams_out tr)"
  by (induction tr) (simp_all add: chunks_extend stream_of_trace split: event.splits)

section \<open>What a network carries\<close>

text \<open>
  \<open>links\<close> pairs each stream the programs \<open>readers\<close> read with the stream its far end wrote; every stream
  of the programs \<open>writers\<close> is the far end of at most one.
\<close>

definition carried :: "(u8 list \<times> u8 list) list \<Rightarrow> event list list \<Rightarrow> event list list \<Rightarrow> bool" where
  "carried links readers writers \<longleftrightarrow>
     mset (map snd links) = mset (map snd (concat (map streams_in readers))) \<and>
     mset (map fst links) \<subseteq># mset (map snd (concat (map streams_out writers))) \<and>
     list_all (\<lambda>(written, got). prefix got written) links"

lemma prefix_chunk: "prefix got written \<Longrightarrow> mset (chunk got) \<subseteq># mset (chunk written)"
  by (metis chunk_grows mset_append mset_subset_eq_add_left prefix_def)

lemma sum_mset_mono_subset:
  fixes f :: "'a \<Rightarrow> 'b multiset"
  assumes "A \<subseteq># B"
  shows "(\<Sum>x \<in># A. f x) \<subseteq># (\<Sum>x \<in># B. f x)"
proof -
  obtain C where "B = A + C" using assms by (metis mset_subset_eq_exists_conv)
  then show ?thesis by simp
qed

lemma links_chunks:
  "list_all (\<lambda>(written, got). prefix got written) links \<Longrightarrow>
     (\<Sum>bs \<in># mset (map snd links). mset (chunk bs)) \<subseteq># (\<Sum>bs \<in># mset (map fst links). mset (chunk bs))"
proof (induction links)
  case (Cons l links)
  then have "mset (chunk (snd l)) \<subseteq># mset (chunk (fst l))" by (auto intro: prefix_chunk)
  with Cons show ?case by (simp add: subset_mset.add_mono)
qed simp

lemma chunks_snd: "chunks cs = (\<Sum>bs \<in># mset (map snd cs). mset (chunk bs))"
  by (induction cs) simp_all

lemma chunks_concat:
  "chunks (concat (map streams_in trs)) = mset (concat (map packets_in trs))"
  "chunks (concat (map streams_out trs)) = mset (concat (map packets_out trs))"
  by (induction trs) (simp_all add: packets_of_streams)

lemma carried_packets:
  assumes "carried links readers writers"
  shows "mset (concat (map packets_in readers)) \<subseteq># mset (concat (map packets_out writers))"
proof -
  note c = assms [unfolded carried_def]
  have "mset (concat (map packets_in readers)) = (\<Sum>bs \<in># mset (map snd links). mset (chunk bs))"
    using c by (simp only: chunks_concat [symmetric] chunks_snd)
  also have "\<dots> \<subseteq># (\<Sum>bs \<in># mset (map fst links). mset (chunk bs))"
    using c by (intro links_chunks) blast
  also have "\<dots> \<subseteq># (\<Sum>bs \<in># mset (map snd (concat (map streams_out writers))). mset (chunk bs))"
    using c by (intro sum_mset_mono_subset) blast
  also have "\<dots> = mset (concat (map packets_out writers))"
    by (simp only: chunks_concat [symmetric] chunks_snd)
  finally show ?thesis .
qed

end
