(* ===== verification/Socket_Props.thy ===== *)
theory Socket_Props
  imports Socket_Laws Streams
begin

text \<open>
  The properties of the socket transport: its tables hold in every state a program reaches; it
  stays within what C defines as long as descriptors fit into the sets of \<open>select\<close>; and what it
  delivers was sent by the far ends of its connections, each packet once.
\<close>

section \<open>Defined behaviour\<close>

lemma calls_defined [simp]:
  "next_answer s \<noteq> Undef w" "usec_call s \<noteq> Undef w" "status_call s \<noteq> Undef w" "open_call s \<noteq> Undef w"
  "read_call fd k s \<noteq> Undef w" "send_call fd bs s \<noteq> Undef w"
  by (auto simp: call_defs on_done_eq_Undef Let_def split: list.splits if_splits)

lemma select_defined:
  "list_all fd_ok rs \<Longrightarrow> list_all fd_ok ws \<Longrightarrow> select_call rs ws d s \<noteq> Undef w"
  by (auto simp: select_call_def on_done_eq_Undef)

lemma accept_all_defined: "accept_all s \<noteq> Undef w"
proof (induction s rule: accept_all.induct)
  case (1 s)
  then show ?case by (subst accept_all.simps) (auto simp: on_done_eq_Undef)
qed

lemma wait_writable_defined:
  assumes "sock_ok s" and "in_range s" and "fd_ok fd"
  shows "wait_writable st fd s \<noteq> Undef w"
  using assms
proof (induction st fd s rule: wait_writable.induct)
  case (1 st fd s)
  show ?case
  proof
    assume run: "wait_writable st fd s = Undef w"
    obtain now t where t: "usec_call s = Done (now, t)"
      and late: "\<not> ucast (so_connect_timeout_ms t) * 1000 \<le> now - st"
      using run by (auto simp: wait_writable.simps [of st fd s] on_done_eq_Undef split: if_splits)
    have ok: "sock_ok t" "in_range t" using keptD(5,6) [OF usec_kept [OF t]] "1.prems" by simp_all
    then have "list_all fd_ok [so_listen_fd t]" by (simp add: in_range_def)
    then obtain ret err rfds wfds u where u: "select_call [so_listen_fd t] [fd] 100000 t =
        Done (ret, err, rfds, wfds, u)"
      using run t late "1.prems"(3) select_defined [of "[so_listen_fd t]" "[fd]" 100000 t]
      by (auto simp: wait_writable.simps [of st fd s] on_done_eq_Undef)
    have ok: "sock_ok u" "in_range u" using keptD(5,6) [OF select_kept(1) [OF u]] ok by simp_all
    have more: "sock_ok v \<and> in_range v" if "accept_all u = Done v" for v
      using keptD(5,6) [OF accept_all_kept [OF that]] ok by simp
    show False
      using run t late u "1.IH" [OF t refl late u refl refl refl refl] ok more "1.prems"(3)
        accept_all_defined
      by (auto simp: wait_writable.simps [of st fd s] on_done_eq_Undef split: if_splits)
  qed
qed

lemma send_all_defined: "fd_ok fd \<Longrightarrow> send_all fd pkt n s \<noteq> Undef w"
proof (induction fd pkt n s rule: send_all.induct)
  case (1 fd pkt n s)
  show ?case
  proof
    assume run: "send_all fd pkt n s = Undef w"
    obtain r err t where n: "\<not> sizeof_pkt \<le> n" and t: "send_call fd (drop n pkt) s = Done (r, err, t)"
      using run by (auto simp: send_all.simps [of fd pkt n s] on_done_eq_Undef split: if_splits)
    note ih = "1.IH" [OF n t refl refl]
    have again: "on_done (select_call [] [fd] 10000 t) (\<lambda>(ret, err, rfds, wfds, s).
        if ret \<le> 0 then Done (False, s) else send_all fd pkt n s) \<noteq> Undef w"
      if "\<not> 0 < r" "r < 0" "err \<noteq> EINTR" "err = EAGAIN"
      using ih(3) [OF that _ refl refl refl refl] "1.prems" select_defined [of "[]" "[fd]" 10000 t w]
      by (auto simp: on_done_eq_Undef split: if_splits)
    show False
      using run n t ih(1,2) again "1.prems"
      by (auto simp: send_all.simps [of fd pkt n s] split: if_splits)
  qed
qed

lemma read_pkt_defined: "read_pkt dl fd buf s \<noteq> Undef w"
proof (induction dl fd buf s rule: read_pkt.induct)
  case (1 dl fd buf s)
  show ?case
  proof
    assume run: "read_pkt dl fd buf s = Undef w"
    obtain n err bs t where l: "\<not> sizeof_pkt \<le> length buf"
      and t: "read_call fd (sizeof_pkt - length buf) s = Done (n, err, bs, t)"
      using run by (auto simp: read_pkt.simps [of dl fd buf s] on_done_eq_Undef split: if_splits)
    show False
      using run l t "1.IH" [OF l t refl refl refl]
      by (auto simp: read_pkt.simps [of dl fd buf s] on_done_eq_Undef split: if_splits)
  qed
qed

lemma scan_active_defined: "scan_active dl ready i s \<noteq> Undef w"
proof (induction dl ready i s rule: scan_active.induct)
  case (1 dl ready i s)
  show ?case
  proof
    assume run: "scan_active dl ready i s = Undef w"
    have l: "\<not> length (so_active s) \<le> i"
      using run by (auto simp: scan_active.simps [of dl ready i s])
    let ?fd = "so_active s ! i"
    show False
    proof (cases "?fd \<in> set ready")
      case False
      then show False using run l "1.IH"(1) [OF l refl] by (simp add: scan_active.simps [of dl ready i s])
    next
      case True
      then obtain r u where u: "read_pkt dl ?fd [] s = Done (r, u)"
        using run l by (auto simp: scan_active.simps [of dl ready i s] Let_def on_done_eq_Undef read_pkt_defined)
      show False
        using run l True u "1.IH"(2,3) [OF l refl _ u refl]
        by (cases r) (simp_all add: scan_active.simps [of dl ready i s] Let_def)
    qed
  qed
qed

lemma receive_loop_defined:
  assumes "sock_ok s" and "in_range s"
  shows "receive_loop dl s \<noteq> Undef w"
  using assms
proof (induction dl s rule: receive_loop.induct)
  case (1 dl s)
  show ?case
  proof
    assume run: "receive_loop dl s = Undef w"
    obtain now t where t: "usec_call s = Done (now, t)"
      using run by (auto simp: receive_loop.simps [of dl s] on_done_eq_Undef)
    have ok: "sock_ok t" "in_range t" using keptD(5,6) [OF usec_kept [OF t]] "1.prems" by simp_all
    then have "list_all fd_ok (so_listen_fd t # so_active t)" by (auto simp: in_range_def list_all_iff)
    then obtain ret err ready ws u where u: "select_call (so_listen_fd t # so_active t) [] (time_left now dl) t =
        Done (ret, err, ready, ws, u)"
      using run t select_defined [of "so_listen_fd t # so_active t" "[]" "time_left now dl" t]
      by (auto simp: receive_loop.simps [of dl s] on_done_eq_Undef)
    have ok: "sock_ok u" "in_range u" using keptD(5,6) [OF select_kept(1) [OF u]] ok by simp_all
    have more: "sock_ok v \<and> in_range v" if "accept_all u = Done v" for v
      using keptD(5,6) [OF accept_all_kept [OF that]] ok by simp
    have scan: "sock_ok v \<and> in_range v" if "scan_active dl ready 0 u = Done (Inl v)" for v
      using scan_active_crossed [OF that] ok by (simp add: crossed_def)
    note ih = "1.IH" [OF t refl u refl refl refl refl]
    have data: "on_done (scan_active dl ready 0 u) (\<lambda>res.
        case res of Inl s \<Rightarrow> receive_loop dl s | Inr (pkt, s) \<Rightarrow> Done (1, pkt, s)) \<noteq> Undef w"
      if "ret \<noteq> 0" "\<not> ret < 0" "so_listen_fd u \<notin> set ready"
      using ih(3) [OF that] scan by (auto simp: on_done_eq_Undef scan_active_defined split: sum.splits)
    have more: "on_done (accept_all u) (receive_loop dl) \<noteq> Undef w"
      if "ret \<noteq> 0" "\<not> ret < 0" "so_listen_fd u \<in> set ready"
      using ih(2) [OF that] more by (auto simp: on_done_eq_Undef accept_all_defined)
    show False
      using run t u ih(1) ok data more
      by (auto simp: receive_loop.simps [of dl s] split: if_splits)
  qed
qed

lemma parse_addr_defined: "length a < 256 \<Longrightarrow> parse_addr pton a \<noteq> Undef w"
  by (auto simp: parse_addr_def Let_def split: option.splits)

lemma fd_of_dst_defined:
  assumes "tables_ok s" and "list_all (\<lambda>a. length a < 256) (so_peer_addrs s)"
  shows "fd_of_dst dst s \<noteq> Undef w"
proof -
  have "length (so_peer_addrs s ! unat dst) < 256" if "dst < so_num_nodes s"
    using assms that by (simp add: list_all_length tables_ok_def word_less_nat_alt)
  then show ?thesis
    using parse_addr_defined
    by (auto simp: fd_of_dst_def connect_to_peer_def Let_def on_done_eq_Undef split: if_splits)
qed

text \<open>
  C24: sending and receiving stay within what C defines: no descriptor outside a set of \<open>select\<close> and
  no unterminated address, as long as the system gives descriptors below \<open>FD_SETSIZE\<close> and the
  addresses have fewer than 256 characters.
\<close>

theorem socket_never_undefined:
  assumes "sock_ok s" and "in_range s" and "list_all (\<lambda>a. length a < 256) (so_peer_addrs s)"
  shows "socket_send pkt s \<noteq> Undef w \<and> socket_receive timeout s \<noteq> Undef w"
proof
  show "socket_receive timeout s \<noteq> Undef w"
    using receive_loop_defined keptD(5,6) [OF usec_kept] assms(1,2)
    by (auto simp: socket_receive_def on_done_eq_Undef)
  let ?dst = "h_dst (pkt_header (mem_pkt pkt))"
  show "socket_send pkt s \<noteq> Undef w"
  proof
    assume run: "socket_send pkt s = Undef w"
    have "tables_ok s" using assms(1) by (simp add: sock_ok_def)
    from fd_of_dst_defined [OF this assms(3)] obtain fd t where t: "fd_of_dst ?dst s = Done (fd, t)" "fd \<noteq> -1"
      using run by (auto simp: socket_send_def Let_def on_done_eq_Undef split: if_splits)
    note f = fd_of_dst_crossed [OF t(1)]
    have fd: "fd_ok fd" and ok: "sock_ok t" "in_range t"
      using f(1,2) t(2) assms(1,2) by (simp_all add: crossed_def)
    have ok': "sock_ok u \<and> in_range u" if "usec_call t = Done (n, u)" for n u
      using keptD(5,6) [OF usec_kept [OF that]] ok by simp
    show False
      using run t ok' wait_writable_defined [OF _ _ fd] send_all_defined [OF fd]
      by (auto simp: socket_send_def Let_def on_done_eq_Undef split: if_splits)
  qed
qed

text \<open>
  The bound on the descriptors is needed: an active one of \<open>FD_SETSIZE\<close> or more, which a program with
  \<open>MAX_CONNECTIONS\<close> connections has, is put outside the set.
\<close>

lemma receive_beyond_set:
  assumes "usec_call s = Done (now, t)" and "fd \<in> set (so_active t)" and "FD_SETSIZE \<le> fd"
  shows "receive_loop deadline s = Undef ''FD_SET''"
  using assms by (subst receive_loop.simps) (auto simp: select_call_def list_all_iff fd_ok_def)

section \<open>The states of a program\<close>

inductive sock_run :: "sock_t \<Rightarrow> sock_t \<Rightarrow> bool" for s where
  sock_start: "sock_run s s"
| sock_sent: "sock_run s t \<Longrightarrow> length pkt = sizeof_pkt \<Longrightarrow> socket_send pkt t = Done (r, u) \<Longrightarrow> sock_run s u"
| sock_got: "sock_run s t \<Longrightarrow> socket_receive timeout t = Done (r, pkt, u) \<Longrightarrow> sock_run s u"

lemma sock_run_ok: "sock_run s t \<Longrightarrow> sock_ok s \<Longrightarrow> sock_ok t"
  by (induction rule: sock_run.induct) (auto intro: sockl.send_keeps sockl.receive_keeps)

lemma init_sock:
  assumes "transport_socket_init id_no peers n timeout pton sys = Done (Inr tr)" and "sy_trace sys = []"
  shows "sock_ok (t_context tr)" and "t_send tr = socket_send" and "t_receive tr = socket_receive"
    and "sock_written (t_context tr) = []" and "sock_delivered (t_context tr) = []"
proof -
  let ?s = "\<lparr>sy_script = sy_script sys, sy_trace = sy_trace sys, so_my_id = id_no, so_num_nodes = n,
    so_peer_addrs = take (unat n) peers, so_listen_fd = 0, so_connect_timeout_ms = timeout,
    so_peer_fds = replicate (unat n) (-1), so_client_fds = replicate MAX_CONNECTIONS (-1),
    so_active = [], so_pton = pton\<rparr>"
  obtain fd u r e v where u: "open_call ?s = Done (fd, u)" "0 \<le> fd"
    and v: "status_call (u\<lparr>so_listen_fd := fd\<rparr>) = Done (r, e, v)"
    and tr: "tr = \<lparr>t_send = socket_send, t_receive = socket_receive, t_context = v\<rparr>"
    and len: "unat n \<le> length peers"
    using assms(1)
    by (auto simp: transport_socket_init_def Let_def on_done_eq_Done not_less split: if_splits)
  have "u = note_event (Opened fd) (?s\<lparr>sy_script := tl (sy_script sys)\<rparr>)"
    using u by (auto simp: open_call_def on_done_eq_Done next_answer_def split: list.splits if_splits)
  then have v: "v = (note_event (Opened fd) ?s)\<lparr>sy_script := tl (tl (sy_script sys)), so_listen_fd := fd\<rparr>"
    using v by (auto simp: status_call_def on_done_eq_Done next_answer_def note_event_def split: list.splits)
  have t: "sy_trace v = [Opened fd]" using assms(2) by (simp add: v)
  have "aligned [Opened fd]" by (simp add: aligned_def)
  moreover have "tables_ok v"
    using u(2) len t by (simp add: v tables_ok_def entries_def note_event_def)
  ultimately show "sock_ok (t_context tr)" by (simp add: sock_ok_def tr t)
  show "t_send tr = socket_send" "t_receive tr = socket_receive" by (simp_all add: tr)
  show "sock_written (t_context tr) = []" "sock_delivered (t_context tr) = []"
    by (simp_all add: tr t sock_written_def sock_delivered_def)
qed

section \<open>Properties\<close>

text \<open>
  C23: in every state a program reaches from \<open>transport_socket_init\<close> by sending and receiving, also
  after errors, at most \<open>MAX_CONNECTIONS\<close> descriptors are active, they are distinct and open, and
  the listening socket is open and is none of them nor of those of peers and clients.
\<close>

theorem socket_tables_hold:
  assumes "transport_socket_init id_no peers n timeout pton sys = Done (Inr tr)" and "sy_trace sys = []"
    and "sock_run (t_context tr) s"
  shows "length (so_active s) \<le> MAX_CONNECTIONS \<and> distinct (so_active s) \<and>
    (\<forall>f \<in> set (so_active s). is_open f (sy_trace s)) \<and> is_open (so_listen_fd s) (sy_trace s) \<and>
    so_listen_fd s \<notin> set (so_active s @ so_peer_fds s @ so_client_fds s)"
  using sock_run_ok [OF assms(3) init_sock(1) [OF assms(1,2)]]
  by (simp add: sock_ok_def tables_ok_def entries_def)

text \<open>
  C20: a packet that \<open>socket_receive\<close> delivers was sent, and only once: as the network carries bytes
  in order and without loss inside a connection, all the packets a program was given, the new one
  included, are among those for which a \<open>socket_send\<close> of the other programs returned 0.
\<close>

theorem socket_link:
  assumes "sock_ok s" and "socket_receive timeout s = Done (1, pkt, t)"
    and "carried links [sy_trace t] (map sy_trace others)"
  shows "mset (sock_delivered s) + {#pkt#} \<subseteq># mset (concat (map sock_written others)) \<and>
    length pkt = sizeof_pkt \<and> sock_ok t"
proof -
  note law = sock.receive_law [OF assms(1,2)]
  have "mset (sock_delivered t) \<subseteq># mset (concat (map sock_written others))"
    using carried_packets [OF assms(3)] by (simp add: sock_delivered_def sock_written_def [abs_def] comp_def)
  then show ?thesis using law by simp
qed

section \<open>A run\<close>

abbreviation answer :: sys_answer where
  "answer \<equiv> \<lparr>sa_ret = 0, sa_errno = EOTHER, sa_fd = -1, sa_data = [], sa_rfds = [], sa_wfds = [], sa_usec = 0\<rparr>"

abbreviation zero_mem :: "u8 list" where
  "zero_mem \<equiv> replicate 1040 0"

text \<open>A node of two, with the listening socket 3 and the given connections.\<close>

definition demo_sock :: "sys_answer list \<Rightarrow> int list \<Rightarrow> sock_t" where
  "demo_sock script fds = \<lparr>sy_script = script, sy_trace = map Opened fds @ [Opened 3], so_my_id = 1,
     so_num_nodes = 2, so_peer_addrs = [''a:1'', ''b:2''], so_listen_fd = 3, so_connect_timeout_ms = 2000,
     so_peer_fds = [-1, -1], so_client_fds = replicate 1024 (-1), so_active = fds, so_pton = (\<lambda>_. Some 0)\<rparr>"

lemma is_open_Opened [simp]: "is_open f (map Opened fds @ tr) \<longleftrightarrow> f \<in> set fds \<or> is_open f tr"
  by (induction fds) auto

lemma bytes_Opened [simp]:
  "f \<in> set fds \<Longrightarrow> bytes_in f (map Opened fds @ tr) = []" "f \<in> set fds \<Longrightarrow> bytes_out f (map Opened fds @ tr) = []"
  "f \<notin> set fds \<Longrightarrow> bytes_in f (map Opened fds @ tr) = bytes_in f tr"
  "f \<notin> set fds \<Longrightarrow> bytes_out f (map Opened fds @ tr) = bytes_out f tr"
  by (induction fds) auto

lemma demo_sock_ok: "distinct fds \<Longrightarrow> length fds \<le> 1024 \<Longrightarrow> 3 \<notin> set fds \<Longrightarrow> sock_ok (demo_sock script fds)"
  by (auto simp: sock_ok_def tables_ok_def demo_sock_def entries_def MAX_CONNECTIONS_def aligned_def)

text \<open>A packet of node 0 arrives on the connection 5.\<close>

definition arrival :: "sys_answer list" where
  "arrival = [answer, answer, answer\<lparr>sa_ret := 1, sa_rfds := [5]\<rparr>, answer\<lparr>sa_data := zero_mem\<rparr>]"

lemma demo_arrival:
  "\<exists>t. socket_receive 1000 (demo_sock arrival [5]) = Done (1, zero_mem, t) \<and>
     sy_trace t = [Got 5 zero_mem, Waited 1000000, Opened 5, Opened 3]"
  by (simp add: socket_receive_def usec_call_def next_answer_def demo_sock_def arrival_def receive_loop.simps
      select_call_def fd_ok_def FD_SETSIZE_def time_left_def note_event_def scan_active.simps read_pkt.simps
      read_call_def sizeof_pkt_def register_source_def replace_fd_def mem_pkt_def host_value_def Let_def)

text \<open>A program starts, with the listening socket 3, and accepts the connection 5.\<close>

definition start_sys :: sys_t where
  "start_sys = \<lparr>sy_script = [answer\<lparr>sa_fd := 3\<rparr>, answer, answer, answer, answer\<lparr>sa_ret := 1, sa_rfds := [3]\<rparr>,
     answer\<lparr>sa_fd := 5\<rparr>, answer, answer, answer], sy_trace = []\<rparr>"

lemmas run_socket = call_defs Let_def note_event_def fd_ok_def FD_SETSIZE_def time_left_def

lemma replicate_2: "replicate 2 x = [x, x]"
  by (simp add: numeral_2_eq_2)

lemma demo_init:
  "transport_socket_init 0 [''a:1'', ''b:2''] 2 2000 (\<lambda>_. Some 0) start_sys =
     Done (Inr \<lparr>t_send = socket_send, t_receive = socket_receive, t_context =
       (demo_sock (drop 2 (sy_script start_sys)) [])\<lparr>so_my_id := 0\<rparr>\<rparr>)"
  by (simp add: transport_socket_init_def parse_addr_def start_sys_def run_socket demo_sock_def MAX_CONNECTIONS_def
      atoi_def take_sign_def digits_value_def is_space_def is_digit_def replicate_2)

lemma demo_accept:
  "\<exists>t. socket_receive 1000 ((demo_sock (drop 2 (sy_script start_sys)) [])\<lparr>so_my_id := 0\<rparr>) = Done (0, [], t) \<and>
     so_active t = [5]"
  by (simp add: socket_receive_def start_sys_def run_socket demo_sock_def receive_loop.simps accept_all.simps
      accept_one_def add_active_fd_def MAX_CONNECTIONS_def)

section \<open>Witnesses\<close>

theorem socket_tables_hold_witness:
  "\<exists>t :: sock_t. so_active t = [5] \<and> is_open 5 (sy_trace t) \<and> so_listen_fd t \<notin> set (so_active t)"
proof -
  let ?s = "(demo_sock (drop 2 (sy_script start_sys)) [])\<lparr>so_my_id := 0\<rparr>"
  obtain t where t: "socket_receive 1000 ?s = Done (0, [], t)" "so_active t = [5]"
    using demo_accept by blast
  have "sock_run ?s t" using sock_got [OF sock_start t(1)] .
  moreover have "sy_trace start_sys = []" by (simp add: start_sys_def)
  ultimately have "is_open 5 (sy_trace t) \<and> so_listen_fd t \<notin> set (so_active t)"
    using socket_tables_hold [OF demo_init, of t] t(2) by simp
  then show ?thesis using t(2) by blast
qed

theorem socket_never_undefined_witness:
  "socket_send zero_mem (demo_sock arrival [5]) \<noteq> Undef ''FD_SET'' \<and>
   socket_receive 1000 (demo_sock arrival [5]) \<noteq> Undef ''FD_SET''"
proof (rule socket_never_undefined)
  show "sock_ok (demo_sock arrival [5])" by (rule demo_sock_ok) simp_all
  show "in_range (demo_sock arrival [5])"
    by (simp add: in_range_def demo_sock_def entries_def fd_ok_def FD_SETSIZE_def arrival_def)
  show "list_all (\<lambda>a. length a < 256) (so_peer_addrs (demo_sock arrival [5]))" by (simp add: demo_sock_def)
qed

theorem socket_link_witness:
  "\<exists>t. socket_receive 1000 (demo_sock arrival [5]) = Done (1, zero_mem, t) \<and> sock_ok t"
proof -
  obtain t where t: "socket_receive 1000 (demo_sock arrival [5]) = Done (1, zero_mem, t)"
    and trace: "sy_trace t = [Got 5 zero_mem, Waited 1000000, Opened 5, Opened 3]"
    using demo_arrival by blast
  let ?sender = "(demo_sock [] [4])\<lparr>sy_trace := [Sent 4 zero_mem, Opened 4, Opened 3]\<rparr>"
  have ok: "sock_ok (demo_sock arrival [5])" by (rule demo_sock_ok) simp_all
  have "carried [(zero_mem, zero_mem), ([], [])] [sy_trace t] (map sy_trace [?sender])"
    by (simp add: trace carried_def)
  then show ?thesis using socket_link [OF ok t] t by blast
qed

end
