(* ===== verification/Socket_Cluster.thy ===== *)
theory Socket_Cluster
  imports Unix_Safety Socket_Props
begin

text \<open>
  A cluster of the programs over the socket transport: each node has a socket transport, and there
  may be any number of client programs. A step is one iteration of the event loop, on what
  \<open>socket_receive\<close> returned; the \<open>socket_send\<close> of one packet the node handed to the transport; the
  end of a process and its start on the files it left, with a new transport; or a step of a client
  program. \<open>tcp\<close> is what the network promises of the bytes of the connections.

  Every run is a run of the cluster of programs of \<open>Unix_Cluster\<close>, whose network is a set of
  packets: no packet is forged or duplicated between the \<open>send\<close> of one program and the \<open>receive\<close>
  of another. A packet whose \<open>socket_send\<close> fails is lost, and so are those an ending process had
  not sent.
\<close>

record wire =
  w_node :: "u32 \<Rightarrow> unix_node"
  w_of :: "u32 \<Rightarrow> nat"
  w_socks :: "sock_t list"

abbreviation w_sock :: "wire \<Rightarrow> u32 \<Rightarrow> sock_t" where
  "w_sock w i \<equiv> w_socks w ! w_of w i"

definition put_sock :: "nat \<Rightarrow> sock_t \<Rightarrow> wire \<Rightarrow> wire" where
  "put_sock k s w = w\<lparr>w_socks := (w_socks w)[k := s]\<rparr>"

definition put_node :: "u32 \<Rightarrow> unix_node \<Rightarrow> wire \<Rightarrow> wire" where
  "put_node i nd w = w\<lparr>w_node := (w_node w)(i := nd)\<rparr>"

text \<open>A transport as \<open>transport_socket_init\<close> makes it in a new process.\<close>

definition new_sock :: "sock_t \<Rightarrow> bool" where
  "new_sock s \<longleftrightarrow> (\<exists>id_no peers n timeout pton sys tr. sy_trace sys = [] \<and>
     transport_socket_init id_no peers n timeout pton sys = Done (Inr tr) \<and> s = t_context tr)"

definition tcp :: "wire \<Rightarrow> bool" where
  "tcp w \<longleftrightarrow> (\<exists>links. carried links (map sy_trace (w_socks w)) (map sy_trace (w_socks w)))"

text \<open>The time to wait is what \<open>raft_run\<close> asks \<open>raft_get_timeout_ms\<close> for.\<close>

inductive wstep :: "u32 \<Rightarrow> wire \<Rightarrow> wire \<Rightarrow> bool" for n where
  iteration: "\<lbrakk> i < n; up (w_node w i); outbox (w_node w i) = [];
    socket_receive (fst (raft_get_timeout_ms (w_node w i))) (w_sock w i) = Done (r, mem, s);
    r = 1 \<longrightarrow> has_room (unix_view (w_node w i)) \<rbrakk> \<Longrightarrow>
    wstep n w (put_node i (raft_run_step (r, mem_pkt mem) (w_node w i)) (put_sock (w_of w i) s w))"
| sending: "\<lbrakk> i < n; outbox (w_node w i) = pkt # pkts; length pad = 3;
    socket_send (pkt_mem pad pkt) (w_sock w i) = Done (r, s) \<rbrakk> \<Longrightarrow>
    wstep n w (put_node i ((w_node w i)\<lparr>outbox := pkts\<rparr>) (put_sock (w_of w i) s w))"
| again: "\<lbrakk> i < n; node_cfg n i cfg; wf_os os; length ns = unat n; length ms = unat n; new_sock s;
    start_node cfg (disk (f_content (log_fd (log_context (node_log (w_node w i))))))
      (disk (f_content (meta_fd (log_context (node_log (w_node w i))))))
      (disk (f_content (pf_fd (pf_context (hard_state (w_node w i)))))) heap ns ms lines os = Some nd \<rbrakk> \<Longrightarrow>
    wstep n w (put_node i nd
      (w\<lparr>w_of := (w_of w)(i := length (w_socks w)), w_socks := w_socks w @ [s]\<rparr>))"
| client_start: "new_sock s \<Longrightarrow> wstep n w (w\<lparr>w_socks := w_socks w @ [s]\<rparr>)"
| client_send: "\<lbrakk> k < length (w_socks w); k \<notin> w_of w ` {..<n}; length mem = sizeof_pkt; client_pkt (mem_pkt mem);
    socket_send mem (w_socks w ! k) = Done (r, s) \<rbrakk> \<Longrightarrow> wstep n w (put_sock k s w)"
| client_receive: "\<lbrakk> k < length (w_socks w); k \<notin> w_of w ` {..<n};
    socket_receive timeout (w_socks w ! k) = Done (r, mem, s) \<rbrakk> \<Longrightarrow> wstep n w (put_sock k s w)"

definition tstep :: "u32 \<Rightarrow> wire \<Rightarrow> wire \<Rightarrow> bool" where
  "tstep n w w' \<longleftrightarrow> wstep n w w' \<and> tcp w'"

definition wstart :: "u32 \<Rightarrow> wire \<Rightarrow> bool" where
  "wstart n w \<longleftrightarrow> (\<forall>s \<in> set (w_socks w). new_sock s) \<and> inj_on (w_of w) {..<n} \<and>
     (\<forall>i. i < n \<longrightarrow> w_of w i < length (w_socks w) \<and> (\<exists>cfg heap ns ms lines os. node_cfg n i cfg \<and>
        wf_os os \<and> length ns = unat n \<and> length ms = unat n \<and>
        start_node cfg (disk []) (disk []) (disk []) heap ns ms lines os = Some (w_node w i)))"

section \<open>Packets under way\<close>

definition all_written :: "wire \<Rightarrow> u8 list multiset" where
  "all_written w = mset (concat (map sock_written (w_socks w)))"

definition all_delivered :: "wire \<Rightarrow> u8 list multiset" where
  "all_delivered w = mset (concat (map sock_delivered (w_socks w)))"

text \<open>Packets handed to the transport and not sent yet.\<close>

definition pending :: "u32 \<Rightarrow> wire \<Rightarrow> pkt_t multiset" where
  "pending n w = (\<Sum>k<unat n. mset (outbox (w_node w (of_nat k))))"

lemma tcp_delivered: "tcp w \<Longrightarrow> all_delivered w \<subseteq># all_written w"
  unfolding tcp_def all_written_def all_delivered_def
  using carried_packets [of _ "map sy_trace (w_socks w)" "map sy_trace (w_socks w)"]
  by (auto simp: comp_def sock_written_def [abs_def] sock_delivered_def [abs_def])

lemma mset_concat_update:
  "k < length xs \<Longrightarrow>
     mset (concat (map f (xs[k := x]))) + mset (f (xs ! k)) = mset (concat (map f xs)) + mset (f x)"
proof (induction xs arbitrary: k)
  case (Cons y ys)
  then show ?case by (cases k) simp_all
qed simp

lemma put_written:
  assumes "k < length (w_socks w)" and "sock_written s = sock_written (w_socks w ! k) @ out"
  shows "all_written (put_sock k s w) = all_written w + mset out"
  using mset_concat_update [OF assms(1), of sock_written s] assms(2)
  by (simp add: all_written_def put_sock_def)

lemma put_delivered:
  assumes "k < length (w_socks w)" and "sock_delivered s = sock_delivered (w_socks w ! k) @ ins"
  shows "all_delivered (put_sock k s w) = all_delivered w + mset ins"
  using mset_concat_update [OF assms(1), of sock_delivered s] assms(2)
  by (simp add: all_delivered_def put_sock_def)

lemma new_sock_fresh:
  assumes "new_sock s"
  shows "sock_ok s" and "sock_written s = []" and "sock_delivered s = []"
  using assms init_sock(1,4,5) unfolding new_sock_def by metis+

lemma put_frames [simp]:
  "all_written (put_node i nd w) = all_written w" "all_delivered (put_node i nd w) = all_delivered w"
  "w_socks (put_node i nd w) = w_socks w" "w_of (put_node i nd w) = w_of w"
  "w_node (put_sock k s w) = w_node w" "w_of (put_sock k s w) = w_of w"
  "pending n (put_sock k s w) = pending n w" "w_socks (put_sock k s w) = (w_socks w)[k := s]"
  "w_node (put_node i nd w) = (w_node w)(i := nd)"
  by (simp_all add: put_node_def put_sock_def all_written_def all_delivered_def pending_def)

lemma put_pending:
  assumes "i < n"
  shows "pending n (put_node i nd w) + mset (outbox (w_node w i)) = pending n w + mset (outbox nd)"
proof -
  let ?A = "{..<unat n} - {unat i}"
  have i: "unat i \<in> {..<unat n}" using assms by (simp add: word_less_nat_alt)
  have "unat (of_nat k :: u32) = k" if "k < unat n" for k
    using that unsigned_less [of n, where 'a = nat] by (simp add: unat_of_nat take_bit_nat_eq_self)
  then have "(of_nat k = i) = (k = unat i)" if "k < unat n" for k
    using that by auto
  then have rest: "(\<Sum>k\<in>?A. mset (outbox (((w_node w)(i := nd)) (of_nat k)))) =
      (\<Sum>k\<in>?A. mset (outbox (w_node w (of_nat k))))"
    by (intro sum.cong) auto
  show ?thesis
    using sum.remove [OF _ i, of "\<lambda>k. mset (outbox (w_node w (of_nat k)))"]
      sum.remove [OF _ i, of "\<lambda>k. mset (outbox (((w_node w)(i := nd)) (of_nat k)))"] rest
    by (simp add: pending_def)
qed

section \<open>The simulation\<close>

definition nodes_sim :: "u32 \<Rightarrow> wire \<Rightarrow> ucluster \<Rightarrow> bool" where
  "nodes_sim n w u \<longleftrightarrow> (\<forall>i. i < n \<longrightarrow> u_node u i = (w_node w i)\<lparr>outbox := []\<rparr> \<and> unix_ok (w_node w i) \<and>
     w_of w i < length (w_socks w)) \<and> (\<forall>s \<in> set (w_socks w). sock_ok s)"

definition net_sim :: "u32 \<Rightarrow> wire \<Rightarrow> ucluster \<Rightarrow> bool" where
  "net_sim n w u \<longleftrightarrow> all_delivered w \<subseteq># all_written w \<and>
     u_net u = image_mset mem_pkt (all_written w - all_delivered w) + pending n w"

definition wsim :: "u32 \<Rightarrow> wire \<Rightarrow> ucluster \<Rightarrow> bool" where
  "wsim n w u \<longleftrightarrow> nodes_sim n w u \<and> net_sim n w u"

lemma outbox_Nil: "outbox nd = [] \<Longrightarrow> nd\<lparr>outbox := []\<rparr> = nd"
  by simp

lemma nodes_sim_after:
  assumes "nodes_sim n w u" and "unix_ok nd" and "sock_ok s" and "v = u_after i nd u \<or>
      u_node v = (u_node u)(i := nd\<lparr>outbox := []\<rparr>)"
  shows "nodes_sim n (put_node i nd (put_sock k s w)) v"
  using assms by (auto simp: nodes_sim_def u_after_def dest!: set_update_subset_insert [THEN subsetD])

lemma lose_many:
  "M \<subseteq># u_net u \<Longrightarrow> (ustep n)\<^sup>*\<^sup>* u (u\<lparr>u_net := u_net u - M\<rparr>)"
proof (induction M)
  case (add x M)
  let ?v = "u\<lparr>u_net := u_net u - M\<rparr>"
  obtain C where "u_net u = add_mset x M + C" using add.prems by (metis mset_subset_eq_exists_conv)
  then have M: "M \<subseteq># u_net u" and x: "x \<in># u_net ?v" by simp_all
  have "(ustep n)\<^sup>*\<^sup>* u ?v" using add.IH [OF M] .
  moreover have "ustep n ?v (?v\<lparr>u_net := u_net ?v - {#x#}\<rparr>)" using x by (rule ustep.lose)
  ultimately show ?case by (simp add: rtranclp.rtrancl_into_rtrancl)
qed simp

text \<open>The accounts of the packets, for a packet that arrives, that is sent, and that is lost.\<close>

lemma net_receive:
  assumes "net_sim n w u" and "all_delivered w + {#mem#} \<subseteq># all_written w"
  shows "mem_pkt mem \<in># u_net u" and "u_net u - {#mem_pkt mem#} =
    image_mset mem_pkt (all_written w - (all_delivered w + {#mem#})) + pending n w"
proof -
  obtain C where C: "all_written w = all_delivered w + {#mem#} + C"
    using assms(2) by (metis mset_subset_eq_exists_conv)
  show "mem_pkt mem \<in># u_net u" "u_net u - {#mem_pkt mem#} =
    image_mset mem_pkt (all_written w - (all_delivered w + {#mem#})) + pending n w"
    using assms(1) by (simp_all add: net_sim_def C)
qed

lemma wsim_iteration:
  assumes sim: "wsim n w u" and i: "i < n" and up: "up (w_node w i)" and out: "outbox (w_node w i) = []"
    and got: "socket_receive timeout (w_sock w i) = Done (r, mem, s)"
    and room: "r = 1 \<longrightarrow> has_room (unix_view (w_node w i))"
    and w': "w' = put_node i (raft_run_step (r, mem_pkt mem) (w_node w i)) (put_sock (w_of w i) s w)"
    and tcp: "tcp w'"
  shows "\<exists>v. ustep n u v \<and> wsim n w' v"
proof -
  let ?nd = "raft_run_step (r, mem_pkt mem) (w_node w i)"
  have node: "u_node u i = w_node w i" "unix_ok (w_node w i)" and k: "w_of w i < length (w_socks w)"
    and sock: "sock_ok (w_sock w i)"
    using sim i out by (simp_all add: wsim_def nodes_sim_def)
  note law = sock.receive_law [OF sock got] and s = sockl.receive_keeps [OF sock got]
  have r: "r \<in> {0, 1, -1}" using law by auto
  have ok: "unix_ok ?nd"
    using r room unix_receive(1) [OF node(2)] unix_timeout(1) [OF node(2)] unix_error(1) [OF node(2), of "-1"]
    by auto
  have totals: "all_written w' = all_written w" "all_delivered w' = all_delivered w + (if r = 1 then {#mem#} else {#})"
    using put_written [OF k, of s "[]"] put_delivered [OF k, of s "if r = 1 then [mem] else []"] law
    by (simp_all add: w')
  have pend: "pending n w' = pending n w + mset (outbox ?nd)"
    using put_pending [OF i, of ?nd "put_sock (w_of w i) s w"] out by (simp add: w')
  note net = tcp_delivered [OF tcp]
  show ?thesis
  proof (cases "r = 1")
    case True
    then have D: "all_delivered w + {#mem#} \<subseteq># all_written w" using net totals by simp
    have "net_sim n w u" using sim by (simp add: wsim_def)
    note take = net_receive [OF this D]
    let ?v = "u_after i (raft_run_step (1, mem_pkt mem) (u_node u i)) (u\<lparr>u_net := u_net u - {#mem_pkt mem#}\<rparr>)"
    have "ustep n u ?v" using i up room True node(1) take(1) by (intro ustep.receive) simp_all
    moreover have "net_sim n w' ?v"
      using take(2) totals pend net True node(1) by (simp add: net_sim_def u_after_def)
    moreover have "nodes_sim n w' ?v"
      using nodes_sim_after [OF _ ok s, of n w u ?v] sim True node(1)
      by (simp add: wsim_def w' u_after_def)
    ultimately show ?thesis by (auto simp: wsim_def)
  next
    case False
    let ?v = "u_after i (raft_run_step (r, mem_pkt mem) (u_node u i)) u"
    have "ustep n u ?v"
      using r False i up node(1) ustep.timeout [of i n u "mem_pkt mem"] ustep.failure [of i n u "mem_pkt mem"]
      by auto
    moreover have "net_sim n w' ?v"
      using sim totals pend net False node(1) by (simp add: wsim_def net_sim_def u_after_def)
    moreover have "nodes_sim n w' ?v"
      using nodes_sim_after [OF _ ok s, of n w u ?v] sim node(1) by (simp add: wsim_def w')
    ultimately show ?thesis by (auto simp: wsim_def)
  qed
qed

lemma wsim_sending:
  assumes sim: "wsim n w u" and i: "i < n" and out: "outbox (w_node w i) = pkt # pkts" and pad: "length pad = 3"
    and sent: "socket_send (pkt_mem pad pkt) (w_sock w i) = Done (r, s)"
    and w': "w' = put_node i ((w_node w i)\<lparr>outbox := pkts\<rparr>) (put_sock (w_of w i) s w)"
  shows "\<exists>v. (ustep n)\<^sup>*\<^sup>* u v \<and> wsim n w' v"
proof -
  have node: "u_node u i = (w_node w i)\<lparr>outbox := []\<rparr>" "unix_ok (w_node w i)" and k: "w_of w i < length (w_socks w)"
    and sock: "sock_ok (w_sock w i)"
    using sim i by (simp_all add: wsim_def nodes_sim_def)
  let ?nd = "(w_node w i)\<lparr>outbox := pkts\<rparr>"
  have ok: "unix_ok ?nd" and wf: "wf_pkt pkt" using node(2) out by (simp_all add: unix_ok_def)
  note mem = mem_pkt_mem [OF wf pad]
  note law = sock.send_law [OF sock mem(2) sent] and s = sockl.send_keeps [OF sock mem(2) sent]
  have totals: "all_delivered w' = all_delivered w"
    "all_written w' = all_written w + (if r = 0 then {#pkt_mem pad pkt#} else {#})"
    using put_written [OF k, of s "if r = 0 then [pkt_mem pad pkt] else []"] put_delivered [OF k, of s "[]"] law
    by (simp_all add: w')
  have pend: "pending n w = add_mset pkt (pending n w')"
    using put_pending [OF i, of ?nd "put_sock (w_of w i) s w"] out by (simp add: w')
  have nodes: "nodes_sim n w' v" if "u_node v = u_node u" for v
    using nodes_sim_after [OF _ ok s, of n w u v] sim node(1) that by (simp add: wsim_def w' fun_upd_idem)
  obtain C where C: "all_written w = all_delivered w + C"
    using sim by (auto simp: wsim_def net_sim_def dest: mset_subset_eq_exists_conv [THEN iffD1])
  show ?thesis
  proof (cases "r = 0")
    case True
    have "net_sim n w' u" using sim totals pend True mem(1) by (simp add: wsim_def net_sim_def C)
    then show ?thesis using nodes [of u] by (auto simp: wsim_def)
  next
    case False
    let ?v = "u\<lparr>u_net := u_net u - {#pkt#}\<rparr>"
    have "ustep n u ?v" using sim pend by (intro ustep.lose) (simp add: wsim_def net_sim_def)
    moreover have "net_sim n w' ?v" using sim totals pend False by (simp add: wsim_def net_sim_def C)
    ultimately show ?thesis using nodes [of ?v] by (auto simp: wsim_def)
  qed
qed

lemma boot_out: "unix_view nd = a_boot i n es t v ns ms \<Longrightarrow> outbox nd = []"
  using unix_view_out [of nd] by (simp add: a_boot_def)

lemma wsim_again:
  assumes sim: "wsim n w u" and i: "i < n" and cfg: "node_cfg n i cfg" and os: "wf_os os"
    and len: "length ns = unat n" "length ms = unat n" and s: "new_sock s"
    and start: "start_node cfg (disk (f_content (log_fd (log_context (node_log (w_node w i))))))
      (disk (f_content (meta_fd (log_context (node_log (w_node w i))))))
      (disk (f_content (pf_fd (pf_context (hard_state (w_node w i)))))) heap ns ms lines os = Some nd"
    and w': "w' = put_node i nd
      (w\<lparr>w_of := (w_of w)(i := length (w_socks w)), w_socks := w_socks w @ [s]\<rparr>)"
  shows "\<exists>v. (ustep n)\<^sup>*\<^sup>* u v \<and> wsim n w' v"
proof -
  have node: "u_node u i = (w_node w i)\<lparr>outbox := []\<rparr>" "unix_ok (w_node w i)"
    using sim i by (simp_all add: wsim_def nodes_sim_def)
  have "cfg_accrual_window_size cfg \<noteq> 0" using cfg by (simp add: node_cfg_def)
  from start_node_again [OF node(2) os this, of heap ns ms lines] start
  have ok: "unix_ok nd" and out: "outbox nd = []" using boot_out by auto
  let ?u = "u\<lparr>u_net := u_net u - mset (outbox (w_node w i))\<rparr>" and ?v = "u_after i nd
    (u\<lparr>u_net := u_net u - mset (outbox (w_node w i))\<rparr>)"
  have pend: "pending n w = pending n w' + mset (outbox (w_node w i))"
    using put_pending [OF i, of nd w] out by (simp add: w' pending_def put_node_def)
  have net: "u_net u = image_mset mem_pkt (all_written w - all_delivered w) + pending n w"
    using sim by (simp add: wsim_def net_sim_def)
  have "(ustep n)\<^sup>*\<^sup>* u ?u" by (rule lose_many) (simp add: net pend)
  moreover have "ustep n ?u ?v"
    using i cfg os len start node(1) by (intro ustep.restart) simp_all
  moreover have "all_written w' = all_written w" "all_delivered w' = all_delivered w"
    using new_sock_fresh [OF s] by (simp_all add: w' all_written_def all_delivered_def put_node_def)
  then have "net_sim n w' ?v" using sim net pend out by (simp add: wsim_def net_sim_def u_after_def)
  moreover have "nodes_sim n w' ?v"
    using sim ok new_sock_fresh(1) [OF s]
    by (auto simp: wsim_def nodes_sim_def w' put_node_def u_after_def less_Suc_eq)
  ultimately show ?thesis by (auto simp: wsim_def intro: rtranclp.rtrancl_into_rtrancl)
qed

lemma wsim_client_send:
  assumes sim: "wsim n w u" and k: "k < length (w_socks w)" and len: "length mem = sizeof_pkt"
    and client: "client_pkt (mem_pkt mem)" and sent: "socket_send mem (w_socks w ! k) = Done (r, s)"
  shows "\<exists>v. (ustep n)\<^sup>*\<^sup>* u v \<and> wsim n (put_sock k s w) v"
proof -
  have sock: "sock_ok (w_socks w ! k)" using sim k by (simp add: wsim_def nodes_sim_def)
  note law = sock.send_law [OF sock len sent] and s = sockl.send_keeps [OF sock len sent]
  let ?w = "put_sock k s w"
  have totals: "all_delivered ?w = all_delivered w" "all_written ?w = all_written w + (if r = 0 then {#mem#} else {#})"
    using put_written [OF k, of s "if r = 0 then [mem] else []"] put_delivered [OF k, of s "[]"] law by simp_all
  have nodes: "nodes_sim n ?w v" if "u_node v = u_node u" for v
    using sim s that by (auto simp: wsim_def nodes_sim_def dest!: set_update_subset_insert [THEN subsetD])
  obtain C where C: "all_written w = all_delivered w + C"
    using sim by (auto simp: wsim_def net_sim_def dest: mset_subset_eq_exists_conv [THEN iffD1])
  let ?v = "if r = 0 then u\<lparr>u_net := add_mset (mem_pkt mem) (u_net u)\<rparr> else u"
  have "net_sim n ?w ?v" using sim totals by (simp add: wsim_def net_sim_def C)
  moreover have "(ustep n)\<^sup>*\<^sup>* u ?v" using ustep.client [OF client, of n u] by auto
  ultimately show ?thesis using nodes [of ?v] by (auto simp: wsim_def)
qed

lemma wsim_client_receive:
  assumes sim: "wsim n w u" and k: "k < length (w_socks w)"
    and got: "socket_receive timeout (w_socks w ! k) = Done (r, mem, s)" and tcp: "tcp (put_sock k s w)"
  shows "\<exists>v. (ustep n)\<^sup>*\<^sup>* u v \<and> wsim n (put_sock k s w) v"
proof -
  have sock: "sock_ok (w_socks w ! k)" using sim k by (simp add: wsim_def nodes_sim_def)
  note law = sock.receive_law [OF sock got] and s = sockl.receive_keeps [OF sock got]
  let ?w = "put_sock k s w"
  have totals: "all_written ?w = all_written w" "all_delivered ?w = all_delivered w + (if r = 1 then {#mem#} else {#})"
    using put_written [OF k, of s "[]"] put_delivered [OF k, of s "if r = 1 then [mem] else []"] law by simp_all
  note net = tcp_delivered [OF tcp]
  have nodes: "nodes_sim n ?w v" if "u_node v = u_node u" for v
    using sim s that by (auto simp: wsim_def nodes_sim_def dest!: set_update_subset_insert [THEN subsetD])
  show ?thesis
  proof (cases "r = 1")
    case True
    have "net_sim n w u" using sim by (simp add: wsim_def)
    note take = net_receive [OF this, of mem] 
    let ?v = "u\<lparr>u_net := u_net u - {#mem_pkt mem#}\<rparr>"
    have "ustep n u ?v" using take(1) net totals True by (intro ustep.lose) simp
    moreover have "net_sim n ?w ?v" using take(2) net totals True by (simp add: net_sim_def)
    ultimately show ?thesis using nodes [of ?v] by (auto simp: wsim_def)
  next
    case False
    then have "net_sim n ?w u" using sim totals net by (simp add: wsim_def net_sim_def)
    then show ?thesis using nodes [of u] by (auto simp: wsim_def)
  qed
qed

lemma wsim_step:
  assumes "wstep n w w'" and "tcp w'" and "wsim n w u"
  shows "\<exists>v. (ustep n)\<^sup>*\<^sup>* u v \<and> wsim n w' v"
  using assms(1)
proof (cases rule: wstep.cases)
  case (iteration i r mem s)
  then show ?thesis using wsim_iteration [OF assms(3) iteration(2-6) iteration(1) assms(2)] by blast
next
  case (sending i pkt pkts pad r s)
  then show ?thesis using wsim_sending [OF assms(3)] by blast
next
  case (again i cfg os ns ms s heap lines nd)
  then show ?thesis using wsim_again [OF assms(3)] by blast
next
  case (client_start s)
  note f = new_sock_fresh [OF client_start(2)]
  have "wsim n w' u"
    using assms(3) f by (auto simp: client_start(1) wsim_def nodes_sim_def net_sim_def all_written_def
        all_delivered_def pending_def less_Suc_eq)
  then show ?thesis by blast
next
  case (client_send k mem r s)
  then show ?thesis using wsim_client_send [OF assms(3)] by blast
next
  case (client_receive k timeout r mem s)
  then show ?thesis using wsim_client_receive [OF assms(3)] assms(2) by blast
qed

lemma wsim_run:
  assumes "(tstep n)\<^sup>*\<^sup>* w w'" and "wsim n w u"
  shows "\<exists>v. (ustep n)\<^sup>*\<^sup>* u v \<and> wsim n w' v"
  using assms(1)
proof (induction rule: rtranclp_induct)
  case base
  then show ?case using assms(2) by blast
next
  case (step w1 w2)
  then show ?case using wsim_step unfolding tstep_def by (meson rtranclp_trans)
qed

lemma wstart_sim:
  assumes "wstart n w"
  shows "ustart n \<lparr>u_node = w_node w, u_net = {#}\<rparr>" and "wsim n w \<lparr>u_node = w_node w, u_net = {#}\<rparr>"
proof -
  show u: "ustart n \<lparr>u_node = w_node w, u_net = {#}\<rparr>" using assms by (auto simp: wstart_def ustart_def)
  have node: "unix_ok (w_node w i) \<and> outbox (w_node w i) = []" if i: "i < n" for i
  proof -
    obtain cfg heap ns ms lines os where c: "node_cfg n i cfg" "wf_os os"
      "start_node cfg (disk []) (disk []) (disk []) heap ns ms lines os = Some (w_node w i)"
      using assms i unfolding wstart_def by blast
    then show ?thesis
      using start_node_fresh [of os cfg heap ns ms lines] boot_out by (auto simp: node_cfg_def)
  qed
  have n: "unat (of_nat k :: u32) = k \<and> (of_nat k :: u32) < n" if "k < unat n" for k
    using that unsigned_less [of n, where 'a = nat]
    by (simp add: unat_of_nat take_bit_nat_eq_self word_less_nat_alt)
  have "pending n w = {#}" using node n by (simp add: pending_def)
  moreover have "all_written w = {#}" "all_delivered w = {#}"
    using assms new_sock_fresh by (auto simp: wstart_def all_written_def all_delivered_def)
  ultimately show "wsim n w \<lparr>u_node = w_node w, u_net = {#}\<rparr>"
    using assms node new_sock_fresh(1) by (auto simp: wsim_def nodes_sim_def net_sim_def wstart_def)
qed

text \<open>A run over sockets, as a run of the programs.\<close>

lemma socket_runs:
  assumes "wstart n w" and "(tstep n)\<^sup>*\<^sup>* w w1" and "(tstep n)\<^sup>*\<^sup>* w1 w2"
  obtains s s1 s2 where "ustart n s" and "(ustep n)\<^sup>*\<^sup>* s s1" and "(ustep n)\<^sup>*\<^sup>* s1 s2"
    and "\<And>i. i < n \<Longrightarrow> u_node s1 i = (w_node w1 i)\<lparr>outbox := []\<rparr>"
    and "\<And>i. i < n \<Longrightarrow> u_node s2 i = (w_node w2 i)\<lparr>outbox := []\<rparr>"
proof -
  note start = wstart_sim [OF assms(1)]
  obtain s1 where s1: "(ustep n)\<^sup>*\<^sup>* \<lparr>u_node = w_node w, u_net = {#}\<rparr> s1" "wsim n w1 s1"
    using wsim_run [OF assms(2) start(2)] by blast
  obtain s2 where s2: "(ustep n)\<^sup>*\<^sup>* s1 s2" "wsim n w2 s2" using wsim_run [OF assms(3) s1(2)] by blast
  show thesis
    by (rule that [OF start(1) s1(1) s2(1)]) (use s1(2) s2(2) in \<open>simp_all add: wsim_def nodes_sim_def\<close>)
qed

lemma outbox_ignored [simp]:
  "node_entries (nd\<lparr>outbox := out\<rparr>) = node_entries nd" "node_term (nd\<lparr>outbox := out\<rparr>) = node_term nd"
  by (simp_all add: node_entries_def node_term_def)

lemma wstart_up:
  assumes "wstart n w" and "i < n"
  shows "up (w_node w i)" and "outbox (w_node w i) = []"
proof -
  obtain cfg heap ns ms lines os where c: "node_cfg n i cfg" "wf_os os"
    "start_node cfg (disk []) (disk []) (disk []) heap ns ms lines os = Some (w_node w i)"
    using assms unfolding wstart_def by blast
  then have view: "unix_view (w_node w i) = a_boot i n [] 0 PF_NO_VOTE_V ns ms"
    using start_node_fresh [of os cfg heap ns ms lines] by (auto simp: node_cfg_def)
  show "up (w_node w i)" by (simp add: view_up view a_boot_def)
  show "outbox (w_node w i) = []" using view by (rule boot_out)
qed

end
