(* ===== verification/Answers.thy ===== *)
theory Answers
  imports Unix_Safety
begin

text \<open>
  What the answer to a client is worth: an answer that reports success is for an entry that is
  committed in the sense of \<open>Completeness\<close>, so the entry stays on the disks of a majority of the
  nodes, in the log of every later leader, and in what the nodes commit. And every entry of a log
  was requested by a client.
\<close>

section \<open>Answers in the cluster of the specification\<close>

text \<open>The entry \<open>e\<close> at index \<open>k\<close> is committed, in a term up to \<open>T\<close>.\<close>

definition settled :: "u32 \<Rightarrow> cluster \<Rightarrow> u32 \<Rightarrow> nat \<Rightarrow> log_entry_t \<Rightarrow> bool" where
  "settled n s T k e \<longleftrightarrow> (\<exists>t m. committed n s t m \<and> k \<le> m \<and> t \<le> T \<and> cl_logs s t ! k = e)"

definition answer_for :: "proc_res_t \<Rightarrow> log_entry_t \<Rightarrow> bool" where
  "answer_for r e \<longleftrightarrow> le_client_id e = ps_client_id r \<and> le_cmd_seqno e = ps_cmd_seqno r"

definition sound_answer :: "u32 \<Rightarrow> cluster \<Rightarrow> amsg \<Rightarrow> bool" where
  "sound_answer n s m \<longleftrightarrow> (case m_body m of
     ProcRes r \<Rightarrow> ps_success r = 0 \<or> (\<exists>k e. answer_for r e \<and> settled n s (ps_term r) k e)
   | _ \<Rightarrow> True)"

lemma settled_grows:
  assumes "settled n s T k e" and "extends s s'" and "cl_acks s \<subseteq> cl_acks s'"
  shows "settled n s' T k e"
proof -
  obtain t m where t: "committed n s t m" "k \<le> m" "t \<le> T" "cl_logs s t ! k = e"
    using assms(1) unfolding settled_def by blast
  note grown = committed_grows [OF t(1) assms(2,3)]
  have "take (Suc k) (cl_logs s' t) = take (Suc k) (cl_logs s t)"
    using take_shorter [OF grown(2) t(2)] .
  then have "cl_logs s' t ! k = e" using t(4) by (metis lessI nth_take)
  then show ?thesis using grown(1) t(2,3) unfolding settled_def by blast
qed

lemma sound_answer_grows:
  "sound_answer n s m \<Longrightarrow> extends s s' \<Longrightarrow> cl_acks s \<subseteq> cl_acks s' \<Longrightarrow> sound_answer n s' m"
  using settled_grows [of n s _ _ _ s'] unfolding sound_answer_def by (cases "m_body m") (simp_all, blast)

lemma safe_settled:
  assumes "safe_upto n s T es c" and "int k \<le> c"
  shows "settled n s T k (es ! k)"
proof -
  obtain t m where t: "committed n s t m" "c \<le> int m" "t \<le> T"
    "take (Suc (nat c)) es = take (Suc (nat c)) (cl_logs s t)"
    using assms unfolding safe_upto_def by (metis of_nat_0_le_iff order_trans)
  have k: "k \<le> nat c" "k \<le> m" using assms(2) t(2) by simp_all
  have "cl_logs s t ! k = es ! k" using take_shorter [OF t(4) k(1)] by (metis lessI nth_take)
  then show ?thesis using t(1,3) k(2) unfolding settled_def by blast
qed

lemma proper_answer_sound:
  assumes "proper_answer a m" and "safe_upto n s (a_term a) (a_log a) (a_commit a)"
  shows "sound_answer n s m"
proof (cases "m_body m")
  case (ProcRes r)
  show ?thesis
  proof (cases "ps_success r = 0")
    case False
    then obtain k where k: "ps_term r = a_term a" "int k \<le> a_commit a" "answer_for r (a_log a ! k)"
      using assms(1) ProcRes by (auto simp: proper_answer_def answer_for_def)
    then have "settled n s (ps_term r) k (a_log a ! k)" using safe_settled [OF assms(2)] by simp
    then show ?thesis using k(3) ProcRes by (auto simp: sound_answer_def)
  qed (simp add: sound_answer_def ProcRes)
qed (simp_all add: sound_answer_def)

text \<open>The answers of a node in a step.\<close>

lemma elect_answers: "answers b a (a_elect a)"
  by (auto simp: a_elect_def a_become_candidate_def a_start_election_def a_send_heartbeats_def Let_def
      answers_def a_broadcast_def list_all_iff split: raft_role_t.split)

lemma sound_after_step:
  assumes reach: "creach n s'" and n: "n \<le> PF_NO_VOTE_V" and i: "i < n" and s': "s' = after_step i a s1"
    and ans: "answers a (cl_node s i) a" and out: "a_out (cl_node s i) = []"
    and old: "\<And>q. q \<in># cl_net s1 \<Longrightarrow> sound_answer n s' q" and q: "q \<in># cl_net s'"
  shows "sound_answer n s' q"
proof (cases "q \<in># cl_net s1")
  case False
  then have "q \<in> set (a_out a)" using q by (simp add: s' after_step_def)
  then have "proper_answer a q" using ans out by (auto simp: answers_def list_all_iff)
  moreover have "safe_upto n s' (a_term a) (a_log a) (a_commit a)"
    using node_safe [OF reach n i] by (simp add: s' after_step_def)
  ultimately show ?thesis by (rule proper_answer_sound)
qed (rule old)

lemma cstep_sound_answers:
  assumes step: "cstep n s s'" and reach: "creach n s" and n: "n \<le> PF_NO_VOTE_V"
    and old: "\<And>m. m \<in># cl_net s \<Longrightarrow> sound_answer n s m" and q: "q \<in># cl_net s'"
  shows "sound_answer n s' q"
proof -
  have reach': "creach n s'" using reach step by (rule creach.step)
  have keep: "sound_answer n s' m" if "m \<in># cl_net s" for m
    using sound_answer_grows [OF old [OF that]] cstep_keeps [OF step reach n] by blast
  have out: "a_out (cl_node s i) = []" if "i < n" for i
    using creach_inv [OF reach n] that by (simp add: election_inv_def cast_inv_def node_inv_def Let_def)
  note after = sound_after_step [OF reach' n _ _ _ out _ q]
  from step show ?thesis
  proof (cases rule: cstep.cases)
    case (receive i m)
    have "sound_answer n s' p" if "p \<in># cl_net s - {#m#}" for p using keep that by (meson in_diffD)
    then show ?thesis
      using receive(2) by (intro after [OF _ receive(1)]) (auto intro: receive_answers)
  next
    case (elect i)
    show ?thesis using elect(2) by (intro after [OF _ elect(1)]) (auto intro: elect_answers keep)
  next
    case (stop i)
    show ?thesis using stop(2) by (intro after [OF _ stop(1)]) (auto intro: keep)
  next
    case (exit i h)
    show ?thesis using exit(2) by (intro after [OF _ exit(1)]) (auto intro: keep)
  next
    case (lose m)
    then show ?thesis using q keep by (auto dest: in_diffD)
  next
    case (client m)
    have "sound_answer n s' m" using client(2) by (auto simp: from_client_def sound_answer_def split: rpc_msg.splits)
    then show ?thesis using q keep by (auto simp: client(1))
  next
    case (restart i ns ms a)
    show ?thesis
      using restart(2) out by (intro after [OF _ restart(1)]) (auto simp: a_boot_def intro: keep)
  qed
qed

lemma creach_sound_answers:
  assumes "creach n s" and "n \<le> PF_NO_VOTE_V" and "m \<in># cl_net s"
  shows "sound_answer n s m"
  using assms(1,3)
proof (induction arbitrary: m rule: creach.induct)
  case (start s)
  then show ?case by (simp add: cstart_def)
next
  case (step s s')
  then show ?case using cstep_sound_answers [OF step.hyps(2,1) assms(2)] by blast
qed

section \<open>What a settled entry is worth\<close>

lemma settled_committed:
  assumes "settled n s T k e"
  obtains t m where "committed n s t m" and "k \<le> m" and "t \<le> T" and "cl_logs s t ! k = e"
    and "k < length (cl_logs s t)"
proof -
  obtain t m where t: "committed n s t m" "k \<le> m" "t \<le> T" "cl_logs s t ! k = e"
    using assms unfolding settled_def by blast
  then have "k < length (cl_logs s t)" by (simp add: committed_def)
  with t show thesis by (rule that)
qed

lemma same_entry:
  assumes "take (Suc k) xs = take (Suc k) ys" and "k < length ys"
  shows "k < length xs \<and> xs ! k = ys ! k"
proof
  have "length (take (Suc k) xs) = length (take (Suc k) ys)" by (rule arg_cong [OF assms(1)])
  moreover have "length (take (Suc k) ys) = Suc k" using assms(2) by simp
  ultimately have "Suc k \<le> length xs" by (simp only: length_take min_def split: if_splits)
  then show "k < length xs" by simp
  have "take (Suc k) xs ! k = take (Suc k) ys ! k" by (rule arg_cong [OF assms(1)])
  then show "xs ! k = ys ! k" by (simp only: nth_take lessI)
qed

lemma settled_leader:
  assumes "settled n s T k e" and reach: "creach n s" and n: "n \<le> PF_NO_VOTE_V"
    and l: "l < n" "a_role (cl_node s l) = LEADER" "T \<le> a_term (cl_node s l)"
  shows "k < length (a_log (cl_node s l)) \<and> a_log (cl_node s l) ! k = e"
proof -
  obtain t m where t: "committed n s t m" "k \<le> m" "t \<le> T" "cl_logs s t ! k = e" "k < length (cl_logs s t)"
    using assms(1) by (rule settled_committed)
  note log = leader_log_history [OF reach n l(1,2)]
  have "t \<le> a_term (cl_node s l)" using t(3) l(3) by simp
  then have "take (Suc m) (a_log (cl_node s l)) = take (Suc m) (cl_logs s t)"
    using complete_between [OF creach_log_inv [OF reach n] creach_complete_inv [OF reach n] t(1) _ log(1)]
    unfolding log(2) by blast
  from same_entry [OF take_shorter [OF this t(2)] t(5)] show ?thesis using t(4) by simp
qed

lemma settled_commit:
  assumes "settled n s T k e" and reach: "creach n s" and n: "n \<le> PF_NO_VOTE_V"
    and j: "j < n" "int k \<le> a_commit (cl_node s j)"
  shows "k < length (a_log (cl_node s j)) \<and> a_log (cl_node s j) ! k = e"
proof -
  obtain t m where t: "committed n s t m" "k \<le> m" "t \<le> T" "cl_logs s t ! k = e" "k < length (cl_logs s t)"
    using assms(1) by (rule settled_committed)
  have "safe_upto n s t (cl_logs s t) (int k)" using t(1,2) unfolding safe_upto_def by auto
  then have "take (Suc k) (a_log (cl_node s j)) = take (Suc k) (cl_logs s t)"
    using safe_agree [OF creach_log_inv [OF reach n] creach_complete_inv [OF reach n] node_safe [OF reach n j(1)]]
      j(2) by blast
  from same_entry [OF this t(5)] show ?thesis using t(4) by simp
qed

lemma settled_majority:
  assumes "settled n s T k e" and reach: "creach n s" and n: "n \<le> PF_NO_VOTE_V"
  shows "\<exists>Q. Q \<subseteq> {v. v < n} \<and> unat n < 2 * card Q \<and>
    (\<forall>v. v \<in> Q \<longrightarrow> k < length (a_log (cl_node s v)) \<and> a_log (cl_node s v) ! k = e)"
proof -
  obtain t m where t: "committed n s t m" "k \<le> m" "t \<le> T" "cl_logs s t ! k = e" "k < length (cl_logs s t)"
    using assms(1) by (rule settled_committed)
  obtain Q where Q: "unat n < 2 * card Q" "Q \<subseteq> {v. v < n}"
    "\<And>v. v \<in> Q \<Longrightarrow> \<exists>a. (t, v, a) \<in> cl_acks s \<and> int m \<le> a"
    using t(1) unfolding committed_def by blast
  note inv = creach_log_inv [OF reach n] creach_complete_inv [OF reach n]
  have kept: "kept s t m W" for W
    using complete_between [OF inv t(1)] by (simp add: kept_def)
  have "k < length (a_log (cl_node s v)) \<and> a_log (cl_node s v) ! k = e" if v: "v \<in> Q" for v
  proof -
    obtain a where "(t, v, a) \<in> cl_acks s" "int m \<le> a" using Q(3) [OF v] by blast
    then have "take (Suc m) (a_log (cl_node s v)) = take (Suc m) (cl_logs s t)"
      using inv(2) kept unfolding complete_inv_def acks_inv_def by blast
    from same_entry [OF take_shorter [OF this t(2)] t(5)] show ?thesis using t(4) by simp
  qed
  then show ?thesis using Q(1,2) by blast
qed

section \<open>Answers of the programs\<close>

definition has_entry :: "unix_node \<Rightarrow> nat \<Rightarrow> log_entry_t \<Rightarrow> bool" where
  "has_entry nd k e \<longleftrightarrow> k < length (node_entries nd) \<and> node_entries nd ! k = e"

text \<open>How many of the nodes have the entry \<open>e\<close> at index \<open>k\<close> of their log file.\<close>

definition holders :: "u32 \<Rightarrow> (u32 \<Rightarrow> unix_node) \<Rightarrow> nat \<Rightarrow> log_entry_t \<Rightarrow> nat" where
  "holders n node k e = length (filter (\<lambda>v. has_entry (node v) k e) (map of_nat [0..<unat n]))"

definition survives :: "u32 \<Rightarrow> (u32 \<Rightarrow> unix_node) \<Rightarrow> u32 \<Rightarrow> nat \<Rightarrow> log_entry_t \<Rightarrow> bool" where
  "survives n node T k e \<longleftrightarrow> unat n < 2 * holders n node k e \<and>
     (\<forall>i. i < n \<longrightarrow> role (node i) = LEADER \<and> T \<le> node_term (node i) \<or> int k \<le> commit_index (node i) \<longrightarrow>
       has_entry (node i) k e)"

lemma holders_card:
  assumes "Q \<subseteq> {v. v < n}" and "\<And>v. v \<in> Q \<Longrightarrow> has_entry (node v) k e"
  shows "card Q \<le> holders n node k e"
proof -
  let ?vs = "filter (\<lambda>v. has_entry (node v) k e) (map of_nat [0..<unat n])"
  have "v \<in> set ?vs" if "v \<in> Q" for v
    using that assms by (auto simp: word_less_nat_alt intro!: image_eqI [of v of_nat "unat v"])
  then have "card Q \<le> card (set ?vs)" by (intro card_mono) auto
  also have "\<dots> \<le> holders n node k e" unfolding holders_def by (rule card_length)
  finally show ?thesis .
qed

lemma sim_survives:
  assumes sim: "sim n s a" and reach: "creach n a" and n: "n \<le> PF_NO_VOTE_V" and e: "settled n a T k e"
  shows "survives n (u_node s) T k e"
proof -
  have node: "has_entry (u_node s i) k e"
    if "i < n" "k < length (a_log (cl_node a i)) \<and> a_log (cl_node a i) ! k = e" for i
    using that(2) by (simp add: has_entry_def sim_node(1) [OF sim that(1)])
  obtain Q where Q: "Q \<subseteq> {v. v < n}" "unat n < 2 * card Q"
    "\<And>v. v \<in> Q \<Longrightarrow> k < length (a_log (cl_node a v)) \<and> a_log (cl_node a v) ! k = e"
    using settled_majority [OF e reach n] by blast
  then have "card Q \<le> holders n (u_node s) k e" using node by (intro holders_card) auto
  then have "unat n < 2 * holders n (u_node s) k e" using Q(2) by simp
  moreover have "has_entry (u_node s i) k e"
    if i: "i < n" and "role (u_node s i) = LEADER \<and> T \<le> node_term (u_node s i) \<or> int k \<le> commit_index (u_node s i)" for i
    using that(2) settled_leader [OF e reach n i] settled_commit [OF e reach n i]
    unfolding sim_node(2-4) [OF sim i, symmetric] by (intro node [OF i]) blast
  ultimately show ?thesis by (simp add: survives_def)
qed

text \<open>An answer under way.\<close>

lemma run_answer_survives:
  assumes "ustart n s" and "(ustep n)\<^sup>*\<^sup>* s s1" and n: "n \<le> PF_NO_VOTE_V"
    and "ans \<in># u_net s1" and "m_body (decode_pkt ans) = ProcRes r" and "ps_success r \<noteq> 0"
  shows "\<exists>k e. answer_for r e \<and> (\<forall>s2. (ustep n)\<^sup>*\<^sup>* s1 s2 \<longrightarrow> survives n (u_node s2) (ps_term r) k e)"
proof -
  obtain a where a: "creach n a" "sim n s1 a" using run_sim [OF assms(1-3)] .
  have "decode_pkt ans \<in># cl_net a" using sim_take(2) [OF a(2) assms(4)] .
  then have "sound_answer n a (decode_pkt ans)" by (rule creach_sound_answers [OF a(1) n])
  then obtain k e where e: "answer_for r e" "settled n a (ps_term r) k e"
    using assms(5,6) by (auto simp: sound_answer_def)
  have "survives n (u_node s2) (ps_term r) k e" if run: "(ustep n)\<^sup>*\<^sup>* s1 s2" for s2
  proof -
    obtain b where b: "(cstep n)\<^sup>*\<^sup>* a b" "creach n b" "sim n s2 b" using usteps_sim [OF run a(2,1) n] by blast
    then have "settled n b (ps_term r) k e"
      using settled_grows [OF e(2)] csteps_keep [OF b(1) a(1) n] by blast
    then show ?thesis by (rule sim_survives [OF b(3,2) n])
  qed
  then show ?thesis using e(1) by blast
qed

end
