(* ===== verification/Requests.thy ===== *)
theory Requests
  imports Unix_Safety
begin

text \<open>
  No entry is made up: every entry of a log was requested by a client, whose packet carries its
  client, number and command. \<open>R\<close> stands for the requests clients made so far.
\<close>

section \<open>One step of a node\<close>

abbreviation requests :: "log_entry_t list \<Rightarrow> proc_req_t set" where
  "requests es \<equiv> request_of ` set es"

text \<open>The entries a message carries, and the request it makes, are of \<open>R\<close>.\<close>

definition asked_in :: "proc_req_t set \<Rightarrow> amsg \<Rightarrow> bool" where
  "asked_in R m \<longleftrightarrow> (case m_body m of
     AppendReq r \<Rightarrow> requests (take (unat (ae_n_entries r)) (ae_entries r)) \<subseteq> R
   | ProcReq q \<Rightarrow> q \<in> R | _ \<Rightarrow> True)"

lemma asked_in_mono: "asked_in R m \<Longrightarrow> R \<subseteq> S \<Longrightarrow> asked_in S m"
  unfolding asked_in_def by (cases "m_body m") auto

lemma plain_asked: "plain m \<Longrightarrow> asked_in R m"
  unfolding asked_in_def plain_def by (cases "m_body m") auto

lemma client_asked:
  "client_pkt pkt \<Longrightarrow> asked_in R (decode_pkt pkt) \<longleftrightarrow> (\<forall>q. m_body (decode_pkt pkt) = ProcReq q \<longrightarrow> q \<in> R)"
  using decode_client [of pkt] unfolding from_client_def asked_in_def
  by (cases "m_body (decode_pkt pkt)") auto

lemma list_write_requests: "set (list_write i e es) \<subseteq> insert e (set es)"
  by (auto simp: list_write_def dest: set_update_subset_insert [THEN subsetD])

lemma append_loop_requests: "set (a_append_loop new idx len es) \<subseteq> set new \<union> set es"
proof (induction new idx len es rule: a_append_loop.induct)
  case (2 e new idx len es)
  have "set (list_write (int_of_u32 idx) e (list_remove (len - int_of_u32 idx) es)) \<subseteq> insert e (set es)"
    using list_write_requests [of _ e "list_remove (len - int_of_u32 idx) es"] set_take_subset
    unfolding list_remove_def by fastforce
  moreover have "set (list_write (int_of_u32 idx) e es) \<subseteq> insert e (set es)" by (rule list_write_requests)
  ultimately show ?case using 2 by (simp only: a_append_loop.simps split: if_split) fastforce
qed simp

text \<open>A leader whose next indexes are within its log sends entries of its log only.\<close>

definition leads_well :: "u32 \<Rightarrow> anode \<Rightarrow> bool" where
  "leads_well n a \<longleftrightarrow> a_role a = LEADER \<longrightarrow>
     next_ok n a \<and> length (a_log a) \<le> log_capacity \<and> a_num a = n"

lemma leads_well_cong:
  "leads_well n (a\<lparr>a_out := out\<rparr>) = leads_well n a" "leads_well n (a\<lparr>a_halted := h\<rparr>) = leads_well n a"
  "leads_well n (a\<lparr>a_running := r\<rparr>) = leads_well n a"
  by (simp_all add: leads_well_def next_ok_def)

lemma leader_request_asked:
  assumes "leader_request a m" and "leads_well n a" and "requests (a_log a) \<subseteq> R"
  shows "asked_in R m"
proof -
  obtain limit where m: "m_body m = AppendReq (a_append_request limit a (m_dst m))" "0 \<le> limit" "limit \<le> 32"
    and dst: "m_dst m \<in> set (a_peers a)" and ok: "next_ok n a" "length (a_log a) \<le> log_capacity" "a_num a = n"
    using assms(1,2) by (auto simp: leader_request_def leads_well_def)
  have "unat (m_dst m) < unat n" using dst ok(3) peers_member [of "m_dst m" a] by (simp add: word_less_nat_alt)
  then obtain j k where "ae_entries (a_append_request limit a (m_dst m)) = take k (drop j (a_log a))"
    using append_request_piece [OF ok(1) _ ok(2) m(2,3)] by blast
  then have "set (ae_entries (a_append_request limit a (m_dst m))) \<subseteq> set (a_log a)"
    by (auto dest: in_set_takeD in_set_dropD)
  then show ?thesis using assms(3) m(1) by (auto simp: asked_in_def dest!: in_set_takeD)
qed

lemma effect_requests:
  assumes "log_effect mo a b out" and log: "requests (a_log a) \<subseteq> R" and "leads_well n b"
    and m: "\<And>m. mo = Some m \<Longrightarrow> asked_in R m"
  shows "requests (a_log b) \<subseteq> R" and "\<And>q. q \<in> set out \<Longrightarrow> asked_in R q"
proof -
  show new: "requests (a_log b) \<subseteq> R"
    using assms(1)
  proof (cases rule: log_effect.cases)
    case (append e)
    then show ?thesis using log m by (auto simp: requested_def asked_in_def)
  next
    case (merge q r out1)
    have "requests (take (unat (ae_n_entries r)) (ae_entries r)) \<subseteq> R"
      using m [OF merge(1)] merge(3) by (simp add: asked_in_def)
    moreover have "set (a_log b) \<subseteq> set (take (unat (ae_n_entries r)) (ae_entries r)) \<union> set (a_log a)"
      unfolding merge(10) by (rule append_loop_requests)
    then have "requests (a_log b) \<subseteq> requests (take (unat (ae_n_entries r)) (ae_entries r)) \<union> requests (a_log a)"
      unfolding image_Un [symmetric] by (rule image_mono)
    ultimately show ?thesis using log by blast
  qed (use log in simp_all)
  note ask = plain_asked leader_request_asked [OF _ assms(3) new]
  show "asked_in R q" if "q \<in> set out" for q
    using assms(1)
  proof (cases rule: log_effect.cases)
    case (merge r p out1)
    then show ?thesis using that plain_asked by (auto simp: list_all_iff asked_in_def)
  next
    case (stored r p)
    then show ?thesis using that plain_asked by (auto simp: list_all_iff)
  qed (use that ask in \<open>auto simp: plain_or_request_def\<close>)
qed

text \<open>A step of the program: on a packet, at the end of its time, on an error.\<close>

lemma run_step_effects:
  assumes "unix_ok nd" and "r = 0 \<or> r = 1 \<or> r = -1" and "r = 1 \<longrightarrow> has_room (unix_view nd)"
  obtains (result) x mo where "log_effects mo (unix_view nd) x" and "mo = None \<or> r = 1 \<and> mo = Some (decode_pkt pkt)"
    and "a_log (unix_view (raft_run_step (r, pkt) nd)) = a_log x"
    and "a_out (unix_view (raft_run_step (r, pkt) nd)) = a_out x"
    and "leads_well n (unix_view (raft_run_step (r, pkt) nd)) = leads_well n x"
proof -
  let ?a = "unix_view nd" and ?b = "unix_view (raft_run_step (r, pkt) nd)"
  have quiet: thesis
    if b: "?b = x \<or> ?b = x\<lparr>a_halted := h\<rparr> \<or> ?b = x\<lparr>a_running := k\<rparr>" and eff: "log_effects None ?a x" for x h k
    by (rule result [OF eff]) (use b in \<open>auto simp: leads_well_cong\<close>)
  show thesis
  proof (cases "r = 1")
    case True
    show thesis
      by (rule result [OF receive_log_effects [of "decode_pkt pkt" ?a]])
        (use True unix_receive(2) [OF assms(1), of pkt] assms(3) in auto)
  next
    case False
    consider "?b = ?a\<lparr>a_running := 0\<rparr>" | "?b = ?a" | "?b = a_elect ?a" | "?b = (a_elect ?a)\<lparr>a_halted := Some (Exit 42)\<rparr>"
      using False assms(2) unix_timeout(2) [OF assms(1), of pkt] unix_error(2) [OF assms(1), of "-1" pkt] by auto
    then show thesis
      using quiet [of ?a] quiet [of "a_elect ?a"] log_effects_refl [of None ?a] elect_log_effects [of None ?a]
      by cases blast+
  qed
qed

lemma step_requests:
  assumes "unix_ok nd" and "r = 0 \<or> r = 1 \<or> r = -1" and "r = 1 \<longrightarrow> has_room (unix_view nd)"
    and "r = 1 \<longrightarrow> asked_in R (decode_pkt pkt)" and out: "outbox nd = []"
    and "requests (node_entries nd) \<subseteq> R" and "leads_well n (unix_view (raft_run_step (r, pkt) nd))"
  shows "requests (node_entries (raft_run_step (r, pkt) nd)) \<subseteq> R"
    and "\<And>p. p \<in> set (outbox (raft_run_step (r, pkt) nd)) \<Longrightarrow> asked_in R (decode_pkt p)"
proof -
  let ?nd = "raft_run_step (r, pkt) nd"
  obtain x mo where x: "log_effects mo (unix_view nd) x" "mo = None \<or> r = 1 \<and> mo = Some (decode_pkt pkt)"
    "a_log (unix_view ?nd) = a_log x" "a_out (unix_view ?nd) = a_out x" "leads_well n x"
    using run_step_effects [OF assms(1-3), of pkt n] assms(7) by metis
  have entries: "a_log (unix_view nd) = node_entries nd" for nd by (simp add: view_fields node_entries_def)
  have "a_out (unix_view nd) = []" using out by (simp add: unix_view_out)
  then have eff: "log_effect mo (unix_view nd) x (a_out x)" using x(1) by (simp add: log_effects_def)
  have m: "asked_in R m" if "mo = Some m" for m using x(2) assms(4) that by auto
  note new = effect_requests [OF eff _ x(5) m]
  show "requests (node_entries ?nd) \<subseteq> R" using new(1) assms(6) x(3) by (simp add: entries)
  show "asked_in R (decode_pkt p)" if "p \<in> set (outbox ?nd)" for p
  proof (rule new(2))
    have "a_out x = map decode_pkt (outbox ?nd)" using x(4) unix_view_out [of ?nd] by simp
    then show "decode_pkt p \<in> set (a_out x)" using that by simp
  qed (use assms(6) in \<open>simp add: entries\<close>)
qed

section \<open>Runs of the programs\<close>

lemma sim_leads_well:
  assumes "sim n s a" and "creach n a" and "n \<le> PF_NO_VOTE_V" and "i < n"
  shows "leads_well n (unix_view (u_node s i))"
proof -
  have "node_log_inv n a i" using creach_log_inv [OF assms(2,3)] assms(4) by (simp add: log_inv_def)
  moreover have "a_num (cl_node a i) = n"
    using creach_inv [OF assms(2,3)] assms(4) by (simp add: election_inv_def cast_inv_def node_inv_def Let_def)
  moreover have "unix_view (u_node s i) = cl_node a i" using assms(1,4) by (simp add: sim_def)
  ultimately show ?thesis by (simp add: leads_well_def node_log_inv_def Let_def)
qed

lemma sim_outbox:
  assumes "sim n s a" and "creach n a" and "n \<le> PF_NO_VOTE_V" and "i < n"
  shows "outbox (u_node s i) = []"
proof -
  have "a_out (unix_view (u_node s i)) = []"
    using creach_inv [OF assms(2,3)] assms(1,4) by (simp add: election_inv_def cast_inv_def node_inv_def Let_def sim_def)
  then show ?thesis by (simp add: unix_view_out)
qed

lemma start_again_entries:
  assumes "unix_ok nd" and "wf_os os" and "node_cfg n i cfg"
    and "start_node cfg (disk (f_content (log_fd (log_context (node_log nd)))))
      (disk (f_content (meta_fd (log_context (node_log nd)))))
      (disk (f_content (pf_fd (pf_context (hard_state nd))))) heap ns ms lines os = Some nd'"
  shows "node_entries nd' = node_entries nd" and "outbox nd' = []"
proof -
  have "cfg_accrual_window_size cfg \<noteq> 0" using assms(3) by (simp add: node_cfg_def)
  from start_node_again [OF assms(1,2) this, of heap ns ms lines] assms(4)
  have view: "unix_view nd' = a_boot (cfg_id cfg) (cfg_num_nodes cfg) (a_log (unix_view nd))
      (a_term (unix_view nd)) (a_vote (unix_view nd)) ns ms"
    by auto
  then have "a_log (unix_view nd') = a_log (unix_view nd)" "a_out (unix_view nd') = []" by (simp_all add: a_boot_def)
  then show "node_entries nd' = node_entries nd" "outbox nd' = []"
    by (simp_all add: view_fields node_entries_def unix_view_out)
qed

definition all_asked :: "u32 \<Rightarrow> proc_req_t set \<Rightarrow> ucluster \<Rightarrow> bool" where
  "all_asked n R s \<longleftrightarrow> (\<forall>i. i < n \<longrightarrow> requests (node_entries (u_node s i)) \<subseteq> R) \<and>
     (\<forall>pkt. pkt \<in># u_net s \<longrightarrow> asked_in R (decode_pkt pkt))"

lemma all_asked_mono: "all_asked n R s \<Longrightarrow> R \<subseteq> S \<Longrightarrow> all_asked n S s"
  using asked_in_mono unfolding all_asked_def by blast

lemma node_entries_outbox: "node_entries (nd\<lparr>outbox := out\<rparr>) = node_entries nd"
  by (simp add: node_entries_def)

lemma all_asked_after:
  assumes "all_asked n R s" and "requests (node_entries nd) \<subseteq> R"
    and "\<And>p. p \<in> set (outbox nd) \<Longrightarrow> asked_in R (decode_pkt p)"
  shows "all_asked n R (u_after i nd s)"
  using assms by (auto simp: all_asked_def u_after_def node_entries_outbox)

lemma all_asked_take: "all_asked n R s \<Longrightarrow> all_asked n R (s\<lparr>u_net := u_net s - M\<rparr>)"
  by (auto simp: all_asked_def dest: in_diffD)

lemma ustep_asked:
  assumes step: "ustep n s s'" and asked: "all_asked n R s"
    and node: "\<And>i. i < n \<Longrightarrow> unix_ok (u_node s i) \<and> outbox (u_node s i) = []"
    and lead: "\<And>i. i < n \<Longrightarrow> leads_well n (unix_view (u_node s' i))"
    and new: "\<And>pkt q. pkt \<in># u_net s' \<Longrightarrow> m_body (decode_pkt pkt) = ProcReq q \<Longrightarrow> q \<in> R"
  shows "all_asked n R s'"
proof -
  have run: "all_asked n R (u_after i (raft_run_step (r, pkt) (u_node s i)) (s\<lparr>u_net := u_net s - M\<rparr>))"
    if i: "i < n" and r: "r = 0 \<or> r = 1 \<or> r = -1" and room: "r = 1 \<longrightarrow> has_room (unix_view (u_node s i))"
      and pkt: "r = 1 \<longrightarrow> asked_in R (decode_pkt pkt)"
      and s': "s' = u_after i (raft_run_step (r, pkt) (u_node s i)) (s\<lparr>u_net := u_net s - M\<rparr>)" for i r pkt M
  proof -
    have old: "requests (node_entries (u_node s i)) \<subseteq> R" using asked i by (simp add: all_asked_def)
    have "leads_well n (unix_view (raft_run_step (r, pkt) (u_node s i)))"
      using lead [OF i] by (simp add: s' u_after_def leads_well_cong)
    note step = step_requests [OF conjunct1 [OF node [OF i]] r room pkt conjunct2 [OF node [OF i]] old this]
    show ?thesis by (intro all_asked_after all_asked_take asked step)
  qed
  from step show ?thesis
  proof (cases rule: ustep.cases)
    case (receive i pkt)
    then show ?thesis using run [of i 1 pkt "{#pkt#}"] asked by (simp add: all_asked_def)
  next
    case (timeout i pkt)
    then show ?thesis using run [of i 0 pkt "{#}"] by simp
  next
    case (failure i pkt)
    then show ?thesis using run [of i "-1" pkt "{#}"] by simp
  next
    case (lose pkt)
    then show ?thesis using all_asked_take [OF asked] by simp
  next
    case (client pkt)
    have "asked_in R (decode_pkt pkt)"
      unfolding client_asked [OF client(2)] using new [of pkt] by (simp add: client(1))
    then show ?thesis using asked by (simp add: client(1) all_asked_def)
  next
    case (restart i cfg os ns ms heap lines nd)
    have ok: "unix_ok (u_node s i)" using node [OF restart(2)] by blast
    note again = start_again_entries [OF ok restart(4,3,7)]
    show ?thesis
      unfolding restart(1) using again asked restart(2) by (intro all_asked_after) (simp_all add: all_asked_def)
  qed
qed

text \<open>The requests under way at some time of a run.\<close>

definition made_requests :: "u32 \<Rightarrow> ucluster \<Rightarrow> ucluster \<Rightarrow> proc_req_t set" where
  "made_requests n s t = {q. \<exists>u pkt. (ustep n)\<^sup>*\<^sup>* s u \<and> (ustep n)\<^sup>*\<^sup>* u t \<and> pkt \<in># u_net u \<and>
     m_body (decode_pkt pkt) = ProcReq q}"

lemma made_requests_grow: "(ustep n)\<^sup>*\<^sup>* t t' \<Longrightarrow> made_requests n s t \<subseteq> made_requests n s t'"
  unfolding made_requests_def by (auto intro: rtranclp_trans)

lemma made_requests_now:
  "(ustep n)\<^sup>*\<^sup>* s t \<Longrightarrow> pkt \<in># u_net t \<Longrightarrow> m_body (decode_pkt pkt) = ProcReq q \<Longrightarrow> q \<in> made_requests n s t"
  unfolding made_requests_def by blast

lemma ustart_entries:
  assumes "ustart n s" and "i < n"
  shows "node_entries (u_node s i) = []"
proof -
  obtain cfg heap ns ms lines os where c: "node_cfg n i cfg" "wf_os os"
    "start_node cfg (disk []) (disk []) (disk []) heap ns ms lines os = Some (u_node s i)"
    using assms unfolding ustart_def by blast
  then have "unix_view (u_node s i) = a_boot i n [] 0 PF_NO_VOTE_V ns ms"
    using start_node_fresh [of os cfg heap ns ms lines] by (auto simp: node_cfg_def)
  then have "a_log (unix_view (u_node s i)) = []" by (simp add: a_boot_def)
  then show ?thesis by (simp add: view_fields node_entries_def)
qed

lemma run_asked:
  assumes start: "ustart n s" and run: "(ustep n)\<^sup>*\<^sup>* s t" and n: "n \<le> PF_NO_VOTE_V"
  shows "all_asked n (made_requests n s t) t"
  using run
proof (induction rule: rtranclp_induct)
  case base
  then show ?case using start ustart_entries [OF start] by (simp add: all_asked_def ustart_def)
next
  case (step t1 t2)
  obtain a1 where a1: "creach n a1" "sim n t1 a1" using run_sim [OF start step.hyps(1) n] .
  have run2: "(ustep n)\<^sup>*\<^sup>* s t2" using step.hyps by (rule rtranclp.rtrancl_into_rtrancl)
  obtain a2 where a2: "creach n a2" "sim n t2 a2" using run_sim [OF start run2 n] .
  show ?case
  proof (rule ustep_asked [OF step.hyps(2)])
    have "(ustep n)\<^sup>*\<^sup>* t1 t2" using step.hyps(2) by blast
    then show "all_asked n (made_requests n s t2) t1"
      using all_asked_mono [OF step.IH] made_requests_grow by blast
    show "unix_ok (u_node t1 i) \<and> outbox (u_node t1 i) = []" if "i < n" for i
      using that a1(2) sim_outbox [OF a1(2,1) n that] by (simp add: sim_def)
    show "leads_well n (unix_view (u_node t2 i))" if "i < n" for i
      by (rule sim_leads_well [OF a2(2,1) n that])
  qed (rule made_requests_now [OF run2])
qed

lemma entry_requested:
  assumes "ustart n s" and "(ustep n)\<^sup>*\<^sup>* s t" and "n \<le> PF_NO_VOTE_V" and "i < n"
    and "e \<in> set (node_entries (u_node t i))"
  shows "request_of e \<in> made_requests n s t"
  using run_asked [OF assms(1-3)] assms(4,5) by (auto simp: all_asked_def)

end
