(* ===== verification/Socket_Answers.thy ===== *)
theory Socket_Answers
  imports Socket_Cluster Answers Requests
begin

text \<open>
  \<open>Answers\<close> and \<open>Requests\<close> over sockets: what it means that a client program got an answer, and
  where the entries of the logs come from.
\<close>

section \<open>What a step writes\<close>

lemma wstep_written:
  assumes step: "wstep n w w'" and sim: "wsim n w u" and new: "mem \<in># all_written w'"
  obtains (old) "mem \<in># all_written w"
  | (node) "mem_pkt mem \<in># pending n w"
  | (client) k s where "client_pkt (mem_pkt mem)" and "k < length (w_socks w)" and "k \<notin> w_of w ` {..<n}"
      and "w' = put_sock k s w" and "mem \<in> set (sock_written s)"
proof -
  have socks: "sock_ok (w_socks w ! k)" if "k < length (w_socks w)" for k
    using sim that by (simp add: wsim_def nodes_sim_def)
  have of: "w_of w i < length (w_socks w)" if "i < n" for i
    using sim that by (simp add: wsim_def nodes_sim_def)
  from step show thesis
  proof (cases rule: wstep.cases)
    case (iteration i r m s)
    note law = sock.receive_law [OF socks [OF of [OF iteration(2)]] iteration(5)]
    have "all_written w' = all_written w"
      using put_written [OF of [OF iteration(2)], of s "[]"] law by (simp add: iteration(1))
    then show thesis using new old by simp
  next
    case (sending i pkt pkts pad r s)
    have ok: "unix_ok (w_node w i)" using sim sending(2) by (simp add: wsim_def nodes_sim_def)
    then have wf: "wf_pkt pkt" using sending(3) by (simp add: unix_ok_def)
    note mem = mem_pkt_mem [OF wf sending(4)]
    note law = sock.send_law [OF socks [OF of [OF sending(2)]] mem(2) sending(5)]
    have "all_written w' = all_written w + (if r = 0 then {#pkt_mem pad pkt#} else {#})"
      using put_written [OF of [OF sending(2)], of s "if r = 0 then [pkt_mem pad pkt] else []"] law
      by (simp add: sending(1))
    moreover have "pkt \<in># pending n w"
      using put_pending [OF sending(2), of "(w_node w i)\<lparr>outbox := pkts\<rparr>" w] sending(3)
      by (simp flip: add_mset_add_single) (metis union_single_eq_member)
    ultimately show thesis using new old node mem(1) by (auto split: if_splits)
  next
    case (again i cfg os ns ms s heap lines nd)
    have "all_written w' = all_written w"
      using new_sock_fresh(2) [OF again(7)] by (simp add: again(1) all_written_def put_node_def)
    then show thesis using new old by simp
  next
    case (client_start s)
    then have "all_written w' = all_written w" using new_sock_fresh(2) by (simp add: all_written_def)
    then show thesis using new old by simp
  next
    case (client_send k m r s)
    note law = sock.send_law [OF socks [OF client_send(2)] client_send(4,6)]
    have "all_written w' = all_written w + (if r = 0 then {#m#} else {#})"
      using put_written [OF client_send(2), of s "if r = 0 then [m] else []"] law by (simp add: client_send(1))
    then consider "mem \<in># all_written w" | "mem = m" "r = 0" using new by (auto split: if_splits)
    then show thesis
    proof cases
      case 2
      then show thesis using client [OF _ client_send(2,3,1)] client_send(5) law by simp
    qed (rule old)
  next
    case (client_receive k timeout r m s)
    note law = sock.receive_law [OF socks [OF client_receive(2)] client_receive(4)]
    have "all_written w' = all_written w"
      using put_written [OF client_receive(2), of s "[]"] law by (simp add: client_receive(1))
    then show thesis using new old by simp
  qed
qed

section \<open>Answers\<close>

definition told :: "wire \<Rightarrow> proc_res_t \<Rightarrow> bool" where
  "told w r \<longleftrightarrow> (\<exists>s \<in> set (w_socks w). \<exists>mem \<in> set (sock_delivered s).
     m_body (decode_pkt (mem_pkt mem)) = ProcRes r)"

definition wire_sound :: "u32 \<Rightarrow> wire \<Rightarrow> ucluster \<Rightarrow> cluster \<Rightarrow> bool" where
  "wire_sound n w u a \<longleftrightarrow> wsim n w u \<and> sim n u a \<and> creach n a \<and>
     (\<forall>mem. mem \<in># all_written w \<longrightarrow> sound_answer n a (decode_pkt (mem_pkt mem)))"

lemma client_sound: "client_pkt pkt \<Longrightarrow> sound_answer n a (decode_pkt pkt)"
  using decode_client [of pkt] by (auto simp: from_client_def sound_answer_def split: rpc_msg.splits)

lemma wire_sound_step:
  assumes "tstep n w w'" and sound: "wire_sound n w u a" and n: "n \<le> PF_NO_VOTE_V"
  shows "\<exists>v b. wire_sound n w' v b \<and> (cstep n)\<^sup>*\<^sup>* a b"
proof -
  have step: "wstep n w w'" "tcp w'" using assms(1) by (simp_all add: tstep_def)
  have sim: "wsim n w u" "sim n u a" "creach n a" using sound by (simp_all add: wire_sound_def)
  obtain v where v: "(ustep n)\<^sup>*\<^sup>* u v" "wsim n w' v" using wsim_step [OF step sim(1)] by blast
  obtain b where b: "(cstep n)\<^sup>*\<^sup>* a b" "creach n b" "sim n v b" using usteps_sim [OF v(1) sim(2,3) n] by blast
  have keep: "sound_answer n b m" if "sound_answer n a m" for m
    using sound_answer_grows [OF that] csteps_keep [OF b(1) sim(3) n] by blast
  have "sound_answer n b (decode_pkt (mem_pkt mem))" if "mem \<in># all_written w'" for mem
    using step(1) sim(1) that
  proof (cases rule: wstep_written)
    case old
    then show ?thesis using keep sound by (simp add: wire_sound_def)
  next
    case node
    then have "mem_pkt mem \<in># u_net u" using sim(1) by (simp add: wsim_def net_sim_def)
    then have "decode_pkt (mem_pkt mem) \<in># cl_net a" using sim(2) by (simp add: sim_def)
    then show ?thesis using keep creach_sound_answers [OF sim(3) n] by blast
  next
    case (client k s)
    then show ?thesis using client_sound by blast
  qed
  then show ?thesis using v(2) b unfolding wire_sound_def by blast
qed

lemma wire_sound_run:
  assumes "(tstep n)\<^sup>*\<^sup>* w w'" and "wire_sound n w u a" and n: "n \<le> PF_NO_VOTE_V"
  shows "\<exists>v b. wire_sound n w' v b \<and> (cstep n)\<^sup>*\<^sup>* a b"
  using assms(1)
proof (induction rule: rtranclp_induct)
  case base
  then show ?case using assms(2) by blast
next
  case (step w1 w2)
  then show ?case using wire_sound_step [OF step.hyps(2) _ n] by (meson rtranclp_trans)
qed

lemma wire_sound_start:
  assumes "wstart n w"
  obtains u a where "wire_sound n w u a"
proof -
  note start = wstart_sim [OF assms]
  obtain a where a: "sim n \<lparr>u_node = w_node w, u_net = {#}\<rparr> a" "cstart n a" using ustart_sim [OF start(1)] .
  have "all_written w = {#}" using assms new_sock_fresh by (auto simp: wstart_def all_written_def)
  then show thesis
    using that start(2) a(1) creach.start [OF a(2)] by (simp add: wire_sound_def)
qed

lemma survives_cong:
  assumes "\<And>i. i < n \<Longrightarrow> f i = (g i)\<lparr>outbox := []\<rparr>"
  shows "survives n f T k e \<longleftrightarrow> survives n g T k e"
proof -
  have "of_nat v < n" if "v < unat n" for v
    using that unsigned_less [of n, where 'a = nat] by (simp add: word_less_nat_alt unat_of_nat take_bit_nat_eq_self)
  then have "holders n f k e = holders n g k e"
    unfolding holders_def by (intro arg_cong [where f = length] filter_cong) (auto simp: assms has_entry_def)
  moreover have "role (f i) = role (g i) \<and> node_term (f i) = node_term (g i) \<and>
      commit_index (f i) = commit_index (g i) \<and> has_entry (f i) k e = has_entry (g i) k e" if "i < n" for i
    using assms [OF that] by (simp add: has_entry_def)
  ultimately show ?thesis by (auto simp: survives_def)
qed

lemma told_answer_survives:
  assumes "wstart n w" and "(tstep n)\<^sup>*\<^sup>* w w1" and n: "n \<le> PF_NO_VOTE_V"
    and "told w1 r" and "ps_success r \<noteq> 0"
  shows "\<exists>k e. answer_for r e \<and> (\<forall>w2. (tstep n)\<^sup>*\<^sup>* w1 w2 \<longrightarrow> survives n (w_node w2) (ps_term r) k e)"
proof -
  obtain u0 a0 where "wire_sound n w u0 a0" using assms(1) by (rule wire_sound_start)
  then obtain u a where sound: "wire_sound n w1 u a" using wire_sound_run [OF assms(2) _ n] by blast
  obtain s mem where mem: "s \<in> set (w_socks w1)" "mem \<in> set (sock_delivered s)"
    "m_body (decode_pkt (mem_pkt mem)) = ProcRes r" using assms(4) by (auto simp: told_def)
  have "mem \<in># all_delivered w1" using mem(1,2) by (auto simp: all_delivered_def)
  moreover have "all_delivered w1 \<subseteq># all_written w1" using sound by (simp add: wire_sound_def wsim_def net_sim_def)
  ultimately have "mem \<in># all_written w1" by (metis mset_subset_eqD)
  then have "sound_answer n a (decode_pkt (mem_pkt mem))" using sound by (simp add: wire_sound_def)
  then obtain k e where e: "answer_for r e" "settled n a (ps_term r) k e"
    using mem(3) assms(5) by (auto simp: sound_answer_def)
  have "survives n (w_node w2) (ps_term r) k e" if run: "(tstep n)\<^sup>*\<^sup>* w1 w2" for w2
  proof -
    obtain v b where b: "wire_sound n w2 v b" "(cstep n)\<^sup>*\<^sup>* a b" using wire_sound_run [OF run sound n] by blast
    have "creach n a" using sound by (simp add: wire_sound_def)
    then have "settled n b (ps_term r) k e" using settled_grows [OF e(2)] csteps_keep [OF b(2) _ n] by blast
    then have "survives n (u_node v) (ps_term r) k e" using b(1) n unfolding wire_sound_def by (blast intro: sim_survives)
    then show ?thesis
      using survives_cong [of n "u_node v" "w_node w2"] b(1) by (simp add: wire_sound_def wsim_def nodes_sim_def)
  qed
  then show ?thesis using e(1) by blast
qed

section \<open>Requests\<close>

text \<open>The requests that programs which are not nodes wrote to their connections.\<close>

definition client_requests :: "u32 \<Rightarrow> wire \<Rightarrow> proc_req_t set" where
  "client_requests n w = {q. \<exists>k mem. k < length (w_socks w) \<and> k \<notin> w_of w ` {..<n} \<and>
     mem \<in> set (sock_written (w_socks w ! k)) \<and> m_body (decode_pkt (mem_pkt mem)) = ProcReq q}"

lemma client_requests_put:
  assumes "set (sock_written (w_socks w ! k)) \<subseteq> set (sock_written s)"
  shows "client_requests n w \<subseteq> client_requests n (put_sock k s w)"
proof
  fix q
  assume "q \<in> client_requests n w"
  then obtain j mem where j: "j < length (w_socks w)" "j \<notin> w_of w ` {..<n}" "mem \<in> set (sock_written (w_socks w ! j))"
    "m_body (decode_pkt (mem_pkt mem)) = ProcReq q"
    unfolding client_requests_def by blast
  have "mem \<in> set (sock_written ((w_socks w)[k := s] ! j))"
    using j(1,3) assms by (cases "j = k") auto
  then show "q \<in> client_requests n (put_sock k s w)"
    using j unfolding client_requests_def by auto
qed

lemma client_requests_put_node [simp]: "client_requests n (put_node i nd w) = client_requests n w"
  by (simp add: client_requests_def)

lemma wstep_client_requests:
  assumes step: "wstep n w w'" and sim: "wsim n w u"
  shows "client_requests n w \<subseteq> client_requests n w'"
proof -
  have socks: "sock_ok (w_socks w ! k)" if "k < length (w_socks w)" for k
    using sim that by (simp add: wsim_def nodes_sim_def)
  have of: "w_of w i < length (w_socks w)" if "i < n" for i
    using sim that by (simp add: wsim_def nodes_sim_def)
  have more: "client_requests n w \<subseteq> client_requests n (put_sock k s w)"
    if "sock_written s = sock_written (w_socks w ! k) @ out" for k s out
    using client_requests_put [of w k s] that by simp
  have longer: "client_requests n w \<subseteq> client_requests n w'"
    if socks': "w_socks w' = w_socks w @ [s]" and of': "\<And>i. w_of w' i = w_of w i \<or> w_of w' i = length (w_socks w)"
    for s
  proof
    fix q
    assume "q \<in> client_requests n w"
    then obtain j mem where j: "j < length (w_socks w)" "j \<notin> w_of w ` {..<n}" "mem \<in> set (sock_written (w_socks w ! j))"
      "m_body (decode_pkt (mem_pkt mem)) = ProcReq q"
      unfolding client_requests_def by blast
    have "w_of w' i \<noteq> j" if "i < n" for i using of' [of i] j(1,2) that by auto
    then have "j \<notin> w_of w' ` {..<n}" by blast
    moreover have "w_socks w' ! j = w_socks w ! j" using socks' j(1) by (simp add: nth_append)
    ultimately show "q \<in> client_requests n w'"
      unfolding client_requests_def mem_Collect_eq using j socks' by (intro exI [of _ j] exI [of _ mem]) simp
  qed
  from step show ?thesis
  proof (cases rule: wstep.cases)
    case (iteration i r m s)
    note k = of [OF iteration(2)]
    show ?thesis
      using more [of s "w_of w i" "[]"] sock.receive_law [OF socks [OF k] iteration(5)] by (simp add: iteration(1))
  next
    case (sending i pkt pkts pad r s)
    note k = of [OF sending(2)]
    have "unix_ok (w_node w i)" using sim sending(2) by (simp add: wsim_def nodes_sim_def)
    then have "wf_pkt pkt" using sending(3) by (simp add: unix_ok_def)
    from mem_pkt_mem(2) [OF this sending(4)] show ?thesis
      using more sock.send_law [OF socks [OF k] _ sending(5)] by (simp add: sending(1))
  next
    case (again i cfg os ns ms s heap lines nd)
    show ?thesis by (rule longer) (auto simp: again(1) put_node_def)
  next
    case (client_start s)
    then show ?thesis by (intro longer) auto
  next
    case (client_send k m r s)
    show ?thesis
      using more sock.send_law [OF socks [OF client_send(2)] client_send(4,6)]
      by (simp add: client_send(1))
  next
    case (client_receive k timeout r m s)
    show ?thesis
      using more [of s k "[]"] sock.receive_law [OF socks [OF client_receive(2)] client_receive(4)]
      by (simp add: client_receive(1))
  qed
qed

definition node_asked :: "proc_req_t set \<Rightarrow> unix_node \<Rightarrow> bool" where
  "node_asked R nd \<longleftrightarrow> requests (node_entries nd) \<subseteq> R \<and> (\<forall>p \<in> set (outbox nd). asked_in R (decode_pkt p))"

definition wire_asked :: "u32 \<Rightarrow> proc_req_t set \<Rightarrow> wire \<Rightarrow> bool" where
  "wire_asked n R w \<longleftrightarrow>
     (\<forall>i. i < n \<longrightarrow> node_asked R (w_node w i)) \<and>
     (\<forall>mem. mem \<in># all_written w \<longrightarrow> asked_in R (decode_pkt (mem_pkt mem)))"

lemma sum_member: "p \<in># (\<Sum>k<m. f k) \<Longrightarrow> \<exists>k<m. p \<in># f k" for m :: nat
  by (induction m) (auto simp: less_Suc_eq)

lemma pending_member: "p \<in># pending n w \<Longrightarrow> \<exists>i. i < n \<and> p \<in> set (outbox (w_node w i))"
proof -
  assume "p \<in># pending n w"
  then obtain k where k: "k < unat n" "p \<in> set (outbox (w_node w (of_nat k)))"
    using sum_member [of p "\<lambda>k. mset (outbox (w_node w (of_nat k)))"] by (auto simp: pending_def)
  then have "(of_nat k :: u32) < n"
    using unsigned_less [of n, where 'a = nat] by (simp add: word_less_nat_alt unat_of_nat take_bit_nat_eq_self)
  then show ?thesis using k(2) by blast
qed

text \<open>The nodes: what a step leaves in their logs and outboxes.\<close>

lemma wstep_nodes_asked:
  assumes step: "wstep n w w'" "tcp w'" and sim: "wsim n w u" and asked: "wire_asked n R w"
    and lead: "\<And>i. i < n \<Longrightarrow> leads_well n (unix_view (w_node w' i))" and j: "j < n"
  shows "node_asked R (w_node w' j)"
proof -
  have old: "node_asked R (w_node w i)" if "i < n" for i using asked that by (simp add: wire_asked_def)
  have ok: "unix_ok (w_node w i)" if "i < n" for i using sim that by (simp add: wsim_def nodes_sim_def)
  from step(1) show ?thesis
  proof (cases rule: wstep.cases)
    case (iteration i r m s)
    let ?nd = "raft_run_step (r, mem_pkt m) (w_node w i)"
    have k: "w_of w i < length (w_socks w)" "sock_ok (w_sock w i)"
      using sim iteration(2) by (simp_all add: wsim_def nodes_sim_def)
    note law = sock.receive_law [OF k(2) iteration(5)]
    have got: "r = 1 \<longrightarrow> asked_in R (decode_pkt (mem_pkt m))"
    proof
      assume "r = 1"
      then have "all_delivered w' = all_delivered w + {#m#}" "all_written w' = all_written w"
        using put_delivered [OF k(1), of s "[m]"] put_written [OF k(1), of s "[]"] law by (simp_all add: iteration(1))
      then have "all_delivered w + {#m#} \<subseteq># all_written w" using tcp_delivered [OF step(2)] by simp
      then have "m \<in># all_written w" by (rule mset_subset_eqD) simp
      then show "asked_in R (decode_pkt (mem_pkt m))" using asked by (simp add: wire_asked_def)
    qed
    have r: "r = 0 \<or> r = 1 \<or> r = -1" using law by auto
    have "requests (node_entries (w_node w i)) \<subseteq> R" using old [OF iteration(2)] by (simp add: node_asked_def)
    moreover have "leads_well n (unix_view ?nd)" using lead [OF iteration(2)] by (simp add: iteration(1))
    ultimately have "node_asked R ?nd"
      unfolding node_asked_def using step_requests [OF ok [OF iteration(2)] r iteration(6) got iteration(4)] by blast
    then show ?thesis using old [OF j] by (simp add: iteration(1))
  next
    case (sending i pkt pkts pad r s)
    have "node_asked R ((w_node w i)\<lparr>outbox := pkts\<rparr>)" using old [OF sending(2)] sending(3) by (simp add: node_asked_def)
    then show ?thesis using old [OF j] by (simp add: sending(1))
  next
    case (again i cfg os ns ms s heap lines nd)
    have "node_asked R nd"
      using old [OF again(2)] start_again_entries [OF ok [OF again(2)] again(4,3,8)] by (simp add: node_asked_def)
    then show ?thesis using old [OF j] by (simp add: again(1) put_node_def)
  qed (use old [OF j] in simp_all)
qed

lemma wstep_asked:
  assumes step: "wstep n w w'" "tcp w'" and sim: "wsim n w u" and asked: "wire_asked n (client_requests n w) w"
    and lead: "\<And>i. i < n \<Longrightarrow> leads_well n (unix_view (w_node w' i))"
  shows "wire_asked n (client_requests n w') w'"
proof -
  let ?R = "client_requests n w'"
  have "wire_asked n ?R w"
    using asked asked_in_mono wstep_client_requests [OF step(1) sim] unfolding wire_asked_def node_asked_def
    by (meson order_trans)
  note nodes = wstep_nodes_asked [OF step sim this lead] and asked' = this
  have "asked_in ?R (decode_pkt (mem_pkt mem))" if "mem \<in># all_written w'" for mem
    using step(1) sim that
  proof (cases rule: wstep_written)
    case old
    then show ?thesis using asked' by (simp add: wire_asked_def)
  next
    case node
    then obtain i where "i < n" "mem_pkt mem \<in> set (outbox (w_node w i))" using pending_member by blast
    then show ?thesis using asked' by (simp add: wire_asked_def node_asked_def)
  next
    case (client k s)
    have "q \<in> ?R" if "m_body (decode_pkt (mem_pkt mem)) = ProcReq q" for q
      unfolding client(4) client_requests_def mem_Collect_eq using client(2,3,5) that
      by (intro exI [of _ k] exI [of _ mem]) simp
    then show ?thesis unfolding client_asked [OF client(1)] by blast
  qed
  then show ?thesis using nodes by (simp add: wire_asked_def)
qed

lemma wire_asked_run:
  assumes start: "wstart n w" and run: "(tstep n)\<^sup>*\<^sup>* w w'" and n: "n \<le> PF_NO_VOTE_V"
  shows "wire_asked n (client_requests n w') w'"
  using run
proof (induction rule: rtranclp_induct)
  case base
  note sim = wstart_sim [OF start]
  have "outbox (w_node w i) = []" if "i < n" for i by (rule wstart_up(2) [OF start that])
  moreover have "node_entries (w_node w i) = []" if "i < n" for i using ustart_entries [OF sim(1) that] by simp
  moreover have "all_written w = {#}" using start new_sock_fresh by (auto simp: wstart_def all_written_def)
  ultimately show ?case by (simp add: wire_asked_def node_asked_def)
next
  case (step w1 w2)
  have tstep: "wstep n w1 w2" "tcp w2" using step.hyps(2) by (simp_all add: tstep_def)
  have run2: "(tstep n)\<^sup>*\<^sup>* w w2" using step.hyps by (rule rtranclp.rtrancl_into_rtrancl)
  obtain u0 a0 where s0: "wire_sound n w u0 a0" using start by (rule wire_sound_start)
  obtain u a where "wire_sound n w1 u a" using wire_sound_run [OF step.hyps(1) s0 n] by blast
  then have sim: "wsim n w1 u" by (simp add: wire_sound_def)
  obtain v b where b: "wire_sound n w2 v b" using wire_sound_run [OF run2 s0 n] by blast
  have lead: "leads_well n (unix_view (w_node w2 i))" if i: "i < n" for i
  proof -
    have "leads_well n (unix_view (u_node v i))" using b unfolding wire_sound_def by (blast intro: sim_leads_well [OF _ _ n i])
    moreover have "u_node v i = (w_node w2 i)\<lparr>outbox := []\<rparr>" using b i by (simp add: wire_sound_def wsim_def nodes_sim_def)
    ultimately show ?thesis by (simp add: leads_well_cong)
  qed
  show ?case by (rule wstep_asked [OF tstep sim step.IH lead])
qed

lemma socket_entry_requested:
  assumes "wstart n w" and "(tstep n)\<^sup>*\<^sup>* w w'" and "n \<le> PF_NO_VOTE_V" and "i < n"
    and "e \<in> set (node_entries (w_node w' i))"
  shows "request_of e \<in> client_requests n w'"
  using wire_asked_run [OF assms(1-3)] assms(4,5) by (auto simp: wire_asked_def node_asked_def)

end
