(* ===== verification/Socket_Run.thy ===== *)
theory Socket_Run
  imports Socket_Answers
begin

text \<open>
  A run of two nodes and a client over sockets, from the start on empty disks to the answer the
  client gets: node 0 is elected, the client sends a request, both nodes write the entry, node 0
  commits it and answers. Every system call of the three programs is answered by a script, and
  what each program reads is what another wrote.
\<close>

section \<open>Calls that go well\<close>

text \<open>The answers for a send, for one after a connect, for one whose time is over at once.\<close>

definition to_send :: "int \<Rightarrow> sys_answer list" where
  "to_send fd = [answer, answer, answer\<lparr>sa_ret := 1, sa_wfds := [fd]\<rparr>, answer, answer\<lparr>sa_ret := 1040\<rparr>]"

definition to_connect :: "int \<Rightarrow> sys_answer list" where
  "to_connect fd = [answer\<lparr>sa_fd := fd\<rparr>, answer] @ to_send fd"

definition too_late :: "sys_answer list" where
  "too_late = [answer, answer\<lparr>sa_usec := 10 ^ 10\<rparr>]"

text \<open>The answers for a packet that arrives, on an open connection and on a new one, and for silence.\<close>

definition to_read :: "int \<Rightarrow> u8 list \<Rightarrow> sys_answer list" where
  "to_read fd mem = [answer, answer\<lparr>sa_ret := 1, sa_rfds := [fd]\<rparr>, answer\<lparr>sa_data := mem\<rparr>]"

definition to_accept :: "int \<Rightarrow> u8 list \<Rightarrow> sys_answer list" where
  "to_accept fd mem = [answer, answer\<lparr>sa_ret := 1, sa_rfds := [3]\<rparr>, answer\<lparr>sa_fd := fd\<rparr>, answer] @ to_read fd mem"

definition silence :: "sys_answer list" where
  "silence = [answer, answer, answer]"

text \<open>
  The socket of one of the programs. Node 0 listens at \<open>a:1\<close>, node 1 at \<open>b:2\<close>, the client at \<open>c:3\<close>;
  the listening descriptor is 3.
\<close>

definition talk_prog :: "u32 \<Rightarrow> sys_answer list \<Rightarrow> event list \<Rightarrow> int list \<Rightarrow> int list \<Rightarrow> int list \<Rightarrow> sock_t" where
  "talk_prog i script tr peers clients fds = \<lparr>sy_script = script, sy_trace = tr, so_my_id = i,
     so_num_nodes = (if i = 2 then 3 else 2),
     so_peer_addrs = take (if i = 2 then 3 else 2) [''a:1'', ''b:2'', ''c:3''], so_listen_fd = 3,
     so_connect_timeout_ms = 5000, so_peer_fds = peers, so_client_fds = clients, so_active = fds,
     so_pton = (\<lambda>_. Some 0)\<rparr>"

abbreviation no_fds :: "int list" where
  "no_fds \<equiv> replicate MAX_CONNECTIONS (-1)"

lemmas run_addrs = parse_addr_def atoi_def take_sign_def digits_value_def is_space_def is_digit_def

lemma talk_prog_init:
  assumes "i < 3"
  shows "new_sock (talk_prog i script [Opened 3] (replicate (if i = 2 then 3 else 2) (-1)) no_fds [])"
proof -
  let ?sys = "\<lparr>sy_script = answer\<lparr>sa_fd := 3\<rparr> # answer # script, sy_trace = []\<rparr>"
  let ?peers = "[''a:1'', ''b:2'', ''c:3'']"
  have cases: "i = 0 \<or> i = 1 \<or> i = 2" using assms by (auto simp: word_less_nat_alt word_unat_eq_iff)
  have "transport_socket_init i ?peers (if i = 2 then 3 else 2) 5000 (\<lambda>_. Some 0) ?sys =
      Done (Inr \<lparr>t_send = socket_send, t_receive = socket_receive, t_context =
        talk_prog i script [Opened 3] (replicate (if i = 2 then 3 else 2) (-1)) no_fds []\<rparr>)"
    using cases by (elim disjE) (simp_all add: transport_socket_init_def run_addrs run_socket talk_prog_def)
  moreover have "sy_trace ?sys = []" by simp
  ultimately show ?thesis unfolding new_sock_def using transport_t.select_convs(3) by metis
qed

text \<open>Sending on an open connection.\<close>

lemma send_open:
  assumes dst: "fd_of_dst (h_dst (pkt_header (mem_pkt mem))) s = Done (fd, talk_prog i (to_send fd @ script) tr ps cs fds)"
    and "fd_ok fd" and "is_open fd tr" and "length mem = sizeof_pkt"
  shows "socket_send mem s = Done (0, talk_prog i script (Sent fd mem # Waited 100000 # tr) ps cs fds)"
  using assms by (simp add: socket_send_def to_send_def talk_prog_def run_socket wait_writable.simps send_all.simps
      sizeof_pkt_def)

lemma send_late:
  assumes dst: "fd_of_dst (h_dst (pkt_header (mem_pkt mem))) s = Done (fd, talk_prog i (too_late @ script) tr ps cs fds)"
    and "fd_ok fd"
  shows "socket_send mem s = Done (-1, talk_prog i script tr ps cs fds)"
  using assms by (simp add: socket_send_def too_late_def talk_prog_def run_socket wait_writable.simps)

lemma read_open:
  assumes "fds ! k = fd" and "k < length fds" and "\<And>j. j < k \<Longrightarrow> fds ! j \<noteq> fd" and "fd \<noteq> 3"
    and "list_all fd_ok fds" and "is_open fd tr" and "length mem = sizeof_pkt"
  shows "\<exists>d. receive_loop t (talk_prog i (to_read fd mem @ script) tr ps cs fds) =
    Done (1, mem, register_source (h_src (pkt_header (mem_pkt mem))) fd
      (talk_prog i script (Got fd mem # Waited d # tr) ps cs fds))"
proof -
  have scan: "scan_active t ready j (talk_prog i (answer\<lparr>sa_data := mem\<rparr> # script) tr ps cs fds) =
      Done (Inr (mem, register_source (h_src (pkt_header (mem_pkt mem))) fd
        (talk_prog i script (Got fd mem # tr) ps cs fds)))"
    if "j \<le> k" "is_open fd tr" "set ready = {fd}" for j tr ready
    using that(1)
  proof (induction "k - j" arbitrary: j)
    case 0
    then have "j = k" by simp
    then show ?case
      using assms(1,2,7) that(2,3)
      by (simp add: scan_active.simps read_pkt.simps run_socket talk_prog_def sizeof_pkt_def)
  next
    case (Suc m)
    then show ?case
      using assms(2,3) that(3) Suc.hyps(1) [of "Suc j"]
      by (subst scan_active.simps) (simp add: talk_prog_def)
  qed
  define ready where "ready = filter (\<lambda>f. f \<in> set [fd]) (3 # fds)"
  have ready: "set ready = {fd}" "ready = filter (\<lambda>f. f = fd) fds" using assms(1,2,4) by (auto simp: ready_def)
  obtain d where "receive_loop t (talk_prog i (to_read fd mem @ script) tr ps cs fds) =
      on_done (scan_active t ready 0 (talk_prog i (answer\<lparr>sa_data := mem\<rparr> # script) (Waited d # tr) ps cs fds))
        (\<lambda>res. case res of Inl s \<Rightarrow> receive_loop t s | Inr (pkt, s) \<Rightarrow> Done (1, pkt, s))"
    using assms(4,5) ready
    by (subst (asm) receive_loop.simps) (simp add: to_read_def run_socket talk_prog_def)
  then show ?thesis using scan [of 0 "Waited d # tr" ready] ready(1) assms(6) by auto
qed

lemma read_new:
  assumes "fd_ok fd" and "\<not> is_open fd tr" and "fd \<notin> set fds" and "fd \<noteq> 3" and "length fds < MAX_CONNECTIONS"
    and "list_all fd_ok fds" and "length mem = sizeof_pkt"
  shows "\<exists>d e. receive_loop t (talk_prog i (to_accept fd mem @ script) tr ps cs fds) =
    Done (1, mem, register_source (h_src (pkt_header (mem_pkt mem))) fd
      (talk_prog i script (Got fd mem # Waited d # Opened fd # Waited e # tr) ps cs (fds @ [fd])))"
proof -
  have open3: "accept_all (talk_prog i (answer\<lparr>sa_fd := fd\<rparr> # answer # script) tr ps cs fds) =
      Done (talk_prog i script (Opened fd # tr) ps cs (fds @ [fd]))" if "\<not> is_open fd tr" for tr script
    using that assms(1,5)
    by (simp add: accept_all.simps run_socket talk_prog_def accept_one_def add_active_fd_def)
  obtain e where "receive_loop t (talk_prog i (to_accept fd mem @ script) tr ps cs fds) =
      receive_loop t (talk_prog i (to_read fd mem @ script) (Opened fd # Waited e # tr) ps cs (fds @ [fd]))"
  proof
    have ok: "list_all fd_ok (3 # fds)" using assms(6) by (simp add: fd_ok_def FD_SETSIZE_def)
    show "receive_loop t (talk_prog i (to_accept fd mem @ script) tr ps cs fds) =
      receive_loop t (talk_prog i (to_read fd mem @ script) (Opened fd # Waited (time_left 0 t) # tr) ps cs (fds @ [fd]))"
      using open3 [of "Waited (time_left 0 t) # tr" "to_read fd mem @ script"] assms(2) ok
      by (subst receive_loop.simps) (simp add: to_accept_def call_defs Let_def note_event_def talk_prog_def)
  qed
  moreover have "\<exists>d. receive_loop t (talk_prog i (to_read fd mem @ script) (Opened fd # Waited e # tr) ps cs (fds @ [fd])) =
    Done (1, mem, register_source (h_src (pkt_header (mem_pkt mem))) fd
      (talk_prog i script (Got fd mem # Waited d # Opened fd # Waited e # tr) ps cs (fds @ [fd])))"
    by (rule read_open [where k = "length fds"]) (use assms in \<open>auto simp: nth_append in_set_conv_nth\<close>)
  ultimately show ?thesis by auto
qed

lemma receive_starts:
  "socket_receive ms (talk_prog i (answer # script) tr ps cs fds) =
     receive_loop (ucast ms * 1000) (talk_prog i script tr ps cs fds)"
  by (simp add: socket_receive_def run_socket talk_prog_def)

lemma receive_silence:
  assumes "list_all fd_ok fds"
  shows "\<exists>d. socket_receive ms (talk_prog i (silence @ script) tr ps cs fds) =
    Done (0, [], talk_prog i script (Waited d # tr) ps cs fds)"
  using assms by (simp add: socket_receive_def silence_def run_socket talk_prog_def receive_loop.simps)

text \<open>The tables of connections.\<close>

lemma source_is_peer:
  assumes "src < (if i = 2 then 3 else 2)" and "ps ! unat src = -1 \<or> ps ! unat src = fd"
  shows "register_source src fd (talk_prog i script tr ps cs fds) =
    talk_prog i script tr (ps[unat src := fd]) cs fds"
  using assms by (auto simp: register_source_def replace_fd_def talk_prog_def Let_def not_le)

lemma source_is_client:
  assumes "i < 2" and "2 \<le> src" and "cs ! (unat src mod MAX_CONNECTIONS) = -1"
  shows "register_source src fd (talk_prog i script tr ps cs fds) =
    talk_prog i script tr ps (cs[unat src mod MAX_CONNECTIONS := fd]) fds"
  using assms by (auto simp: register_source_def replace_fd_def talk_prog_def Let_def)

lemma dst_connected:
  assumes "dst < 2" and "ps ! unat dst \<noteq> -1"
  shows "fd_of_dst dst (talk_prog i script tr ps cs fds) = Done (ps ! unat dst, talk_prog i script tr ps cs fds)"
proof -
  have "dst < 3" using assms(1) by (rule order_less_trans) simp
  then show ?thesis using assms by (simp add: fd_of_dst_def talk_prog_def Let_def)
qed

lemma dst_client:
  assumes "i < 2" and "2 \<le> dst"
  shows "fd_of_dst dst (talk_prog i script tr ps cs fds) =
    Done (cs ! (unat dst mod MAX_CONNECTIONS), talk_prog i script tr ps cs fds)"
  using assms by (auto simp: fd_of_dst_def talk_prog_def)

lemma dst_new:
  assumes "dst < 2" and "ps ! unat dst = -1" and "0 \<le> fd" and "\<not> is_open fd tr" and "length fds < MAX_CONNECTIONS"
  shows "fd_of_dst dst (talk_prog i (to_connect fd @ script) tr ps cs fds) =
    Done (fd, talk_prog i (to_send fd @ script) (Opened fd # tr) (ps[unat dst := fd]) cs (fds @ [fd]))"
proof -
  have "dst < 3" using assms(1) by (rule order_less_trans) simp
  moreover have "dst = 0 \<or> dst = 1" using assms(1) by (auto simp: word_less_nat_alt word_unat_eq_iff)
  moreover have "\<not> (3 :: u32) \<le> 1" "\<not> (2 :: u32) \<le> 1" by (simp_all add: word_le_nat_alt)
  ultimately show ?thesis
    using assms(2-5)
    by (elim disjE) (simp_all add: fd_of_dst_def connect_to_peer_def run_addrs run_socket talk_prog_def
      to_connect_def add_active_fd_def)
qed

section \<open>What the nodes do\<close>

text \<open>A node in the state \<open>A\<close> of the specification, and the packet it sends when it receives one.\<close>

definition node_at :: "unix_node \<Rightarrow> anode \<Rightarrow> bool" where
  "node_at nd A \<longleftrightarrow> unix_ok nd \<and> unix_view nd = A \<and> outbox nd = []"

lemma node_at_fields:
  assumes "node_at nd A"
  shows "role nd = a_role A" and "node_term nd = a_term A" and "commit_index nd = a_commit A" and "node_entries nd = a_log A"
  using assms view_fields [of nd] by (auto simp: node_at_def node_entries_def)

lemma node_replies:
  assumes "node_at nd A" and "replies (decode_pkt pkt) A B [m]"
  obtains p where "outbox (raft_run_step (1, pkt) nd) = [p]" and "decode_pkt p = m" and "wf_pkt p"
    and "node_at ((raft_run_step (1, pkt) nd)\<lparr>outbox := []\<rparr>) B" and "up nd" and "has_room (unix_view nd)"
proof -
  let ?nd = "raft_run_step (1, pkt) nd"
  have room: "has_room (unix_view nd)" and up: "up nd" and run: "a_receive (decode_pkt pkt) A = B\<lparr>a_out := [m]\<rparr>"
    and B: "a_out B = []"
    using assms by (simp_all add: node_at_def replies_def view_up)
  have ok: "unix_ok nd" "unix_view nd = A" using assms(1) by (simp_all add: node_at_def)
  note u = unix_receive [OF ok(1) room, of pkt]
  have view: "unix_view ?nd = B\<lparr>a_out := [m]\<rparr>" using u(2) ok(2) run by simp
  then obtain p where p: "outbox ?nd = [p]" "decode_pkt p = m" using sole_packet [of ?nd m] by auto
  have "wf_pkt p" using u(1) p(1) by (simp add: unix_ok_def)
  moreover have "node_at (?nd\<lparr>outbox := []\<rparr>) B" using u(1) view B by (simp add: node_at_def)
  ultimately show thesis using that p up room by blast
qed

lemma node_elects:
  obtains p where "outbox (raft_run_step (0, mem_pkt []) (demo_node 0)) = [p]" and "decode_pkt p = ask2" and "wf_pkt p"
    and "node_at ((raft_run_step (0, mem_pkt []) (demo_node 0))\<lparr>outbox := []\<rparr>) ((a_elect (boot2 0))\<lparr>a_out := []\<rparr>)"
proof -
  let ?nd = "raft_run_step (0, mem_pkt []) (demo_node 0)"
  note n = demo_node [of 0]
  have "role (demo_node 0) = FOLLOWER" using n(3) by (simp add: view_role boot2_def a_boot_def)
  moreover have "uses_random_timeout (demo_node 0)" using n(4) by (simp add: uses_random_timeout_def demo_cfg_def)
  ultimately have view: "unix_ok ?nd" "unix_view ?nd = a_elect (boot2 0)"
    using unix_timeout(1) [OF n(2)] unix_timeout_random [OF n(2)] n(3) by simp_all
  then have "a_out (unix_view ?nd) = [ask2]" using demo_elect(1) by simp
  then obtain p where p: "outbox ?nd = [p]" "decode_pkt p = ask2" by (rule sole_packet)
  have "wf_pkt p" using view(1) p(1) by (simp add: unix_ok_def)
  moreover have "node_at (?nd\<lparr>outbox := []\<rparr>) ((a_elect (boot2 0))\<lparr>a_out := []\<rparr>)" using view by (simp add: node_at_def)
  ultimately show thesis using that p by blast
qed

lemma demo_node_at: "node_at (demo_node i) (boot2 i)"
  using demo_node(2,3) [of i] unix_view_out [of "demo_node i"] by (simp add: node_at_def boot2_def a_boot_def)

section \<open>Rounds\<close>

definition does :: "unix_node \<Rightarrow> pkt_t \<Rightarrow> pkt_t \<Rightarrow> unix_node \<Rightarrow> bool" where
  "does nd pkt p nd' \<longleftrightarrow> outbox nd = [] \<and> up nd \<and> has_room (unix_view nd) \<and>
     outbox (raft_run_step (1, pkt) nd) = [p] \<and> wf_pkt p \<and> nd' = (raft_run_step (1, pkt) nd)\<lparr>outbox := []\<rparr>"

abbreviation mem_of :: "pkt_t \<Rightarrow> u8 list" where
  "mem_of p \<equiv> pkt_mem [0, 0, 0] p"

lemma mem_of [simp]:
  "wf_pkt p \<Longrightarrow> mem_pkt (mem_of p) = p" "wf_pkt p \<Longrightarrow> length (mem_of p) = sizeof_pkt"
  using mem_pkt_mem [of p "[0, 0, 0]"] by simp_all

definition talk_wire :: "unix_node \<Rightarrow> unix_node \<Rightarrow> sock_t \<Rightarrow> sock_t \<Rightarrow> sock_t \<Rightarrow> wire" where
  "talk_wire a b s t c = \<lparr>w_node = (\<lambda>_. demo_node 0)(0 := a, 1 := b), w_of = unat, w_socks = [s, t, c]\<rparr>"

lemma talk_wire [simp]:
  "w_node (talk_wire a b s t c) 0 = a" "w_node (talk_wire a b s t c) 1 = b" "w_of (talk_wire a b s t c) = unat"
  "w_socks (talk_wire a b s t c) = [s, t, c]"
  by (simp_all add: talk_wire_def)

lemma talk_wire_puts:
  "put_node 0 nd (talk_wire a b s t c) = talk_wire nd b s t c" "put_node 1 nd (talk_wire a b s t c) = talk_wire a nd s t c"
  "put_sock 0 x (talk_wire a b s t c) = talk_wire a b x t c"
  "put_sock (Suc 0) x (talk_wire a b s t c) = talk_wire a b s x c"
  "put_sock 2 x (talk_wire a b s t c) = talk_wire a b s t x"
  by (simp_all add: put_node_def put_sock_def talk_wire_def fun_upd_twist numeral_2_eq_2)

text \<open>What went through the connections of a program, and which descriptors are open.\<close>

definition flow :: "event list \<Rightarrow> (int \<times> u8 list) list \<Rightarrow> (int \<times> u8 list) list \<Rightarrow> bool" where
  "flow tr ins outs \<longleftrightarrow> streams_in tr = ins \<and> streams_out tr = outs \<and> (\<forall>fd. is_open fd tr \<longleftrightarrow> fd \<in> fst ` set ins)"

lemma extend_stream_keys: "fd \<in> fst ` set cs \<Longrightarrow> fst ` set (extend_stream fd bs cs) = fst ` set cs"
  by (induction cs) auto

lemma flow_events:
  "flow [Opened fd] [(fd, [])] [(fd, [])]"
  "flow tr ins outs \<Longrightarrow> flow (Waited d # tr) ins outs"
  "flow tr ins outs \<Longrightarrow> flow (Opened fd # tr) ((fd, []) # ins) ((fd, []) # outs)"
  "flow tr ins outs \<Longrightarrow> flow (Sent fd bs # tr) ins (extend_stream fd bs outs)"
  "flow tr ins outs \<Longrightarrow> fd \<in> fst ` set ins \<Longrightarrow> flow (Got fd bs # tr) (extend_stream fd bs ins) outs"
  by (auto simp: flow_def extend_stream_keys)

lemma flow_open: "flow tr ins outs \<Longrightarrow> is_open fd tr \<longleftrightarrow> fd \<in> fst ` set ins"
  by (simp add: flow_def)

lemma talk_tcp:
  assumes "flow (sy_trace s) i1 o1" and "flow (sy_trace t) i2 o2" and "flow (sy_trace c) i3 o3"
    and "mset (map snd links) = mset (map snd (i1 @ i2 @ i3))"
    and "mset (map fst links) \<subseteq># mset (map snd (o1 @ o2 @ o3))"
    and "list_all (\<lambda>(written, got). prefix got written) links"
  shows "tcp (talk_wire a b s t c)"
  using assms unfolding tcp_def carried_def flow_def by (intro exI [of _ links]) auto

text \<open>A node receives a packet, and sends the one it answers with.\<close>

lemma round0:
  assumes "does a pkt p a'" and got: "socket_receive (fst (raft_get_timeout_ms a)) s = Done (1, mem, s1)" "mem_pkt mem = pkt"
    and sent: "socket_send (mem_of p) s1 = Done (r, s2)"
    and tcp: "\<And>x. tcp (talk_wire x b s1 t c)" "tcp (talk_wire a' b s2 t c)"
  shows "(tstep 2)\<^sup>*\<^sup>* (talk_wire a b s t c) (talk_wire a' b s2 t c)"
proof -
  let ?nd = "raft_run_step (1, pkt) a"
  have a: "outbox a = []" "up a" "has_room (unix_view a)" "outbox ?nd = [p]" "a' = ?nd\<lparr>outbox := []\<rparr>"
    using assms(1) by (simp_all add: does_def)
  have "wstep 2 (talk_wire a b s t c) (talk_wire ?nd b s1 t c)"
    using wstep.iteration [of 0 2 "talk_wire a b s t c" 1 mem s1] a got by (simp add: talk_wire_puts)
  moreover have "wstep 2 (talk_wire ?nd b s1 t c) (talk_wire a' b s2 t c)"
    using wstep.sending [of 0 2 "talk_wire ?nd b s1 t c" p "[]" "[0, 0, 0]" r s2] a sent by (simp add: talk_wire_puts)
  ultimately show ?thesis using tcp by (meson converse_rtranclp_into_rtranclp r_into_rtranclp tstep_def)
qed

lemma idle_round0:
  assumes a: "up a" "outbox a = []" "outbox (raft_run_step (0, mem_pkt []) a) = [p]"
    and got: "socket_receive (fst (raft_get_timeout_ms a)) s = Done (0, [], s1)"
    and sent: "socket_send (mem_of p) s1 = Done (r, s2)"
    and tcp: "\<And>x. tcp (talk_wire x b s1 t c)" "\<And>x. tcp (talk_wire x b s2 t c)"
  shows "(tstep 2)\<^sup>*\<^sup>* (talk_wire a b s t c)
    (talk_wire ((raft_run_step (0, mem_pkt []) a)\<lparr>outbox := []\<rparr>) b s2 t c)"
proof -
  let ?nd = "raft_run_step (0, mem_pkt []) a"
  have "wstep 2 (talk_wire a b s t c) (talk_wire ?nd b s1 t c)"
    using wstep.iteration [of 0 2 "talk_wire a b s t c" 0 "[]" s1] a got by (simp add: talk_wire_puts)
  moreover have "wstep 2 (talk_wire ?nd b s1 t c) (talk_wire (?nd\<lparr>outbox := []\<rparr>) b s2 t c)"
    using wstep.sending [of 0 2 "talk_wire ?nd b s1 t c" p "[]" "[0, 0, 0]" r s2] a sent by (simp add: talk_wire_puts)
  ultimately show ?thesis using tcp by (meson converse_rtranclp_into_rtranclp r_into_rtranclp tstep_def)
qed

lemma round1:
  assumes "does b pkt p b'" and got: "socket_receive (fst (raft_get_timeout_ms b)) t = Done (1, mem, t1)" "mem_pkt mem = pkt"
    and sent: "socket_send (mem_of p) t1 = Done (r, t2)"
    and tcp: "\<And>x. tcp (talk_wire a x s t1 c)" "tcp (talk_wire a b' s t2 c)"
  shows "(tstep 2)\<^sup>*\<^sup>* (talk_wire a b s t c) (talk_wire a b' s t2 c)"
proof -
  let ?nd = "raft_run_step (1, pkt) b"
  have b: "outbox b = []" "up b" "has_room (unix_view b)" "outbox ?nd = [p]" "b' = ?nd\<lparr>outbox := []\<rparr>"
    using assms(1) by (simp_all add: does_def)
  have "wstep 2 (talk_wire a b s t c) (talk_wire a ?nd s t1 c)"
    using wstep.iteration [of 1 2 "talk_wire a b s t c" 1 mem t1] b got by (simp add: talk_wire_puts)
  moreover have "wstep 2 (talk_wire a ?nd s t1 c) (talk_wire a b' s t2 c)"
    using wstep.sending [of 1 2 "talk_wire a ?nd s t1 c" p "[]" "[0, 0, 0]" r t2] b sent by (simp add: talk_wire_puts)
  ultimately show ?thesis using tcp by (meson converse_rtranclp_into_rtranclp r_into_rtranclp tstep_def)
qed

lemma client_sends:
  assumes "wf_pkt pkt" and "client_pkt pkt" and "socket_send (mem_of pkt) c = Done (r, c1)" and "tcp (talk_wire a b s t c1)"
  shows "tstep 2 (talk_wire a b s t c) (talk_wire a b s t c1)"
proof -
  have k: "2 < length (w_socks (talk_wire a b s t c))" "2 \<notin> w_of (talk_wire a b s t c) ` {..<2 :: u32}"
    by (auto simp: word_less_nat_alt)
  have "wstep 2 (talk_wire a b s t c) (talk_wire a b s t c1)"
    using wstep.client_send [OF k, of "mem_of pkt" r c1] assms(1-3) by (simp add: talk_wire_puts)
  then show ?thesis using assms(4) by (simp add: tstep_def)
qed

lemma client_receives:
  assumes "socket_receive ms c = Done (r, mem, c1)" and "tcp (talk_wire a b s t c1)"
  shows "tstep 2 (talk_wire a b s t c) (talk_wire a b s t c1)"
proof -
  have k: "2 < length (w_socks (talk_wire a b s t c))" "2 \<notin> w_of (talk_wire a b s t c) ` {..<2 :: u32}"
    by (auto simp: word_less_nat_alt)
  have "wstep 2 (talk_wire a b s t c) (talk_wire a b s t c1)"
    using wstep.client_receive [OF k, of ms r mem c1] assms(1) by (simp add: talk_wire_puts)
  then show ?thesis using assms(2) by (simp add: tstep_def)
qed

section \<open>The run\<close>

lemma small_fds [simp]: "fd_ok 3" "fd_ok 4" "fd_ok 5"
  by (simp_all add: fd_ok_def FD_SETSIZE_def)

lemma pkt_ends: "h_dst (pkt_header p) = m_dst (decode_pkt p)" "h_src (pkt_header p) = m_src (decode_pkt p)"
  by (simp_all add: decode_pkt_def)

lemma some_room [simp]: "0 < MAX_CONNECTIONS" "Suc 0 < MAX_CONNECTIONS" "9 < MAX_CONNECTIONS"
  by (simp_all add: MAX_CONNECTIONS_def)

lemma talk_trace [simp]: "sy_trace (talk_prog i script tr ps cs fds) = tr"
  by (simp add: talk_prog_def)

lemma does_wf: "does a pkt p a' \<Longrightarrow> wf_pkt p"
  by (simp add: does_def)

text \<open>Receiving and sending, in terms of the messages.\<close>

lemma receive_new:
  assumes "wf_pkt p" and "fd_ok fd" and "\<not> is_open fd tr" and "fd \<notin> set fds" and "fd \<noteq> 3"
    and "length fds < MAX_CONNECTIONS" and "list_all fd_ok fds"
  obtains d e where "socket_receive ms (talk_prog i (answer # to_accept fd (mem_of p) @ script) tr ps cs fds) =
    Done (1, mem_of p, register_source (m_src (decode_pkt p)) fd
      (talk_prog i script (Got fd (mem_of p) # Waited d # Opened fd # Waited e # tr) ps cs (fds @ [fd])))"
  unfolding receive_starts using that read_new [OF assms(2-7), of "mem_of p" "ucast ms * 1000" i script ps cs] assms(1)
  by (simp add: pkt_ends) blast

lemma receive_open:
  assumes "wf_pkt p" and "fds ! k = fd" and "k < length fds" and "\<And>j. j < k \<Longrightarrow> fds ! j \<noteq> fd" and "fd \<noteq> 3"
    and "list_all fd_ok fds" and "is_open fd tr"
  obtains d where "socket_receive ms (talk_prog i (answer # to_read fd (mem_of p) @ script) tr ps cs fds) =
    Done (1, mem_of p, register_source (m_src (decode_pkt p)) fd
      (talk_prog i script (Got fd (mem_of p) # Waited d # tr) ps cs fds))"
  unfolding receive_starts using that read_open [OF assms(2-7), of "mem_of p" "ucast ms * 1000" i script ps cs] assms(1)
  by (simp add: pkt_ends) blast

lemma send_to:
  assumes "wf_pkt p" and "fd_of_dst (m_dst (decode_pkt p)) s = Done (fd, talk_prog i (to_send fd @ script) tr ps cs fds)"
    and "fd_ok fd" and "is_open fd tr"
  shows "socket_send (mem_of p) s = Done (0, talk_prog i script (Sent fd (mem_of p) # Waited 100000 # tr) ps cs fds)"
  using send_open [of "mem_of p" s fd i script tr ps cs fds] assms by (simp add: pkt_ends)

text \<open>Node 0 hears nothing and asks node 1 for its vote.\<close>

lemma run_ask:
  assumes p1: "outbox (raft_run_step (0, mem_pkt []) (demo_node 0)) = [p1]" "wf_pkt p1" "m_dst (decode_pkt p1) = 1"
    and t: "flow (sy_trace t) [(3, [])] [(3, [])]" and c: "flow (sy_trace c) [(3, [])] [(3, [])]"
  obtains tr where "(tstep 2)\<^sup>*\<^sup>*
      (talk_wire (demo_node 0) b (talk_prog 0 (silence @ to_connect 4 @ script) [Opened 3] [-1, -1] no_fds []) t c)
      (talk_wire ((raft_run_step (0, mem_pkt []) (demo_node 0))\<lparr>outbox := []\<rparr>) b
        (talk_prog 0 script tr [-1, 4] no_fds [4]) t c)"
    and "flow tr [(4, []), (3, [])] [(4, mem_of p1), (3, [])]"
proof -
  let ?m = "mem_of p1"
  have quiet: "up (demo_node 0)" "outbox (demo_node 0) = []"
    using demo_node_at [of 0] by (simp_all add: node_at_def view_up boot2_def a_boot_def)
  obtain d where d: "socket_receive (fst (raft_get_timeout_ms (demo_node 0)))
      (talk_prog 0 (silence @ to_connect 4 @ script) [Opened 3] [-1, -1] no_fds []) =
    Done (0, [], talk_prog 0 (to_connect 4 @ script) [Waited d, Opened 3] [-1, -1] no_fds [])"
    using receive_silence [of "[]"] by fastforce
  let ?s = "talk_prog 0 (to_connect 4 @ script) [Waited d, Opened 3] [-1, -1] no_fds []"
  let ?tr = "Opened 4 # [Waited d, Opened 3]"
  note f1 = flow_events(2) [OF flow_events(1) [of 3], of d]
  note f2 = flow_events(4) [OF flow_events(2) [OF flow_events(3) [OF f1]], of 4 ?m 100000 4, simplified]
  have "fd_of_dst (m_dst (decode_pkt p1)) ?s = Done (4, talk_prog 0 (to_send 4 @ script) ?tr [-1, 4] no_fds [4])"
    using dst_new [of 1 "[-1, -1]" 4 "[Waited d, Opened 3]" "[]" 0] p1(3) by simp
  then have sent: "socket_send ?m ?s = Done (0, talk_prog 0 script (Sent 4 ?m # Waited 100000 # ?tr) [-1, 4] no_fds [4])"
    by (rule send_to [OF p1(2)]) simp_all
  show thesis
  proof (rule that [OF idle_round0 [OF quiet p1(1) d sent] f2])
    show "tcp (talk_wire x b ?s t c)" for x
      by (rule talk_tcp [OF _ t c, where links = "[([], []), ([], []), ([], [])]"], unfold talk_trace, rule f1) simp_all
    show "tcp (talk_wire x b (talk_prog 0 script (Sent 4 ?m # Waited 100000 # ?tr) [-1, 4] no_fds [4]) t c)" for x
      by (rule talk_tcp [OF _ t c, where links = "[(?m, []), ([], []), ([], []), ([], [])]"], unfold talk_trace, rule f2)
        simp_all
  qed
qed

text \<open>Node 1 accepts the connection, reads the request and votes.\<close>

lemma run_vote:
  assumes p2: "does b p1 p2 b'" "wf_pkt p1" "m_src (decode_pkt p1) = 0" "m_dst (decode_pkt p2) = 0"
    and s: "flow (sy_trace s) [(4, []), (3, [])] [(4, mem_of p1), (3, [])]" and c: "flow (sy_trace c) [(3, [])] [(3, [])]"
  obtains tr where "(tstep 2)\<^sup>*\<^sup>*
      (talk_wire a b s (talk_prog 1 (answer # to_accept 4 (mem_of p1) @ to_send 4 @ script) [Opened 3] [-1, -1] no_fds []) c)
      (talk_wire a b' s (talk_prog 1 script tr [4, -1] no_fds [4]) c)"
    and "flow tr [(4, mem_of p1), (3, [])] [(4, mem_of p2), (3, [])]"
proof -
  let ?m = "mem_of p1" and ?n = "mem_of p2"
  have wf: "wf_pkt p2" using p2(1) by (rule does_wf)
  obtain d e where "socket_receive (fst (raft_get_timeout_ms b))
      (talk_prog 1 (answer # to_accept 4 ?m @ to_send 4 @ script) [Opened 3] [-1, -1] no_fds []) =
    Done (1, ?m, register_source (m_src (decode_pkt p1)) 4
      (talk_prog 1 (to_send 4 @ script) (Got 4 ?m # Waited d # Opened 4 # Waited e # [Opened 3]) [-1, -1] no_fds ([] @ [4])))"
    by (rule receive_new [OF p2(2), of 4 "[Opened 3]" "[]"]) simp_all
  then have got: "socket_receive (fst (raft_get_timeout_ms b))
      (talk_prog 1 (answer # to_accept 4 ?m @ to_send 4 @ script) [Opened 3] [-1, -1] no_fds []) =
    Done (1, ?m, talk_prog 1 (to_send 4 @ script) (Got 4 ?m # Waited d # Opened 4 # Waited e # [Opened 3]) [4, -1] no_fds [4])"
    using source_is_peer [of 0 1 "[-1, -1]" 4] p2(3) by simp
  let ?tr = "Got 4 ?m # Waited d # Opened 4 # Waited e # [Opened 3]"
  have f1: "flow ?tr [(4, ?m), (3, [])] [(4, []), (3, [])]"
    by (auto simp: flow_def)
  note f2 = flow_events(4) [OF flow_events(2) [OF f1], of 4 ?n 100000, simplified]
  have "fd_of_dst (m_dst (decode_pkt p2)) (talk_prog 1 (to_send 4 @ script) ?tr [4, -1] no_fds [4]) =
      Done (4, talk_prog 1 (to_send 4 @ script) ?tr [4, -1] no_fds [4])"
    using dst_connected [of 0 "[4, -1]"] p2(4) by simp
  then have sent: "socket_send ?n (talk_prog 1 (to_send 4 @ script) ?tr [4, -1] no_fds [4]) =
      Done (0, talk_prog 1 script (Sent 4 ?n # Waited 100000 # ?tr) [4, -1] no_fds [4])"
    by (rule send_to [OF wf]) simp_all
  show thesis
  proof (rule that [OF round1 [OF p2(1) got _ sent] f2])
    show "mem_pkt ?m = p1" using p2(2) by simp
    show "tcp (talk_wire a x s (talk_prog 1 (to_send 4 @ script) ?tr [4, -1] no_fds [4]) c)" for x
      by (rule talk_tcp [OF s _ c, where links = "[([], []), ([], []), (?m, ?m), ([], []), ([], [])]"],
          unfold talk_trace, rule f1) simp_all
    show "tcp (talk_wire a b' s (talk_prog 1 script (Sent 4 ?n # Waited 100000 # ?tr) [4, -1] no_fds [4]) c)"
      by (rule talk_tcp [OF s _ c, where links = "[(?n, []), ([], []), (?m, ?m), ([], []), ([], [])]"],
          unfold talk_trace, rule f2) simp_all
  qed
qed

text \<open>Node 0 reads the vote; its first heartbeat is not sent in time and is lost.\<close>

lemma run_lead:
  assumes p3: "does a p2 p3 a'" "wf_pkt p2" "m_src (decode_pkt p2) = 1" "m_dst (decode_pkt p3) = 1"
    and s: "flow tr [(4, []), (3, [])] [(4, m1), (3, [])]" and t: "flow (sy_trace t) [(4, m1), (3, [])] [(4, mem_of p2), (3, [])]"
    and c: "flow (sy_trace c) [(3, [])] [(3, [])]"
  obtains tr' where "(tstep 2)\<^sup>*\<^sup>*
      (talk_wire a b (talk_prog 0 (answer # to_read 4 (mem_of p2) @ too_late @ script) tr [-1, 4] no_fds [4]) t c)
      (talk_wire a' b (talk_prog 0 script tr' [-1, 4] no_fds [4]) t c)"
    and "flow tr' [(4, mem_of p2), (3, [])] [(4, m1), (3, [])]"
proof -
  let ?m = "mem_of p2" and ?n = "mem_of p3"
  have wf: "wf_pkt p3" using p3(1) by (rule does_wf)
  have "is_open 4 tr" using flow_open [OF s] by simp
  then obtain d where "socket_receive (fst (raft_get_timeout_ms a))
      (talk_prog 0 (answer # to_read 4 ?m @ too_late @ script) tr [-1, 4] no_fds [4]) =
    Done (1, ?m, register_source (m_src (decode_pkt p2)) 4 (talk_prog 0 (too_late @ script) (Got 4 ?m # Waited d # tr) [-1, 4] no_fds [4]))"
    by (rule receive_open [OF p3(2), of "[4]" 0, rotated 5]) simp_all
  then have got: "socket_receive (fst (raft_get_timeout_ms a))
      (talk_prog 0 (answer # to_read 4 ?m @ too_late @ script) tr [-1, 4] no_fds [4]) =
    Done (1, ?m, talk_prog 0 (too_late @ script) (Got 4 ?m # Waited d # tr) [-1, 4] no_fds [4])"
    using source_is_peer [of 1 0 "[-1, 4]" 4] p3(3) by simp
  have f: "flow (Got 4 ?m # Waited d # tr) [(4, ?m), (3, [])] [(4, m1), (3, [])]"
    using flow_events(5) [OF flow_events(2) [OF s], of 4] by simp
  have "fd_of_dst (h_dst (pkt_header (mem_pkt ?n))) (talk_prog 0 (too_late @ script) (Got 4 ?m # Waited d # tr) [-1, 4] no_fds [4]) =
      Done (4, talk_prog 0 (too_late @ script) (Got 4 ?m # Waited d # tr) [-1, 4] no_fds [4])"
    using dst_connected [of 1 "[-1, 4]"] p3(4) wf by (simp add: pkt_ends)
  from send_late [OF this] have sent: "socket_send ?n (talk_prog 0 (too_late @ script) (Got 4 ?m # Waited d # tr) [-1, 4] no_fds [4]) =
      Done (-1, talk_prog 0 script (Got 4 ?m # Waited d # tr) [-1, 4] no_fds [4])"
    by simp
  have "tcp (talk_wire x b (talk_prog 0 sc (Got 4 ?m # Waited d # tr) [-1, 4] no_fds [4]) t c)" for x sc
    by (rule talk_tcp [OF _ t c, where links = "[(?m, ?m), ([], []), (m1, m1), ([], []), ([], [])]"], unfold talk_trace, rule f) simp_all
  moreover have "mem_pkt ?m = p2" using p3(2) by simp
  ultimately show thesis using that [OF round0 [OF p3(1) got _ sent] f] by blast
qed

text \<open>The client connects to node 0 and sends its request.\<close>

lemma run_request:
  assumes p: "wf_pkt p" "client_pkt p" "m_dst (decode_pkt p) = 0"
    and s: "flow (sy_trace s) [(4, m2), (3, [])] [(4, m1), (3, [])]" and t: "flow (sy_trace t) [(4, m1), (3, [])] [(4, m2), (3, [])]"
    and ok: "sock_ok (talk_prog 2 (to_connect 4 @ script) [Opened 3] [-1, -1, -1] no_fds [])"
  obtains tr where "tstep 2
      (talk_wire a b s t (talk_prog 2 (to_connect 4 @ script) [Opened 3] [-1, -1, -1] no_fds []))
      (talk_wire a b s t (talk_prog 2 script tr [4, -1, -1] no_fds [4]))"
    and "flow tr [(4, []), (3, [])] [(4, mem_of p), (3, [])]" and "sock_ok (talk_prog 2 script tr [4, -1, -1] no_fds [4])"
proof -
  let ?m = "mem_of p" and ?tr = "Opened 4 # [Opened 3]"
  let ?c = "talk_prog 2 (to_connect 4 @ script) [Opened 3] [-1, -1, -1] no_fds []"
  have "fd_of_dst (m_dst (decode_pkt p)) ?c = Done (4, talk_prog 2 (to_send 4 @ script) ?tr [4, -1, -1] no_fds [4])"
    using dst_new [of 0 "[-1, -1, -1]" 4 "[Opened 3]" "[]" 2] p(3) by simp
  then have sent: "socket_send ?m ?c = Done (0, talk_prog 2 script (Sent 4 ?m # Waited 100000 # ?tr) [4, -1, -1] no_fds [4])"
    by (rule send_to [OF p(1)]) simp_all
  have f: "flow (Sent 4 ?m # Waited 100000 # ?tr) [(4, []), (3, [])] [(4, ?m), (3, [])]" by (auto simp: flow_def)
  have "length ?m = sizeof_pkt" using p(1) by simp
  from sock.send_law [OF ok this sent] have "sock_ok (talk_prog 2 script (Sent 4 ?m # Waited 100000 # ?tr) [4, -1, -1] no_fds [4])"
    by simp
  moreover have "tcp (talk_wire a b s t (talk_prog 2 script (Sent 4 ?m # Waited 100000 # ?tr) [4, -1, -1] no_fds [4]))"
    by (rule talk_tcp [OF s t, where links = "[(m2, m2), ([], []), (m1, m1), ([], []), (?m, []), ([], [])]"],
        unfold talk_trace, rule f) simp_all
  ultimately show thesis using that [OF client_sends [OF p(1,2) sent] f] by blast
qed

text \<open>Node 0 accepts the client, reads the request, writes the entry and sends it to node 1.\<close>

lemma run_accept:
  assumes p4: "does a p p4 a'" "wf_pkt p" "m_src (decode_pkt p) = 9" "m_dst (decode_pkt p4) = 1"
    and s: "flow tr [(4, m2), (3, [])] [(4, m1), (3, [])]" and t: "flow (sy_trace t) [(4, m1), (3, [])] [(4, m2), (3, [])]"
    and c: "flow (sy_trace c) [(4, []), (3, [])] [(4, mem_of p), (3, [])]"
  obtains tr' where "(tstep 2)\<^sup>*\<^sup>*
      (talk_wire a b (talk_prog 0 (answer # to_accept 5 (mem_of p) @ to_send 4 @ script) tr [-1, 4] no_fds [4]) t c)
      (talk_wire a' b (talk_prog 0 script tr' [-1, 4] (no_fds[9 := 5]) [4, 5]) t c)"
    and "flow tr' [(5, mem_of p), (4, m2), (3, [])] [(5, []), (4, m1 @ mem_of p4), (3, [])]"
proof -
  let ?m = "mem_of p" and ?n = "mem_of p4" and ?cs = "no_fds[9 := 5]"
  have wf: "wf_pkt p4" using p4(1) by (rule does_wf)
  have shut: "\<not> is_open 5 tr" using flow_open [OF s] by simp
  obtain d e where "socket_receive (fst (raft_get_timeout_ms a))
      (talk_prog 0 (answer # to_accept 5 ?m @ to_send 4 @ script) tr [-1, 4] no_fds [4]) =
    Done (1, ?m, register_source (m_src (decode_pkt p)) 5
      (talk_prog 0 (to_send 4 @ script) (Got 5 ?m # Waited d # Opened 5 # Waited e # tr) [-1, 4] no_fds ([4] @ [5])))"
    by (rule receive_new [OF p4(2) _ shut, of "[4]"]) simp_all
  then have got: "socket_receive (fst (raft_get_timeout_ms a))
      (talk_prog 0 (answer # to_accept 5 ?m @ to_send 4 @ script) tr [-1, 4] no_fds [4]) =
    Done (1, ?m, talk_prog 0 (to_send 4 @ script) (Got 5 ?m # Waited d # Opened 5 # Waited e # tr) [-1, 4] ?cs [4, 5])"
    using source_is_client [of 0 9 no_fds] p4(3) by (simp add: MAX_CONNECTIONS_def)
  let ?tr = "Got 5 ?m # Waited d # Opened 5 # Waited e # tr"
  have f1: "flow ?tr [(5, ?m), (4, m2), (3, [])] [(5, []), (4, m1), (3, [])]" using s by (auto simp: flow_def)
  note f2 = flow_events(4) [OF flow_events(2) [OF f1], of 4 ?n 100000, simplified]
  have "fd_of_dst (m_dst (decode_pkt p4)) (talk_prog 0 (to_send 4 @ script) ?tr [-1, 4] ?cs [4, 5]) =
      Done (4, talk_prog 0 (to_send 4 @ script) ?tr [-1, 4] ?cs [4, 5])"
    using dst_connected [of 1 "[-1, 4]"] p4(4) by simp
  then have sent: "socket_send ?n (talk_prog 0 (to_send 4 @ script) ?tr [-1, 4] ?cs [4, 5]) =
      Done (0, talk_prog 0 script (Sent 4 ?n # Waited 100000 # ?tr) [-1, 4] ?cs [4, 5])"
    by (rule send_to [OF wf]) (use flow_open [OF s, of 4] in simp_all)
  show thesis
  proof (rule that [OF round0 [OF p4(1) got _ sent] f2])
    show "mem_pkt ?m = p" using p4(2) by simp
    show "tcp (talk_wire x b (talk_prog 0 (to_send 4 @ script) ?tr [-1, 4] ?cs [4, 5]) t c)" for x
      by (rule talk_tcp [OF _ t c, where links = "[(?m, ?m), (m2, m2), ([], []), (m1, m1), ([], []), ([], []), ([], [])]"],
          unfold talk_trace, rule f1) simp_all
    show "tcp (talk_wire a' b (talk_prog 0 script (Sent 4 ?n # Waited 100000 # ?tr) [-1, 4] ?cs [4, 5]) t c)"
      by (rule talk_tcp [OF _ t c, where links = "[(?m, ?m), (m2, m2), ([], []), (m1 @ ?n, m1), ([], []), ([], []), ([], [])]"],
          unfold talk_trace, rule f2) simp_all
  qed
qed

text \<open>Node 1 reads the entry, writes it and acknowledges it.\<close>

lemma run_store:
  assumes p5: "does b p4 p5 b'" "wf_pkt p4" "m_src (decode_pkt p4) = 0" "m_dst (decode_pkt p5) = 0"
    and s: "flow (sy_trace s) [(5, mc), (4, m2), (3, [])] [(5, []), (4, m1 @ mem_of p4), (3, [])]"
    and t: "flow tr [(4, m1), (3, [])] [(4, m2), (3, [])]" and c: "flow (sy_trace c) [(4, []), (3, [])] [(4, mc), (3, [])]"
  obtains tr' where "(tstep 2)\<^sup>*\<^sup>*
      (talk_wire a b s (talk_prog 1 (answer # to_read 4 (mem_of p4) @ to_send 4 @ script) tr [4, -1] no_fds [4]) c)
      (talk_wire a b' s (talk_prog 1 script tr' [4, -1] no_fds [4]) c)"
    and "flow tr' [(4, m1 @ mem_of p4), (3, [])] [(4, m2 @ mem_of p5), (3, [])]"
proof -
  let ?m = "mem_of p4" and ?n = "mem_of p5"
  have wf: "wf_pkt p5" using p5(1) by (rule does_wf)
  have "is_open 4 tr" using flow_open [OF t] by simp
  then obtain d where "socket_receive (fst (raft_get_timeout_ms b))
      (talk_prog 1 (answer # to_read 4 ?m @ to_send 4 @ script) tr [4, -1] no_fds [4]) =
    Done (1, ?m, register_source (m_src (decode_pkt p4)) 4 (talk_prog 1 (to_send 4 @ script) (Got 4 ?m # Waited d # tr) [4, -1] no_fds [4]))"
    by (rule receive_open [OF p5(2), of "[4]" 0, rotated 5]) simp_all
  then have got: "socket_receive (fst (raft_get_timeout_ms b))
      (talk_prog 1 (answer # to_read 4 ?m @ to_send 4 @ script) tr [4, -1] no_fds [4]) =
    Done (1, ?m, talk_prog 1 (to_send 4 @ script) (Got 4 ?m # Waited d # tr) [4, -1] no_fds [4])"
    using source_is_peer [of 0 1 "[4, -1]" 4] p5(3) by simp
  let ?tr = "Got 4 ?m # Waited d # tr"
  have f1: "flow ?tr [(4, m1 @ ?m), (3, [])] [(4, m2), (3, [])]"
    using flow_events(5) [OF flow_events(2) [OF t], of 4] by simp
  note f2 = flow_events(4) [OF flow_events(2) [OF f1], of 4 ?n 100000, simplified]
  have "fd_of_dst (m_dst (decode_pkt p5)) (talk_prog 1 (to_send 4 @ script) ?tr [4, -1] no_fds [4]) =
      Done (4, talk_prog 1 (to_send 4 @ script) ?tr [4, -1] no_fds [4])"
    using dst_connected [of 0 "[4, -1]"] p5(4) by simp
  then have sent: "socket_send ?n (talk_prog 1 (to_send 4 @ script) ?tr [4, -1] no_fds [4]) =
      Done (0, talk_prog 1 script (Sent 4 ?n # Waited 100000 # ?tr) [4, -1] no_fds [4])"
    by (rule send_to [OF wf]) (use flow_open [OF f1] in simp_all)
  show thesis
  proof (rule that [OF round1 [OF p5(1) got _ sent] f2])
    show "mem_pkt ?m = p4" using p5(2) by simp
    show "tcp (talk_wire a x s (talk_prog 1 (to_send 4 @ script) ?tr [4, -1] no_fds [4]) c)" for x
      by (rule talk_tcp [OF s _ c, where links = "[(mc, mc), (m2, m2), ([], []), (m1 @ ?m, m1 @ ?m), ([], []), ([], []), ([], [])]"],
          unfold talk_trace, rule f1) simp_all
    show "tcp (talk_wire a b' s (talk_prog 1 script (Sent 4 ?n # Waited 100000 # ?tr) [4, -1] no_fds [4]) c)"
      by (rule talk_tcp [OF s _ c, where links = "[(mc, mc), (m2 @ ?n, m2), ([], []), (m1 @ ?m, m1 @ ?m), ([], []), ([], []), ([], [])]"],
          unfold talk_trace, rule f2) simp_all
  qed
qed

text \<open>Node 0 reads the acknowledgement, commits the entry and answers the client.\<close>

lemma run_commit:
  assumes p6: "does a p5 p6 a'" "wf_pkt p5" "m_src (decode_pkt p5) = 1" "m_dst (decode_pkt p6) = 9"
    and s: "flow tr [(5, mc), (4, m2), (3, [])] [(5, []), (4, m4), (3, [])]"
    and t: "flow (sy_trace t) [(4, m4), (3, [])] [(4, m2 @ mem_of p5), (3, [])]"
    and c: "flow (sy_trace c) [(4, []), (3, [])] [(4, mc), (3, [])]"
  obtains tr' where "(tstep 2)\<^sup>*\<^sup>*
      (talk_wire a b (talk_prog 0 (answer # to_read 4 (mem_of p5) @ to_send 5 @ script) tr [-1, 4] (no_fds[9 := 5]) [4, 5]) t c)
      (talk_wire a' b (talk_prog 0 script tr' [-1, 4] (no_fds[9 := 5]) [4, 5]) t c)"
    and "flow tr' [(5, mc), (4, m2 @ mem_of p5), (3, [])] [(5, mem_of p6), (4, m4), (3, [])]"
proof -
  let ?m = "mem_of p5" and ?n = "mem_of p6" and ?cs = "no_fds[9 := 5]"
  have wf: "wf_pkt p6" using p6(1) by (rule does_wf)
  have "is_open 4 tr" using flow_open [OF s] by simp
  then obtain d where "socket_receive (fst (raft_get_timeout_ms a))
      (talk_prog 0 (answer # to_read 4 ?m @ to_send 5 @ script) tr [-1, 4] ?cs [4, 5]) =
    Done (1, ?m, register_source (m_src (decode_pkt p5)) 4 (talk_prog 0 (to_send 5 @ script) (Got 4 ?m # Waited d # tr) [-1, 4] ?cs [4, 5]))"
    by (rule receive_open [OF p6(2), of "[4, 5]" 0, rotated 5]) simp_all
  then have got: "socket_receive (fst (raft_get_timeout_ms a))
      (talk_prog 0 (answer # to_read 4 ?m @ to_send 5 @ script) tr [-1, 4] ?cs [4, 5]) =
    Done (1, ?m, talk_prog 0 (to_send 5 @ script) (Got 4 ?m # Waited d # tr) [-1, 4] ?cs [4, 5])"
    using source_is_peer [of 1 0 "[-1, 4]" 4] p6(3) by simp
  let ?tr = "Got 4 ?m # Waited d # tr"
  have f1: "flow ?tr [(5, mc), (4, m2 @ ?m), (3, [])] [(5, []), (4, m4), (3, [])]"
    using flow_events(5) [OF flow_events(2) [OF s], of 4] by simp
  note f2 = flow_events(4) [OF flow_events(2) [OF f1], of 5 ?n 100000, simplified]
  have "fd_of_dst (m_dst (decode_pkt p6)) (talk_prog 0 (to_send 5 @ script) ?tr [-1, 4] ?cs [4, 5]) =
      Done (5, talk_prog 0 (to_send 5 @ script) ?tr [-1, 4] ?cs [4, 5])"
    using dst_client [of 0 9] p6(4) by (simp add: MAX_CONNECTIONS_def)
  then have sent: "socket_send ?n (talk_prog 0 (to_send 5 @ script) ?tr [-1, 4] ?cs [4, 5]) =
      Done (0, talk_prog 0 script (Sent 5 ?n # Waited 100000 # ?tr) [-1, 4] ?cs [4, 5])"
    by (rule send_to [OF wf]) (use flow_open [OF f1] in simp_all)
  show thesis
  proof (rule that [OF round0 [OF p6(1) got _ sent] f2])
    show "mem_pkt ?m = p5" using p6(2) by simp
    show "tcp (talk_wire x b (talk_prog 0 (to_send 5 @ script) ?tr [-1, 4] ?cs [4, 5]) t c)" for x
      by (rule talk_tcp [OF _ t c, where links = "[(mc, mc), (m2 @ ?m, m2 @ ?m), ([], []), (m4, m4), ([], []), ([], []), ([], [])]"],
          unfold talk_trace, rule f1) simp_all
    show "tcp (talk_wire a' b (talk_prog 0 script (Sent 5 ?n # Waited 100000 # ?tr) [-1, 4] ?cs [4, 5]) t c)"
      by (rule talk_tcp [OF _ t c, where links = "[(mc, mc), (m2 @ ?m, m2 @ ?m), ([], []), (m4, m4), ([], []), (?n, []), ([], [])]"],
          unfold talk_trace, rule f2) simp_all
  qed
qed

text \<open>The client reads the answer.\<close>

lemma run_told:
  assumes p: "wf_pkt p" "m_src (decode_pkt p) = 0" "m_body (decode_pkt p) = ProcRes r"
    and s: "flow (sy_trace s) [(5, mc), (4, m2), (3, [])] [(5, mem_of p), (4, m4), (3, [])]"
    and t: "flow (sy_trace t) [(4, m4), (3, [])] [(4, m2), (3, [])]" and c: "flow tr [(4, []), (3, [])] [(4, mc), (3, [])]"
    and ok: "sock_ok (talk_prog 2 (answer # to_read 4 (mem_of p) @ script) tr [4, -1, -1] no_fds [4])"
  obtains x where "tstep 2
      (talk_wire a b s t (talk_prog 2 (answer # to_read 4 (mem_of p) @ script) tr [4, -1, -1] no_fds [4]))
      (talk_wire a b s t x)" and "told (talk_wire a b s t x) r"
proof -
  let ?m = "mem_of p" and ?c = "talk_prog 2 (answer # to_read 4 (mem_of p) @ script) tr [4, -1, -1] no_fds [4]"
  have "is_open 4 tr" using flow_open [OF c] by simp
  then obtain d where "socket_receive 0 ?c =
    Done (1, ?m, register_source (m_src (decode_pkt p)) 4 (talk_prog 2 script (Got 4 ?m # Waited d # tr) [4, -1, -1] no_fds [4]))"
    by (rule receive_open [OF p(1), of "[4]" 0, rotated 5]) simp_all
  then have got: "socket_receive 0 ?c = Done (1, ?m, talk_prog 2 script (Got 4 ?m # Waited d # tr) [4, -1, -1] no_fds [4])"
    using source_is_peer [of 0 2 "[4, -1, -1]" 4] p(2) by simp
  let ?x = "talk_prog 2 script (Got 4 ?m # Waited d # tr) [4, -1, -1] no_fds [4]"
  have f: "flow (Got 4 ?m # Waited d # tr) [(4, ?m), (3, [])] [(4, mc), (3, [])]"
    using flow_events(5) [OF flow_events(2) [OF c], of 4] by simp
  have "?m \<in> set (sock_delivered ?x)" using sock.receive_law [OF ok got] by simp
  then have "told (talk_wire a b s t ?x) r"
    unfolding told_def using p(1,3) by (intro bexI [of _ ?x] bexI [of _ ?m]) simp_all
  moreover have "tcp (talk_wire a b s t ?x)"
    by (rule talk_tcp [OF s t, where links = "[(mc, mc), (m2, m2), ([], []), (m4, m4), ([], []), (?m, ?m), ([], [])]"],
        unfold talk_trace, rule f) simp_all
  ultimately show thesis using that client_receives [OF got] by blast
qed

text \<open>The packets of the run, each the answer of a node to the one before.\<close>

definition demo_client_pkt :: pkt_t where
  "demo_client_pkt = snd (rpc_pack_proc_req zero_pkt 0 9 \<lparr>pr_client_id = 9, pr_cmd_seqno = 1, pr_cmd = 7\<rparr>)"

lemma demo_client_pkt:
  "decode_pkt demo_client_pkt = demo_cmd 1" "client_pkt demo_client_pkt" "wf_pkt demo_client_pkt"
proof -
  show "decode_pkt demo_client_pkt = demo_cmd 1"
    unfolding demo_client_pkt_def demo_cmd_def by (rule decode_packed(4) [OF wf_zero_pkt])
  show "client_pkt demo_client_pkt"
    by (simp add: demo_client_pkt_def client_pkt_def rpc_pack_proc_req_def finish_pack_def set_header_def Let_def)
  show "wf_pkt demo_client_pkt" unfolding demo_client_pkt_def by (rule pack_proc_req_ok(2) [OF wf_zero_pkt])
qed

lemma replies_does:
  assumes "node_at nd A" and "decode_pkt pkt = m" and "replies m A B [q]"
  obtains p nd' where "does nd pkt p nd'" and "decode_pkt p = q" and "wf_pkt p" and "node_at nd' B"
  using node_replies [OF assms(1), of pkt B q] assms that unfolding does_def node_at_def by metis

text \<open>The start: two nodes on empty disks, and three transports.\<close>

lemma talk_start:
  "wstart 2 (talk_wire (demo_node 0) (demo_node 1) (talk_prog 0 x [Opened 3] [-1, -1] no_fds [])
    (talk_prog 1 y [Opened 3] [-1, -1] no_fds []) (talk_prog 2 z [Opened 3] [-1, -1, -1] no_fds []))"
proof -
  have two: "i = 0 \<or> i = 1" if "i < (2 :: u32)" for i
    using that by (auto simp: word_less_nat_alt less_2_cases_iff word_unat_eq_iff)
  have inj: "inj_on unat {..<(2 :: u32)}" by (rule inj_onI) (simp add: word_eq_iff_unsigned [where 'a = nat])
  have socks: "new_sock (talk_prog 0 x [Opened 3] [-1, -1] no_fds [])" "new_sock (talk_prog 1 y [Opened 3] [-1, -1] no_fds [])"
    "new_sock (talk_prog 2 z [Opened 3] [-1, -1, -1] no_fds [])"
    using talk_prog_init [of 0 x] talk_prog_init [of 1 y] talk_prog_init [of 2 z]
    by (simp_all add: replicate_2 numeral_3_eq_3)
  have "node_cfg 2 i (demo_cfg i) \<and> start_node (demo_cfg i) (disk []) (disk []) (disk []) (0, 0) [0, 0] [0, 0] [] demo_os = Some (demo_node i)"
    for i using demo_node(1) [of i] by simp
  then have boot: "\<exists>cfg heap ns ms lines os. node_cfg 2 i cfg \<and> wf_os os \<and> length ns = unat (2 :: u32) \<and>
      length ms = unat (2 :: u32) \<and> start_node cfg (disk []) (disk []) (disk []) heap ns ms lines os = Some (demo_node i)" for i
    by (intro exI [of _ "demo_cfg i"] exI [of _ "(0, 0)"] exI [of _ "[0, 0]"] exI [of _ "[]"] exI [of _ demo_os]) simp
  show ?thesis
    unfolding wstart_def
  proof (intro conjI allI impI)
    fix i :: u32
    assume "i < 2"
    then show "w_of (talk_wire (demo_node 0) (demo_node 1) (talk_prog 0 x [Opened 3] [-1, -1] no_fds [])
        (talk_prog 1 y [Opened 3] [-1, -1] no_fds []) (talk_prog 2 z [Opened 3] [-1, -1, -1] no_fds [])) i <
      length (w_socks (talk_wire (demo_node 0) (demo_node 1) (talk_prog 0 x [Opened 3] [-1, -1] no_fds [])
        (talk_prog 1 y [Opened 3] [-1, -1] no_fds []) (talk_prog 2 z [Opened 3] [-1, -1, -1] no_fds [])))"
      by (simp add: word_less_nat_alt)
  next
    fix i :: u32
    assume "i < 2"
    then have i: "w_node (talk_wire (demo_node 0) (demo_node 1) s t c) i = demo_node i" for s t c using two [of i] by auto
    show "\<exists>cfg heap ns ms lines os. node_cfg 2 i cfg \<and> wf_os os \<and> length ns = unat (2 :: u32) \<and>
      length ms = unat (2 :: u32) \<and> start_node cfg (disk []) (disk []) (disk []) heap ns ms lines os =
        Some (w_node (talk_wire (demo_node 0) (demo_node 1) (talk_prog 0 x [Opened 3] [-1, -1] no_fds [])
          (talk_prog 1 y [Opened 3] [-1, -1] no_fds []) (talk_prog 2 z [Opened 3] [-1, -1, -1] no_fds [])) i)"
      unfolding i by (rule boot)
  qed (use socks inj in simp_all)
qed

definition asked_first :: unix_node where
  "asked_first = (raft_run_step (0, mem_pkt []) (demo_node 0))\<lparr>outbox := []\<rparr>"

text \<open>The two halves of the run.\<close>

lemma flow_talk: "flow tr ins outs \<Longrightarrow> flow (sy_trace (talk_prog i script tr ps cs fds)) ins outs"
  by simp

lemma run_elect:
  assumes p1: "outbox (raft_run_step (0, mem_pkt []) (demo_node 0)) = [p1]" "wf_pkt p1" "m_dst (decode_pkt p1) = 1"
      "m_src (decode_pkt p1) = 0"
    and p2: "does (demo_node 1) p1 p2 b" "m_dst (decode_pkt p2) = 0" "m_src (decode_pkt p2) = 1"
    and p3: "does asked_first p2 p3 a" "m_dst (decode_pkt p3) = 1" and c: "flow (sy_trace c) [(3, [])] [(3, [])]"
    and scripts: "s1 = answer # to_read 4 (mem_of p2) @ too_late @ s2" "t1 = answer # to_accept 4 (mem_of p1) @ to_send 4 @ t2"
  obtains u v where "(tstep 2)\<^sup>*\<^sup>* (talk_wire (demo_node 0) (demo_node 1)
      (talk_prog 0 (silence @ to_connect 4 @ s1) [Opened 3] [-1, -1] no_fds [])
      (talk_prog 1 t1 [Opened 3] [-1, -1] no_fds []) c)
    (talk_wire a b (talk_prog 0 s2 u [-1, 4] no_fds [4]) (talk_prog 1 t2 v [4, -1] no_fds [4]) c)"
    and "flow u [(4, mem_of p2), (3, [])] [(4, mem_of p1), (3, [])]"
    and "flow v [(4, mem_of p1), (3, [])] [(4, mem_of p2), (3, [])]"
proof -
  let ?t = "talk_prog 1 t1 [Opened 3] [-1, -1] no_fds []"
  have t: "flow (sy_trace ?t) [(3, [])] [(3, [])]" by (auto simp: flow_def)
  obtain u1 where r1: "(tstep 2)\<^sup>*\<^sup>* (talk_wire (demo_node 0) (demo_node 1)
      (talk_prog 0 (silence @ to_connect 4 @ s1) [Opened 3] [-1, -1] no_fds []) ?t c)
    (talk_wire asked_first (demo_node 1) (talk_prog 0 s1 u1 [-1, 4] no_fds [4]) ?t c)"
    and f1: "flow u1 [(4, []), (3, [])] [(4, mem_of p1), (3, [])]"
    unfolding asked_first_def by (rule run_ask [OF p1(1-3) t c])
  obtain v1 where r2: "(tstep 2)\<^sup>*\<^sup>* (talk_wire asked_first (demo_node 1) (talk_prog 0 s1 u1 [-1, 4] no_fds [4]) ?t c)
    (talk_wire asked_first b (talk_prog 0 s1 u1 [-1, 4] no_fds [4]) (talk_prog 1 t2 v1 [4, -1] no_fds [4]) c)"
    and g1: "flow v1 [(4, mem_of p1), (3, [])] [(4, mem_of p2), (3, [])]"
    unfolding scripts(2) by (rule run_vote [OF p2(1) p1(2,4) p2(2) flow_talk [OF f1] c])
  obtain u2 where r3: "(tstep 2)\<^sup>*\<^sup>*
      (talk_wire asked_first b (talk_prog 0 s1 u1 [-1, 4] no_fds [4]) (talk_prog 1 t2 v1 [4, -1] no_fds [4]) c)
      (talk_wire a b (talk_prog 0 s2 u2 [-1, 4] no_fds [4]) (talk_prog 1 t2 v1 [4, -1] no_fds [4]) c)"
    and f2: "flow u2 [(4, mem_of p2), (3, [])] [(4, mem_of p1), (3, [])]"
    unfolding scripts(1) by (rule run_lead [OF p3(1) does_wf [OF p2(1)] p2(3) p3(2) f1 flow_talk [OF g1] c])
  show thesis using that [OF _ f2 g1] r1 r2 r3 by (meson rtranclp_trans)
qed

lemma run_answer:
  assumes p4: "does a demo_client_pkt p4 a3" "m_dst (decode_pkt p4) = 1" "m_src (decode_pkt p4) = 0"
    and p5: "does b p4 p5 b2" "m_dst (decode_pkt p5) = 0" "m_src (decode_pkt p5) = 1"
    and p6: "does a3 p5 p6 a4" "m_dst (decode_pkt p6) = 9" "m_src (decode_pkt p6) = 0" "m_body (decode_pkt p6) = ProcRes r"
    and u: "flow u [(4, m2), (3, [])] [(4, m1), (3, [])]" and v: "flow v [(4, m1), (3, [])] [(4, m2), (3, [])]"
    and scripts: "s2 = answer # to_accept 5 (mem_of demo_client_pkt) @ to_send 4 @ s3"
      "s3 = answer # to_read 4 (mem_of p5) @ to_send 5 @ []" "t2 = answer # to_read 4 (mem_of p4) @ to_send 4 @ []"
      "c1 = answer # to_read 4 (mem_of p6) @ []"
    and ok: "sock_ok (talk_prog 2 (to_connect 4 @ c1) [Opened 3] [-1, -1, -1] no_fds [])"
  obtains s t c where "(tstep 2)\<^sup>*\<^sup>*
      (talk_wire a b (talk_prog 0 s2 u [-1, 4] no_fds [4]) (talk_prog 1 t2 v [4, -1] no_fds [4])
        (talk_prog 2 (to_connect 4 @ c1) [Opened 3] [-1, -1, -1] no_fds []))
      (talk_wire a4 b2 s t c)" and "told (talk_wire a4 b2 s t c) r"
proof -
  let ?s = "talk_prog 0 s2 u [-1, 4] no_fds [4]" and ?t = "talk_prog 1 t2 v [4, -1] no_fds [4]"
  note cp = demo_client_pkt(3,2)
  have ends: "m_dst (decode_pkt demo_client_pkt) = 0" "m_src (decode_pkt demo_client_pkt) = 9"
    by (simp_all add: demo_client_pkt(1) demo_cmd_def)
  obtain x where r4: "tstep 2 (talk_wire a b ?s ?t (talk_prog 2 (to_connect 4 @ c1) [Opened 3] [-1, -1, -1] no_fds []))
      (talk_wire a b ?s ?t (talk_prog 2 c1 x [4, -1, -1] no_fds [4]))"
    and h: "flow x [(4, []), (3, [])] [(4, mem_of demo_client_pkt), (3, [])]"
    and ok1: "sock_ok (talk_prog 2 c1 x [4, -1, -1] no_fds [4])"
    by (rule run_request [OF cp ends(1) flow_talk [OF u] flow_talk [OF v] ok])
  let ?c = "talk_prog 2 c1 x [4, -1, -1] no_fds [4]"
  obtain u3 where r5: "(tstep 2)\<^sup>*\<^sup>* (talk_wire a b ?s ?t ?c) (talk_wire a3 b (talk_prog 0 s3 u3 [-1, 4] (no_fds[9 := 5]) [4, 5]) ?t ?c)"
    and f3: "flow u3 [(5, mem_of demo_client_pkt), (4, m2), (3, [])] [(5, []), (4, m1 @ mem_of p4), (3, [])]"
    unfolding scripts(1) by (rule run_accept [OF p4(1) cp(1) ends(2) p4(2) u flow_talk [OF v] flow_talk [OF h]])
  let ?s3 = "talk_prog 0 s3 u3 [-1, 4] (no_fds[9 := 5]) [4, 5]"
  obtain v2 where r6: "(tstep 2)\<^sup>*\<^sup>* (talk_wire a3 b ?s3 ?t ?c) (talk_wire a3 b2 ?s3 (talk_prog 1 [] v2 [4, -1] no_fds [4]) ?c)"
    and g2: "flow v2 [(4, m1 @ mem_of p4), (3, [])] [(4, m2 @ mem_of p5), (3, [])]"
    unfolding scripts(3) by (rule run_store [OF p5(1) does_wf [OF p4(1)] p4(3) p5(2) flow_talk [OF f3] v flow_talk [OF h]])
  let ?t2 = "talk_prog 1 [] v2 [4, -1] no_fds [4]"
  obtain u4 where r7: "(tstep 2)\<^sup>*\<^sup>* (talk_wire a3 b2 ?s3 ?t2 ?c) (talk_wire a4 b2 (talk_prog 0 [] u4 [-1, 4] (no_fds[9 := 5]) [4, 5]) ?t2 ?c)"
    and f4: "flow u4 [(5, mem_of demo_client_pkt), (4, m2 @ mem_of p5), (3, [])] [(5, mem_of p6), (4, m1 @ mem_of p4), (3, [])]"
    unfolding scripts(2) by (rule run_commit [OF p6(1) does_wf [OF p5(1)] p5(3) p6(2) f3 flow_talk [OF g2] flow_talk [OF h]])
  obtain y where r8: "tstep 2 (talk_wire a4 b2 (talk_prog 0 [] u4 [-1, 4] (no_fds[9 := 5]) [4, 5]) ?t2 ?c)
      (talk_wire a4 b2 (talk_prog 0 [] u4 [-1, 4] (no_fds[9 := 5]) [4, 5]) ?t2 y)"
    and told: "told (talk_wire a4 b2 (talk_prog 0 [] u4 [-1, 4] (no_fds[9 := 5]) [4, 5]) ?t2 y) r"
    unfolding scripts(4)
    by (rule run_told [OF does_wf [OF p6(1)] p6(3,4) flow_talk [OF f4] flow_talk [OF g2] h ok1 [unfolded scripts(4)]])
  show thesis
    by (rule that [OF _ told]) (use r4 r5 r6 r7 r8 in \<open>meson rtranclp_trans converse_rtranclp_into_rtranclp r_into_rtranclp\<close>)
qed

lemma run_packets:
  obtains p1 p2 p3 p4 p5 p6 b1 b2 a2 a3 a4
  where "outbox (raft_run_step (0, mem_pkt []) (demo_node 0)) = [p1]"
    and "does (demo_node 1) p1 p2 b1" and "does asked_first p2 p3 a2" and "does a2 demo_client_pkt p4 a3"
    and "does b1 p4 p5 b2" and "does a3 p5 p6 a4"
    and "map decode_pkt [p1, p2, p3, p4, p5, p6] =
      [ask2, yes2, demo_beat, demo_append (demo_written 1) (-1) 0 (-1), demo_stores 0, demo_yes 1]"
    and "list_all wf_pkt [p1, p2, p3, p4, p5, p6]"
    and "node_at a4 demo_two" and "node_at b2 (demo_follow\<lparr>a_log := [demo_written 1]\<rparr>)"
proof -
  obtain p1 where p1: "outbox (raft_run_step (0, mem_pkt []) (demo_node 0)) = [p1]" "decode_pkt p1 = ask2" "wf_pkt p1"
    and n1: "node_at asked_first ((a_elect (boot2 0))\<lparr>a_out := []\<rparr>)"
    unfolding asked_first_def by (rule node_elects)
  obtain p2 b1 where p2: "does (demo_node 1) p1 p2 b1" "decode_pkt p2 = yes2" "wf_pkt p2" "node_at b1 demo_follow"
    by (rule replies_does [OF demo_node_at p1(2) demo_reply1])
  obtain p3 a2 where p3: "does asked_first p2 p3 a2" "decode_pkt p3 = demo_beat" "wf_pkt p3" "node_at a2 demo_lead"
    by (rule replies_does [OF n1 p2(2) demo_reply2])
  obtain p4 a3 where p4: "does a2 demo_client_pkt p4 a3" "decode_pkt p4 = demo_append (demo_written 1) (-1) 0 (-1)" "wf_pkt p4"
    "node_at a3 demo_one" by (rule replies_does [OF p3(4) demo_client_pkt(1) demo_reply3])
  obtain p5 b2 where p5: "does b1 p4 p5 b2" "decode_pkt p5 = demo_stores 0" "wf_pkt p5"
    "node_at b2 (demo_follow\<lparr>a_log := [demo_written 1]\<rparr>)" by (rule replies_does [OF p2(4) p4(2) demo_reply4])
  obtain p6 a4 where p6: "does a3 p5 p6 a4" "decode_pkt p6 = demo_yes 1" "wf_pkt p6" "node_at a4 demo_two"
    by (rule replies_does [OF p4(4) p5(2) demo_reply5])
  show thesis
    by (rule that [OF p1(1) p2(1) p3(1) p4(1) p5(1) p6(1) _ _ p6(4) p5(4)])
      (use p1 p2 p3 p4 p5 p6 in simp_all)
qed

text \<open>
  The run: the client is told that its request succeeded; both nodes have the entry, and node 0
  has committed it.
\<close>

lemma told_run:
  obtains w w1 where "wstart 2 w" and "(tstep 2)\<^sup>*\<^sup>* w w1"
    and "told w1 \<lparr>ps_client_id = 9, ps_cmd_seqno = 1, ps_success = 1, ps_leader_hint = 0, ps_term = 1\<rparr>"
    and "node_at (w_node w1 0) demo_two" and "node_at (w_node w1 1) (demo_follow\<lparr>a_log := [demo_written 1]\<rparr>)"
proof -
  let ?r = "\<lparr>ps_client_id = 9, ps_cmd_seqno = 1, ps_success = 1, ps_leader_hint = 0, ps_term = 1\<rparr> :: proc_res_t"
  obtain p1 p2 p3 p4 p5 p6 b1 b2 a2 a3 a4 where p1: "outbox (raft_run_step (0, mem_pkt []) (demo_node 0)) = [p1]"
    and does: "does (demo_node 1) p1 p2 b1" "does asked_first p2 p3 a2" "does a2 demo_client_pkt p4 a3"
      "does b1 p4 p5 b2" "does a3 p5 p6 a4"
    and "map decode_pkt [p1, p2, p3, p4, p5, p6] =
      [ask2, yes2, demo_beat, demo_append (demo_written 1) (-1) 0 (-1), demo_stores 0, demo_yes 1]"
    and "list_all wf_pkt [p1, p2, p3, p4, p5, p6]"
    and at: "node_at a4 demo_two" "node_at b2 (demo_follow\<lparr>a_log := [demo_written 1]\<rparr>)"
    by (rule run_packets)
  then have wf: "wf_pkt p1"
    and ends: "m_dst (decode_pkt p1) = 1" "m_src (decode_pkt p1) = 0" "m_dst (decode_pkt p2) = 0" "m_src (decode_pkt p2) = 1"
      "m_dst (decode_pkt p3) = 1" "m_dst (decode_pkt p4) = 1" "m_src (decode_pkt p4) = 0" "m_dst (decode_pkt p5) = 0"
      "m_src (decode_pkt p5) = 1" "m_dst (decode_pkt p6) = 9" "m_src (decode_pkt p6) = 0" "m_body (decode_pkt p6) = ProcRes ?r"
    by (simp_all add: ask2_def yes2_def demo_beat_def demo_append_def demo_stores_def demo_yes_def)
  define s3 where "s3 = answer # to_read 4 (mem_of p5) @ to_send 5 @ []"
  define s2 where "s2 = answer # to_accept 5 (mem_of demo_client_pkt) @ to_send 4 @ s3"
  define s1 where "s1 = answer # to_read 4 (mem_of p2) @ too_late @ s2"
  define t2 where "t2 = answer # to_read 4 (mem_of p4) @ to_send 4 @ []"
  define t1 where "t1 = answer # to_accept 4 (mem_of p1) @ to_send 4 @ t2"
  define c1 where "c1 = answer # to_read 4 (mem_of p6) @ []"
  let ?c = "talk_prog 2 (to_connect 4 @ c1) [Opened 3] [-1, -1, -1] no_fds []"
  note start = talk_start [of "silence @ to_connect 4 @ s1" t1 "to_connect 4 @ c1"]
  have c: "flow (sy_trace ?c) [(3, [])] [(3, [])]" "sock_ok ?c"
    using start new_sock_fresh(1) by (auto simp: flow_def wstart_def)
  obtain u v where first: "(tstep 2)\<^sup>*\<^sup>* (talk_wire (demo_node 0) (demo_node 1)
      (talk_prog 0 (silence @ to_connect 4 @ s1) [Opened 3] [-1, -1] no_fds []) (talk_prog 1 t1 [Opened 3] [-1, -1] no_fds []) ?c)
    (talk_wire a2 b1 (talk_prog 0 s2 u [-1, 4] no_fds [4]) (talk_prog 1 t2 v [4, -1] no_fds [4]) ?c)"
    and flows: "flow u [(4, mem_of p2), (3, [])] [(4, mem_of p1), (3, [])]" "flow v [(4, mem_of p1), (3, [])] [(4, mem_of p2), (3, [])]"
    by (rule run_elect [OF p1 wf ends(1,2) does(1) ends(3,4) does(2) ends(5) c(1) s1_def t1_def])
  obtain s t x where second: "(tstep 2)\<^sup>*\<^sup>*
      (talk_wire a2 b1 (talk_prog 0 s2 u [-1, 4] no_fds [4]) (talk_prog 1 t2 v [4, -1] no_fds [4]) ?c) (talk_wire a4 b2 s t x)"
    and told: "told (talk_wire a4 b2 s t x) ?r"
    by (rule run_answer [OF does(3) ends(6,7) does(4) ends(8,9) does(5) ends(10-12) flows s2_def s3_def t2_def c1_def c(2)])
  show thesis
    by (rule that [OF start _ told]) (use first second at in \<open>auto intro: rtranclp_trans\<close>)
qed

end
