(* ===== verification/Pipe_Transport.thy ===== *)
theory Pipe_Transport
  imports Streams
begin

text \<open>
  \<open>src/transport-pipe/transport-pipe.c\<close>: the transport over two descriptors, standard input and
  output. A packet is one \<open>write\<close> and one \<open>read\<close>. The transport is an instance of the interface as
  long as no call returned -1: a short \<open>write\<close> or \<open>read\<close> leaves the stream inside a packet, and
  every later packet is taken from the wrong place.
\<close>

record pipe_t = sys_t +
  pi_read_fd :: int
  pi_write_fd :: int

section \<open>Operations\<close>

definition pipe_send :: "u8 list \<Rightarrow> pipe_t \<Rightarrow> (int \<times> pipe_t) outcome" where
  "pipe_send pkt s = on_done (send_call (pi_write_fd s) pkt s) (\<lambda>(n, err, s).
     Done (if n = int sizeof_pkt then 0 else -1, s))"

text \<open>\<open>timeout\<close> in microseconds, from its seconds and the rest.\<close>

definition pipe_receive :: "u32 \<Rightarrow> pipe_t \<Rightarrow> (int \<times> u8 list \<times> pipe_t) outcome" where
  "pipe_receive timeout_ms s =
     (let tv_sec = timeout_ms div 1000; tv_usec = (timeout_ms mod 1000) * 1000
      in on_done (select_call [pi_read_fd s] [] (ucast tv_sec * 1000000 + ucast tv_usec) s)
        (\<lambda>(ret, err, rfds, wfds, s).
          if ret = 0 then Done (0, [], s)
          else if ret < 0 then Done (-1, [], s)
          else on_done (read_call (pi_read_fd s) sizeof_pkt s) (\<lambda>(n, err, bs, s).
            Done (if n = int sizeof_pkt then 1 else -1, bs, s))))"

definition transport_pipe_create :: "int \<Rightarrow> int \<Rightarrow> sys_t \<Rightarrow> pipe_t transport_t" where
  "transport_pipe_create read_fd write_fd sys =
     \<lparr>t_send = pipe_send, t_receive = pipe_receive,
      t_context = sys_t.extend sys (pipe_t.fields read_fd write_fd)\<rparr>"

definition transport_pipe_init :: "sys_t \<Rightarrow> pipe_t transport_t" where
  "transport_pipe_init sys = transport_pipe_create 0 1 sys"

section \<open>An instance of the interface\<close>

definition pipe_ok :: "pipe_t \<Rightarrow> bool" where
  "pipe_ok s \<longleftrightarrow> is_open (pi_read_fd s) (sy_trace s) \<and> is_open (pi_write_fd s) (sy_trace s) \<and>
     sizeof_pkt dvd length (bytes_in (pi_read_fd s) (sy_trace s)) \<and>
     sizeof_pkt dvd length (bytes_out (pi_write_fd s) (sy_trace s))"

definition pipe_written :: "pipe_t \<Rightarrow> u8 list list" where
  "pipe_written s = packets_out (sy_trace s)"

definition pipe_delivered :: "pipe_t \<Rightarrow> u8 list list" where
  "pipe_delivered s = packets_in (sy_trace s)"

lemma next_answer_pipe:
  "next_answer (s :: pipe_t) = Done (a, t) \<Longrightarrow> sy_trace t = sy_trace s \<and> pi_read_fd t = pi_read_fd s \<and>
     pi_write_fd t = pi_write_fd s \<and> pipe_ok t = pipe_ok s"
  by (auto simp: next_answer_def pipe_ok_def split: list.splits)

lemma chunk_next:
  assumes "sizeof_pkt dvd length bs" and "length cs \<le> sizeof_pkt"
  shows "drop (length (chunk bs)) (chunk (bs @ cs)) = (if length cs = sizeof_pkt then [cs] else [])"
  using assms by (simp add: chunk_append chunk_one chunk_short)

lemma pipe_send_law:
  assumes "pipe_ok s" and "length pkt = sizeof_pkt" and "pipe_send pkt s = Done (r, t)"
  shows "(r = 0 \<or> r = -1) \<and> (r = 0 \<longrightarrow> pipe_ok t) \<and> packets_in (sy_trace t) = packets_in (sy_trace s) \<and>
    packets_out (sy_trace t) = packets_out (sy_trace s) @ (if r = 0 then [pkt] else [])"
proof -
  obtain a u where a: "next_answer s = Done (a, u)"
    using assms(3) by (auto simp: pipe_send_def send_call_def on_done_eq_Done)
  note u = next_answer_pipe [OF a]
  show ?thesis
  proof (cases "sa_ret a < 0")
    case True
    then show ?thesis using assms(3) a u by (simp add: pipe_send_def send_call_def sizeof_pkt_def)
  next
    case False
    let ?k = "min (nat (sa_ret a)) (length pkt)"
    have "is_open (pi_write_fd s) (sy_trace u)" using u assms(1) by (simp add: pipe_ok_def)
    then have t: "t = note_event (Sent (pi_write_fd s) (take ?k pkt)) u" and r: "r = (if ?k = sizeof_pkt then 0 else -1)"
      using assms(3) a False by (auto simp: pipe_send_def send_call_def Let_def)
    have dvd: "sizeof_pkt dvd length (bytes_out (pi_write_fd s) (sy_trace s))" using assms(1) by (simp add: pipe_ok_def)
    have out: "packets_out (sy_trace t) = packets_out (sy_trace s) @ (if r = 0 then [pkt] else [])"
      using u r assms(2) chunk_next [OF dvd, of "take ?k pkt"] by (auto simp: t)
    have "pipe_ok t" if "r = 0"
      using that r u assms(1,2) by (auto simp: pipe_ok_def t note_event_def split: if_splits)
    then show ?thesis using out r u by (auto simp: t)
  qed
qed

text \<open>Either nothing was read, or a part of a packet or a whole one.\<close>

lemma pipe_receive_cases:
  assumes "is_open (pi_read_fd s) (sy_trace s)" and "pipe_receive timeout s = Done (r, bs, t)"
  obtains d where "bs = []" "r \<in> {0, -1}" "sy_trace t = Waited d # sy_trace s"
      "pi_read_fd t = pi_read_fd s" "pi_write_fd t = pi_write_fd s"
    | d where "length bs \<le> sizeof_pkt" "r = (if length bs = sizeof_pkt then 1 else -1)"
      "sy_trace t = Got (pi_read_fd s) bs # Waited d # sy_trace s"
      "pi_read_fd t = pi_read_fd s" "pi_write_fd t = pi_write_fd s"
proof -
  define d :: u64 where "d = ucast (timeout div 1000) * 1000000 + ucast (timeout mod 1000 * 1000)"
  obtain a u where a: "next_answer s = Done (a, u)"
    and rest: "(if sa_ret a = 0 then Done (0, [], note_event (Waited d) u)
      else if sa_ret a < 0 then Done (-1, [], note_event (Waited d) u)
      else on_done (read_call (pi_read_fd u) sizeof_pkt (note_event (Waited d) u)) (\<lambda>(n, err, bs, s).
            Done (if n = int sizeof_pkt then 1 else -1, bs, s))) = Done (r, bs, t)"
    using assms(2)
    by (auto simp: pipe_receive_def select_call_def Let_def on_done_eq_Done note_event_def d_def split: if_splits)
  note u = next_answer_pipe [OF a]
  define v where "v = note_event (Waited d) u"
  have v: "sy_trace v = Waited d # sy_trace s" "pi_read_fd v = pi_read_fd s" "pi_write_fd v = pi_write_fd s"
    "is_open (pi_read_fd s) (sy_trace v)"
    using u assms(1) by (simp_all add: v_def pipe_ok_def note_event_def)
  note rest = rest [folded v_def]
  show thesis
  proof (cases "sa_ret a \<le> 0")
    case True
    then have "bs = []" "r \<in> {0, -1}" "t = v" using rest by (auto split: if_splits)
    then show ?thesis using that(1) v by blast
  next
    case False
    then obtain b w where b: "next_answer v = Done (b, w)"
      using rest by (auto simp: read_call_def on_done_eq_Done split: if_splits)
    note w = next_answer_pipe [OF b]
    have fd: "pi_read_fd u = pi_read_fd s" using u by simp
    show ?thesis
    proof (cases "sa_ret b < 0")
      case True
      then have "bs = []" "r \<in> {0, -1}" "t = w" using rest False b by (auto simp: read_call_def sizeof_pkt_def)
      then show ?thesis using that(1) v w by simp
    next
      case pos: False
      let ?bs = "take sizeof_pkt (sa_data b)"
      have "is_open (pi_read_fd s) (sy_trace w)" using w v by simp
      then have "t = note_event (Got (pi_read_fd s) ?bs) w" "bs = ?bs"
        "r = (if length ?bs = sizeof_pkt then 1 else -1)"
        using rest False b pos fd by (auto simp: read_call_def Let_def split: if_splits)
      then show ?thesis using that(2) [of d] w v by (simp add: note_event_def)
    qed
  qed
qed

lemma pipe_receive_law:
  assumes "pipe_ok s" and "pipe_receive timeout s = Done (r, pkt, t)"
  shows "(r = 0 \<or> r = 1 \<or> r = -1) \<and> (r \<noteq> -1 \<longrightarrow> pipe_ok t) \<and>
    packets_out (sy_trace t) = packets_out (sy_trace s) \<and>
    packets_in (sy_trace t) = packets_in (sy_trace s) @ (if r = 1 then [pkt] else []) \<and>
    (r = 1 \<longrightarrow> length pkt = sizeof_pkt)"
proof (rule pipe_receive_cases [OF _ assms(2)])
  show "is_open (pi_read_fd s) (sy_trace s)" using assms(1) by (simp add: pipe_ok_def)
next
  fix d
  assume "pkt = []" "r \<in> {0, -1}" "sy_trace t = Waited d # sy_trace s" "pi_read_fd t = pi_read_fd s"
    "pi_write_fd t = pi_write_fd s"
  then show ?thesis using assms(1) by (auto simp: pipe_ok_def)
next
  fix d
  assume got: "length pkt \<le> sizeof_pkt" "r = (if length pkt = sizeof_pkt then 1 else -1)"
    "sy_trace t = Got (pi_read_fd s) pkt # Waited d # sy_trace s" "pi_read_fd t = pi_read_fd s"
    "pi_write_fd t = pi_write_fd s"
  have "sizeof_pkt dvd length (bytes_in (pi_read_fd s) (sy_trace s))" using assms(1) by (simp add: pipe_ok_def)
  note chunk_next [OF this got(1)]
  then show ?thesis using got assms(1) by (auto simp: pipe_ok_def split: if_splits)
qed

interpretation pipe: transport pipe_send pipe_receive pipe_ok pipe_written pipe_delivered
proof unfold_locales
  show "(r = 0 \<or> r = -1) \<and> (r = 0 \<longrightarrow> pipe_ok t) \<and> pipe_delivered t = pipe_delivered s \<and>
      pipe_written t = pipe_written s @ (if r = 0 then [pkt] else [])"
    if "pipe_ok s" "length pkt = sizeof_pkt" "pipe_send pkt s = Done (r, t)" for s t pkt r
    using pipe_send_law [OF that] by (simp add: pipe_written_def pipe_delivered_def)
  show "(r = 0 \<or> r = 1 \<or> r = -1) \<and> (r \<noteq> -1 \<longrightarrow> pipe_ok t) \<and> pipe_written t = pipe_written s \<and>
      pipe_delivered t = pipe_delivered s @ (if r = 1 then [pkt] else []) \<and> (r = 1 \<longrightarrow> length pkt = sizeof_pkt)"
    if "pipe_ok s" "pipe_receive timeout s = Done (r, pkt, t)" for s t pkt r timeout
    using pipe_receive_law [OF that] by (simp add: pipe_written_def pipe_delivered_def)
qed

section \<open>Short reads\<close>

text \<open>
  C39: after a \<open>read\<close> that gave a part of a packet, for which \<open>pipe_receive\<close> returns -1, the part is
  lost and the pipe stays inside that packet: the next packet that is delivered, with result 1, is
  the end of the first packet of the stream followed by the start of the second one.
\<close>

theorem pipe_short_read_misaligns:
  assumes "pipe_ok s" and "pipe_receive timeout s = Done (-1, bs, t)" and "bs \<noteq> []"
    and "pipe_receive timeout' t = Done (1, pkt, u)"
    and "length p = sizeof_pkt" and "length q = sizeof_pkt"
    and "prefix (bytes_in (pi_read_fd s) (sy_trace u)) (bytes_in (pi_read_fd s) (sy_trace s) @ p @ q)"
  shows "0 < length bs \<and> length bs < sizeof_pkt \<and>
    pkt = drop (length bs) p @ take (length bs) q"
proof -
  let ?fd = "pi_read_fd s"
  have open_s: "is_open ?fd (sy_trace s)" using assms(1) by (simp add: pipe_ok_def)
  obtain d where short: "length bs < sizeof_pkt" "sy_trace t = Got ?fd bs # Waited d # sy_trace s"
    "pi_read_fd t = ?fd"
    by (rule pipe_receive_cases [OF open_s assms(2)]) (use assms(3) in \<open>auto split: if_splits\<close>)
  then have "is_open (pi_read_fd t) (sy_trace t)" using open_s by simp
  then obtain d' where next_read: "length pkt = sizeof_pkt" "sy_trace u = Got ?fd pkt # Waited d' # sy_trace t"
    by (rule pipe_receive_cases [OF _ assms(4)]) (use short(3) in \<open>auto split: if_splits\<close>)
  have "bytes_in ?fd (sy_trace u) = bytes_in ?fd (sy_trace s) @ bs @ pkt"
    by (simp add: next_read(2) short(2))
  then obtain rest where "bs @ pkt @ rest = p @ q"
    using assms(7) by (auto simp: prefix_def)
  then have "drop (length bs) (p @ q) = pkt @ rest" by (metis append_eq_conv_conj)
  then have "pkt = take sizeof_pkt (drop (length bs) (p @ q))" using next_read(1) by simp
  then show ?thesis using short(1) assms(3,5,6) by simp
qed

text \<open>The stream of two packets, of ones and of twos, of which the first \<open>read\<close> gives one byte.\<close>

definition cut_answer :: "u8 list \<Rightarrow> sys_answer" where
  "cut_answer bs = \<lparr>sa_ret = 1, sa_errno = EOTHER, sa_fd = -1, sa_data = bs, sa_rfds = [0], sa_wfds = [],
     sa_usec = 0\<rparr>"

theorem pipe_short_read_misaligns_witness:
  "\<exists>t u. pipe_receive 0 \<lparr>sy_script = map cut_answer [[], [1], [], replicate 1039 1 @ [2]],
      sy_trace = [Opened 0, Opened 1], pi_read_fd = 0, pi_write_fd = 1\<rparr> = Done (-1, [1], t) \<and>
    pipe_receive 0 t = Done (1, drop 1 (replicate 1040 1) @ take 1 (replicate 1040 2), u)"
proof -
  let ?ds = "[[], [1], [], replicate 1039 1 @ [2]] :: u8 list list"
  let ?s = "\<lparr>sy_script = map cut_answer ?ds, sy_trace = [Opened 0, Opened 1], pi_read_fd = 0, pi_write_fd = 1\<rparr>"
  let ?p = "replicate 1040 1 :: u8 list" and ?q = "replicate 1040 2 :: u8 list"
  have ok: "pipe_ok ?s" by (simp add: pipe_ok_def)
  note run = pipe_receive_def call_defs fd_ok_def FD_SETSIZE_def sizeof_pkt_def cut_answer_def note_event_def Let_def
  obtain t where t: "pipe_receive 0 ?s = Done (-1, [1], t)"
    "t = \<lparr>sy_script = map cut_answer (drop 2 ?ds), sy_trace = [Got 0 [1], Waited 0, Opened 0, Opened 1],
       pi_read_fd = 0, pi_write_fd = 1\<rparr>"
    by (simp add: run)
  obtain u where u: "pipe_receive 0 t = Done (1, replicate 1039 1 @ [2], u)"
    "sy_trace u = Got 0 (replicate 1039 1 @ [2]) # Waited 0 # sy_trace t"
    unfolding t(2) by (simp add: run)
  have "prefix ([1 :: u8] @ replicate 1039 1 @ [2]) (?p @ ?q)"
  proof -
    have "?p = [1] @ replicate 1039 1" "?q = [2] @ replicate 1039 2"
      by (simp_all flip: replicate_Suc)
    then show ?thesis by simp
  qed
  then have "prefix (bytes_in (pi_read_fd ?s) (sy_trace u)) (bytes_in (pi_read_fd ?s) (sy_trace ?s) @ ?p @ ?q)"
    by (simp add: u(2) t(2))
  from pipe_short_read_misaligns [OF ok t(1) _ u(1) _ _ this] show ?thesis
    using t(1) u(1) by (simp add: sizeof_pkt_def)
qed

end
