(* ===== verification/Client_Base.thy ===== *)
theory Client_Base
  imports Socket_Laws Pipe_Transport Rpc Os_Util
begin

text \<open>
  What the two client programs share: the calls of the functions of a transport on packets, and
  what the contract of the transports makes of them. The bytes of padding in the packets are a
  part of the state of the program, \<open>pg_pad\<close>.
\<close>

definition CLIENT_ID :: u32 where
  "CLIENT_ID = 999"

record 'c prog_t =
  pg_transport :: "'c transport_t"
  pg_os :: os_t
  pg_pad :: "u8 list"

abbreviation pg_context :: "('c, 'a) prog_t_scheme \<Rightarrow> 'c" where
  "pg_context p \<equiv> t_context (pg_transport p)"

definition set_context :: "'c \<Rightarrow> ('c, 'a) prog_t_scheme \<Rightarrow> ('c, 'a) prog_t_scheme" where
  "set_context c p = p\<lparr>pg_transport := (pg_transport p)\<lparr>t_context := c\<rparr>\<rparr>"

text \<open>\<open>t.send(&pkt, t.context)\<close> and \<open>t.receive(&res_pkt, timeout_ms, t.context)\<close>.\<close>

definition call_send :: "pkt_t \<Rightarrow> ('c, 'a) prog_t_scheme \<Rightarrow> (int \<times> ('c, 'a) prog_t_scheme) outcome" where
  "call_send pkt p =
     on_done (t_send (pg_transport p) (pkt_mem (pg_pad p) pkt) (pg_context p))
       (\<lambda>(r, c). Done (r, set_context c p))"

definition call_receive ::
  "u32 \<Rightarrow> ('c, 'a) prog_t_scheme \<Rightarrow> (int \<times> pkt_t \<times> ('c, 'a) prog_t_scheme) outcome" where
  "call_receive timeout_ms p =
     on_done (t_receive (pg_transport p) timeout_ms (pg_context p))
       (\<lambda>(r, mem, c). Done (r, mem_pkt mem, set_context c p))"

text \<open>\<open>time(NULL)\<close> and an uninitialised packet.\<close>

definition time_call :: "os_t \<Rightarrow> u32 \<times> os_t" where
  "time_call os = (word_of_int (fst (os_clock os (os_calls os))), os_next os)"

definition stack_pkt :: "('c, 'a) prog_t_scheme \<Rightarrow> pkt_t \<times> ('c, 'a) prog_t_scheme" where
  "stack_pkt p = (let (pkt, os) = fresh_pkt (pg_os p) in (pkt, p\<lparr>pg_os := os\<rparr>))"

text \<open>A request of a client in the memory of a packet, and an answer that says yes.\<close>

definition request_mem :: "u32 \<Rightarrow> proc_req_t \<Rightarrow> u8 list \<Rightarrow> bool" where
  "request_mem num_peers req mem \<longleftrightarrow> length mem = sizeof_pkt \<and>
     (let pkt = mem_pkt mem; h = pkt_header pkt
      in h_code h = RPC_CALL_PROC \<and> h_src h = CLIENT_ID \<and> h_dst h < num_peers \<and>
         rpc_unpack_proc_req pkt = Some req)"

definition answer_yes :: "pkt_t \<Rightarrow> bool" where
  "answer_yes pkt \<longleftrightarrow> h_code (pkt_header pkt) = RPC_RESP_PROC \<and>
     (case rpc_unpack_proc_res pkt of None \<Rightarrow> False | Some res \<Rightarrow> ps_success res \<noteq> 0)"

lemma request_mem_pack:
  assumes "wf_pkt pkt" and "length pad = 3" and "dst < num_peers"
  shows "request_mem num_peers req (pkt_mem pad (snd (rpc_pack_proc_req pkt dst CLIENT_ID req)))"
  using pack_proc_req_ok [OF assms(1)] mem_pkt_mem [OF _ assms(2)] assms(3)
  by (simp add: request_mem_def Let_def)

lemma set_context_frame [simp]:
  "pg_os (set_context c p) = pg_os p" "pg_pad (set_context c p) = pg_pad p"
  "pg_context (set_context c p) = c" "t_send (pg_transport (set_context c p)) = t_send (pg_transport p)"
  "t_receive (pg_transport (set_context c p)) = t_receive (pg_transport p)"
  by (simp_all add: set_context_def)

context transport
begin

text \<open>The program runs over the functions of the transport, in a state of its invariant.\<close>

definition runs_over :: "('c, 'a) prog_t_scheme \<Rightarrow> bool" where
  "runs_over p \<longleftrightarrow> t_send (pg_transport p) = send \<and> t_receive (pg_transport p) = receive"

definition runs :: "('c, 'a) prog_t_scheme \<Rightarrow> bool" where
  "runs p \<longleftrightarrow> runs_over p \<and> ok (pg_context p) \<and> wf_os (pg_os p) \<and> length (pg_pad p) = 3"

lemma runs_frame:
  "runs p \<Longrightarrow> pg_transport q = pg_transport p \<Longrightarrow> wf_os (pg_os q) = wf_os (pg_os p) \<Longrightarrow>
     pg_pad q = pg_pad p \<Longrightarrow> runs q"
  by (simp add: runs_def runs_over_def)

lemma call_send_law:
  assumes "runs p" and "call_send pkt p = Done (r, q)" and "wf_pkt pkt"
  shows "r = 0 \<or> r = -1" and "r = 0 \<Longrightarrow> runs q" and "delivered (pg_context q) = delivered (pg_context p)"
    and "written (pg_context q) = written (pg_context p) @ (if r = 0 then [pkt_mem (pg_pad p) pkt] else [])"
    and "\<exists>c. q = set_context c p"
proof -
  obtain c where c: "send (pkt_mem (pg_pad p) pkt) (pg_context p) = Done (r, c)" and q: "q = set_context c p"
    using assms(1,2) by (auto simp: call_send_def on_done_eq_Done runs_def runs_over_def)
  have "length (pkt_mem (pg_pad p) pkt) = sizeof_pkt"
    using mem_pkt_mem(2) [OF assms(3)] assms(1) by (simp add: runs_def)
  with assms(1) have "ok (pg_context p)" "length (pkt_mem (pg_pad p) pkt) = sizeof_pkt"
    by (simp_all add: runs_def)
  note law = send_law [OF this c]
  show "r = 0 \<or> r = -1" "r = 0 \<Longrightarrow> runs q" "delivered (pg_context q) = delivered (pg_context p)"
    "written (pg_context q) = written (pg_context p) @ (if r = 0 then [pkt_mem (pg_pad p) pkt] else [])"
    "\<exists>c. q = set_context c p"
    using law assms(1) by (auto simp: q runs_def runs_over_def)
qed

lemma call_receive_law:
  assumes "runs p" and "call_receive timeout p = Done (r, pkt, q)"
  shows "r = 0 \<or> r = 1 \<or> r = -1" and "r \<noteq> -1 \<Longrightarrow> runs q" and "written (pg_context q) = written (pg_context p)"
    and "\<exists>mem. pkt = mem_pkt mem \<and> (r = 1 \<longrightarrow> length mem = sizeof_pkt) \<and>
      delivered (pg_context q) = delivered (pg_context p) @ (if r = 1 then [mem] else [])"
    and "\<exists>c. q = set_context c p"
proof -
  obtain mem c where c: "receive timeout (pg_context p) = Done (r, mem, c)"
    and q: "q = set_context c p" "pkt = mem_pkt mem"
    using assms by (auto simp: call_receive_def on_done_eq_Done runs_def runs_over_def)
  note law = receive_law [OF _ c]
  show "r = 0 \<or> r = 1 \<or> r = -1" "r \<noteq> -1 \<Longrightarrow> runs q" "written (pg_context q) = written (pg_context p)"
    "\<exists>mem. pkt = mem_pkt mem \<and> (r = 1 \<longrightarrow> length mem = sizeof_pkt) \<and>
      delivered (pg_context q) = delivered (pg_context p) @ (if r = 1 then [mem] else [])"
    "\<exists>c. q = set_context c p"
    using law assms(1) by (auto simp: q runs_def runs_over_def)
qed

end

context lasting_transport
begin

lemma call_send_keeps:
  "runs p \<Longrightarrow> call_send pkt p = Done (r, q) \<Longrightarrow> wf_pkt pkt \<Longrightarrow> runs q"
  using send_keeps mem_pkt_mem(2)
  by (fastforce simp: call_send_def on_done_eq_Done runs_def runs_over_def)

lemma call_receive_keeps: "runs p \<Longrightarrow> call_receive timeout p = Done (r, pkt, q) \<Longrightarrow> runs q"
  using receive_keeps by (fastforce simp: call_receive_def on_done_eq_Done runs_def runs_over_def)

end

end
