(* ===== verification/Client.thy ===== *)
theory Client
  imports Client_Base
begin

text \<open>
  \<open>src/util-unix/client.c\<close>: the client that sends one command. \<open>client_loop\<close> is the loop over the
  at most two attempts, over any transport; \<open>client_main\<close> the program over sockets, with the lines
  it prints and the exit code.
\<close>

section \<open>The program\<close>

datatype client_line =
    Sending u32 u32
  | Success u32 u32
  | NotLeader u32 u32

record 'c client_t = "'c prog_t" +
  cl_out :: "client_line list"

definition say :: "client_line \<Rightarrow> 'c client_t \<Rightarrow> 'c client_t" where
  "say line p = p\<lparr>cl_out := cl_out p @ [line]\<rparr>"

text \<open>What is done with the result of \<open>receive\<close>: the node to ask next, if the loop goes on.\<close>

definition client_answer ::
  "u32 \<Rightarrow> proc_req_t \<Rightarrow> u32 \<Rightarrow> int \<Rightarrow> pkt_t \<Rightarrow> 'c client_t \<Rightarrow> u32 option \<times> 'c client_t" where
  "client_answer num_peers req target_node ret res_pkt p =
     (if ret \<le> 0 then (None, p)
      else if h_code (pkt_header res_pkt) \<noteq> RPC_RESP_PROC then (None, p)
      else case rpc_unpack_proc_res res_pkt of
        None \<Rightarrow> (None, p)
      | Some res \<Rightarrow>
          if ps_success res \<noteq> 0 then (None, say (Success (pr_cmd req) target_node) p)
          else let p = say (NotLeader target_node (ps_leader_hint res)) p
               in (if ps_leader_hint res < num_peers then Some (ps_leader_hint res) else None, p))"

definition client_attempt ::
  "u32 \<Rightarrow> proc_req_t \<Rightarrow> u32 \<Rightarrow> 'c client_t \<Rightarrow> (u32 option \<times> 'c client_t) outcome" where
  "client_attempt num_peers req target_node p =
     (let (pkt, p) = stack_pkt (say (Sending (pr_cmd req) target_node) p);
          (packed, pkt) = rpc_pack_proc_req pkt target_node CLIENT_ID req
      in if packed \<noteq> 0 then Done (None, p)
         else on_done (call_send pkt p) (\<lambda>(sent, p).
           if sent \<noteq> 0 then Done (None, p)
           else on_done (call_receive 10000 p) (\<lambda>(ret, res_pkt, p).
             Done (client_answer num_peers req target_node ret res_pkt p))))"

function client_loop :: "u32 \<Rightarrow> proc_req_t \<Rightarrow> u32 \<Rightarrow> nat \<Rightarrow> 'c client_t \<Rightarrow> 'c client_t outcome" where
  "client_loop num_peers req target_node attempts p =
     (if 2 \<le> attempts \<or> num_peers \<le> target_node then Done p
      else on_done (client_attempt num_peers req target_node p) (\<lambda>(hint, p).
        case hint of
          None \<Rightarrow> Done p
        | Some target_node \<Rightarrow> client_loop num_peers req target_node (Suc attempts) p))"
  by pat_completeness auto
termination by (relation "measure (\<lambda>(n, req, t, a, p). 2 - a)") auto

declare client_loop.simps [simp del]

text \<open>
  The exit code, the output and, after a run of the loop, the transport as it was freed. Without
  a peer the division by \<open>num_peers\<close> is not defined.
\<close>

definition client_main ::
  "string list \<Rightarrow> (string \<Rightarrow> u32 option) \<Rightarrow> sys_t \<Rightarrow> os_t \<Rightarrow> u8 list \<Rightarrow>
   (int \<times> client_line list \<times> sock_t option) outcome" where
  "client_main argv pton sys os pad =
     (if length argv < 4 then Done (1, [], None)
      else let cmd = u32_of_int (atoi (argv ! 1));
               peers = take 16 (strtok_all (CHR '','') (argv ! 2));
               num_peers = of_nat (length peers)
           in on_done (transport_socket_init num_peers (peers @ [argv ! 3]) (num_peers + 1) 5000 pton sys)
             (\<lambda>init. case init of
                Inl code \<Rightarrow> Done (code, [], None)
              | Inr t \<Rightarrow>
                  let (now, os) = time_call os; (r, os) = rand_call os; (seqno, os) = time_call os;
                      req = \<lparr>pr_client_id = CLIENT_ID, pr_cmd_seqno = seqno, pr_cmd = cmd\<rparr>
                  in if num_peers = 0 then Undef ''rand() % num_peers''
                     else on_done (client_loop num_peers req (u32_of_int r mod num_peers) 0
                             \<lparr>pg_transport = t, pg_os = os, pg_pad = pad, cl_out = []\<rparr>) (\<lambda>p.
                       Done (0, cl_out p, Some (transport_free (pg_context p))))))"

section \<open>The loop over any transport\<close>

lemma say_frame [simp]:
  "pg_transport (say l p) = pg_transport p" "pg_os (say l p) = pg_os p" "pg_pad (say l p) = pg_pad p"
  "cl_out (say l p) = cl_out p @ [l]"
  by (simp_all add: say_def)

lemma set_context_out [simp]: "cl_out (set_context c p) = cl_out p"
  by (simp add: set_context_def)

text \<open>What a run adds: packets written, packets delivered, and lines.\<close>

definition line_ok :: "u32 \<Rightarrow> proc_req_t \<Rightarrow> u8 list list \<Rightarrow> client_line \<Rightarrow> bool" where
  "line_ok num_peers req got l = (case l of
     Success cmd node \<Rightarrow> cmd = pr_cmd req \<and> node < num_peers \<and> list_ex (\<lambda>m. answer_yes (mem_pkt m)) got
   | _ \<Rightarrow> True)"

definition client_did :: "u32 \<Rightarrow> proc_req_t \<Rightarrow> nat \<Rightarrow> u8 list list \<Rightarrow> u8 list list \<Rightarrow> client_line list \<Rightarrow> bool" where
  "client_did num_peers req n sent got out \<longleftrightarrow> length sent \<le> n \<and> length got \<le> length sent \<and>
     list_all (request_mem num_peers req) sent \<and> list_all (line_ok num_peers req got) out"

lemma line_ok_more: "line_ok n req got l \<Longrightarrow> line_ok n req (got @ got') l \<and> line_ok n req (got' @ got) l"
  by (auto simp: line_ok_def split: client_line.splits)

lemma client_did_append:
  assumes "client_did n req k sent got out" and "client_did n req l sent' got' out'"
  shows "client_did n req (k + l) (sent @ sent') (got @ got') (out @ out')"
  using assms line_ok_more by (fastforce simp: client_did_def list_all_iff)

lemma client_answer_lines:
  assumes "client_answer n req t ret pkt p = (hint, q)"
  shows "pg_transport q = pg_transport p" and "pg_os q = pg_os p" and "pg_pad q = pg_pad p"
    and "hint \<noteq> None \<Longrightarrow> 0 < ret"
    and "\<exists>out. cl_out q = cl_out p @ out \<and>
      (\<forall>l \<in> set out. case l of Success c u \<Rightarrow> 0 < ret \<and> c = pr_cmd req \<and> u = t \<and> answer_yes pkt | _ \<Rightarrow> True)"
  using assms
  by (auto simp: client_answer_def answer_yes_def Let_def split: if_splits option.splits)

context transport
begin

definition client_step :: "u32 \<Rightarrow> proc_req_t \<Rightarrow> nat \<Rightarrow> 'c client_t \<Rightarrow> 'c client_t \<Rightarrow> bool" where
  "client_step n req k p q \<longleftrightarrow> (\<exists>sent got out. written (pg_context q) = written (pg_context p) @ sent \<and>
     delivered (pg_context q) = delivered (pg_context p) @ got \<and> cl_out q = cl_out p @ out \<and>
     client_did n req k sent got out)"

lemma client_step_refl: "client_step n req k p p"
  by (auto simp: client_step_def client_did_def)

lemma client_step_trans:
  "client_step n req k p q \<Longrightarrow> client_step n req l q r \<Longrightarrow> client_step n req (k + l) p r"
  unfolding client_step_def using client_did_append by (metis append_assoc)

lemma client_attempt_law:
  assumes "client_attempt n req t p = Done (hint, q)" and "runs p" and t: "t < n"
  shows "client_step n req 1 p q" and "hint \<noteq> None \<Longrightarrow> runs q"
proof -
  define s where "s = say (Sending (pr_cmd req) t) p"
  obtain pkt1 p1 where p1: "stack_pkt s = (pkt1, p1)" by fastforce
  have eqs: "pkt1 = fst (fresh_pkt (pg_os s))" "p1 = s\<lparr>pg_os := snd (fresh_pkt (pg_os s))\<rparr>"
    using p1 by (auto simp: stack_pkt_def split: prod.splits)
  have wf: "wf_pkt pkt1" and r1: "runs p1"
    using assms(2) by (simp_all add: eqs s_def runs_def runs_over_def)
  obtain pkt where pkt: "rpc_pack_proc_req pkt1 t CLIENT_ID req = (0, pkt)" and wf': "wf_pkt pkt"
    using pack_proc_req_ok [OF wf, of t CLIENT_ID req] by (cases "rpc_pack_proc_req pkt1 t CLIENT_ID req") auto
  define m where "m = pkt_mem (pg_pad p1) pkt"
  have m: "request_mem n req m"
    using request_mem_pack [OF wf _ t, of "pg_pad p1" req] pkt r1 by (simp add: m_def runs_def)
  have out1: "pg_context p1 = pg_context p" "cl_out p1 = cl_out p @ [Sending (pr_cmd req) t]"
    by (simp_all add: eqs s_def)
  note run = assms(1) [unfolded client_attempt_def, folded s_def, unfolded p1 Let_def prod.case pkt]
  obtain r p2 where p2: "call_send pkt p1 = Done (r, p2)"
    using run by (auto simp: on_done_eq_Done)
  note sent = call_send_law [OF r1 p2 wf']
  have out2: "cl_out p2 = cl_out p1" using sent(5) by auto
  have "client_step n req 1 p q \<and> (hint \<noteq> None \<longrightarrow> runs q)"
  proof (cases "r = 0")
    case False
    then have q: "q = p2" "hint = None" using run p2 by auto
    have "client_did n req 1 [] [] [Sending (pr_cmd req) t]" by (simp add: client_did_def line_ok_def)
    then show ?thesis unfolding client_step_def q using sent(3,4) out1 out2 q False by fastforce
  next
    case True
    then obtain ret res_pkt p3 where p3: "call_receive 10000 p2 = Done (ret, res_pkt, p3)"
      and ans: "client_answer n req t ret res_pkt p3 = (hint, q)"
      using run p2 by (auto simp: on_done_eq_Done)
    note got = call_receive_law [OF sent(2) [OF True] p3]
    note ans = client_answer_lines [OF ans]
    obtain mem where mem: "res_pkt = mem_pkt mem"
      "delivered (pg_context p3) = delivered (pg_context p2) @ (if ret = 1 then [mem] else [])"
      using got(4) by blast
    obtain out where out: "cl_out q = cl_out p3 @ out" "\<forall>l \<in> set out. case l of
        Success c u \<Rightarrow> 0 < ret \<and> c = pr_cmd req \<and> u = t \<and> answer_yes res_pkt | _ \<Rightarrow> True"
      using ans(5) by blast
    have "client_did n req 1 [m] (if ret = 1 then [mem] else []) (Sending (pr_cmd req) t # out)"
      using m t out(2) mem(1) got(1) by (auto simp: client_did_def line_ok_def list_all_iff list_ex_iff split: client_line.splits)
    moreover have "cl_out p3 = cl_out p2" using got(5) by auto
    ultimately have "client_step n req 1 p q"
      unfolding client_step_def using sent(3,4) got(3) mem(2) out(1) out1 out2 ans(1) True
      by (intro exI conjI) (simp_all add: m_def)
    moreover have "runs q" if "hint \<noteq> None"
      using ans(1-4) that got(1,2) by (auto simp: runs_def runs_over_def)
    ultimately show ?thesis by blast
  qed
  then show "client_step n req 1 p q" and "hint \<noteq> None \<Longrightarrow> runs q" by blast+
qed

lemma client_loop_law:
  assumes "client_loop n req t a p = Done q" and "runs p"
  shows "client_step n req (2 - a) p q"
  using assms
proof (induction n req t a p rule: client_loop.induct)
  case (1 n req t a p)
  note run = "1.prems"(1) [unfolded client_loop.simps [of n req t a p]]
  show ?case
  proof (cases "2 \<le> a \<or> n \<le> t")
    case True
    then show ?thesis using run client_step_refl by simp
  next
    case False
    then obtain hint p1 where p1: "client_attempt n req t p = Done (hint, p1)"
      and rest: "(case hint of None \<Rightarrow> Done p1 | Some t \<Rightarrow> client_loop n req t (Suc a) p1) = Done q"
      using run by (auto simp: on_done_eq_Done)
    have "t < n" and a: "2 - a = 1 + (2 - Suc a)" using False by auto
    note law = client_attempt_law [OF p1 "1.prems"(2) this(1)]
    have "client_step n req (2 - Suc a) p1 q"
      using "1.IH" [OF False p1 refl] rest law(2) client_step_refl by (cases hint) auto
    then show ?thesis using client_step_trans [OF law(1)] by (simp only: a)
  qed
qed

end

end
