(* ===== verification/Benchmark.thy ===== *)
theory Benchmark
  imports Client_Base Double_Arith "HOL-Library.Sublist"
begin

text \<open>
  \<open>src/util-unix/benchmark-client.c\<close>: the client that sends one request after the other and
  writes a line to a file for each answer, or its absence. \<open>bench_step\<close> is one iteration of the
  loop, over any transport; \<open>bench_run n\<close> the first \<open>n\<close> iterations, after which a signal has come;
  \<open>bench_main\<close> the program over sockets. \<open>usleep\<close> takes 32 bits, its arguments are \<open>be_sleeps\<close>.
\<close>

section \<open>State\<close>

record csv_row =
  cr_seqno :: u32
  cr_sent_usec :: u64
  cr_received_usec :: u64
  cr_latency_ms :: double
  cr_result :: string
  cr_target :: int
  cr_leader_hint :: int
  cr_term :: int

datatype bench_line =
    SendFailure u32 u32
  | Completed u32
  | Redirected u32 u32
  | UnpackFailed u32
  | TimedOut u32 u32
  | ReceiveFailed u32

record 'c bench_t = "'c prog_t" +
  be_throttle_ms :: u32
  be_num_peers :: u32
  be_seqno :: u32
  be_current_leader :: u32
  be_last_send_start_usec :: u64
  be_sleeps :: "u32 list"
  be_log_file :: "csv_row list option"
  be_out :: "bench_line list"

definition be_sleep :: "u64 \<Rightarrow> 'c bench_t \<Rightarrow> 'c bench_t" where
  "be_sleep usec p = p\<lparr>be_sleeps := be_sleeps p @ [ucast usec]\<rparr>"

definition be_print :: "bench_line \<Rightarrow> 'c bench_t \<Rightarrow> 'c bench_t" where
  "be_print l p = p\<lparr>be_out := be_out p @ [l]\<rparr>"

definition be_usec :: "'c bench_t \<Rightarrow> u64 \<times> 'c bench_t" where
  "be_usec p = (let (now, os) = get_usec (pg_os p) in (now, p\<lparr>pg_os := os\<rparr>))"

definition random_leader :: "'c bench_t \<Rightarrow> 'c bench_t" where
  "random_leader p =
     (let (r, os) = rand_call (pg_os p)
      in p\<lparr>pg_os := os, be_current_leader := u32_of_int r mod be_num_peers p\<rparr>)"

section \<open>One iteration\<close>

definition throttle :: "'c bench_t \<Rightarrow> 'c bench_t" where
  "throttle p =
     (if 0 < be_throttle_ms p \<and> 0 < be_last_send_start_usec p
      then let (now, p) = be_usec p;
               elapsed = now - be_last_send_start_usec p;
               throttle_usec = ucast (be_throttle_ms p) * 1000
           in if elapsed < throttle_usec then be_sleep (throttle_usec - elapsed) p else p
      else p)"

text \<open>
  Lines 132 to 165: the result, the hint and the term for the line of the file, and the leader to
  ask next.
\<close>

definition bench_answer ::
  "u32 \<Rightarrow> int \<Rightarrow> pkt_t \<Rightarrow> 'c bench_t \<Rightarrow> string \<times> u32 \<times> int \<times> 'c bench_t" where
  "bench_answer seqno ret res_pkt p =
     (if 0 < ret \<and> h_code (pkt_header res_pkt) = RPC_RESP_PROC
      then case rpc_unpack_proc_res res_pkt of
        None \<Rightarrow> (''UNPACK_ERROR'', 0xFFFFFFFF, -1, be_print (UnpackFailed seqno) p)
      | Some res \<Rightarrow>
          if ps_success res \<noteq> 0
          then (''OK'', ps_leader_hint res, int_of_u32 (ps_term res), be_print (Completed seqno) p)
          else let p = be_print (Redirected seqno (ps_leader_hint res)) p;
                   p = (if ps_leader_hint res < be_num_peers p
                        then p\<lparr>be_current_leader := ps_leader_hint res\<rparr> else random_leader p)
               in (''NOT_LEADER'', ps_leader_hint res, int_of_u32 (ps_term res), p)
      else if ret = 0
      then (''TIMEOUT'', 0xFFFFFFFF, -1, random_leader (be_print (TimedOut seqno (be_current_leader p)) p))
      else (''RECV_ERROR'', 0xFFFFFFFF, -1, random_leader (be_print (ReceiveFailed seqno) p)))"

text \<open>Lines 167 to 184.\<close>

definition write_row :: "csv_row \<Rightarrow> 'c bench_t \<Rightarrow> 'c bench_t" where
  "write_row row p = p\<lparr>be_log_file := map_option (\<lambda>rows. rows @ [row]) (be_log_file p)\<rparr>"

definition bench_row :: "u32 \<Rightarrow> u64 \<Rightarrow> u64 \<Rightarrow> string \<Rightarrow> u32 \<Rightarrow> u32 \<Rightarrow> int \<Rightarrow> csv_row" where
  "bench_row seqno sent_usec recv_time result dst leader_hint trm =
     (let received_usec = (if result = ''OK'' then recv_time else 0)
      in \<lparr>cr_seqno = seqno, cr_sent_usec = sent_usec, cr_received_usec = received_usec,
          cr_latency_ms = (if result = ''OK'' \<and> 0 < received_usec
            then fl (fl (of_int (uint (received_usec - sent_usec))) / 1000) else 0),
          cr_result = result, cr_target = int_of_u32 dst, cr_leader_hint = int_of_u32 leader_hint,
          cr_term = trm\<rparr>)"

text \<open>Lines 84 to 107: wait for the throttle, take the next number and pack the request.\<close>

definition bench_request :: "'c bench_t \<Rightarrow> int \<times> pkt_t \<times> 'c bench_t" where
  "bench_request p =
     (let p = throttle p;
          req = \<lparr>pr_client_id = CLIENT_ID, pr_cmd_seqno = be_seqno p, pr_cmd = 72\<rparr>;
          p = p\<lparr>be_seqno := be_seqno p + 1\<rparr>;
          (pkt, p) = stack_pkt p;
          (packed, pkt) = rpc_pack_proc_req pkt (be_current_leader p) CLIENT_ID req
      in (packed, pkt, p))"

text \<open>Lines 126 to 189: what follows \<open>receive\<close>.\<close>

definition bench_finish :: "u32 \<Rightarrow> u64 \<Rightarrow> pkt_t \<Rightarrow> int \<Rightarrow> pkt_t \<Rightarrow> 'c bench_t \<Rightarrow> 'c bench_t" where
  "bench_finish seqno sent_usec pkt ret res_pkt p =
     (let (recv_time, p) = be_usec p;
          (result, leader_hint, trm, p) = bench_answer seqno ret res_pkt p;
          p = write_row (bench_row seqno sent_usec recv_time result
                (h_dst (pkt_header pkt)) leader_hint trm) p
      in if result = ''OK'' then p else be_sleep 10000 p)"

definition bench_step :: "'c bench_t \<Rightarrow> 'c bench_t outcome" where
  "bench_step p =
     (let seqno = be_seqno p;
          (packed, pkt, p) = bench_request p
      in if packed \<noteq> 0 then Done p
         else let (sent_usec, p) = be_usec p;
                  p = p\<lparr>be_last_send_start_usec := sent_usec\<rparr>
              in on_done (call_send pkt p) (\<lambda>(sent, p).
                if sent \<noteq> 0
                then Done (be_sleep 100000 (random_leader (be_print (SendFailure seqno (be_current_leader p)) p)))
                else on_done (call_receive 1000 p) (\<lambda>(ret, res_pkt, p).
                  Done (bench_finish seqno sent_usec pkt ret res_pkt p))))"

primrec bench_run :: "nat \<Rightarrow> 'c bench_t \<Rightarrow> 'c bench_t outcome" where
  "bench_run 0 p = Done p"
| "bench_run (Suc n) p = on_done (bench_step p) (bench_run n)"

text \<open>Lines 64 to 82: the file, the first number and the first leader.\<close>

definition bench_start :: "u32 \<Rightarrow> u32 \<Rightarrow> 'c transport_t \<Rightarrow> os_t \<Rightarrow> u8 list \<Rightarrow> 'c bench_t" where
  "bench_start throttle_ms num_peers t os pad =
     (let (opened, os) = fopen_call os; (now, os) = time_call os; (seqno, os) = time_call os;
          (r, os) = rand_call os
      in \<lparr>pg_transport = t, pg_os = os, pg_pad = pad, be_throttle_ms = throttle_ms, be_num_peers = num_peers,
          be_seqno = seqno, be_current_leader = u32_of_int r mod num_peers, be_last_send_start_usec = 0,
          be_sleeps = [], be_log_file = (if opened then Some [] else None), be_out = []\<rparr>)"

text \<open>The exit code and, after a run of the loop, the state with the transport as it was freed.\<close>

definition bench_main ::
  "string list \<Rightarrow> (string \<Rightarrow> u32 option) \<Rightarrow> sys_t \<Rightarrow> os_t \<Rightarrow> u8 list \<Rightarrow> nat \<Rightarrow>
   (int \<times> sock_t bench_t option) outcome" where
  "bench_main argv pton sys os pad n =
     (if length argv < 3 then Done (1, None)
      else let throttle_ms = (if 3 < length argv then u32_of_int (atoi (argv ! 3)) else 0);
               peers = take 16 (strtok_all (CHR '','') (argv ! 1));
               num_peers = of_nat (length peers)
           in if num_peers = 0 then Done (1, None)
              else on_done (transport_socket_init num_peers (peers @ [argv ! 2]) (num_peers + 1) 2000 pton sys)
                (\<lambda>init. case init of
                   Inl code \<Rightarrow> Done (code, None)
                 | Inr t \<Rightarrow>
                     on_done (bench_run n (bench_start throttle_ms num_peers t os pad))
                       (\<lambda>p. Done (0, Some (set_context (transport_free (pg_context p)) p)))))"

section \<open>What an iteration keeps\<close>

definition leader_valid :: "'c bench_t \<Rightarrow> bool" where
  "leader_valid p \<longleftrightarrow> be_current_leader p < be_num_peers p"

lemma be_frames [simp]:
  "pg_transport (be_sleep d p) = pg_transport p" "pg_transport (be_print l p) = pg_transport p"
  "pg_transport (write_row r p) = pg_transport p" "pg_transport (random_leader p) = pg_transport p"
  "pg_transport (snd (be_usec p)) = pg_transport p" "pg_pad (be_sleep d p) = pg_pad p"
  "pg_pad (be_print l p) = pg_pad p" "pg_pad (write_row r p) = pg_pad p"
  "pg_pad (random_leader p) = pg_pad p" "pg_pad (snd (be_usec p)) = pg_pad p"
  "wf_os (pg_os (be_sleep d p)) = wf_os (pg_os p)" "wf_os (pg_os (be_print l p)) = wf_os (pg_os p)"
  "wf_os (pg_os (write_row r p)) = wf_os (pg_os p)" "wf_os (pg_os (random_leader p)) = wf_os (pg_os p)"
  "wf_os (pg_os (snd (be_usec p))) = wf_os (pg_os p)"
  by (simp_all add: be_sleep_def be_print_def write_row_def random_leader_def be_usec_def rand_call_def
      get_usec_def split_beta Let_def)

text \<open>The rest of the state: the counter, the file and the number of peers.\<close>

definition same_book :: "'c bench_t \<Rightarrow> 'c bench_t \<Rightarrow> bool" where
  "same_book p q \<longleftrightarrow> be_num_peers q = be_num_peers p \<and> be_seqno q = be_seqno p \<and>
     be_log_file q = be_log_file p \<and> (leader_valid p \<longrightarrow> leader_valid q)"

lemma same_book_refl [simp]: "same_book p p"
  by (simp add: same_book_def)

lemma same_book_trans [trans]: "same_book p q \<Longrightarrow> same_book q r \<Longrightarrow> same_book p r"
  by (simp add: same_book_def)

lemma leader_mod_less: "(l :: u32) < n \<Longrightarrow> k mod n < n"
  by (metis word_coorder.not_eq_extremum word_coorder.extremum_strict word_mod_less_divisor)

lemma same_books:
  "same_book p (be_sleep d p)" "same_book p (be_print l p)" "same_book p (random_leader p)"
  "same_book p (snd (be_usec p))" "same_book p (throttle p)" "same_book p (snd (stack_pkt p))"
  "same_book p (set_context c p)" "same_book p (p\<lparr>be_last_send_start_usec := t\<rparr>)"
  by (auto simp: same_book_def leader_valid_def be_sleep_def be_print_def random_leader_def be_usec_def
      throttle_def stack_pkt_def set_context_def split_beta Let_def intro: leader_mod_less)

lemma bench_answer_frame:
  assumes "bench_answer seqno ret pkt p = (result, hint, trm, q)"
  shows "pg_transport q = pg_transport p" and "pg_pad q = pg_pad p" and "wf_os (pg_os q) = wf_os (pg_os p)"
    and "same_book p q" and "result = ''OK'' \<longleftrightarrow> 0 < ret \<and> answer_yes pkt"
proof -
  have redirect: "same_book p (random_leader (be_print l p))" "same_book p (be_print l p)"
    "h < be_num_peers p \<Longrightarrow> same_book p ((be_print l p)\<lparr>be_current_leader := h\<rparr>)" for l h
    using same_book_trans [OF same_books(2,3)] same_books(2)
    by (auto simp: same_book_def leader_valid_def be_print_def)
  have peers: "be_num_peers (be_print l p) = be_num_peers p" for l by (simp add: be_print_def)
  show "pg_transport q = pg_transport p" "pg_pad q = pg_pad p" "wf_os (pg_os q) = wf_os (pg_os p)"
    using assms by (auto simp: bench_answer_def Let_def split: if_splits option.splits)
  show "same_book p q"
    using assms redirect peers by (auto simp: bench_answer_def Let_def split: if_splits option.splits)
  show "result = ''OK'' \<longleftrightarrow> 0 < ret \<and> answer_yes pkt"
    using assms by (auto simp: bench_answer_def answer_yes_def Let_def split: if_splits option.splits)
qed

section \<open>The loop over a transport that lasts\<close>

definition bench_req :: "u32 \<Rightarrow> proc_req_t" where
  "bench_req seqno = \<lparr>pr_client_id = CLIENT_ID, pr_cmd_seqno = seqno, pr_cmd = 72\<rparr>"

text \<open>A line of the file and the packet of its request.\<close>

definition row_of :: "u32 \<Rightarrow> u8 list \<Rightarrow> csv_row \<Rightarrow> bool" where
  "row_of num_peers mem row \<longleftrightarrow> request_mem num_peers (bench_req (cr_seqno row)) mem \<and>
     cr_target row = int_of_u32 (h_dst (pkt_header (mem_pkt mem)))"

abbreviation is_OK :: "csv_row \<Rightarrow> bool" where
  "is_OK row \<equiv> cr_result row = ''OK''"

text \<open>
  What \<open>n\<close> iterations from the sequence number \<open>start\<close> add: a line for each request that was sent,
  in their order and with their numbers, and an \<open>OK\<close> for each delivered answer that says yes.
\<close>

definition bench_did ::
  "u32 \<Rightarrow> u32 \<Rightarrow> nat \<Rightarrow> u8 list list \<Rightarrow> u8 list list \<Rightarrow> csv_row list \<Rightarrow> bool" where
  "bench_did num_peers start n sent got rows \<longleftrightarrow> list_all2 (row_of num_peers) sent rows \<and>
     subseq (map cr_seqno rows) (map (\<lambda>i. start + of_nat i) [0..<n]) \<and> length got \<le> length sent \<and>
     length (filter is_OK rows) = length (filter (\<lambda>m. answer_yes (mem_pkt m)) got)"

lemma bench_did_0: "bench_did k start n [] [] []"
  by (simp add: bench_did_def)

lemma bench_did_Suc:
  assumes "bench_did k start 1 sent got rows" and "bench_did k (start + 1) n sent' got' rows'"
  shows "bench_did k start (Suc n) (sent @ sent') (got @ got') (rows @ rows')"
proof -
  have nums: "map (\<lambda>i. start + of_nat i) [0..<Suc n] =
      map (\<lambda>i. start + of_nat i) [0..<1] @ map (\<lambda>i. start + 1 + of_nat i) [0..<n]"
    by (simp add: upt_conv_Cons map_Suc_upt [symmetric] comp_def add.assoc del: upt_Suc)
  show ?thesis
    using assms list_emb_append_mono [of "(=)" "map cr_seqno rows" "map (\<lambda>i. start + of_nat i) [0..<1]"
        "map cr_seqno rows'" "map (\<lambda>i. start + 1 + of_nat i) [0..<n]"]
    unfolding bench_did_def nums by (auto intro: list_all2_appendI)
qed

context lasting_transport
begin

definition bench_eff :: "nat \<Rightarrow> 'c bench_t \<Rightarrow> 'c bench_t \<Rightarrow> bool" where
  "bench_eff n p q \<longleftrightarrow> (\<exists>sent got rows. written (pg_context q) = written (pg_context p) @ sent \<and>
     delivered (pg_context q) = delivered (pg_context p) @ got \<and>
     be_log_file q = map_option (\<lambda>old. old @ rows) (be_log_file p) \<and>
     bench_did (be_num_peers p) (be_seqno p) n sent got rows)"

definition bench_inv :: "'c bench_t \<Rightarrow> bool" where
  "bench_inv p \<longleftrightarrow> runs p \<and> leader_valid p"

lemma bench_request_law:
  assumes "bench_request p = (packed, pkt, q)" and "bench_inv p"
  shows "packed = 0" and "wf_pkt pkt" and "bench_inv q" and "pg_transport q = pg_transport p"
    and "request_mem (be_num_peers p) (bench_req (be_seqno p)) (pkt_mem (pg_pad q) pkt)"
    and "be_num_peers q = be_num_peers p" and "be_log_file q = be_log_file p" and "be_seqno q = be_seqno p + 1"
proof -
  define t where "t = throttle p"
  have book: "same_book p t" unfolding t_def by (rule same_books)
  have t: "pg_transport t = pg_transport p" "pg_pad t = pg_pad p" "wf_os (pg_os t) = wf_os (pg_os p)"
    by (simp_all add: t_def throttle_def split_beta Let_def)
  then have "runs t" using assms(2) runs_frame by (metis bench_inv_def)
  define u where "u = t\<lparr>be_seqno := be_seqno p + 1\<rparr>"
  have u: "pg_transport u = pg_transport p" "pg_pad u = pg_pad p" "wf_os (pg_os u)" "pg_os u = pg_os t"
    using t assms(2) by (simp_all add: u_def bench_inv_def runs_def)
  define pkt1 where "pkt1 = fst (fresh_pkt (pg_os u))"
  have wf: "wf_pkt pkt1" using u(3) by (simp add: pkt1_def)
  have seq: "be_seqno t = be_seqno p" using book by (simp add: same_book_def)
  have q: "q = u\<lparr>pg_os := snd (fresh_pkt (pg_os u))\<rparr>"
    and pack: "rpc_pack_proc_req pkt1 (be_current_leader q) CLIENT_ID (bench_req (be_seqno p)) = (packed, pkt)"
    using assms(1) seq by (auto simp: bench_request_def stack_pkt_def split_beta Let_def bench_req_def
        pkt1_def u_def simp flip: t_def)
  show "packed = 0" "wf_pkt pkt" using pack_proc_req_ok [OF wf, of "be_current_leader q" CLIENT_ID] pack
    by (metis fst_conv, metis snd_conv)
  show frame: "pg_transport q = pg_transport p" "be_num_peers q = be_num_peers p" "be_log_file q = be_log_file p"
    "be_seqno q = be_seqno p + 1"
    using book u by (simp_all add: q u_def same_book_def)
  have leader: "be_current_leader q < be_num_peers p"
    using assms(2) book by (auto simp: bench_inv_def leader_valid_def same_book_def q u_def)
  have pad: "pg_pad q = pg_pad p" using u by (simp add: q)
  show "bench_inv q"
    using assms(2) frame leader pad u(3) by (simp add: bench_inv_def leader_valid_def runs_def runs_over_def q)
  have "length (pg_pad q) = 3" using assms(2) pad by (simp add: bench_inv_def runs_def)
  then show "request_mem (be_num_peers p) (bench_req (be_seqno p)) (pkt_mem (pg_pad q) pkt)"
    using request_mem_pack [OF wf _ leader] pack by (metis snd_conv)
qed

lemma bench_finish_law:
  assumes inv: "bench_inv p" and m: "request_mem (be_num_peers p) (bench_req seqno) m" "mem_pkt m = pkt"
    and ret: "ret = 0 \<or> ret = 1 \<or> ret = -1"
    and q_def: "q = bench_finish seqno sent_usec pkt ret (mem_pkt mem) p"
  shows "bench_inv q" and "pg_transport q = pg_transport p" and "be_num_peers q = be_num_peers p"
    and "be_seqno q = be_seqno p"
    and "\<exists>row. be_log_file q = map_option (\<lambda>old. old @ [row]) (be_log_file p) \<and>
      bench_did (be_num_peers p) seqno 1 [m] (if ret = 1 then [mem] else []) [row]"
proof -
  obtain recv p5 where p5: "be_usec p = (recv, p5)" by fastforce
  obtain result hint trm p6 where ans: "bench_answer seqno ret (mem_pkt mem) p5 = (result, hint, trm, p6)"
    using prod_cases4 by blast
  note a = bench_answer_frame [OF ans]
  define row where "row = bench_row seqno sent_usec recv result (h_dst (pkt_header pkt)) hint trm"
  have q: "q = (if result = ''OK'' then write_row row p6 else be_sleep 10000 (write_row row p6))"
    by (simp add: q_def bench_finish_def p5 ans row_def)
  have f5: "pg_transport p5 = pg_transport p" "pg_pad p5 = pg_pad p" "wf_os (pg_os p5) = wf_os (pg_os p)"
    "same_book p p5"
    using be_frames(5,10,15) [of p] same_books(4) [of p] p5 by simp_all
  note b6 = same_book_trans [OF f5(4) a(4)]
  show trans: "pg_transport q = pg_transport p" using a(1) f5(1) by (simp add: q)
  show "be_num_peers q = be_num_peers p" "be_seqno q = be_seqno p"
    using b6 by (simp_all add: q same_book_def write_row_def be_sleep_def)
  have "leader_valid q" using b6 inv
    by (auto simp: q same_book_def leader_valid_def bench_inv_def write_row_def be_sleep_def)
  moreover have "runs q" using inv a(2,3) f5(2,3) runs_frame [OF _ trans] by (simp add: q bench_inv_def)
  ultimately show "bench_inv q" by (simp add: bench_inv_def)
  have "row_of (be_num_peers p) m row" "cr_seqno row = seqno" "is_OK row = (result = ''OK'')"
    using m by (simp_all add: row_of_def row_def bench_row_def Let_def)
  then have "bench_did (be_num_peers p) seqno 1 [m] (if ret = 1 then [mem] else []) [row]"
    using a(5) ret by (auto simp: bench_did_def)
  moreover have "be_log_file q = map_option (\<lambda>old. old @ [row]) (be_log_file p)"
    using b6 by (simp add: q write_row_def be_sleep_def same_book_def)
  ultimately show "\<exists>row. be_log_file q = map_option (\<lambda>old. old @ [row]) (be_log_file p) \<and>
      bench_did (be_num_peers p) seqno 1 [m] (if ret = 1 then [mem] else []) [row]" by blast
qed

lemma set_context_inv: "bench_inv p \<Longrightarrow> runs (set_context c p) \<Longrightarrow> bench_inv (set_context c p)"
  by (simp add: bench_inv_def leader_valid_def set_context_def)

lemma bench_step_law:
  assumes "bench_step p = Done q" and "bench_inv p"
  shows "bench_eff 1 p q \<and> bench_inv q \<and> be_num_peers q = be_num_peers p \<and> be_seqno q = be_seqno p + 1"
proof -
  obtain packed pkt p1 where p1: "bench_request p = (packed, pkt, p1)" using prod_cases3 by blast
  note req = bench_request_law [OF p1 assms(2)]
  obtain sent_usec u where u: "be_usec p1 = (sent_usec, u)" by fastforce
  define p2 where "p2 = u\<lparr>be_last_send_start_usec := sent_usec\<rparr>"
  have u2: "pg_transport u = pg_transport p1" "pg_pad u = pg_pad p1" "wf_os (pg_os u) = wf_os (pg_os p1)"
    "same_book p1 u"
    using be_frames(5,10,15) [of p1] same_books(4) [of p1] u by simp_all
  have r2: "runs p2" "bench_inv p2" and same: "pg_context p2 = pg_context p" "pg_pad p2 = pg_pad p1"
    "be_num_peers p2 = be_num_peers p" "be_log_file p2 = be_log_file p" "be_seqno p2 = be_seqno p + 1"
    using u2 req(3-8) by (auto simp: p2_def bench_inv_def runs_def runs_over_def same_book_def leader_valid_def)
  define m where "m = pkt_mem (pg_pad p1) pkt"
  have m: "request_mem (be_num_peers p) (bench_req (be_seqno p)) m" "mem_pkt m = pkt"
    using req mem_pkt_mem(1) [OF req(2)] by (simp_all add: m_def bench_inv_def runs_def)
  note run = assms(1) [unfolded bench_step_def Let_def p1 prod.case u req(1), folded p2_def]
  obtain r p3 where p3: "call_send pkt p2 = Done (r, p3)" using run by (auto simp: on_done_eq_Done)
  note sent = call_send_law [OF r2(1) p3 req(2)] and r3 = call_send_keeps [OF r2(1) p3 req(2)]
  have inv3: "bench_inv p3" using set_context_inv [OF r2(2)] sent(5) r3 by auto
  have same3: "be_num_peers p3 = be_num_peers p" "be_log_file p3 = be_log_file p" "be_seqno p3 = be_seqno p + 1"
    using sent(5) same by (auto simp: set_context_def)
  show ?thesis
  proof (cases "r = 0")
    case False
    define l where "l = SendFailure (be_seqno p) (be_current_leader p3)"
    have q: "q = be_sleep 100000 (random_leader (be_print l p3))" using run p3 False by (simp add: l_def)
    have book: "same_book p3 q"
      unfolding q by (rule same_book_trans [OF same_books(2) same_book_trans [OF same_books(3,1)]])
    have "runs q" using r3 by (auto simp: q intro: runs_frame)
    moreover have "bench_eff 1 p q"
      unfolding bench_eff_def using sent(3,4) False same book same3 bench_did_0
      by (intro exI [of _ "[]"]) (simp add: same_book_def q option.map_ident)
    ultimately show ?thesis using book same3 inv3 by (simp add: same_book_def bench_inv_def)
  next
    case True
    then obtain ret res_pkt p4 where p4: "call_receive 1000 p3 = Done (ret, res_pkt, p4)"
      and q: "q = bench_finish (be_seqno p) sent_usec pkt ret res_pkt p4"
      using run p3 by (auto simp: on_done_eq_Done)
    note got = call_receive_law [OF r3 p4] and r4 = call_receive_keeps [OF r3 p4]
    have inv4: "bench_inv p4" using set_context_inv [OF inv3] got(5) r4 by auto
    have same4: "be_num_peers p4 = be_num_peers p" "be_log_file p4 = be_log_file p" "be_seqno p4 = be_seqno p + 1"
      using got(5) same3 by (auto simp: set_context_def)
    obtain mem where mem: "res_pkt = mem_pkt mem"
      "delivered (pg_context p4) = delivered (pg_context p3) @ (if ret = 1 then [mem] else [])"
      using got(4) by blast
    have "request_mem (be_num_peers p4) (bench_req (be_seqno p)) m" using m(1) same4 by simp
    note fin = bench_finish_law [OF inv4 this m(2) got(1) q [unfolded mem(1)]]
    have "bench_eff 1 p q"
      using fin(2,5) same4 sent(3,4) got(3) mem(2) True same
      unfolding bench_eff_def m_def by fastforce
    then show ?thesis using fin same4 by simp
  qed
qed

lemma bench_eff_trans:
  assumes "bench_eff 1 p q" and "bench_eff n q r" and "be_num_peers q = be_num_peers p"
    and "be_seqno q = be_seqno p + 1"
  shows "bench_eff (Suc n) p r"
proof -
  obtain sent got rows where "written (pg_context q) = written (pg_context p) @ sent"
    "delivered (pg_context q) = delivered (pg_context p) @ got"
    "be_log_file q = map_option (\<lambda>old. old @ rows) (be_log_file p)"
    "bench_did (be_num_peers p) (be_seqno p) 1 sent got rows"
    using assms(1) unfolding bench_eff_def by blast
  moreover obtain sent' got' rows' where "written (pg_context r) = written (pg_context q) @ sent'"
    "delivered (pg_context r) = delivered (pg_context q) @ got'"
    "be_log_file r = map_option (\<lambda>old. old @ rows') (be_log_file q)"
    "bench_did (be_num_peers p) (be_seqno p + 1) n sent' got' rows'"
    using assms(2) unfolding bench_eff_def assms(3,4) by blast
  ultimately show ?thesis
    unfolding bench_eff_def using bench_did_Suc
    by (intro exI [of _ "sent @ sent'"] exI [of _ "got @ got'"] exI [of _ "rows @ rows'"])
      (simp add: option.map_comp comp_def)
qed

lemma bench_run_law:
  "bench_run n p = Done q \<Longrightarrow> bench_inv p \<Longrightarrow>
     bench_eff n p q \<and> bench_inv q \<and> be_num_peers q = be_num_peers p \<and> be_seqno q = be_seqno p + of_nat n"
proof (induction n arbitrary: p)
  case 0
  then show ?case using bench_did_0 by (auto simp: bench_eff_def option.map_ident intro!: exI [of _ "[]"])
next
  case (Suc n)
  then obtain r where r: "bench_step p = Done r" "bench_run n r = Done q" by (auto simp: on_done_eq_Done)
  note step = bench_step_law [OF r(1) Suc.prems(2)]
  note rest = Suc.IH [OF r(2)]
  have "bench_eff (Suc n) p q"
    using step rest bench_eff_trans by blast
  then show ?case using rest step by (simp add: add.assoc)
qed

end

end
