(* ===== verification/Client_Props.thy ===== *)
theory Client_Props
  imports Client Benchmark Socket_Props
begin

text \<open>
  The properties of the client programs over sockets: what they send, and what their output and
  their file say, by the laws of the loops over the interpretation of the socket transport.
\<close>

section \<open>The programs over sockets\<close>

lemma fold_close:
  "sy_trace (fold close_call fds s) = rev (map Closed fds) @ sy_trace s" for s :: sock_t
  by (induction fds arbitrary: s) simp_all

lemma packets_Closed [simp]:
  "packets_in (map Closed fds @ tr) = packets_in tr" "packets_out (map Closed fds @ tr) = packets_out tr"
  by (induction fds) simp_all

lemma free_keeps [simp]:
  "sock_written (transport_free s) = sock_written s" "sock_delivered (transport_free s) = sock_delivered s"
  by (simp_all add: transport_free_def fold_close sock_written_def sock_delivered_def flip: rev_map)
    (metis packets_Closed rev_map)+

lemma wf_os_time [simp]: "wf_os (snd (time_call os)) = wf_os os" "wf_os (snd (rand_call os)) = wf_os os"
  by (simp_all add: time_call_def rand_call_def)

text \<open>
  A transport whose functions return, in a context that counts the calls of each of them.
\<close>

definition counts_calls :: "'c transport_t \<Rightarrow> ('c \<Rightarrow> nat) \<Rightarrow> ('c \<Rightarrow> nat) \<Rightarrow> bool" where
  "counts_calls tr sends receives \<longleftrightarrow>
     (\<forall>pkt c. \<exists>r c'. t_send tr pkt c = Done (r, c') \<and> sends c' = Suc (sends c) \<and> receives c' = receives c) \<and>
     (\<forall>ms c. \<exists>r mem c'. t_receive tr ms c = Done (r, mem, c') \<and> sends c' = sends c \<and>
       receives c' = Suc (receives c))"

primrec is_Sending :: "client_line \<Rightarrow> bool" where
  "is_Sending (Sending cmd node) = True"
| "is_Sending (Success cmd node) = False"
| "is_Sending (NotLeader node hint) = False"

lemma client_answer_prints:
  "client_answer n req t ret pkt p = (hint, q) \<Longrightarrow>
     pg_transport q = pg_transport p \<and> (\<exists>out. cl_out q = cl_out p @ out \<and> filter is_Sending out = [])"
  by (auto simp: client_answer_def Let_def split: if_splits option.splits)

text \<open>An attempt says what it sends, then calls \<open>send\<close> at most once and \<open>receive\<close> at most once.\<close>

lemma client_attempt_returns:
  assumes "counts_calls (pg_transport p) sends receives"
  obtains hint q out where "client_attempt n req t p = Done (hint, q)"
    and "counts_calls (pg_transport q) sends receives"
    and "cl_out q = cl_out p @ out" and "length (filter is_Sending out) = 1"
    and "sends (pg_context q) \<le> Suc (sends (pg_context p))"
    and "receives (pg_context q) \<le> Suc (receives (pg_context p))"
proof -
  let ?s = "Sending (pr_cmd req) t"
  obtain pkt1 p1 where p1: "stack_pkt (say ?s p) = (pkt1, p1)" by fastforce
  then have t1: "pg_transport p1 = pg_transport p" "cl_out p1 = cl_out p @ [?s]"
    by (auto simp: stack_pkt_def split: prod.splits)
  have same: "counts_calls (pg_transport x) sends receives"
    if "t_send (pg_transport x) = t_send (pg_transport p)" "t_receive (pg_transport x) = t_receive (pg_transport p)"
    for x :: "'a client_t"
    using assms that by (simp add: counts_calls_def)
  obtain r c where c: "call_send (snd (rpc_pack_proc_req pkt1 t CLIENT_ID req)) p1 = Done (r, set_context c p1)"
    and n1: "sends c = Suc (sends (pg_context p))" "receives c = receives (pg_context p)"
    using assms t1 unfolding counts_calls_def call_send_def
    by (metis (no_types, lifting) on_done.simps(1) prod.simps(2))
  let ?p2 = "set_context c p1"
  obtain ret res_pkt c' where c': "call_receive 10000 ?p2 = Done (ret, res_pkt, set_context c' ?p2)"
    and n2: "sends c' = sends c" "receives c' = Suc (receives c)"
  proof -
    obtain ret mem c' where "t_receive (pg_transport p) 10000 c = Done (ret, mem, c')"
      "sends c' = sends c" "receives c' = Suc (receives c)"
      using assms unfolding counts_calls_def by metis
    then show thesis using that t1 by (simp add: call_receive_def)
  qed
  obtain hint q where q: "client_answer n req t ret res_pkt (set_context c' ?p2) = (hint, q)" by fastforce
  obtain out where out: "cl_out q = cl_out (set_context c' ?p2) @ out" "filter is_Sending out = []"
    and tq: "pg_transport q = pg_transport (set_context c' ?p2)"
    using client_answer_prints [OF q] by blast
  have run: "client_attempt n req t p =
      (if fst (rpc_pack_proc_req pkt1 t CLIENT_ID req) \<noteq> 0 then Done (None, p1)
       else if r \<noteq> 0 then Done (None, ?p2) else Done (hint, q))"
    using p1 c c' q by (simp add: client_attempt_def split_beta Let_def)
  show thesis
  proof (cases "fst (rpc_pack_proc_req pkt1 t CLIENT_ID req) \<noteq> 0")
    case True
    then show ?thesis using that [of None p1 "[?s]"] run t1 same [of p1] by simp
  next
    case packed: False
    show ?thesis
    proof (cases "r \<noteq> 0")
      case True
      then show ?thesis using that [of None ?p2 "[?s]"] packed run t1 n1 same [of ?p2] by simp
    next
      case False
      then show ?thesis
        using that [of hint q "?s # out"] packed run t1 n1 n2 out tq same [of q] by simp
    qed
  qed
qed

section \<open>Properties\<close>

text \<open>
  C21: the client sends at most two packets, each with the request for the command of its arguments
  to one of at most 16 peers, takes at most one answer for each, and prints that a command is
  committed only after it was given an answer that says so.
\<close>

theorem client_two_requests:
  assumes "client_main argv pton sys os pad = Done (code, out, Some s)" and "sy_trace sys = []"
    and "wf_os os" and "length pad = 3"
  shows "\<exists>n req. n \<le> 16 \<and> pr_client_id req = CLIENT_ID \<and> pr_cmd req = u32_of_int (atoi (argv ! 1)) \<and>
    code = 0 \<and> client_did n req 2 (sock_written s) (sock_delivered s) out"
proof -
  define peers where "peers = take 16 (strtok_all (CHR '','') (argv ! 2))"
  define n :: u32 where "n = of_nat (length peers)"
  note main = assms(1) [unfolded client_main_def Let_def, folded peers_def, folded n_def]
  obtain init where i: "transport_socket_init n (peers @ [argv ! 3]) (n + 1) 5000 pton sys = Done init"
    using main by (auto simp: on_done_eq_Done split: if_splits)
  obtain t where init: "transport_socket_init n (peers @ [argv ! 3]) (n + 1) 5000 pton sys = Done (Inr t)"
    using main i by (cases init) (auto split: if_splits)
  define os' where "os' = snd (time_call (snd (rand_call (snd (time_call os)))))"
  have os: "wf_os os'" using assms(3) by (simp add: os'_def)
  define req where "req = \<lparr>pr_client_id = CLIENT_ID,
    pr_cmd_seqno = fst (time_call (snd (rand_call (snd (time_call os))))), pr_cmd = u32_of_int (atoi (argv ! 1))\<rparr>"
  obtain target p where
    loop: "client_loop n req target 0 \<lparr>pg_transport = t, pg_os = os', pg_pad = pad, cl_out = []\<rparr> = Done p"
    and res: "code = 0" "out = cl_out p" "s = transport_free (pg_context p)"
    using main init by (auto simp: on_done_eq_Done split_beta os'_def req_def split: if_splits)
  note t = init_sock [OF init assms(2)]
  have "sock.runs \<lparr>pg_transport = t, pg_os = os', pg_pad = pad, cl_out = []\<rparr>"
    using t os assms(4) by (simp add: sock.runs_def sock.runs_over_def)
  from sock.client_loop_law [OF loop this] have "client_did n req 2 (sock_written s) (sock_delivered s) out"
    using t by (simp add: sock.client_step_def res)
  moreover have "n \<le> 16"
    by (simp add: n_def peers_def word_le_nat_alt unat_of_nat take_bit_nat_eq_self min_def)
  ultimately show ?thesis using res(1) by (intro exI [of _ n] exI [of _ req]) (simp add: req_def)
qed

text \<open>A list of peers without a peer is accepted, and the division by their number is not defined.\<close>

lemma client_no_peers:
  assumes "3 < length argv" and "strtok_all (CHR '','') (argv ! 2) = []"
    and "transport_socket_init 0 [argv ! 3] 1 5000 pton sys = Done (Inr t)"
  shows "client_main argv pton sys os pad = Undef ''rand() % num_peers''"
  using assms by (simp add: client_main_def split_beta Let_def)

text \<open>
  C25: over any transport whose functions return, and whatever the nodes answer, the loop of the
  client ends after at most two attempts, and makes one at least when the first node exists. Each
  attempt prints one line \<open>Sending\<close>, and there are not more calls of \<open>send\<close>, nor of \<open>receive\<close>, than
  attempts, however often the nodes send the client to another one.
\<close>

theorem client_terminates:
  assumes "counts_calls (pg_transport p) sends receives"
  shows "\<exists>q out. client_loop num_peers req target attempts p = Done q \<and> cl_out q = cl_out p @ out \<and>
    (let k = length (filter is_Sending out) in
      k \<le> 2 - attempts \<and> (attempts < 2 \<and> target < num_peers \<longrightarrow> 1 \<le> k) \<and>
      sends (pg_context q) \<le> sends (pg_context p) + k \<and>
      receives (pg_context q) \<le> receives (pg_context p) + k)"
  using assms
proof (induction num_peers req target attempts p rule: client_loop.induct)
  case (1 n req t a p)
  obtain hint q out where q: "client_attempt n req t p = Done (hint, q)"
    and counts: "counts_calls (pg_transport q) sends receives"
    and out: "cl_out q = cl_out p @ out" "length (filter is_Sending out) = 1"
    and calls: "sends (pg_context q) \<le> Suc (sends (pg_context p))"
      "receives (pg_context q) \<le> Suc (receives (pg_context p))"
    using client_attempt_returns [OF "1.prems"] by blast
  show ?case
  proof (cases "2 \<le> a \<or> n \<le> t")
    case True
    then show ?thesis by (auto simp: client_loop.simps [of n req t a p])
  next
    case go: False
    then have room: "Suc 0 \<le> 2 - a" "2 - a = Suc (2 - Suc a)" by auto
    show ?thesis
    proof (cases hint)
      case None
      then have "client_loop n req t a p = Done q" using q go by (simp add: client_loop.simps [of n req t a p])
      then show ?thesis using out calls room by (intro exI [of _ q] exI [of _ out]) (simp add: Let_def)
    next
      case (Some u)
      obtain q' out' where q': "client_loop n req u (Suc a) q = Done q'" "cl_out q' = cl_out q @ out'"
        and k: "length (filter is_Sending out') \<le> 2 - Suc a"
        "sends (pg_context q') \<le> sends (pg_context q) + length (filter is_Sending out')"
        "receives (pg_context q') \<le> receives (pg_context q) + length (filter is_Sending out')"
        using "1.IH" [OF go q refl Some counts] by (auto simp: Let_def)
      have "client_loop n req t a p = Done q'"
        using q q' go Some by (simp add: client_loop.simps [of n req t a p])
      then show ?thesis
        using out calls k q'(2) room by (intro exI [of _ q'] exI [of _ "out @ out'"]) (simp add: Let_def)
    qed
  qed
qed

text \<open>
  C22: the file of the benchmark client has a line for each request that was sent, in their order,
  with its number and node; the numbers are those of different iterations, and as many lines say
  \<open>OK\<close> as answers that say yes were delivered.
\<close>

theorem bench_file_faithful:
  assumes "bench_main argv pton sys os pad n = Done (0, Some q)" and "sy_trace sys = []"
    and "wf_os os" and "length pad = 3" and "be_log_file q = Some rows"
  shows "be_current_leader q < be_num_peers q \<and>
    bench_did (be_num_peers q) (be_seqno q - of_nat n) n
      (sock_written (pg_context q)) (sock_delivered (pg_context q)) rows"
proof -
  define peers where "peers = take 16 (strtok_all (CHR '','') (argv ! 1))"
  define k :: u32 where "k = of_nat (length peers)"
  note main = assms(1) [unfolded bench_main_def Let_def, folded peers_def, folded k_def]
  have k: "k \<noteq> 0" using main by (auto split: if_splits)
  obtain init where i: "transport_socket_init k (peers @ [argv ! 2]) (k + 1) 2000 pton sys = Done init"
    using main by (auto simp: on_done_eq_Done split: if_splits)
  obtain t where init: "transport_socket_init k (peers @ [argv ! 2]) (k + 1) 2000 pton sys = Done (Inr t)"
    using main i by (cases init) (auto split: if_splits)
  define throttle_ms where "throttle_ms = (if 3 < length argv then u32_of_int (atoi (argv ! 3)) else 0)"
  obtain p' where run: "bench_run n (bench_start throttle_ms k t os pad) = Done p'"
    and q: "q = set_context (transport_free (pg_context p')) p'"
    using main init k by (auto simp: on_done_eq_Done throttle_ms_def [symmetric] split: if_split_asm)
  define p where "p = bench_start throttle_ms k t os pad"
  have p: "pg_transport p = t" "wf_os (pg_os p)" "pg_pad p = pad" "be_num_peers p = k"
      "be_log_file p \<in> {None, Some []}" "\<exists>r. be_current_leader p = r mod k"
    using assms(3) by (auto simp: p_def bench_start_def split_beta Let_def)
  note t = init_sock [OF init assms(2)]
  have "be_current_leader p < be_num_peers p"
    using k p(4,6) by (metis word_coorder.not_eq_extremum word_mod_less_divisor)
  then have "sockl.bench_inv p"
    using t p assms(4) by (simp add: sockl.bench_inv_def leader_valid_def sock.runs_def sock.runs_over_def)
  from sockl.bench_run_law [OF run [folded p_def] this] have "sockl.bench_eff n p p'" "sockl.bench_inv p'"
    "be_num_peers p' = k" "be_seqno p' = be_seqno p + of_nat n" using p(4) by simp_all
  then show ?thesis
    using assms(5) p t
    by (auto simp: sockl.bench_eff_def sockl.bench_inv_def leader_valid_def q set_context_def split: if_splits)
qed

section \<open>A run\<close>

text \<open>
  A client of one node: its socket is 3 and its connection 4. The request is sent at once and the
  node answers that the command is committed.
\<close>

definition yes_mem :: "u8 list" where
  "yes_mem = pkt_mem [0, 0, 0] (snd (rpc_pack_proc_res zero_pkt CLIENT_ID 0
     \<lparr>ps_client_id = CLIENT_ID, ps_cmd_seqno = 0, ps_success = 1, ps_leader_hint = 0, ps_term = 1\<rparr>))"

lemma yes_mem: "length yes_mem = 1040" "h_src (pkt_header (mem_pkt yes_mem)) = 0" "answer_yes (mem_pkt yes_mem)"
  "take 1040 yes_mem = yes_mem"
proof -
  let ?res = "\<lparr>ps_client_id = CLIENT_ID, ps_cmd_seqno = 0, ps_success = 1, ps_leader_hint = 0, ps_term = 1\<rparr>"
  note pack = pack_proc_res_ok [OF wf_zero_pkt, of CLIENT_ID 0 ?res]
  show len: "length yes_mem = 1040" using mem_pkt_mem(2) [OF pack(2)] by (simp add: yes_mem_def sizeof_pkt_def)
  have mem: "mem_pkt yes_mem = snd (rpc_pack_proc_res zero_pkt CLIENT_ID 0 ?res)"
    using mem_pkt_mem(1) [OF pack(2)] by (simp add: yes_mem_def)
  show "h_src (pkt_header (mem_pkt yes_mem)) = 0" "answer_yes (mem_pkt yes_mem)"
    using pack(3) by (simp_all add: mem answer_yes_def)
  show "take 1040 yes_mem = yes_mem" using len by simp
qed

definition talk :: "sys_answer list" where
  "talk = [answer\<lparr>sa_fd := 4\<rparr>, answer, answer, answer, answer\<lparr>sa_ret := 1, sa_wfds := [4]\<rparr>, answer,
     answer\<lparr>sa_ret := 1040\<rparr>, answer, answer, answer\<lparr>sa_ret := 1, sa_rfds := [4]\<rparr>, answer\<lparr>sa_data := yes_mem\<rparr>]"

definition talk_sys :: sys_t where
  "talk_sys = \<lparr>sy_script = [answer\<lparr>sa_fd := 3\<rparr>, answer] @ talk, sy_trace = []\<rparr>"

definition talk_sock :: "u32 \<Rightarrow> sys_answer list \<Rightarrow> event list \<Rightarrow> int list \<Rightarrow> sock_t" where
  "talk_sock ms script tr fds = \<lparr>sy_script = script, sy_trace = tr @ [Opened 3], so_my_id = 1, so_num_nodes = 2,
     so_peer_addrs = [''a:1'', ''c:9''], so_listen_fd = 3, so_connect_timeout_ms = ms,
     so_peer_fds = (if fds = [] then [-1, -1] else [4, -1]),
     so_client_fds = replicate 1024 (-1), so_active = fds, so_pton = (\<lambda>_. Some 0)\<rparr>"

lemmas run_addr = parse_addr_def atoi_def take_sign_def digits_value_def is_space_def is_digit_def

lemma talk_init:
  "transport_socket_init 1 [''a:1'', ''c:9''] 2 ms (\<lambda>_. Some 0) talk_sys =
     Done (Inr \<lparr>t_send = socket_send, t_receive = socket_receive, t_context = talk_sock ms talk [] []\<rparr>)"
  by (simp add: transport_socket_init_def run_addr talk_sys_def run_socket talk_sock_def MAX_CONNECTIONS_def
      replicate_2)

lemma talk_send:
  assumes "length m = 1040" and "h_dst (pkt_header (mem_pkt m)) = 0" and "0 < (ucast ms * 1000 :: u64)"
  shows "socket_send m (talk_sock ms talk [] []) = Done (0, talk_sock ms (drop 7 talk) [Sent 4 m, Waited 100000, Opened 4] [4])"
  using assms
  by (simp add: socket_send_def fd_of_dst_def connect_to_peer_def run_addr talk_def run_socket talk_sock_def
      add_active_fd_def MAX_CONNECTIONS_def wait_writable.simps send_all.simps sizeof_pkt_def)

lemma talk_receive:
  "\<exists>t. socket_receive timeout (talk_sock ms (drop 7 talk) [Sent 4 m, Waited 100000, Opened 4] [4]) =
     Done (1, yes_mem, t)"
  by (simp add: socket_receive_def talk_def run_socket talk_sock_def receive_loop.simps scan_active.simps
      read_pkt.simps sizeof_pkt_def register_source_def replace_fd_def yes_mem)

abbreviation talk_sent :: "u32 \<Rightarrow> pkt_t \<Rightarrow> sock_t" where
  "talk_sent ms pkt \<equiv> talk_sock ms (drop 7 talk) [Sent 4 (pkt_mem [0, 0, 0] pkt), Waited 100000, Opened 4] [4]"

lemma talk_calls:
  assumes "wf_pkt pkt" and "h_dst (pkt_header pkt) = 0" and "0 < (ucast ms * 1000 :: u64)"
    and "pg_transport p = \<lparr>t_send = socket_send, t_receive = socket_receive, t_context = talk_sock ms talk [] []\<rparr>"
    and "pg_pad p = [0, 0, 0]"
  shows "call_send pkt p = Done (0, set_context (talk_sent ms pkt) p)"
    and "\<exists>c. call_receive timeout (set_context (talk_sent ms pkt) p) =
      Done (1, mem_pkt yes_mem, set_context c (set_context (talk_sent ms pkt) p))"
proof -
  have "length [0, 0, 0 :: u8] = 3" by simp
  note m = mem_pkt_mem [OF assms(1) this]
  show "call_send pkt p = Done (0, set_context (talk_sent ms pkt) p)"
    using talk_send [OF _ _ assms(3), of "pkt_mem [0, 0, 0] pkt"] m assms(2,4,5)
    by (simp add: call_send_def sizeof_pkt_def)
  obtain c where "socket_receive timeout (talk_sent ms pkt) = Done (1, yes_mem, c)"
    using talk_receive by blast
  then show "\<exists>c. call_receive timeout (set_context (talk_sent ms pkt) p) =
      Done (1, mem_pkt yes_mem, set_context c (set_context (talk_sent ms pkt) p))"
    using assms(4) by (auto simp: call_receive_def)
qed

definition talk_os :: os_t where
  "talk_os = \<lparr>os_clock = \<lambda>_. (0, 0), os_rand = \<lambda>_. 0, os_fopen = \<lambda>_. True, os_stack = \<lambda>_. zero_pkt, os_calls = 0\<rparr>"

lemma yes_answer:
  "h_code (pkt_header (mem_pkt yes_mem)) = RPC_RESP_PROC"
  "\<exists>res. rpc_unpack_proc_res (mem_pkt yes_mem) = Some res \<and> ps_success res \<noteq> 0"
  using yes_mem(3) by (auto simp: answer_yes_def split: option.splits)

lemma talk_os_next: "os_stack os = os_stack talk_os \<Longrightarrow> fresh_pkt os = (zero_pkt, os_next os)"
  by (simp add: fresh_pkt_def talk_os_def)

lemma talk_client:
  "\<exists>s. client_main [''client'', ''72'', ''a:1'', ''c:9''] (\<lambda>_. Some 0) talk_sys talk_os [0, 0, 0] =
     Done (0, [Sending 72 0, Success 72 0], Some s)"
proof -
  define req where "req = \<lparr>pr_client_id = CLIENT_ID, pr_cmd_seqno = 0, pr_cmd = 72\<rparr>"
  have cmd: "pr_cmd req = 72" by (simp add: req_def)
  define p where "p = \<lparr>pg_transport = \<lparr>t_send = socket_send, t_receive = socket_receive,
    t_context = talk_sock 5000 talk [] []\<rparr>, pg_os = talk_os\<lparr>os_calls := Suc (Suc (Suc 0))\<rparr>, pg_pad = [0, 0, 0], cl_out = []\<rparr>"
  define p1 where "p1 = snd (stack_pkt (say (Sending 72 0) p))"
  obtain pkt where pkt: "rpc_pack_proc_req zero_pkt 0 CLIENT_ID req = (0, pkt)"
    using pack_proc_req_ok(1) [OF wf_zero_pkt, of 0 CLIENT_ID req] by (metis prod.collapse)
  have wf: "wf_pkt pkt" "h_dst (pkt_header pkt) = 0"
    using pack_proc_req_ok(2) [OF wf_zero_pkt, of 0 CLIENT_ID req] packed_header(13) [of zero_pkt 0 CLIENT_ID req] pkt
    by simp_all
  have p1: "stack_pkt (say (Sending 72 0) p) = (zero_pkt, p1)" "pg_transport p1 = pg_transport p"
    "pg_pad p1 = [0, 0, 0]" "cl_out p1 = [Sending 72 0]"
    by (simp_all add: p1_def stack_pkt_def p_def talk_os_next)
  obtain c where c: "call_send pkt p1 = Done (0, set_context (talk_sent 5000 pkt) p1)"
    "call_receive 10000 (set_context (talk_sent 5000 pkt) p1) =
       Done (1, mem_pkt yes_mem, set_context c (set_context (talk_sent 5000 pkt) p1))"
    using talk_calls(1) [OF wf, of 5000 p1] talk_calls(2) [OF wf, of 5000 p1 10000] p1(2,3) by (auto simp: p_def)
  obtain q where q: "client_loop 1 req 0 0 p = Done q" "cl_out q = [Sending 72 0, Success 72 0]"
    using p1 pkt c yes_answer
    by (auto simp: client_loop.simps [of 1 req 0 0 p] client_attempt_def client_answer_def cmd)
  have "atoi ''72'' = 72" by (simp add: run_addr)
  then show ?thesis
    using q talk_init [of 5000]
    by (simp add: client_main_def strtok_all_def time_call_def rand_call_def os_next_def talk_os_def req_def p_def)
qed

lemma talk_bench:
  "\<exists>q row. bench_main [''bench'', ''a:1'', ''c:9''] (\<lambda>_. Some 0) talk_sys talk_os [0, 0, 0] 1 = Done (0, Some q) \<and>
     be_log_file q = Some [row] \<and> is_OK row"
proof -
  let ?t = "\<lparr>t_send = socket_send, t_receive = socket_receive, t_context = talk_sock 2000 talk [] []\<rparr>"
  define p where "p = bench_start 0 1 ?t talk_os [0, 0, 0]"
  have p: "pg_transport p = ?t" "pg_pad p = [0, 0, 0]" "be_log_file p = Some []" "be_throttle_ms p = 0"
    "be_current_leader p = 0" "os_stack (pg_os p) = os_stack talk_os"
    by (simp_all add: p_def bench_start_def fopen_call_def time_call_def rand_call_def os_next_def talk_os_def)
  obtain pkt where pkt: "rpc_pack_proc_req zero_pkt 0 CLIENT_ID (bench_req (be_seqno p)) = (0, pkt)"
    using pack_proc_req_ok(1) [OF wf_zero_pkt, of 0 CLIENT_ID] by (metis prod.collapse)
  have wf: "wf_pkt pkt" "h_dst (pkt_header pkt) = 0"
    using pack_proc_req_ok(2) [OF wf_zero_pkt, of 0 CLIENT_ID] packed_header(13) [of zero_pkt 0 CLIENT_ID] pkt
    by (metis snd_conv)+
  define p1 where "p1 = snd (stack_pkt (p\<lparr>be_seqno := be_seqno p + 1\<rparr>))"
  have req: "bench_request p = (0, pkt, p1)"
    using pkt p by (simp add: bench_request_def throttle_def stack_pkt_def talk_os_next bench_req_def p1_def)
  obtain sent_usec u where u: "be_usec p1 = (sent_usec, u)" by fastforce
  define p2 where "p2 = u\<lparr>be_last_send_start_usec := sent_usec\<rparr>"
  have u_same: "pg_transport u = pg_transport p1" "pg_pad u = pg_pad p1"
    using be_frames(5,10) [of p1] unfolding u by simp_all
  have p2: "pg_transport p2 = ?t" "pg_pad p2 = [0, 0, 0]" "be_log_file p2 = Some []"
    using u_same same_books(4) [of p1] u p
    by (simp_all add: p2_def p1_def stack_pkt_def talk_os_next same_book_def)
  obtain c where c: "call_send pkt p2 = Done (0, set_context (talk_sent 2000 pkt) p2)"
    "call_receive 1000 (set_context (talk_sent 2000 pkt) p2) =
       Done (1, mem_pkt yes_mem, set_context c (set_context (talk_sent 2000 pkt) p2))"
    using talk_calls(1) [OF wf, of 2000 p2] talk_calls(2) [OF wf, of 2000 p2 1000] p2(1,2) by auto
  define q where "q = bench_finish (be_seqno p) sent_usec pkt 1 (mem_pkt yes_mem)
    (set_context c (set_context (talk_sent 2000 pkt) p2))"
  have step: "bench_step p = Done q"
    using req u c by (simp add: bench_step_def q_def flip: p2_def)
  have csv: "\<exists>row. be_log_file q = Some [row] \<and> is_OK row"
    using yes_answer p2(3)
    by (auto simp: q_def bench_finish_def be_usec_def bench_answer_def write_row_def bench_row_def Let_def
        be_print_def set_context_def split_beta)
  have "bench_run 1 p = Done q" using step by simp
  then show ?thesis
    using csv talk_init [of 2000] by (auto simp: bench_main_def strtok_all_def set_context_def simp flip: p_def)
qed

section \<open>Witnesses\<close>

theorem client_two_requests_witness:
  "\<exists>s n req. sock_delivered s \<noteq> [] \<and> client_did n req 2 (sock_written s) (sock_delivered s) [Sending 72 0, Success 72 0]"
proof -
  obtain s where s: "client_main [''client'', ''72'', ''a:1'', ''c:9''] (\<lambda>_. Some 0) talk_sys talk_os [0, 0, 0] =
     Done (0, [Sending 72 0, Success 72 0], Some s)" using talk_client by blast
  have "sy_trace talk_sys = []" "wf_os talk_os" "length [0, 0, 0 :: u8] = 3"
    by (simp_all add: talk_sys_def wf_os_def talk_os_def)
  from client_two_requests [OF s this] obtain n req where
    did: "client_did n req 2 (sock_written s) (sock_delivered s) [Sending 72 0, Success 72 0]" by blast
  then have "sock_delivered s \<noteq> []" by (auto simp: client_did_def line_ok_def)
  then show ?thesis using did by blast
qed

text \<open>A transport that counts: sends succeed, and nothing is ever received.\<close>

definition silent_transport :: "(nat \<times> nat) transport_t" where
  "silent_transport = \<lparr>t_send = \<lambda>_ (k, l). Done (0, (Suc k, l)),
     t_receive = \<lambda>_ (k, l). Done (0, [], (k, Suc l)), t_context = (0, 0)\<rparr>"

theorem client_terminates_witness:
  "\<exists>q out. client_loop 1 (bench_req 0) 0 0
     \<lparr>pg_transport = silent_transport, pg_os = talk_os, pg_pad = [0, 0, 0], cl_out = []\<rparr> = Done q \<and>
     cl_out q = out \<and> length (filter is_Sending out) \<in> {1, 2} \<and> fst (pg_context q) \<le> 2"
proof -
  let ?p = "\<lparr>pg_transport = silent_transport, pg_os = talk_os, pg_pad = [0, 0, 0], cl_out = []\<rparr>"
  have "counts_calls (pg_transport ?p) fst snd"
    by (auto simp: counts_calls_def silent_transport_def)
  from client_terminates [OF this, of 1 "bench_req 0" 0 0] show ?thesis
    by (auto simp: Let_def silent_transport_def)
qed

theorem bench_file_faithful_witness:
  "\<exists>k start sent got row. bench_did k start 1 sent got [row] \<and> is_OK row"
proof -
  obtain q row where q: "bench_main [''bench'', ''a:1'', ''c:9''] (\<lambda>_. Some 0) talk_sys talk_os [0, 0, 0] 1 =
      Done (0, Some q)" and row: "be_log_file q = Some [row]" "is_OK row" using talk_bench by blast
  have "sy_trace talk_sys = []" "wf_os talk_os" "length [0, 0, 0 :: u8] = 3"
    by (simp_all add: talk_sys_def wf_os_def talk_os_def)
  from bench_file_faithful [OF q this row(1)] show ?thesis
    using row(2) by blast
qed

end
