(* ===== verification/Spec2Isabelle.thy ===== *)
theory Spec2Isabelle
  imports Node_Start Socket_Run Client_Props
begin

text \<open>
  A verification library of the Raft implementation under \<open>src/src\<close>: the consensus core
  (\<open>raft.c\<close>), the messages (\<open>rpc.c\<close>), the failure detector (\<open>accrual.c\<close>), the persistence on
  files (\<open>persist-unix\<close>), the transports over sockets and pipes, the program of a node
  (\<open>util-unix/node.c\<close>) and the two client programs, from the bytes of the files and packets up to
  a cluster of the programs.

  \<^bold>\<open>The program.\<close> A process runs one node. \<open>raft_run\<close> waits for a packet or for the end of the
  node's timer and calls a handler; a handler reads and writes the log and the two persisted
  fields (the term and the vote) through tables of function pointers, changes the role and the
  indexes, and sends packets through the transport. A client sends requests to the nodes over the
  same transport and follows the hints of the nodes to the leader.

  \<^bold>\<open>The theories.\<close>
  \<^item> \<open>Raft_Prelude\<close>: the integer types of C as words, and lemmas on words and lists.
  \<^item> \<open>Byte_Order\<close> (\<open>util.h\<close>), \<open>Log_Entry\<close> (\<open>log-entry.c\<close>), \<open>Packet\<close> (\<open>transport.h\<close>, \<open>rpc.h\<close>),
    \<open>Rpc\<close> (\<open>rpc.c\<close>): entries and messages as bytes, with the round trips and the bounds.
  \<^item> \<open>Os_Util\<close> (\<open>util-unix/util.c\<close>, \<open>raft-timer.h\<close>): clock, random numbers and timers. What the
    system answers is a parameter, one answer for each call.
  \<^item> \<open>Double_Arith\<close>, \<open>Accrual\<close> (\<open>accrual.c\<close>): the failure detector, its doubles rounded to 53
    bits.
  \<^item> \<open>Posix_File\<close>: a file with a position and a device whose calls may fail, be cut short, or be
    the last thing that happens, and the bytes that \<open>fsync\<close> put on the device. \<open>Log_Store\<close> (\<open>log.h\<close>) and \<open>Field_Store\<close>
    (\<open>persistent-fields.h\<close>) are the two interfaces of the core, as locales; \<open>Persist_Log\<close>
    (\<open>persist-unix/log.c\<close>) and \<open>Persist_Fields\<close> (\<open>persist-unix/persistent-fields.c\<close>) model the
    functions on files and interpret them.
  \<^item> \<open>Raft_State\<close> (\<open>raft.h\<close>, \<open>util-unix/raft-util.c\<close>), \<open>Raft_Send\<close>, \<open>Raft_Roles\<close>,
    \<open>Raft_Handlers\<close>, \<open>Raft_Run\<close> (\<open>raft.c\<close>): the node, each function of \<open>raft.c\<close> as one
    definition, with its early returns. The packets a node hands to the transport are a list, with
    a history variable, \<open>sent_on\<close>, of the files at every send.
  \<^item> \<open>Raft_Spec\<close>: the specification of a node, on a list of entries, a term, a vote and decoded
    messages. \<open>Raft_Refine\<close> proves in the locale \<open>raft_env\<close>, for any log and fields that keep
    their contracts, that every handler computes the function of the specification;
    \<open>Raft_Files\<close> interprets it on the files. \<open>Write_Ahead\<close>: in every iteration all writing comes
    before all sending, and a granted vote is on the device when the answer is sent.
  \<^item> \<open>Log_Merge\<close>: what the loop of the AppendEntries handler computes. \<open>Log_Order\<close>: the order
    of logs that votes are granted by.
  \<^item> \<open>Node_Main\<close> (\<open>util-unix/node.c\<close>): the command line, and the start on the files an earlier
    process left. \<open>Node_Props\<close>, \<open>Node_Commit\<close>, \<open>Node_Start\<close>: the properties of one node over its
    files: its steps, what it commits and answers, how it starts.
  \<^item> \<open>Raft_Effect\<close>, \<open>Raft_Commit\<close>, \<open>Log_Effect\<close>: the kinds of step of the specification, for the
    term, the vote and the role, and for the log and the commit index. \<open>Cluster\<close>: a cluster of
    nodes of the specification with its history.
  \<^item> \<open>Election\<close>: the invariants of elections. \<open>Log_Matching\<close>: every log agrees with the logs of the
    leaders of its terms. \<open>Ballots\<close>: the logs of the voters when they voted. \<open>Completeness\<close>: what
    nodes acknowledged, and that a leader has what was committed before. \<open>Commit_Safety\<close>: what
    nodes commit is committed in that sense. \<open>Safety\<close>: the invariants over reachable states.
  \<^item> \<open>Unix_Cluster\<close>: a cluster of the programs and its simulation by the cluster of the
    specification. \<open>Unix_Safety\<close>: the theorems for the programs, and a run that commits an entry
    and answers the client. \<open>Answers\<close>: what a client was told is done is in the log of every later
    leader. \<open>Requests\<close>: every command in a log was asked for by a client.
  \<^item> \<open>Socket_Cluster\<close>: nodes and client programs that run over the socket transport, and the
    simulation by the cluster of the programs. \<open>Socket_Answers\<close>: the theorems on answers and
    requests for the bytes on the connections. \<open>Socket_Run\<close>: a complete run of two nodes and a
    client over sockets, call by call, from empty disks to the answer of the leader.
  \<^item> \<open>Transport\<close> (\<open>transport.h\<close>): packets as memory, the pieces of a stream, and the contract of a
    transport as the locales \<open>transport\<close> and \<open>lasting_transport\<close>. \<open>Sys_Calls\<close>: the system calls of
    the transports, with a script of answers and a trace of what was opened, closed, read and
    written. \<open>C_Library\<close>: \<open>atoi\<close> and \<open>strtok\<close>.
  \<^item> \<open>Socket_Transport\<close> (\<open>transport-socket/transport-socket.c\<close>): every function of the transport over
    TCP. \<open>Socket_Inv\<close>: its invariant. \<open>Socket_Laws\<close>: the laws of sending and receiving, which
    interpret both locales. \<open>Streams\<close>: the streams of the connections and what TCP promises of
    them. \<open>Socket_Props\<close>: the properties. \<open>Pipe_Transport\<close> (\<open>transport-pipe/transport-pipe.c\<close>): the
    transport over pipes, an instance of \<open>transport\<close> only.
  \<^item> \<open>Client_Base\<close>, \<open>Client\<close> (\<open>util-unix/client.c\<close>), \<open>Benchmark\<close> (\<open>util-unix/benchmark-client.c\<close>):
    the clients, with the laws of their loops over any transport of the contract. \<open>Client_Props\<close>:
    the programs over sockets.

  \<^bold>\<open>Bounds.\<close> Words keep the width of C and wrap around. A node is assumed to have room: its log
  has at most \<open>2 ^ 31 - 33\<close> entries when a packet arrives (\<open>has_room\<close>), since the code keeps
  lengths in \<open>int\<close>. The loops are structural or have a measure; the event loop runs on a finite
  history of results of \<open>receive\<close>. The loops of the transports use up answers of
  the system; where the script ends, the function still waits (\<open>Waiting\<close>), and a theorem speaks of
  every script. The loop of the benchmark runs for a number of iterations, until the signal. An access of C outside an array, or a division by zero, ends a
  node with \<open>Undefined\<close>, and a function of a transport or client with \<open>Undef\<close>.

  \<^bold>\<open>The network.\<close> Packets may be lost and reordered. They are not duplicated and not forged: the
  count of votes in \<open>raft.c\<close> does not look at who sent a vote, so election safety rests on it. The
  disks keep what was written and their calls succeed in a run of a cluster, since \<open>raft.c\<close> ignores
  the results of \<open>log.write\<close>; \<open>Persist_Log\<close> and \<open>Persist_Fields\<close> say what a failure leaves.
  Packets of clients may have any content. That the socket transport neither forges nor duplicates
  packets, over connections that carry bytes in order, is \<open>socket_link\<close> for one program and
  \<open>socket_cluster_refines\<close> for a whole cluster; so the safety holds for nodes over sockets too, under
  the assumption \<open>tcp\<close> about the bytes of the connections alone.

  \<^bold>\<open>Not modelled.\<close> The texts of \<open>printf\<close>, apart from the lines the clients report; the names of the
  files; \<open>free\<close>, and \<open>close\<close> of files; \<open>srand\<close>, since every answer of \<open>rand\<close> is possible. The
  orchestrator (\<open>transport-pipe/orchestrator.c\<close>) is not built and does not compile: it uses names
  that do not exist.
\<close>

section \<open>Election safety\<close>

text \<open>
  C1: election safety of the programs: in a run from a start on empty disks, whose calls do not
  fail, with crashes between two iterations, restarts, lost and reordered packets, timeouts and requests of clients, two nodes that are
  leaders of the same term, at the same time or at different times, are the same node.
\<close>

theorem election_safety:
  assumes "ustart n s" and "(ustep n)\<^sup>*\<^sup>* s s1" and "(ustep n)\<^sup>*\<^sup>* s1 s2" and "n \<le> PF_NO_VOTE_V"
    and "i < n" and "role (u_node s1 i) = LEADER" and "j < n" and "role (u_node s2 j) = LEADER"
    and "node_term (u_node s1 i) = node_term (u_node s2 j)"
  shows "i = j"
  using leaders_of_a_term [OF assms] .

theorem election_safety_witness:
  "\<exists>s s1 s2. ustart 2 s \<and> (ustep 2)\<^sup>*\<^sup>* s s1 \<and> (ustep 2)\<^sup>*\<^sup>* s1 s2 \<and> role (u_node s1 0) = LEADER \<and>
     \<not> (role (u_node s2 1) = LEADER \<and> node_term (u_node s1 0) = node_term (u_node s2 1))"
proof -
  obtain s s1 s2 where run: "ustart 2 s" "(ustep 2)\<^sup>*\<^sup>* s s1" "(ustep 2)\<^sup>*\<^sup>* s1 s2"
    and leader: "role (u_node s1 0) = LEADER"
    using commit_run by metis
  have "\<not> (role (u_node s2 1) = LEADER \<and> node_term (u_node s1 0) = node_term (u_node s2 1))"
    using election_safety [OF run, of 0 1] leader by (auto simp: PF_NO_VOTE_V_def)
  then show ?thesis using run leader by blast
qed

section \<open>Safety of the replicated log\<close>

text \<open>
  C2: state machine safety of the programs: what one node has committed and what another node, or
  the same one later, has committed is the same up to the smaller of the two commit indexes, and
  it is in both logs. So no two nodes ever apply different commands at an index.
\<close>

theorem state_machine_safety:
  assumes "ustart n s" and "(ustep n)\<^sup>*\<^sup>* s s1" and "(ustep n)\<^sup>*\<^sup>* s1 s2" and "n \<le> PF_NO_VOTE_V"
    and "i < n" and "int k \<le> commit_index (u_node s1 i)"
    and "j < n" and "int k \<le> commit_index (u_node s2 j)"
  shows "k < length (node_entries (u_node s1 i)) \<and> k < length (node_entries (u_node s2 j)) \<and>
    take (Suc k) (node_entries (u_node s1 i)) = take (Suc k) (node_entries (u_node s2 j))"
  using assms by (rule run_state_machine_safety)

theorem state_machine_safety_witness:
  "\<exists>s t. ustart 2 s \<and> (ustep 2)\<^sup>*\<^sup>* s t \<and> commit_index (u_node t 0) = 0 \<and>
     commit_index (u_node t 1) = 0 \<and> 0 < length (node_entries (u_node t 1)) \<and>
     take (Suc 0) (node_entries (u_node t 0)) = take (Suc 0) (node_entries (u_node t 1))"
proof -
  obtain s s1 t where run: "ustart 2 s" "(ustep 2)\<^sup>*\<^sup>* s s1" "(ustep 2)\<^sup>*\<^sup>* s1 t"
    and commit: "commit_index (u_node t 0) = 0" "commit_index (u_node t 1) = 0"
    using commit_run by metis
  then have run: "ustart 2 s" "(ustep 2)\<^sup>*\<^sup>* s t" by auto
  have "0 < length (node_entries (u_node t 1)) \<and>
      take (Suc 0) (node_entries (u_node t 0)) = take (Suc 0) (node_entries (u_node t 1))"
    using state_machine_safety [OF run rtranclp.rtrancl_refl, of 0 0 1] commit
    by (simp add: PF_NO_VOTE_V_def)
  then show ?thesis using run commit by blast
qed

text \<open>
  C3: leader completeness of the programs: what a node has committed is in the log of every node
  that leads in the same or a later term, then or later.
\<close>

theorem leader_completeness:
  assumes "ustart n s" and "(ustep n)\<^sup>*\<^sup>* s s1" and "(ustep n)\<^sup>*\<^sup>* s1 s2" and "n \<le> PF_NO_VOTE_V"
    and "i < n" and "int k \<le> commit_index (u_node s1 i)"
    and "l < n" and "role (u_node s2 l) = LEADER"
    and "node_term (u_node s1 i) \<le> node_term (u_node s2 l)"
  shows "k < length (node_entries (u_node s1 i)) \<and>
    take (Suc k) (node_entries (u_node s2 l)) = take (Suc k) (node_entries (u_node s1 i))"
  using assms by (rule run_leader_completeness)

theorem leader_completeness_witness:
  "\<exists>s t. ustart 2 s \<and> (ustep 2)\<^sup>*\<^sup>* s t \<and> role (u_node t 0) = LEADER \<and>
     commit_index (u_node t 1) = 0 \<and> 0 < length (node_entries (u_node t 1)) \<and>
     take (Suc 0) (node_entries (u_node t 0)) = take (Suc 0) (node_entries (u_node t 1))"
proof -
  obtain s s1 t where "ustart 2 s" "(ustep 2)\<^sup>*\<^sup>* s s1" "(ustep 2)\<^sup>*\<^sup>* s1 t"
    and leader: "role (u_node t 0) = LEADER"
    and rest: "node_term (u_node t 0) = 1" "node_term (u_node t 1) = 1" "commit_index (u_node t 1) = 0"
    using commit_run by metis
  then have run: "ustart 2 s" "(ustep 2)\<^sup>*\<^sup>* s t" by auto
  have "0 < length (node_entries (u_node t 1)) \<and>
      take (Suc 0) (node_entries (u_node t 0)) = take (Suc 0) (node_entries (u_node t 1))"
    using leader_completeness [OF run rtranclp.rtrancl_refl, of 1 0 0] leader rest
    by (simp add: PF_NO_VOTE_V_def)
  then show ?thesis using run leader rest by blast
qed

text \<open>
  C4: log matching of the programs: two nodes whose logs have an entry of the same term at an
  index have the same entries up to it.
\<close>

theorem log_matching:
  assumes "ustart n s" and "(ustep n)\<^sup>*\<^sup>* s t" and "n \<le> PF_NO_VOTE_V" and "i < n" and "j < n"
    and "k < length (node_entries (u_node t i))" and "k < length (node_entries (u_node t j))"
    and "le_term (node_entries (u_node t i) ! k) = le_term (node_entries (u_node t j) ! k)"
  shows "take (Suc k) (node_entries (u_node t i)) = take (Suc k) (node_entries (u_node t j))"
  using assms by (rule run_log_matching)

theorem log_matching_witness:
  "\<exists>s t. ustart 2 s \<and> (ustep 2)\<^sup>*\<^sup>* s t \<and> length (node_entries (u_node t 0)) = 2 \<and>
     take (Suc 1) (node_entries (u_node t 0)) = take (Suc 1) (node_entries (u_node t 1))"
proof -
  obtain s s1 t where "ustart 2 s" "(ustep 2)\<^sup>*\<^sup>* s s1" "(ustep 2)\<^sup>*\<^sup>* s1 t"
    and logs: "node_entries (u_node t 0) = [demo_written 1, demo_written 2]"
      "node_entries (u_node t 1) = [demo_written 1, demo_written 2]"
    using commit_run by metis
  then have run: "ustart 2 s" "(ustep 2)\<^sup>*\<^sup>* s t" by auto
  have "take (Suc 1) (node_entries (u_node t 0)) = take (Suc 1) (node_entries (u_node t 1))"
    by (rule log_matching [OF run]) (simp_all add: PF_NO_VOTE_V_def logs)
  moreover have "length (node_entries (u_node t 0)) = 2" by (simp add: logs)
  ultimately show ?thesis using run by blast
qed

text \<open>
  C5: a leader of the programs only appends: a node that leads a term, and leads the same term
  later, still has at the front of its log the log it had.
\<close>

theorem leader_append_only:
  assumes "ustart n s" and "(ustep n)\<^sup>*\<^sup>* s s1" and "(ustep n)\<^sup>*\<^sup>* s1 s2" and "n \<le> PF_NO_VOTE_V"
    and "i < n" and "role (u_node s1 i) = LEADER" and "role (u_node s2 i) = LEADER"
    and "node_term (u_node s1 i) = node_term (u_node s2 i)"
  shows "prefix (node_entries (u_node s1 i)) (node_entries (u_node s2 i))"
  using assms by (rule run_append_only)

theorem leader_append_only_witness:
  "\<exists>s s1 s2. ustart 2 s \<and> (ustep 2)\<^sup>*\<^sup>* s s1 \<and> (ustep 2)\<^sup>*\<^sup>* s1 s2 \<and>
     role (u_node s1 0) = LEADER \<and> role (u_node s2 0) = LEADER \<and>
     length (node_entries (u_node s1 0)) < length (node_entries (u_node s2 0)) \<and>
     prefix (node_entries (u_node s1 0)) (node_entries (u_node s2 0))"
proof -
  obtain s s1 s2 where run: "ustart 2 s" "(ustep 2)\<^sup>*\<^sup>* s s1" "(ustep 2)\<^sup>*\<^sup>* s1 s2"
    and leader: "role (u_node s1 0) = LEADER" "role (u_node s2 0) = LEADER"
      "node_term (u_node s1 0) = 1" "node_term (u_node s2 0) = 1"
    and logs: "node_entries (u_node s1 0) = []"
      "node_entries (u_node s2 0) = [demo_written 1, demo_written 2]"
    using commit_run by metis
  have "prefix (node_entries (u_node s1 0)) (node_entries (u_node s2 0))"
    by (rule leader_append_only [OF run]) (simp_all add: PF_NO_VOTE_V_def leader)
  moreover have "length (node_entries (u_node s1 0)) < length (node_entries (u_node s2 0))"
    by (simp add: logs)
  ultimately show ?thesis using run leader by blast
qed

section \<open>What a client may rely on\<close>

text \<open>
  C6: a request that was acknowledged is never lost: when an answer that reports success is under
  way, an entry with the client and the number of the answer is committed at an index; from then on,
  through crashes and restarts, it stays there on the disks of a majority of the nodes, in the log of every leader
  of the term of the answer or a later one, and in the log of every node that has committed that far.
\<close>

theorem acknowledged_requests_survive:
  assumes "ustart n s" and "(ustep n)\<^sup>*\<^sup>* s s1" and "n \<le> PF_NO_VOTE_V"
    and "ans \<in># u_net s1" and "m_body (decode_pkt ans) = ProcRes r" and "ps_success r \<noteq> 0"
  shows "\<exists>k e. answer_for r e \<and> (\<forall>s2. (ustep n)\<^sup>*\<^sup>* s1 s2 \<longrightarrow> survives n (u_node s2) (ps_term r) k e)"
  using assms by (rule run_answer_survives)

theorem acknowledged_requests_survive_witness:
  "\<exists>s s1 s2 k e. ustart 2 s \<and> (ustep 2)\<^sup>*\<^sup>* s s1 \<and> (ustep 2)\<^sup>*\<^sup>* s1 s2 \<and> le_client_id e = 9 \<and> le_cmd_seqno e = 1 \<and>
     role (u_node s2 0) = LEADER \<and> has_entry (u_node s2 0) k e \<and> 2 < 2 * holders 2 (u_node s2) k e"
proof -
  obtain s s1 s2 ans where run: "ustart 2 s" "(ustep 2)\<^sup>*\<^sup>* s s1" "(ustep 2)\<^sup>*\<^sup>* s1 s2"
    and ans: "ans \<in># u_net s1" "decode_pkt ans = demo_yes 1"
    and lead: "role (u_node s2 0) = LEADER" "node_term (u_node s2 0) = 1"
    using answer_run by metis
  let ?r = "\<lparr>ps_client_id = 9, ps_cmd_seqno = 1, ps_success = 1, ps_leader_hint = 0, ps_term = 1\<rparr> :: proc_res_t"
  have "\<exists>k e. answer_for ?r e \<and> (\<forall>s2. (ustep 2)\<^sup>*\<^sup>* s1 s2 \<longrightarrow> survives 2 (u_node s2) (ps_term ?r) k e)"
    by (rule acknowledged_requests_survive [OF run(1,2) _ ans(1)]) (simp_all add: ans(2) demo_yes_def PF_NO_VOTE_V_def)
  then obtain k e where e: "answer_for ?r e" "survives 2 (u_node s2) 1 k e" using run(3) by auto
  then have "has_entry (u_node s2 0) k e" "2 < 2 * holders 2 (u_node s2) k e"
    using lead by (auto simp: survives_def)
  moreover have "le_client_id e = 9" "le_cmd_seqno e = 1" using e(1) by (simp_all add: answer_for_def)
  ultimately show ?thesis using run lead(1) by blast
qed

text \<open>
  C7: no entry is made up: the client, the number and the command of every entry of every log are those of a
  request that was under way at some time of the run.
\<close>

theorem entries_were_requested:
  assumes "ustart n s" and "(ustep n)\<^sup>*\<^sup>* s t" and "n \<le> PF_NO_VOTE_V" and "i < n"
    and "e \<in> set (node_entries (u_node t i))"
  shows "\<exists>u pkt. (ustep n)\<^sup>*\<^sup>* s u \<and> (ustep n)\<^sup>*\<^sup>* u t \<and> pkt \<in># u_net u \<and>
    m_body (decode_pkt pkt) = ProcReq (request_of e)"
  using entry_requested [OF assms] by (simp add: made_requests_def)

theorem entries_were_requested_witness:
  "\<exists>s t u pkt. (ustep 2)\<^sup>*\<^sup>* s u \<and> (ustep 2)\<^sup>*\<^sup>* u t \<and> node_entries (u_node t 1) = [demo_written 1, demo_written 2] \<and>
     pkt \<in># u_net u \<and> m_body (decode_pkt pkt) =
       ProcReq \<lparr>pr_client_id = 9, pr_cmd_seqno = 2, pr_cmd = 7\<rparr>"
proof -
  obtain s s1 t where "ustart 2 s" "(ustep 2)\<^sup>*\<^sup>* s s1" "(ustep 2)\<^sup>*\<^sup>* s1 t"
    and logs: "node_entries (u_node t 1) = [demo_written 1, demo_written 2]"
    using commit_run by metis
  then have run: "ustart 2 s" "(ustep 2)\<^sup>*\<^sup>* s t" by auto
  have "\<exists>u pkt. (ustep 2)\<^sup>*\<^sup>* s u \<and> (ustep 2)\<^sup>*\<^sup>* u t \<and> pkt \<in># u_net u \<and>
      m_body (decode_pkt pkt) = ProcReq (request_of (demo_written 2))"
    by (rule entries_were_requested [OF run, of 1]) (simp_all add: PF_NO_VOTE_V_def logs)
  then show ?thesis using logs by (auto simp: request_of_def demo_written_def)
qed

section \<open>The programs over sockets\<close>

text \<open>
  C8: a run of nodes and client programs over the socket transport, whose connections carry their
  bytes in order, is a run of the cluster of programs above: between the \<open>send\<close> of one program and
  the \<open>receive\<close> of another the bytes, descriptors and connections amount to packets that may be lost.
\<close>

theorem socket_cluster_refines:
  assumes "wstart n w" and "(tstep n)\<^sup>*\<^sup>* w w1" and "(tstep n)\<^sup>*\<^sup>* w1 w2"
  shows "\<exists>s s1 s2. ustart n s \<and> (ustep n)\<^sup>*\<^sup>* s s1 \<and> (ustep n)\<^sup>*\<^sup>* s1 s2 \<and>
    (\<forall>i. i < n \<longrightarrow> u_node s1 i = (w_node w1 i)\<lparr>outbox := []\<rparr> \<and>
      u_node s2 i = (w_node w2 i)\<lparr>outbox := []\<rparr>)"
  by (rule socket_runs [OF assms]) blast

theorem socket_cluster_refines_witness:
  "\<exists>w w1 s s1. wstart 2 w \<and> (tstep 2)\<^sup>*\<^sup>* w w1 \<and> ustart 2 s \<and> (ustep 2)\<^sup>*\<^sup>* s s1 \<and>
     (\<forall>i. i < 2 \<longrightarrow> u_node s1 i = (w_node w1 i)\<lparr>outbox := []\<rparr>) \<and>
     commit_index (u_node s1 0) = 0 \<and> node_entries (u_node s1 1) = [demo_written 1]"
proof -
  obtain w w1 where run: "wstart 2 w" "(tstep 2)\<^sup>*\<^sup>* w w1"
    and ends: "node_at (w_node w1 0) demo_two" "node_at (w_node w1 1) (demo_follow\<lparr>a_log := [demo_written 1]\<rparr>)"
    by (rule told_run)
  obtain s s1 s2 where u: "ustart 2 s" "(ustep 2)\<^sup>*\<^sup>* s s1" "\<forall>i. i < 2 \<longrightarrow> u_node s1 i = (w_node w1 i)\<lparr>outbox := []\<rparr>"
    using socket_cluster_refines [OF run rtranclp.rtrancl_refl] by blast
  have "u_node s1 0 = (w_node w1 0)\<lparr>outbox := []\<rparr>" "u_node s1 1 = (w_node w1 1)\<lparr>outbox := []\<rparr>" using u(3) by simp_all
  then have "commit_index (u_node s1 0) = 0" "node_entries (u_node s1 1) = [demo_written 1]"
    using node_at_fields [OF ends(1)] node_at_fields [OF ends(2)] by (simp_all add: demo_two_def)
  then show ?thesis using run u by blast
qed

text \<open>
  C9: the safety of nodes over the socket transport: leaders of the same term are the same node, and
  what two nodes have committed, at the same time or at different times, is the same up to the
  smaller of the two commit indexes.
\<close>

theorem socket_cluster_safety:
  assumes "wstart n w" and "(tstep n)\<^sup>*\<^sup>* w w1" and "(tstep n)\<^sup>*\<^sup>* w1 w2" and "n \<le> PF_NO_VOTE_V"
    and "i < n" and "j < n"
  shows "(role (w_node w1 i) = LEADER \<and> role (w_node w2 j) = LEADER \<and>
      node_term (w_node w1 i) = node_term (w_node w2 j) \<longrightarrow> i = j) \<and>
    (\<forall>k. int k \<le> commit_index (w_node w1 i) \<and> int k \<le> commit_index (w_node w2 j) \<longrightarrow>
      k < length (node_entries (w_node w1 i)) \<and> k < length (node_entries (w_node w2 j)) \<and>
      take (Suc k) (node_entries (w_node w1 i)) = take (Suc k) (node_entries (w_node w2 j)))"
proof -
  obtain s s1 s2 where run: "ustart n s" "(ustep n)\<^sup>*\<^sup>* s s1" "(ustep n)\<^sup>*\<^sup>* s1 s2"
    and node: "u_node s1 i = (w_node w1 i)\<lparr>outbox := []\<rparr>" "u_node s2 j = (w_node w2 j)\<lparr>outbox := []\<rparr>"
    using socket_runs [OF assms(1-3)] assms(5,6) by metis
  note leaders = leaders_of_a_term [OF run assms(4,5) _ assms(6)]
  note agree = run_state_machine_safety [OF run assms(4,5) _ assms(6)]
  show ?thesis using leaders agree unfolding node by simp
qed

theorem socket_cluster_safety_witness:
  "\<exists>w w1. wstart 2 w \<and> (tstep 2)\<^sup>*\<^sup>* w w1 \<and> role (w_node w1 0) = LEADER \<and> commit_index (w_node w1 0) = 0 \<and>
     0 < length (node_entries (w_node w1 0)) \<and>
     \<not> (role (w_node w1 1) = LEADER \<and> node_term (w_node w1 0) = node_term (w_node w1 1))"
proof -
  obtain w w1 where run: "wstart 2 w" "(tstep 2)\<^sup>*\<^sup>* w w1" and lead: "node_at (w_node w1 0) demo_two"
    by (rule told_run)
  have two: "(2 :: u32) \<le> PF_NO_VOTE_V" "(0 :: u32) < 2" "(1 :: u32) < 2" by (simp_all add: PF_NO_VOTE_V_def)
  have "role (w_node w1 0) = LEADER" "commit_index (w_node w1 0) = 0"
    using node_at_fields [OF lead] by (simp_all add: demo_two_def demo_lead_def)
  then show ?thesis
    using socket_cluster_safety [OF run rtranclp.rtrancl_refl two(1,2,3)]
      socket_cluster_safety [OF run rtranclp.rtrancl_refl two(1,2,2)] run by auto
qed

text \<open>
  C10: what a client program over sockets was told stays true: when a packet that reports success has been delivered
  to any program, the entry it is for is at an index of the logs of a majority of the nodes, of every leader of that
  term or a later one and of every node that has committed that far, then and at any later time.
\<close>

theorem socket_answers_survive:
  assumes "wstart n w" and "(tstep n)\<^sup>*\<^sup>* w w1" and "n \<le> PF_NO_VOTE_V" and "told w1 r" and "ps_success r \<noteq> 0"
  shows "\<exists>k e. answer_for r e \<and> (\<forall>w2. (tstep n)\<^sup>*\<^sup>* w1 w2 \<longrightarrow> survives n (w_node w2) (ps_term r) k e)"
  using assms by (rule told_answer_survives)

theorem socket_answers_survive_witness:
  "\<exists>w w1 k e. wstart 2 w \<and> (tstep 2)\<^sup>*\<^sup>* w w1 \<and>
     told w1 \<lparr>ps_client_id = 9, ps_cmd_seqno = 1, ps_success = 1, ps_leader_hint = 0, ps_term = 1\<rparr> \<and>
     le_client_id e = 9 \<and> le_cmd_seqno e = 1 \<and> has_entry (w_node w1 0) k e \<and> 2 < 2 * holders 2 (w_node w1) k e"
proof -
  let ?r = "\<lparr>ps_client_id = 9, ps_cmd_seqno = 1, ps_success = 1, ps_leader_hint = 0, ps_term = 1\<rparr> :: proc_res_t"
  obtain w w1 where run: "wstart 2 w" "(tstep 2)\<^sup>*\<^sup>* w w1" and told: "told w1 ?r" and lead: "node_at (w_node w1 0) demo_two"
    by (rule told_run)
  have "\<exists>k e. answer_for ?r e \<and> (\<forall>w2. (tstep 2)\<^sup>*\<^sup>* w1 w2 \<longrightarrow> survives 2 (w_node w2) (ps_term ?r) k e)"
    by (rule socket_answers_survive [OF run _ told]) (simp_all add: PF_NO_VOTE_V_def)
  then obtain k e where e: "answer_for ?r e" "survives 2 (w_node w1) 1 k e" by auto
  have "role (w_node w1 0) = LEADER" "node_term (w_node w1 0) = 1"
    using node_at_fields [OF lead] by (simp_all add: demo_two_def demo_lead_def)
  then have "has_entry (w_node w1 0) k e" "2 < 2 * holders 2 (w_node w1) k e" using e(2) by (auto simp: survives_def)
  moreover have "le_client_id e = 9" "le_cmd_seqno e = 1" using e(1) by (simp_all add: answer_for_def)
  ultimately show ?thesis using run told by blast
qed

text \<open>
  C11: every entry of a node over sockets was requested by a client program: a program that is not a node wrote a
  packet with its client, number and command to one of its connections.
\<close>

theorem socket_entries_requested:
  assumes "wstart n w" and "(tstep n)\<^sup>*\<^sup>* w w1" and "n \<le> PF_NO_VOTE_V" and "i < n"
    and "e \<in> set (node_entries (w_node w1 i))"
  shows "\<exists>k mem. k < length (w_socks w1) \<and> k \<notin> w_of w1 ` {..<n} \<and> mem \<in> set (sock_written (w_socks w1 ! k)) \<and>
    m_body (decode_pkt (mem_pkt mem)) = ProcReq (request_of e)"
  using socket_entry_requested [OF assms] by (simp add: client_requests_def)

theorem socket_entries_requested_witness:
  "\<exists>w w1 k mem. wstart 2 w \<and> (tstep 2)\<^sup>*\<^sup>* w w1 \<and> node_entries (w_node w1 1) = [demo_written 1] \<and>
     k \<notin> w_of w1 ` {..<(2 :: u32)} \<and> mem \<in> set (sock_written (w_socks w1 ! k)) \<and>
     m_body (decode_pkt (mem_pkt mem)) = ProcReq \<lparr>pr_client_id = 9, pr_cmd_seqno = 1, pr_cmd = 7\<rparr>"
proof -
  obtain w w1 where run: "wstart 2 w" "(tstep 2)\<^sup>*\<^sup>* w w1" and node: "node_at (w_node w1 1) (demo_follow\<lparr>a_log := [demo_written 1]\<rparr>)"
    by (rule told_run)
  have log: "node_entries (w_node w1 1) = [demo_written 1]" using node_at_fields [OF node] by simp
  have "\<exists>k mem. k < length (w_socks w1) \<and> k \<notin> w_of w1 ` {..<2} \<and> mem \<in> set (sock_written (w_socks w1 ! k)) \<and>
      m_body (decode_pkt (mem_pkt mem)) = ProcReq (request_of (demo_written 1))"
    by (rule socket_entries_requested [OF run, of 1]) (simp_all add: PF_NO_VOTE_V_def log)
  then show ?thesis using run log by (auto simp: request_of_def demo_written_def)
qed

end
